(* ===== verification/Ntfw_Prelude.thy ===== *)
theory Ntfw_Prelude
  imports Main "HOL-Library.Word" "HOL-Library.Monad_Syntax"
begin

text \<open>
  Shared vocabulary of the development: the basic integer types of \<open>common/pce.h\<close>, the
  little-endian loads the engine performs on frame memory, byte swapping and bit scanning, and
  the generic lemmas on lists, options and words that the component theories use.

  An operation of the engine whose memory access or wait can go wrong has an option type: \<open>None\<close>
  is a call that does not return normally, because it touches memory outside the object it was
  given or waits for something that no other step of a single-threaded run can provide.
\<close>

unbundle bit_operations_syntax

section \<open>Basic types (common/pce.h)\<close>

type_synonym u8 = "8 word"
type_synonym u16 = "16 word"
type_synonym u32 = "32 word"
type_synonym u64 = "64 word"

named_theorems ntfw_eval "definitions unfolded to evaluate the model on concrete inputs"

section \<open>Endianness and bit scanning\<close>

definition bswap16 :: "u16 \<Rightarrow> u16" where
  "bswap16 x = push_bit 8 x OR drop_bit 8 x"

abbreviation htons :: "u16 \<Rightarrow> u16" where "htons \<equiv> bswap16"
abbreviation ntohs :: "u16 \<Rightarrow> u16" where "ntohs \<equiv> bswap16"

text \<open>\<open>_tzcnt_u32\<close>: the number of trailing zero bits, 32 for zero.\<close>

definition tzcnt_u32 :: "u32 \<Rightarrow> nat" where
  "tzcnt_u32 x = length (takeWhile (\<lambda>i. \<not> bit x i) [0..<32])"

text \<open>\<open>_bsr\<close>: the index of the highest set bit (the intrinsic leaves zero undefined: \<open>None\<close>).\<close>

definition bsr :: "u32 \<Rightarrow> u32 option" where
  "bsr x = (if x = 0 then None
     else Some (of_nat (31 - length (takeWhile (\<lambda>i. \<not> bit x (31 - i)) [0..<32]))))"

section \<open>Frame memory\<close>

text \<open>
  A buffer is the list of its bytes. A load outside the buffer is \<open>None\<close>.
\<close>

definition rd8 :: "u8 list \<Rightarrow> nat \<Rightarrow> u8 option" where
  "rd8 m a = (if a < length m then Some (m ! a) else None)"

definition rd16 :: "u8 list \<Rightarrow> nat \<Rightarrow> u16 option" where
  "rd16 m a = do {
     lo \<leftarrow> rd8 m a;
     hi \<leftarrow> rd8 m (a + 1);
     Some (ucast lo OR push_bit 8 (ucast hi)) }"

definition rd32 :: "u8 list \<Rightarrow> nat \<Rightarrow> u32 option" where
  "rd32 m a = do {
     lo \<leftarrow> rd16 m a;
     hi \<leftarrow> rd16 m (a + 2);
     Some (ucast lo OR push_bit 16 (ucast hi)) }"

definition rd64 :: "u8 list \<Rightarrow> nat \<Rightarrow> u64 option" where
  "rd64 m a = do {
     lo \<leftarrow> rd32 m a;
     hi \<leftarrow> rd32 m (a + 4);
     Some (ucast lo OR push_bit 32 (ucast hi)) }"

definition rdbytes :: "u8 list \<Rightarrow> nat \<Rightarrow> nat \<Rightarrow> u8 list option" where
  "rdbytes m a n = (if a + n \<le> length m then Some (take n (drop a m)) else None)"

lemmas rd_defs = rd8_def rd16_def rd32_def rd64_def rdbytes_def
declare rd_defs [ntfw_eval]
declare bswap16_def [ntfw_eval]

lemma rd8_ok: "a < length m \<Longrightarrow> rd8 m a = Some (m ! a)"
  by (simp add: rd8_def)

lemma rd16_ok: "a + 1 < length m \<Longrightarrow> \<exists>x. rd16 m a = Some x"
  by (simp add: rd16_def rd8_def)

lemma rd32_ok: "a + 3 < length m \<Longrightarrow> \<exists>x. rd32 m a = Some x"
  using rd16_ok [of a m] rd16_ok [of "a + 2" m] by (force simp: rd32_def)

lemma rd64_ok: "a + 7 < length m \<Longrightarrow> \<exists>x. rd64 m a = Some x"
  using rd32_ok [of a m] rd32_ok [of "a + 4" m] by (force simp: rd64_def)

section \<open>Array cells\<close>

text \<open>An indexed read and an indexed update of a fixed-size array; \<open>None\<close> out of bounds.\<close>

definition cell :: "'a list \<Rightarrow> nat \<Rightarrow> 'a option" where
  "cell xs i = (if i < length xs then Some (xs ! i) else None)"

lemma cell_Some [simp]: "cell xs i = Some x \<longleftrightarrow> i < length xs \<and> xs ! i = x"
  by (simp add: cell_def)

lemma cell_None [simp]: "cell xs i = None \<longleftrightarrow> length xs \<le> i"
  by (simp add: cell_def)

declare cell_def [ntfw_eval]

section \<open>Generic lemmas\<close>

lemma takeWhile_upt_length:
  assumes "k < n" and "P k" and "\<And>i. i < k \<Longrightarrow> \<not> P i"
  shows "length (takeWhile (\<lambda>i. \<not> P i) [0..<n]) = k"
proof -
  have split: "[0..<n] = [0..<k] @ k # [Suc k..<n]"
    using assms(1) upt_add_eq_append [of 0 k "n - k"] by (simp add: upt_conv_Cons)
  have "takeWhile (\<lambda>i. \<not> P i) [0..<n] = [0..<k]"
    unfolding split using assms(2,3) by (subst takeWhile_append2) auto
  then show ?thesis by simp
qed

lemma takeWhile_neq_less: "a \<in> set xs \<Longrightarrow> length (takeWhile (\<lambda>x. x \<noteq> a) xs) < length xs"
  by (induction xs) auto

lemma takeWhile_upt_all:
  assumes "\<And>i. i < n \<Longrightarrow> \<not> P i"
  shows "length (takeWhile (\<lambda>i. \<not> P i) [0..<n]) = n"
  using assms by (simp add: takeWhile_eq_all_conv [THEN iffD2])

lemma tzcnt_eq: "k < 32 \<Longrightarrow> bit x k \<Longrightarrow> (\<And>i. i < k \<Longrightarrow> \<not> bit x i) \<Longrightarrow> tzcnt_u32 x = k"
  unfolding tzcnt_u32_def by (rule takeWhile_upt_length)

lemma tzcnt_0 [simp]: "tzcnt_u32 0 = 32"
  unfolding tzcnt_u32_def by (rule takeWhile_upt_all) simp

text \<open>The largest value of a 32-bit word, and the conversions between words and numbers.\<close>

lemma unat_u32_less: "unat (x :: u32) < 4294967296"
  using unsigned_less [of x] by simp

lemma unat_u16_less: "unat (x :: u16) < 65536"
  using unsigned_less [of x] by simp

lemma unat_u8_less: "unat (x :: u8) < 256"
  using unsigned_less [of x] by simp

lemma unat_u32_le: "unat (x :: u32) \<le> 4294967295"
  using unat_u32_less [of x] by simp

lemma minus_of_bool_word [simp]:
  "(- of_bool P :: 'a::len word) = (if P then - 1 else 0)"
  by simp

lemma word_and_minus1_if: "(x :: 'a::len word) AND (if P then - 1 else 0) = (if P then x else 0)"
  by simp

lemma bswap16_bswap16 [simp]: "bswap16 (bswap16 x) = x"
  unfolding bswap16_def by (rule bit_word_eqI) (auto simp: bit_simps)

lemma bswap16_eq_iff [simp]: "bswap16 x = bswap16 y \<longleftrightarrow> x = y"
  by (metis bswap16_bswap16)

lemma and_255_eq: "x AND 0xFF = take_bit 8 (x :: 'a::len word)"
  by (simp add: take_bit_eq_mask mask_eq_exp_minus_1)

lemma ucast_take_bit_8: "(ucast (take_bit 8 x) :: u8) = ucast x"
  by (rule bit_word_eqI) (simp add: bit_simps)

lemma unat_take_bit_less: "unat (take_bit n (x :: 'a::len word)) < 2 ^ n"
  by (metis take_bit_nat_less_exp unsigned_take_bit_eq)

lemma take_bit_word_self: "unat (x :: 'a::len word) < 2 ^ n \<Longrightarrow> take_bit n x = x"
  by (metis take_bit_nat_eq_self unsigned_take_bit_eq unsigned_word_eqI)

lemma unat_ucast_u16: "unat (ucast (x :: u32) :: u16) = unat x mod 65536"
  by (simp add: unsigned_ucast_eq take_bit_eq_mod)

end
