(* ===== verification/Helper.thy ===== *)
theory Helper
  imports Ntfw_Prelude
begin

text \<open>
  \<open>ntfe/helper.cpp\<close>: saturating 32-bit arithmetic and the IPv4 formatter. The bit spinlock of the
  same file is the theory \<open>Spin_Lock\<close>.
\<close>

section \<open>Saturating arithmetic\<close>

definition satsub32 :: "u32 \<Rightarrow> u32 \<Rightarrow> u32" where
  "satsub32 a b = (let r = a - b in r AND (- of_bool (r \<le> a)))"

definition satadd32 :: "u32 \<Rightarrow> u32 \<Rightarrow> u32" where
  "satadd32 a b = (let r = a + b in r OR (- of_bool (r < a)))"

definition satmul32 :: "u32 \<Rightarrow> u32 \<Rightarrow> u32" where
  "satmul32 a b =
     (let r = (ucast a :: u64) * ucast b
      in ucast r OR (- of_bool ((ucast (drop_bit 32 r) :: u32) \<noteq> 0)))"

declare satsub32_def [ntfw_eval] satadd32_def [ntfw_eval] satmul32_def [ntfw_eval]

lemma unat_satsub32 [simp]: "unat (satsub32 a b) = unat a - unat b"
proof (cases "b \<le> a")
  case True
  then have "a - b \<le> a" by (simp add: word_sub_le)
  with True show ?thesis by (simp add: satsub32_def unat_sub)
next
  case False
  then have "\<not> a - b \<le> a"
    by (simp add: word_le_nat_alt unat_sub_if_size word_size) (use unat_u32_less [of b] in linarith)
  with False show ?thesis by (simp add: satsub32_def word_le_nat_alt)
qed

lemma unat_satadd32 [simp]: "unat (satadd32 a b) = min 4294967295 (unat a + unat b)"
proof (cases "unat a + unat b < 4294967296")
  case True
  then have s: "unat (a + b) = unat a + unat b" by (simp add: unat_word_ariths)
  then have "\<not> a + b < a" by (simp add: word_less_nat_alt)
  with s True show ?thesis by (simp add: satadd32_def)
next
  case False
  then have "unat (a + b) = unat a + unat b - 4294967296"
    using unat_u32_less [of a] unat_u32_less [of b] by (simp add: unat_word_ariths mod_if)
  then have "a + b < a"
    using False unat_u32_less [of b] by (simp add: word_less_nat_alt)
  moreover have "unat (- 1 :: u32) = 4294967295" by (simp add: unsigned_minus_1_eq_mask mask_eq_exp_minus_1)
  ultimately show ?thesis using False by (simp add: satadd32_def)
qed

lemma unat_satmul32 [simp]: "unat (satmul32 a b) = min 4294967295 (unat a * unat b)"
proof -
  let ?r = "(ucast a :: u64) * ucast b"
  have lt: "unat a * unat b < 18446744073709551616"
    using mult_strict_mono [OF unat_u32_less [of a] unat_u32_less [of b]] by simp
  have r: "unat ?r = unat a * unat b"
    using lt unat_u32_less [of a] unat_u32_less [of b] by (simp add: unat_word_ariths unsigned_ucast_eq take_bit_eq_mod)
  have hi: "unat (ucast (drop_bit 32 ?r) :: u32) = unat a * unat b div 4294967296"
  proof -
    have "unat a * unat b div 4294967296 < 4294967296" using lt by simp
    then show ?thesis by (simp add: unsigned_ucast_eq take_bit_eq_mod drop_bit_eq_div unat_div_distrib r)
  qed
  have lo: "unat (ucast ?r :: u32) = unat a * unat b mod 4294967296"
    by (simp add: unsigned_ucast_eq take_bit_eq_mod r)
  show ?thesis
  proof (cases "unat a * unat b < 4294967296")
    case True
    then have "(ucast (drop_bit 32 ?r) :: u32) = 0" using hi by (simp add: unat_eq_zero [symmetric])
    with True lo show ?thesis by (simp add: satmul32_def)
  next
    case False
    then have "(ucast (drop_bit 32 ?r) :: u32) \<noteq> 0" using hi by (auto simp: div_eq_0_iff)
    moreover have "unat (- 1 :: u32) = 4294967295"
      by (simp add: unsigned_minus_1_eq_mask mask_eq_exp_minus_1)
    ultimately show ?thesis using False by (simp add: satmul32_def)
  qed
qed

section \<open>IPv4 formatting\<close>

text \<open>
  The decimal digits of one octet, as \<open>ipxs\<close> writes them (characters are bytes, \<open>'0'\<close> is 48 and
  \<open>'.'\<close> is 46).
\<close>

definition ipxs_octet :: "u8 \<Rightarrow> u8 list" where
  "ipxs_octet o0 =
     (if o0 div 100 \<noteq> 0 then
        (let o1 = o0 - (o0 div 100) * 100;
             o2 = o1 - (o1 div 10) * 10
         in [48 + o0 div 100, 48 + o1 div 10, 48 + o2])
      else if o0 div 10 \<noteq> 0 then
        (let o2 = o0 - (o0 div 10) * 10 in [48 + o0 div 10, 48 + o2])
      else [48 + o0])"

text \<open>The loop: each iteration writes an octet and a dot and shifts the address.\<close>

fun ipxs_loop :: "nat \<Rightarrow> u32 \<Rightarrow> u8 \<Rightarrow> u8 list" where
  "ipxs_loop 0 ip4 o0 = []"
| "ipxs_loop (Suc k) ip4 o0 =
     ipxs_octet o0 @ 46 # ipxs_loop k (drop_bit 8 ip4) (ucast (drop_bit 8 ip4 AND 0xFF))"

text \<open>
  The buffer contents up to and including the terminator, and the returned length. Address zero
  is written as one eight-byte store; otherwise the last dot is overwritten by the terminator.
\<close>

definition ipxs :: "u32 \<Rightarrow> u8 list \<times> u8" where
  "ipxs ip4 =
     (if ip4 = 0 then
        (map (\<lambda>i. ucast (drop_bit (8 * i) (0x00302E302E302E30 :: u64))) [0..<8], 7)
      else
        (let s = ipxs_loop 4 ip4 (ucast (ip4 AND 0xFF))
         in (butlast s @ [0], of_nat (length s - 1))))"

declare ipxs_octet_def [ntfw_eval] ipxs_def [ntfw_eval]

text \<open>The reading of a formatted address: decimal fields separated by dots, up to the terminator.\<close>

fun dotted :: "u8 list \<Rightarrow> nat \<Rightarrow> nat list" where
  "dotted [] n = [n]"
| "dotted (c # cs) n =
     (if c = 0 then [n]
      else if c = 46 then n # dotted cs 0
      else dotted cs (10 * n + (unat c - 48)))"

definition ip_octet :: "u32 \<Rightarrow> nat \<Rightarrow> u8" where
  "ip_octet ip4 i = ucast (drop_bit (8 * i) ip4)"

abbreviation dig :: "nat \<Rightarrow> u8" where "dig d \<equiv> 48 + of_nat d"

lemma unat_dig: "d < 10 \<Longrightarrow> unat (dig d) = 48 + d"
  by (simp add: unat_word_ariths unat_of_nat)

lemma dig_neq:
  assumes "d < 10"
  shows "dig d \<noteq> 0" and "dig d \<noteq> 46"
proof -
  have "unat (dig d) \<noteq> unat (0 :: u8)" and "unat (dig d) \<noteq> unat (46 :: u8)"
    using assms by (simp_all only: unat_dig) simp_all
  then show "dig d \<noteq> 0" and "dig d \<noteq> 46" by metis+
qed

lemma dotted_dig: "d < 10 \<Longrightarrow> dotted (dig d # cs) n = dotted cs (10 * n + d)"
  by (simp only: dotted.simps dig_neq if_False unat_dig) simp

lemma ipxs_octet_digits:
  "ipxs_octet o0 =
     (let n = unat o0 in
      if 100 \<le> n then [dig (n div 100), dig (n mod 100 div 10), dig (n mod 10)]
      else if 10 \<le> n then [dig (n div 10), dig (n mod 10)] else [dig n])"
proof -
  define n where "n = unat o0"
  have n: "n < 256" using unsigned_less [of o0] by (simp add: n_def)
  have o0: "o0 = of_nat n" by (simp add: n_def)
  have div_n: "(of_nat k :: u8) div 100 = of_nat (k div 100)"
      "(of_nat k :: u8) div 10 = of_nat (k div 10)" if "k < 256" for k
    using that by (simp_all add: word_unat_eq_iff unat_div_distrib unat_of_nat)
  have sub_n: "(of_nat k :: u8) - of_nat (k div m) * of_nat m = of_nat (k mod m)" for k m
    by (simp add: minus_div_mult_eq_mod [symmetric] of_nat_diff)
  have z: "(of_nat k :: u8) = 0 \<longleftrightarrow> k = 0" if "k < 256" for k
    using that by (simp add: unat_eq_zero [symmetric] unat_of_nat)
  show ?thesis
    using n sub_n [of n 100] sub_n [of n 10] sub_n [of "n mod 100" 10]
    by (simp add: ipxs_octet_def Let_def o0 div_n z unat_of_nat div_eq_0_iff mod_mod_cancel)
qed

lemma dotted_octet: "dotted (ipxs_octet o0 @ cs) 0 = dotted cs (unat o0)"
proof -
  define n where "n = unat o0"
  have "n < 256" using unsigned_less [of o0] by (simp add: n_def)
  then have d: "n div 100 < 10" "n mod 100 div 10 < 10" "n mod 10 < 10"
    by auto
  have v: "10 * (10 * (10 * 0 + n div 100) + n mod 100 div 10) + n mod 10 = n"
  proof -
    have sum: "100 * a + m = k \<Longrightarrow> 10 * b + c = m \<Longrightarrow> 10 * (10 * (10 * 0 + a) + b) + c = k"
      for a b c m k :: nat by simp
    have "n mod 100 mod 10 = n mod 10" by (simp add: mod_mod_cancel)
    then have "10 * (n mod 100 div 10) + n mod 10 = n mod 100"
      using mult_div_mod_eq [of 10 "n mod 100"] by (simp only:)
    then show ?thesis by (rule sum [OF mult_div_mod_eq])
  qed
  consider "100 \<le> n" | "\<not> 100 \<le> n" "10 \<le> n" | "\<not> 10 \<le> n" by linarith
  then show ?thesis
  proof cases
    case 1
    then show ?thesis
      by (simp only: ipxs_octet_digits Let_def n_def [symmetric] if_True append.simps
          dotted_dig [OF d(1)] dotted_dig [OF d(2)] dotted_dig [OF d(3)] v)
  next
    case 2
    then have "n div 10 < 10" by auto
    moreover have "10 * (10 * 0 + n div 10) + n mod 10 = n" by presburger
    ultimately show ?thesis using 2
      by (simp only: ipxs_octet_digits Let_def n_def [symmetric] if_True if_False append.simps
          dotted_dig [OF d(3)] dotted_dig)
  next
    case 3
    then have "\<not> 100 \<le> n" "n < 10" by auto
    with 3 show ?thesis
      by (simp only: ipxs_octet_digits Let_def n_def [symmetric] if_False append.simps dotted_dig
          mult_0_right add_0)
  qed
qed

lemma length_octet: "1 \<le> length (ipxs_octet o0)" "length (ipxs_octet o0) \<le> 3"
  by (simp_all add: ipxs_octet_def Let_def)

lemma ip_octet_step: "ip_octet (drop_bit 8 ip4) i = ip_octet ip4 (Suc i)"
  by (simp add: ip_octet_def add.commute)

lemma ip_octet_low: "ucast (ip4 AND 0xFF) = ip_octet ip4 0"
  by (simp add: ip_octet_def and_255_eq ucast_take_bit_8)

lemma dotted_loop:
  assumes "o0 = ip_octet ip4 0"
  shows "dotted (ipxs_loop (Suc k) ip4 o0 @ cs) 0
    = map (\<lambda>i. unat (ip_octet ip4 i)) [0..<Suc k] @ dotted cs 0"
  using assms
proof (induction k arbitrary: ip4 o0)
  case 0
  then show ?case by (simp add: dotted_octet)
next
  case (Suc k)
  let ?ip = "drop_bit 8 ip4"
  have "dotted (ipxs_loop (Suc (Suc k)) ip4 o0 @ cs) 0
      = unat o0 # dotted (ipxs_loop (Suc k) ?ip (ucast (?ip AND 0xFF)) @ cs) 0"
    by (subst ipxs_loop.simps) (simp add: dotted_octet del: ipxs_loop.simps)
  also have "\<dots> = unat o0 # map (\<lambda>i. unat (ip_octet ?ip i)) [0..<Suc k] @ dotted cs 0"
    by (simp only: Suc.IH [OF ip_octet_low])
  also have "\<dots> = map (\<lambda>i. unat (ip_octet ip4 i)) [0..<Suc (Suc k)] @ dotted cs 0"
    using Suc.prems by (simp add: ip_octet_step map_upt_Suc del: upt_Suc)
  finally show ?case .
qed

lemma last_loop: "k \<noteq> 0 \<Longrightarrow> last (ipxs_loop k ip4 o0) = 46"
proof (induction k arbitrary: ip4 o0)
  case (Suc k)
  show ?case
  proof (cases "k = 0")
    case False
    then have "ipxs_loop k ip o1 \<noteq> []" for ip o1 by (cases k) auto
    with False show ?thesis by (simp add: Suc.IH)
  qed simp
qed simp

lemma length_loop:
  "2 * k \<le> length (ipxs_loop k ip4 o0) \<and> length (ipxs_loop k ip4 o0) \<le> 4 * k"
proof (induction k arbitrary: ip4 o0)
  case (Suc k)
  from Suc [of "drop_bit 8 ip4" "ucast (drop_bit 8 ip4 AND 0xFF)"] length_octet [of o0]
  show ?case by simp
qed simp

lemma octet_chars: "0 \<notin> set (ipxs_octet o0)"
proof -
  define n where "n = unat o0"
  have "n < 256" using unsigned_less [of o0] by (simp add: n_def)
  then have "n div 100 < 10" "n mod 100 div 10 < 10" "n mod 10 < 10" by auto
  moreover have "n < 100 \<Longrightarrow> n div 10 < 10" by auto
  ultimately show ?thesis
    using dig_neq(1) unfolding ipxs_octet_digits Let_def n_def [symmetric]
    by auto
qed

lemma loop_chars: "0 \<notin> set (ipxs_loop k ip4 o0)"
  by (induction k arbitrary: ip4 o0) (auto simp: octet_chars)

lemma dotted_prefix: "0 \<notin> set s \<Longrightarrow> dotted (s @ 46 # cs) n = dotted (s @ [0]) n @ dotted cs 0"
  by (induction s arbitrary: n) auto

lemma ipxs_nonzero:
  assumes "ip4 \<noteq> 0"
  obtains s where "ipxs_loop 4 ip4 (ucast (ip4 AND 0xFF)) = s @ [46]"
    and "ipxs ip4 = (s @ [0], of_nat (length s))" and "7 \<le> length s" and "length s \<le> 15"
proof -
  let ?l = "ipxs_loop 4 ip4 (ucast (ip4 AND 0xFF))"
  have len: "8 \<le> length ?l" "length ?l \<le> 16" using length_loop [of 4] by auto
  then have ne: "?l \<noteq> []" by auto
  have "?l = butlast ?l @ [46]"
    using append_butlast_last_id [OF ne] last_loop [of 4] by simp
  moreover have "ipxs ip4 = (butlast ?l @ [0], of_nat (length (butlast ?l)))"
    using assms by (simp add: ipxs_def Let_def del: ipxs_loop.simps)
  moreover have "7 \<le> length (butlast ?l)" "length (butlast ?l) \<le> 15" using len by auto
  ultimately show ?thesis using that by blast
qed

lemma dotted_ipxs_nonzero:
  assumes "ip4 \<noteq> 0"
  shows "dotted (fst (ipxs ip4)) 0 = map (\<lambda>i. unat (ip_octet ip4 i)) [0..<4]"
proof -
  obtain s where s: "ipxs_loop 4 ip4 (ucast (ip4 AND 0xFF)) = s @ [46]"
      "ipxs ip4 = (s @ [0], of_nat (length s))"
    using ipxs_nonzero [OF assms] by metis
  have "0 \<notin> set s" using loop_chars [of 4 ip4 "ucast (ip4 AND 0xFF)"] s(1) by simp
  then have "dotted (s @ [0]) 0 @ [0] = dotted (s @ 46 # []) 0" by (simp add: dotted_prefix)
  also have "\<dots> = map (\<lambda>i. unat (ip_octet ip4 i)) [0..<4] @ [0]"
    using dotted_loop [OF ip_octet_low, of 3 ip4 "[]"] s(1)
    by (simp add: eval_nat_numeral del: ipxs_loop.simps)
  finally show ?thesis using s(2) by simp
qed

lemma ipxs_zero: "ipxs 0 = ([48, 46, 48, 46, 48, 46, 48, 0], 7)"
  by (simp add: ipxs_def upt_rec)

section \<open>The ring of static buffers\<close>

text \<open>\<open>ips\<close> formats into the next of four static buffers and returns a pointer to it, its index here.\<close>

record ips_state =
  ips_tmp :: "u8 list list"
  ips_idx :: u8

definition ips_init :: ips_state where
  "ips_init = \<lparr>ips_tmp = replicate 4 (replicate 32 0), ips_idx = 0\<rparr>"

definition ips :: "u32 \<Rightarrow> ips_state \<Rightarrow> nat \<times> ips_state" where
  "ips ip4 st =
     (let idx = ips_idx st AND 3;
          s = fst (ipxs ip4);
          k = unat idx
      in (k, \<lparr>ips_tmp = (ips_tmp st)[k := s @ drop (length s) (ips_tmp st ! k)], ips_idx = idx + 1\<rparr>))"

lemma unat_and_3: "unat (x AND 3) = unat x mod 4" for x :: u8
proof -
  have "x AND 3 = take_bit 2 x" by (simp add: take_bit_eq_mask mask_eq_exp_minus_1)
  then have "unat (x AND 3) = take_bit 2 (unat x)" by (simp only: unsigned_take_bit_eq)
  then show ?thesis by (simp add: take_bit_eq_mod)
qed

text \<open>The \<open>j\<close>-th of some calls writes the \<open>j\<close>-th buffer from the current one, cyclically.\<close>

lemma ips_slot:
  "fst (ips a st) = unat (ips_idx st) mod 4"
  "unat (ips_idx (snd (ips a st))) = unat (ips_idx st) mod 4 + 1"
  by (simp_all add: ips_def Let_def unat_and_3 unat_word_ariths)

lemma ips_other: "k \<noteq> unat (ips_idx st) mod 4 \<Longrightarrow> ips_tmp (snd (ips a st)) ! k = ips_tmp st ! k"
  by (simp add: ips_def Let_def unat_and_3)

text \<open>The text a call returned is still there after three more calls.\<close>

lemma ips_survives:
  assumes "length as \<le> 3"
  shows "ips_tmp (fold (\<lambda>a st. snd (ips a st)) as (snd (ips ip4 st))) ! fst (ips ip4 st) =
    ips_tmp (snd (ips ip4 st)) ! fst (ips ip4 st)"
proof -
  let ?k = "unat (ips_idx st) mod 4"
  have "ips_tmp (fold (\<lambda>a st. snd (ips a st)) as s) ! ?k = ips_tmp s ! ?k"
    if "unat (ips_idx s) mod 4 = (?k + j) mod 4" "1 \<le> j" "j + length as \<le> 4" for s j
    using that
  proof (induction as arbitrary: s j)
    case (Cons a as)
    have "1 \<le> j" "j \<le> 3" using Cons.prems by auto
    then have ne: "?k \<noteq> unat (ips_idx s) mod 4" unfolding Cons.prems(1) by presburger
    have "unat (ips_idx (snd (ips a s))) mod 4 = (?k + (j + 1)) mod 4"
      using mod_Suc_eq [of "?k + j" 4] Cons.prems(1) by (simp add: ips_slot)
    from Cons.IH [OF this] Cons.prems(3) show ?case by (simp add: ips_other [OF ne])
  qed simp
  from this [of "snd (ips ip4 st)" 1] assms show ?thesis by (simp add: ips_slot)
qed

end
