(* ===== verification/Net_Frame.thy ===== *)
theory Net_Frame
  imports Ntfw_Prelude
begin

text \<open>
  \<open>ntfe/net.h\<close> and the protocol part of \<open>ntfe/ntfeusr.h\<close>: the packed headers of a frame
  (\<open>eth_hdr\<close>, \<open>ip_hdr\<close>, \<open>udp_hdr\<close>, \<open>tcp_hdr\<close>) and of an NTFP message, as loads at their byte
  offsets. Big-endian fields are returned as the little-endian machine loads them, as in the
  code, and swapped where the code swaps them.
\<close>

section \<open>Protocol constants\<close>

definition ETH_P_IP :: u16 where "ETH_P_IP = 0x0800"
definition ETH_P_ARP :: u16 where "ETH_P_ARP = 0x0806"
definition ETH_P_IPV6 :: u16 where "ETH_P_IPV6 = 0x86DD"
definition ETH_P_IPX :: u16 where "ETH_P_IPX = 0x8137"
definition ETH_P_8021Q :: u16 where "ETH_P_8021Q = 0x8100"
definition ETH_P_PTP :: u16 where "ETH_P_PTP = 0x88F7"

definition IP_IHL_MIN :: u8 where "IP_IHL_MIN = 5"
definition IP_MF :: u16 where "IP_MF = 0x2000"
definition IP_OFFSET :: u16 where "IP_OFFSET = 0x1FFF"

definition IP_P_TCP :: u8 where "IP_P_TCP = 0x06"
definition IP_P_UDP :: u8 where "IP_P_UDP = 0x11"
definition IP_P_LDP :: u8 where "IP_P_LDP = 0x88"

definition NTFP_PORT :: u16 where "NTFP_PORT = 5662"

lemmas eth_p_defs = ETH_P_IP_def ETH_P_ARP_def ETH_P_IPV6_def ETH_P_IPX_def ETH_P_8021Q_def
  ETH_P_PTP_def
lemmas ip_const_defs = IP_IHL_MIN_def IP_MF_def IP_OFFSET_def IP_P_TCP_def IP_P_UDP_def
  IP_P_LDP_def NTFP_PORT_def
declare eth_p_defs [ntfw_eval] ip_const_defs [ntfw_eval]

section \<open>Header sizes and the offsets of a frame's parts\<close>

definition sizeof_eth_hdr :: nat where "sizeof_eth_hdr = 6 + 6 + 2"
definition sizeof_ip_hdr :: nat where "sizeof_ip_hdr = 1 + 1 + 2 + 2 + 2 + 1 + 1 + 2 + 4 + 4"
definition sizeof_udp_hdr :: nat where "sizeof_udp_hdr = 2 + 2 + 2 + 2"
definition sizeof_ntfp_hdr :: nat where "sizeof_ntfp_hdr = 8 + 64"

definition ip_at :: nat where "ip_at = sizeof_eth_hdr"
definition l4_at :: nat where "l4_at = ip_at + sizeof_ip_hdr"
definition msg_at :: nat where "msg_at = l4_at + sizeof_udp_hdr"

lemmas size_defs = sizeof_eth_hdr_def sizeof_ip_hdr_def sizeof_udp_hdr_def sizeof_ntfp_hdr_def
  ip_at_def l4_at_def msg_at_def
declare size_defs [ntfw_eval]

section \<open>Frame fields\<close>

definition eth_proto :: "u8 list \<Rightarrow> u16 option" where
  "eth_proto f = rd16 f 12"

definition ip_ihl :: "u8 list \<Rightarrow> u8 option" where
  "ip_ihl f = do { b \<leftarrow> rd8 f ip_at; Some (b AND 0x0F) }"

definition ip_len :: "u8 list \<Rightarrow> u16 option" where
  "ip_len f = rd16 f (ip_at + 2)"

definition ip_frag_off :: "u8 list \<Rightarrow> u16 option" where
  "ip_frag_off f = rd16 f (ip_at + 6)"

definition ip_proto :: "u8 list \<Rightarrow> u8 option" where
  "ip_proto f = rd8 f (ip_at + 9)"

definition ip_saddr :: "u8 list \<Rightarrow> u32 option" where
  "ip_saddr f = rd32 f (ip_at + 12)"

definition ip_daddr :: "u8 list \<Rightarrow> u32 option" where
  "ip_daddr f = rd32 f (ip_at + 16)"

definition l4_dport :: "u8 list \<Rightarrow> u16 option" where
  "l4_dport f = rd16 f (l4_at + 2)"

definition udp_len :: "u8 list \<Rightarrow> u16 option" where
  "udp_len f = rd16 f (l4_at + 4)"

section \<open>NTFP message fields\<close>

text \<open>
  \<open>ntfp_msg\<close>: the header (\<open>magic\<close>, \<open>signature\<close>), then the payload, which starts with
  \<open>timestamp\<close>, six reserved bytes and \<open>len\<close>; the \<open>auth\<close> body repeats the header before its
  address.
\<close>

definition msg_magic :: "u8 list \<Rightarrow> u64 option" where
  "msg_magic f = rd64 f msg_at"

definition msg_signature :: "u8 list \<Rightarrow> u8 list option" where
  "msg_signature f = rdbytes f (msg_at + 8) 64"

definition msg_timestamp :: "u8 list \<Rightarrow> u64 option" where
  "msg_timestamp f = rd64 f (msg_at + sizeof_ntfp_hdr)"

definition msg_len :: "u8 list \<Rightarrow> u16 option" where
  "msg_len f = rd16 f (msg_at + sizeof_ntfp_hdr + 8 + 6)"

definition msg_payload :: "u8 list \<Rightarrow> nat \<Rightarrow> u8 list option" where
  "msg_payload f n = rdbytes f (msg_at + sizeof_ntfp_hdr) n"

definition msg_auth_addr :: "u8 list \<Rightarrow> u32 option" where
  "msg_auth_addr f = rd32 f (msg_at + sizeof_ntfp_hdr + 8 + 6 + 2 + sizeof_ntfp_hdr)"

lemmas field_defs = eth_proto_def ip_ihl_def ip_len_def ip_frag_off_def ip_proto_def ip_saddr_def
  ip_daddr_def l4_dport_def udp_len_def
lemmas msg_defs = msg_magic_def msg_signature_def msg_timestamp_def msg_len_def msg_payload_def
  msg_auth_addr_def
declare field_defs [ntfw_eval] msg_defs [ntfw_eval]

section \<open>Which loads a buffer admits\<close>

lemma frame_fields_ok:
  assumes "42 \<le> length f"
  shows "\<exists>x. eth_proto f = Some x" "\<exists>x. ip_ihl f = Some x" "\<exists>x. ip_len f = Some x"
    "\<exists>x. ip_frag_off f = Some x" "\<exists>x. ip_proto f = Some x" "\<exists>x. ip_saddr f = Some x"
    "\<exists>x. ip_daddr f = Some x" "\<exists>x. l4_dport f = Some x" "\<exists>x. udp_len f = Some x"
  using assms by (auto simp: field_defs size_defs rd8_ok intro!: rd16_ok rd32_ok)

lemma msg_magic_ok: "50 \<le> length f \<Longrightarrow> \<exists>x. msg_magic f = Some x"
  by (auto simp: msg_magic_def size_defs intro!: rd64_ok)

text \<open>Beyond the first 64 bytes of a frame, the message's timestamp and signature cannot be read.\<close>

lemma msg_timestamp_overrun: "length f \<le> 114 \<Longrightarrow> msg_timestamp f = None"
  by (simp add: msg_timestamp_def size_defs rd_defs)

lemma msg_len_overrun: "length f \<le> 128 \<Longrightarrow> msg_len f = None"
  by (simp add: msg_len_def size_defs rd_defs)

end
