(* ===== verification/Interfaces.thy ===== *)
theory Interfaces
  imports Ntfw_Prelude
begin

text \<open>
  The interfaces between components, as locales: the operations a client calls and the laws it
  relies on. Each is interpreted, in the theory of the component that provides it, on the model's
  own definitions.
\<close>

section \<open>A store loaded entry by entry\<close>

text \<open>
  The configuration loader inserts entries one after the other and stops at the first failure.
  What it relies on: a successful insertion makes the entry's key found with the entry's value,
  and changes no other lookup of a legal key.
\<close>

fun fold_opt :: "('t \<Rightarrow> 'e \<Rightarrow> 't option) \<Rightarrow> 't \<Rightarrow> 'e list \<Rightarrow> 't option" where
  "fold_opt ins t [] = Some t"
| "fold_opt ins t (e # es) = Option.bind (ins t e) (\<lambda>t'. fold_opt ins t' es)"

locale keyed_store =
  fixes ins :: "'t \<Rightarrow> 'e \<Rightarrow> 't option"
    and find :: "'t \<Rightarrow> 'k \<Rightarrow> 'v option"
    and key :: "'e \<Rightarrow> 'k"
    and val :: "'e \<Rightarrow> 'v"
    and legal :: "'k \<Rightarrow> bool"
  assumes key_legal: "legal (key e)"
    and find_key: "ins t e = Some t' \<Longrightarrow> find t' (key e) = Some (val e)"
    and ins_fresh: "ins t e = Some t' \<Longrightarrow> find t (key e) = None"
    and find_other: "ins t e = Some t' \<Longrightarrow> legal k \<Longrightarrow> k \<noteq> key e \<Longrightarrow> find t' k = find t k"
begin

lemma find_ins:
  "ins t e = Some t' \<Longrightarrow> legal k \<Longrightarrow>
    find t' k = (if k = key e then Some (val e) else find t k)"
  by (simp add: find_key find_other)

lemma load_keeps: "fold_opt ins t es = Some t' \<Longrightarrow> legal k \<Longrightarrow> find t k = Some v \<Longrightarrow> find t' k = Some v"
proof (induction es arbitrary: t)
  case (Cons e es)
  from Cons.prems(1) obtain u where u: "ins t e = Some u" "fold_opt ins u es = Some t'"
    by (auto simp: bind_eq_Some_conv)
  have "k \<noteq> key e" using ins_fresh [OF u(1)] Cons.prems(3) by auto
  then have "find u k = Some v" using find_other [OF u(1) Cons.prems(2)] Cons.prems(3) by simp
  then show ?case by (rule Cons.IH [OF u(2) Cons.prems(2)])
qed simp

lemma load_finds_all: "fold_opt ins t es = Some t' \<Longrightarrow> e \<in> set es \<Longrightarrow> find t' (key e) = Some (val e)"
proof (induction es arbitrary: t)
  case (Cons x es)
  from Cons.prems(1) obtain u where u: "ins t x = Some u" "fold_opt ins u es = Some t'"
    by (auto simp: bind_eq_Some_conv)
  show ?case
  proof (cases "e = x")
    case True
    with u show ?thesis using find_key [OF u(1)] key_legal load_keeps by blast
  next
    case False
    with Cons.prems(2) show ?thesis by (auto intro: Cons.IH [OF u(2)])
  qed
qed simp

lemma load_finds_only:
  "fold_opt ins t es = Some t' \<Longrightarrow> legal k \<Longrightarrow> k \<notin> key ` set es \<Longrightarrow> find t' k = find t k"
proof (induction es arbitrary: t)
  case (Cons e es)
  from Cons.prems(1) obtain u where u: "ins t e = Some u" "fold_opt ins u es = Some t'"
    by (auto simp: bind_eq_Some_conv)
  have "find t' k = find u k" using Cons.prems by (intro Cons.IH [OF u(2)]) auto
  also have "\<dots> = find t k" using Cons.prems by (intro find_other [OF u(1)]) auto
  finally show ?case .
qed simp

text \<open>A complete load makes the keys of the loaded entries distinct.\<close>

lemma load_keys_distinct: "fold_opt ins t es = Some t' \<Longrightarrow> distinct (map key es)"
proof (induction es arbitrary: t)
  case (Cons e es)
  from Cons.prems obtain u where u: "ins t e = Some u" "fold_opt ins u es = Some t'"
    by (auto simp: bind_eq_Some_conv)
  have fresh_later: "fold_opt ins v xs = Some t' \<Longrightarrow> find v (key e) = Some w \<Longrightarrow> key e \<notin> key ` set xs"
    for v xs w
  proof (induction xs arbitrary: v)
    case (Cons x xs)
    then obtain v' where v': "ins v x = Some v'" "fold_opt ins v' xs = Some t'"
      by (auto simp: bind_eq_Some_conv)
    have ne: "key e \<noteq> key x" using ins_fresh [OF v'(1)] Cons.prems(2) by auto
    then have "find v' (key e) = Some w" using find_other [OF v'(1) key_legal ne] Cons.prems(2) by simp
    with Cons.IH [OF v'(2)] ne show ?case by simp
  qed simp
  from fresh_later [OF u(2) find_key [OF u(1)]] Cons.IH [OF u(2)] show ?case by simp
qed simp

end

section \<open>A rate limiter\<close>

text \<open>
  Policing charges a meter for each packet. What the policy relies on: a passed charge is paid
  from the meter's credit, credit grows at most by \<open>rate\<close> per time unit, and it stays below the
  capacity. \<open>span\<close> bounds the time between two charges, because the meter's clock wraps.
\<close>

fun accepted :: "('b \<Rightarrow> nat \<Rightarrow> 'c \<Rightarrow> bool \<times> 'b) \<Rightarrow> ('c \<Rightarrow> nat) \<Rightarrow> 'b \<Rightarrow> (nat \<times> 'c) list \<Rightarrow> nat" where
  "accepted charge amount b [] = 0"
| "accepted charge amount b ((t, c) # xs) =
     (case charge b t c of (pass, b') \<Rightarrow> (if pass then amount c else 0) + accepted charge amount b' xs)"

fun timely :: "nat \<Rightarrow> nat \<Rightarrow> (nat \<times> 'c) list \<Rightarrow> bool" where
  "timely span t0 [] = True"
| "timely span t0 ((t, c) # xs) = (t0 \<le> t \<and> t < t0 + span \<and> timely span t xs)"

fun last_time :: "nat \<Rightarrow> (nat \<times> 'c) list \<Rightarrow> nat" where
  "last_time t0 [] = t0"
| "last_time t0 ((t, c) # xs) = last_time t xs"

lemma timely_last: "timely span t0 xs \<Longrightarrow> t0 \<le> last_time t0 xs"
  by (induction t0 xs rule: last_time.induct) auto

fun backsteps :: "nat \<Rightarrow> (nat \<times> 'c) list \<Rightarrow> nat" where
  "backsteps t0 [] = 0"
| "backsteps t0 ((t, c) # xs) = (if t < t0 then 1 else 0) + backsteps t xs"

locale rate_limiter =
  fixes charge :: "'b \<Rightarrow> nat \<Rightarrow> 'c \<Rightarrow> bool \<times> 'b"
    and amount :: "'c \<Rightarrow> nat"
    and credit :: "'b \<Rightarrow> nat"
    and at :: "'b \<Rightarrow> nat \<Rightarrow> bool"
    and grow :: nat
    and cap :: nat
    and span :: nat
  assumes charge_at: "charge b t c = (pass, b') \<Longrightarrow> at b' t"
    and charge_credit:
      "at b t0 \<Longrightarrow> t0 \<le> t \<Longrightarrow> t < t0 + span \<Longrightarrow> charge b t c = (pass, b') \<Longrightarrow>
        credit b' + (if pass then amount c else 0) \<le> credit b + grow * (t - t0)"
    and charge_cap: "credit b \<le> cap \<Longrightarrow> charge b t c = (pass, b') \<Longrightarrow>
        credit b' + (if pass then amount c else 0) \<le> cap"
begin

lemma accepted_credit:
  "at b t0 \<Longrightarrow> timely span t0 xs \<Longrightarrow>
    accepted charge amount b xs \<le> credit b + grow * (last_time t0 xs - t0)"
proof (induction xs arbitrary: b t0)
  case (Cons x xs)
  obtain t c where x: "x = (t, c)" by (cases x)
  obtain pass b' where ch: "charge b t c = (pass, b')" by (cases "charge b t c")
  have t: "t0 \<le> t" "t < t0 + span" "timely span t xs" using Cons.prems(2) x by auto
  have paid: "credit b' + (if pass then amount c else 0) \<le> credit b + grow * (t - t0)"
    by (rule charge_credit [OF Cons.prems(1) t(1,2) ch])
  have rest: "accepted charge amount b' xs \<le> credit b' + grow * (last_time t xs - t)"
    by (rule Cons.IH [OF charge_at [OF ch] t(3)])
  have "last_time t xs - t + (t - t0) = last_time t xs - t0" using timely_last [OF t(3)] t(1) by simp
  then have "grow * (last_time t xs - t) + grow * (t - t0) = grow * (last_time t xs - t0)"
    by (metis distrib_left)
  with paid rest show ?case by (simp add: x ch)
qed simp

lemma accepted_bound:
  "at b t0 \<Longrightarrow> credit b \<le> cap \<Longrightarrow> timely span t0 xs \<Longrightarrow>
    accepted charge amount b xs \<le> cap + grow * (last_time t0 xs - t0)"
  using accepted_credit by fastforce

text \<open>
  With times that may step backwards, each such step costs at most one more capacity and the growth
  over the whole interval.
\<close>

lemma accepted_backsteps:
  assumes "hi < lo + span"
  shows "at b t0 \<Longrightarrow> credit b \<le> cap \<Longrightarrow> lo \<le> t0 \<Longrightarrow> t0 \<le> hi \<Longrightarrow> \<forall>x\<in>set xs. lo \<le> fst x \<and> fst x \<le> hi \<Longrightarrow>
    accepted charge amount b xs \<le> credit b + grow * (hi - t0) + backsteps t0 xs * (cap + grow * (hi - lo))"
proof (induction xs arbitrary: b t0)
  case (Cons x xs)
  obtain t c where x: "x = (t, c)" by (cases x)
  obtain pass b' where ch: "charge b t c = (pass, b')" by (cases "charge b t c")
  let ?K = "cap + grow * (hi - lo)" and ?a = "if pass then amount c else 0"
  have t: "lo \<le> t" "t \<le> hi" using Cons.prems(5) x by auto
  have cap: "credit b' + ?a \<le> cap" by (rule charge_cap [OF Cons.prems(2) ch])
  then have IH: "accepted charge amount b' xs \<le> credit b' + grow * (hi - t) + backsteps t xs * ?K"
    using Cons.prems(5) t by (intro Cons.IH [OF charge_at [OF ch]]) auto
  have acc: "accepted charge amount b (x # xs) = ?a + accepted charge amount b' xs" by (simp add: x ch)
  show ?case
  proof (cases "t < t0")
    case True
    then have bs: "backsteps t0 (x # xs) * ?K = ?K + backsteps t xs * ?K" by (simp add: x)
    have "grow * (hi - t) \<le> grow * (hi - lo)" using t(1) by (intro mult_left_mono) simp_all
    then show ?thesis using cap IH unfolding acc bs by linarith
  next
    case False
    then have bs: "backsteps t0 (x # xs) * ?K = backsteps t xs * ?K" by (simp add: x)
    have "credit b' + ?a \<le> credit b + grow * (t - t0)"
      using False t Cons.prems(3) assms by (intro charge_credit [OF Cons.prems(1) _ _ ch]) simp_all
    moreover have "grow * (hi - t) + grow * (t - t0) = grow * (hi - t0)"
      using False t(2) by (simp flip: distrib_left)
    ultimately show ?thesis using IH unfolding acc bs by linarith
  qed
qed simp

end

section \<open>A table of hosts with priorities\<close>

text \<open>
  The engine enters hosts with a priority and asks for a host's priority. What it relies on: a
  successful entry leaves the host with at least the requested priority, a failed one changes
  nothing, and an entry costs another host its place only when that host has the lowest priority.
\<close>

locale host_map =
  fixes enter :: "'s \<Rightarrow> 'a \<Rightarrow> 'p::linorder \<Rightarrow> (bool \<times> 's) option"
    and pri_of :: "'s \<Rightarrow> 'a \<Rightarrow> 'p option"
    and low :: 'p
    and inv :: "'s \<Rightarrow> bool"
    and legal :: "'a \<Rightarrow> 'p \<Rightarrow> bool"
  assumes low_least: "low \<le> p"
    and enter_inv: "inv s \<Longrightarrow> legal a p \<Longrightarrow> enter s a p = Some (ok, s') \<Longrightarrow> inv s'"
    and enter_self: "inv s \<Longrightarrow> legal a p \<Longrightarrow> enter s a p = Some (True, s') \<Longrightarrow>
      pri_of s' a = Some (case pri_of s a of None \<Rightarrow> p | Some q \<Rightarrow> max q p)"
    and enter_fail: "inv s \<Longrightarrow> legal a p \<Longrightarrow> enter s a p = Some (False, s') \<Longrightarrow> legal b q \<Longrightarrow>
      pri_of s' b = pri_of s b"
    and enter_other: "inv s \<Longrightarrow> legal a p \<Longrightarrow> enter s a p = Some (ok, s') \<Longrightarrow> legal b q \<Longrightarrow> b \<noteq> a \<Longrightarrow>
      pri_of s' b = pri_of s b \<or> pri_of s b = Some low \<and> pri_of s' b = None"
begin

definition entries :: "'s \<Rightarrow> ('a \<times> 'p) list \<Rightarrow> 's option" where
  "entries = fold_opt (\<lambda>s (a, p). map_option snd (enter s a p))"

lemma entries_Nil [simp]: "entries s [] = Some s"
  by (simp add: entries_def)

lemma entries_ConsD:
  assumes "entries s ((a, p) # es) = Some s'"
  obtains ok u where "enter s a p = Some (ok, u)" "entries u es = Some s'"
  using assms by (auto simp: entries_def bind_eq_Some_conv)

lemma enter_keeps:
  assumes "inv s" "legal a p" "enter s a p = Some (ok, u)" "legal b r" "pri_of s b = Some q" "low < q"
  shows "\<exists>q'. pri_of u b = Some q' \<and> q \<le> q'"
proof (cases "b = a")
  case True
  show ?thesis
  proof (cases ok)
    case True
    with enter_self [of s a p u] assms \<open>b = a\<close> show ?thesis by simp
  next
    case False
    with enter_fail [of s a p u b r] assms show ?thesis by simp
  qed
qed (use enter_other [OF assms(1-4)] assms(5,6) in auto)

text \<open>An authorised host keeps its authorisation, whatever is entered after it.\<close>

lemma authorised_kept:
  "inv s \<Longrightarrow> entries s es = Some s' \<Longrightarrow> (\<And>a p. (a, p) \<in> set es \<Longrightarrow> legal a p) \<Longrightarrow>
    legal b r \<Longrightarrow> pri_of s b = Some q \<Longrightarrow> low < q \<Longrightarrow> \<exists>q'. pri_of s' b = Some q' \<and> q \<le> q'"
proof (induction es arbitrary: s q)
  case (Cons e es)
  obtain a p where e: "e = (a, p)" by (cases e)
  obtain ok u where u: "enter s a p = Some (ok, u)" "entries u es = Some s'"
    using Cons.prems(2) unfolding e by (rule entries_ConsD)
  have leg: "legal a p" using Cons.prems(3) e by simp
  obtain q1 where q1: "pri_of u b = Some q1" "q \<le> q1"
    using enter_keeps [OF Cons.prems(1) leg u(1) Cons.prems(4-6)] by auto
  have "\<exists>q'. pri_of s' b = Some q' \<and> q1 \<le> q'"
  proof (rule Cons.IH [OF enter_inv [OF Cons.prems(1) leg u(1)] u(2) _ Cons.prems(4) q1(1)])
    show "legal a' p'" if "(a', p') \<in> set es" for a' p' using Cons.prems(3) that by simp
    show "low < q1" using Cons.prems(6) q1(2) by simp
  qed
  with q1(2) show ?case by force
qed simp

text \<open>And nobody is authorised who did not ask for it.\<close>

lemma authorised_source:
  "inv s \<Longrightarrow> entries s es = Some s' \<Longrightarrow> (\<And>a p. (a, p) \<in> set es \<Longrightarrow> legal a p) \<Longrightarrow>
    legal b r \<Longrightarrow> pri_of s' b = Some q \<Longrightarrow> low < q \<Longrightarrow> pri_of s b = Some q \<or> (b, q) \<in> set es"
proof (induction es arbitrary: s)
  case (Cons e es)
  obtain a p where e: "e = (a, p)" by (cases e)
  obtain ok u where u: "enter s a p = Some (ok, u)" "entries u es = Some s'"
    using Cons.prems(2) unfolding e by (rule entries_ConsD)
  have leg: "legal a p" using Cons.prems(3) e by simp
  have "pri_of u b = Some q \<or> (b, q) \<in> set es"
    by (rule Cons.IH [OF enter_inv [OF Cons.prems(1) leg u(1)] u(2) _ Cons.prems(4-6)])
      (use Cons.prems(3) in auto)
  then show ?case
  proof
    assume uq: "pri_of u b = Some q"
    show ?thesis
    proof (cases "b = a")
      case False
      then show ?thesis using enter_other [OF Cons.prems(1) leg u(1) Cons.prems(4)] uq by auto
    next
      case True
      show ?thesis
      proof (cases ok)
        case False
        then show ?thesis using enter_fail [of s a p u b r] Cons.prems(1,4) leg u(1) uq by simp
      next
        assume ok
        then have "pri_of u a = Some (case pri_of s a of None \<Rightarrow> p | Some q' \<Rightarrow> max q' p)"
          using enter_self [of s a p u] Cons.prems(1) leg u(1) by simp
        with uq True show ?thesis
          by (auto simp: e max_def split: option.splits if_splits)
      qed
    qed
  qed (simp add: e)
qed simp

end

end
