(* ===== verification/Flow_Rules.thy ===== *)
theory Flow_Rules
  imports Net_Frame Interfaces
begin

text \<open>
  Flow signatures, their hash and the rule table: \<open>ntfe/ntfeusr.cpp\<close>, the signature encoding of
  \<open>ntfe/ntfeusr.h\<close>, and \<open>hash_flowsig\<close>, \<open>rule_lookup\<close>, \<open>rule_insert\<close> of \<open>ntfe/ntfe.cpp\<close>.
  The table is the array \<open>rules\<close>; an index outside it is \<open>None\<close>.
\<close>

section \<open>Flow signatures\<close>

text \<open>\<open>union ntfe_flowsig\<close>: \<open>ether\<close> in bits 0--7, \<open>proto\<close> in 8--15, \<open>dport\<close> in 16--31.\<close>

definition mk_flowsig :: "u8 \<Rightarrow> u8 \<Rightarrow> u16 \<Rightarrow> u32" where
  "mk_flowsig ether proto dport =
     ucast ether OR push_bit 8 (ucast proto) OR push_bit 16 (ucast dport)"

definition ETHER_LE16_TO_FS :: "u16 \<Rightarrow> u8" where
  "ETHER_LE16_TO_FS e = ucast (drop_bit 7 (htons e) OR 0x80)"

definition ETHER_BE16_TO_FS :: "u16 \<Rightarrow> u8" where
  "ETHER_BE16_TO_FS e = ucast (drop_bit 7 e OR 0x80)"

definition rotl32 :: "u32 \<Rightarrow> nat \<Rightarrow> u32" where
  "rotl32 x k = push_bit k x OR drop_bit (32 - k) x"

definition rule_hashfn :: "u32 \<Rightarrow> u32 \<Rightarrow> u16" where
  "rule_hashfn fs seed =
     (let a = rotl32 ((seed + 0x165667B5) - fs * 0x3D4D51C3) 17 * 0x27D4EB2F;
          b = (a XOR drop_bit 15 a) * 0x85EBCA77;
          c = (b XOR drop_bit 13 b) * 0xC2B2AE3D
      in ucast (c XOR drop_bit 16 c))"

definition ntfe_rule_hashfn :: "u32 \<Rightarrow> u16 \<Rightarrow> u16 \<Rightarrow> u8 \<Rightarrow> u16" where
  "ntfe_rule_hashfn seed ethertype port proto =
     rule_hashfn (mk_flowsig (ETHER_LE16_TO_FS ethertype) proto (htons port)) seed"

declare mk_flowsig_def [ntfw_eval] ETHER_LE16_TO_FS_def [ntfw_eval]
  ETHER_BE16_TO_FS_def [ntfw_eval] rotl32_def [ntfw_eval] rule_hashfn_def [ntfw_eval]
  ntfe_rule_hashfn_def [ntfw_eval]

section \<open>Rules\<close>

text \<open>\<open>ntfe_rule\<close>, the rule of a configuration image (its reserved bytes are never read).\<close>

record cfg_rule =
  cr_ether :: u16
  cr_dport :: u16
  cr_byte_scale :: u16
  cr_packet_scale :: u16
  cr_syn_scale :: u16
  cr_proto :: u8
  cr_byte_tb :: u8
  cr_packet_tb :: u8
  cr_syn_tb :: u8

text \<open>\<open>struct rule\<close> of the engine. The three bucket numbers are three-bit fields.\<close>

record rule =
  fsig :: u32
  in_byte_scale :: u16
  in_packet_scale :: u16
  in_syn_scale :: u16
  in_byte_tb :: "3 word"
  in_packet_tb :: "3 word"
  in_syn_tb :: "3 word"

definition zero_rule :: rule where
  "zero_rule = \<lparr>fsig = 0, in_byte_scale = 0, in_packet_scale = 0, in_syn_scale = 0,
     in_byte_tb = 0, in_packet_tb = 0, in_syn_tb = 0\<rparr>"

definition MAX_RULES :: nat where "MAX_RULES = 128"

definition cfg_sig :: "cfg_rule \<Rightarrow> u32" where
  "cfg_sig rl = mk_flowsig (ETHER_LE16_TO_FS (cr_ether rl)) (cr_proto rl) (htons (cr_dport rl))"

definition rule_of_cfg :: "cfg_rule \<Rightarrow> rule" where
  "rule_of_cfg rl = \<lparr>fsig = cfg_sig rl,
     in_byte_scale = cr_byte_scale rl, in_packet_scale = cr_packet_scale rl,
     in_syn_scale = cr_syn_scale rl,
     in_byte_tb = ucast (cr_byte_tb rl), in_packet_tb = ucast (cr_packet_tb rl),
     in_syn_tb = ucast (cr_syn_tb rl)\<rparr>"

declare zero_rule_def [ntfw_eval] MAX_RULES_def [ntfw_eval] cfg_sig_def [ntfw_eval]
  rule_of_cfg_def [ntfw_eval]

section \<open>The table\<close>

text \<open>
  \<open>(1 << hashsz) - 1\<close> on a 32-bit \<open>int\<close>. The shift count is reduced modulo 32, as the processor
  does; the difference wraps for a count of 31.
\<close>

definition hash_mask :: "u8 \<Rightarrow> u32" where
  "hash_mask hashsz = push_bit (unat hashsz mod 32) 1 - 1"

definition hash_flowsig :: "u32 \<Rightarrow> u8 \<Rightarrow> u32 \<Rightarrow> u16" where
  "hash_flowsig seed hashsz fs = ucast (ucast (rule_hashfn fs seed) AND hash_mask hashsz)"

text \<open>\<open>rule_lookup\<close>: outer \<open>None\<close> is an access outside the table, inner \<open>None\<close> is NULL.\<close>

definition rule_lookup :: "rule list \<Rightarrow> u32 \<Rightarrow> u8 \<Rightarrow> u32 \<Rightarrow> rule option option" where
  "rule_lookup rules seed hashsz fs = do {
     rl \<leftarrow> cell rules (unat (hash_flowsig seed hashsz fs));
     Some (if fsig rl = fs then Some rl else None) }"

definition rule_slot :: "cfg_rule \<Rightarrow> u32 \<Rightarrow> u8 \<Rightarrow> nat" where
  "rule_slot rl seed hashsz =
     unat ((ucast (ntfe_rule_hashfn seed (cr_ether rl) (cr_dport rl) (cr_proto rl)) :: u32)
           AND hash_mask hashsz)"

definition rule_insert ::
    "rule list \<Rightarrow> cfg_rule \<Rightarrow> u32 \<Rightarrow> u8 \<Rightarrow> bool \<Rightarrow> (bool \<times> rule list) option" where
  "rule_insert rules rl seed hashsz test = do {
     rdst \<leftarrow> cell rules (rule_slot rl seed hashsz);
     if fsig rdst \<noteq> 0 then Some (False, rules)
     else if test then Some (True, rules)
     else Some (True, rules[rule_slot rl seed hashsz := rule_of_cfg rl]) }"

declare hash_mask_def [ntfw_eval] hash_flowsig_def [ntfw_eval] rule_lookup_def [ntfw_eval]
  rule_slot_def [ntfw_eval] rule_insert_def [ntfw_eval]

section \<open>Signatures are never zero\<close>

lemma bit_mk_flowsig:
  "bit (mk_flowsig e p d) n \<longleftrightarrow>
     (n < 8 \<and> bit e n) \<or> (8 \<le> n \<and> n < 16 \<and> bit p (n - 8)) \<or> (16 \<le> n \<and> n < 32 \<and> bit d (n - 16))"
  by (auto simp: mk_flowsig_def bit_simps dest: bit_imp_le_length)

lemma bit_ether_fs: "bit (ETHER_LE16_TO_FS e) 7" "bit (ETHER_BE16_TO_FS e) 7"
  by (simp_all add: ETHER_LE16_TO_FS_def ETHER_BE16_TO_FS_def bit_simps)

lemma cfg_sig_bit7: "bit (cfg_sig rl) 7"
  by (simp add: cfg_sig_def bit_mk_flowsig bit_ether_fs)

lemma cfg_sig_nonzero [simp]: "cfg_sig rl \<noteq> 0"
  using cfg_sig_bit7 [of rl] by auto

lemma fsig_rule_of_cfg [simp]: "fsig (rule_of_cfg rl) = cfg_sig rl"
  by (simp add: rule_of_cfg_def)

lemma fsig_zero_rule [simp]: "fsig zero_rule = 0"
  by (simp add: zero_rule_def)

section \<open>Lookup and insertion use the same slot\<close>

lemma rule_slot_eq: "rule_slot rl seed hashsz = unat (hash_flowsig seed hashsz (cfg_sig rl))"
proof -
  have "unat ((ucast h :: u32) AND m) = unat (ucast ((ucast h :: u32) AND m) :: u16)" for h :: u16 and m
  proof -
    define y where "y = (ucast ((ucast h :: u32) AND m) :: u16)"
    have "(ucast h :: u32) AND m = ucast y"
      unfolding y_def by (rule bit_word_eqI) (auto simp: bit_simps dest: bit_imp_le_length)
    moreover have "unat (ucast y :: u32) = unat y"
      using unat_u16_less [of y] by (simp add: unsigned_ucast_eq take_bit_nat_eq_self_iff)
    ultimately show ?thesis by (simp add: y_def)
  qed
  then show ?thesis
    by (simp add: rule_slot_def hash_flowsig_def ntfe_rule_hashfn_def cfg_sig_def)
qed

definition hash_size :: "u8 \<Rightarrow> nat" where
  "hash_size hashsz = 2 ^ (unat hashsz mod 32)"

lemma hash_mask_mask: "hash_mask hashsz = mask (unat hashsz mod 32)"
  by (simp add: hash_mask_def mask_eq_exp_minus_1 push_bit_of_1)

lemma hash_flowsig_less: "unat (hash_flowsig seed hashsz fs) < hash_size hashsz"
proof -
  let ?h = "(ucast (rule_hashfn fs seed) :: u32) AND hash_mask hashsz"
  have "unat ?h < hash_size hashsz"
    by (simp add: hash_mask_mask hash_size_def unat_take_bit_less flip: take_bit_eq_mask)
  moreover have "unat (ucast ?h :: u16) \<le> unat ?h"
    by (simp add: unsigned_ucast_eq)
  ultimately show ?thesis by (simp add: hash_flowsig_def)
qed

section \<open>The table as a keyed store\<close>

text \<open>The loader's view of one insertion, and the lookup of a signature the engine can produce.\<close>

definition rule_ins :: "u32 \<Rightarrow> u8 \<Rightarrow> rule list \<Rightarrow> cfg_rule \<Rightarrow> rule list option" where
  "rule_ins seed hashsz rules rl =
     (case rule_insert rules rl seed hashsz False of Some (True, rules') \<Rightarrow> Some rules' | _ \<Rightarrow> None)"

definition rule_find :: "u32 \<Rightarrow> u8 \<Rightarrow> rule list \<Rightarrow> u32 \<Rightarrow> rule option" where
  "rule_find seed hashsz rules fs = Option.bind (rule_lookup rules seed hashsz fs) id"

lemma rule_ins_Some:
  "rule_ins seed hashsz rules rl = Some rules' \<longleftrightarrow>
     (let i = rule_slot rl seed hashsz in
      i < length rules \<and> fsig (rules ! i) = 0 \<and> rules' = rules[i := rule_of_cfg rl])"
  by (auto simp: rule_ins_def rule_insert_def Let_def cell_def split: option.splits if_splits)

lemma rule_find_def': "rule_find seed hashsz rules fs =
    (let i = unat (hash_flowsig seed hashsz fs) in
     if i < length rules \<and> fsig (rules ! i) = fs then Some (rules ! i) else None)"
  by (simp add: rule_find_def rule_lookup_def cell_def Let_def)

interpretation rt: keyed_store "rule_ins seed hashsz" "rule_find seed hashsz" cfg_sig rule_of_cfg
    "\<lambda>k. k \<noteq> 0" for seed hashsz
  by unfold_locales
    (auto simp: rule_ins_Some rule_find_def' Let_def rule_slot_eq nth_list_update)

end
