(* ===== verification/Spin_Lock.thy ===== *)
theory Spin_Lock
  imports Ntfw_Prelude
begin

text \<open>
  The bit spinlock of \<open>ntfe/helper.cpp\<close>. The first section gives the operations as a single
  thread sees them: acquiring a lock whose bit is set never returns (\<open>None\<close>).
\<close>

section \<open>Operations\<close>

definition interlocked_bts :: "u32 \<Rightarrow> nat \<Rightarrow> bool \<times> u32" where
  "interlocked_bts lck b = (bit lck b, lck OR push_bit b 1)"

definition spin_acquire :: "u32 \<Rightarrow> nat \<Rightarrow> u32 option" where
  "spin_acquire lck b = (case interlocked_bts lck b of (old, lck') \<Rightarrow> if old then None else Some lck')"

definition spin_release :: "u32 \<Rightarrow> nat \<Rightarrow> u32" where
  "spin_release lck b = lck AND NOT (push_bit b 1)"

text \<open>
  The variant that counts its pauses, with the count, and the lock that is a whole word. With the lock
  free the count is the one it was.
\<close>

definition spin_acquire_dbg :: "u32 \<Rightarrow> nat \<Rightarrow> u32 \<Rightarrow> (u32 \<times> u32) option" where
  "spin_acquire_dbg lck b spin_count =
     (let spin_count = spin_count - 1;
          spin_count = spin_count + 1
      in if lck AND push_bit b 1 \<noteq> 0 then None
         else case interlocked_bts lck b of (old, lck') \<Rightarrow> if old then None else Some (lck', spin_count))"

definition spin_acquire2 :: "u32 \<Rightarrow> u32 option" where
  "spin_acquire2 lck = (if lck \<noteq> 0 then None else Some 1)"

declare interlocked_bts_def [ntfw_eval] spin_acquire_def [ntfw_eval] spin_release_def [ntfw_eval]

lemma bit_push_1: "b < 32 \<Longrightarrow> bit (push_bit b (1 :: u32)) i \<longleftrightarrow> i = b"
  by (auto simp: bit_simps push_bit_of_1)

lemma bit_exp_u32: "b < 32 \<Longrightarrow> bit ((2 :: u32) ^ b) i \<longleftrightarrow> i = b"
  using bit_push_1 [of b i] by (simp add: push_bit_of_1)

lemma spin_acquire_Some: "spin_acquire lck b = Some l \<longleftrightarrow> \<not> bit lck b \<and> l = lck OR push_bit b 1"
  by (auto simp: spin_acquire_def interlocked_bts_def)

lemma bit_spin_release: "b < 32 \<Longrightarrow> bit (spin_release lck b) i \<longleftrightarrow> bit lck i \<and> i \<noteq> b"
  by (auto simp: spin_release_def bit_simps bit_push_1 dest: bit_imp_le_length)

text \<open>Releasing what was acquired restores the word, and neither touches another bit.\<close>

lemma release_acquire: "b < 32 \<Longrightarrow> spin_acquire lck b = Some l \<Longrightarrow> spin_release l b = lck"
  by (rule bit_word_eqI) (auto simp: spin_acquire_Some bit_spin_release bit_or_iff bit_exp_u32)

text \<open>The variant takes the lock exactly when \<open>spin_acquire\<close> does.\<close>

lemma spin_acquire_dbg_eq:
  "b < 32 \<Longrightarrow> spin_acquire_dbg lck b n = map_option (\<lambda>l. (l, n)) (spin_acquire lck b)"
proof -
  assume b: "b < 32"
  have "lck AND push_bit b 1 = 0 \<longleftrightarrow> \<not> bit lck b"
  proof
    assume "lck AND push_bit b 1 = 0"
    then have "bit (lck AND push_bit b 1) b \<longleftrightarrow> bit (0 :: u32) b" by (rule arg_cong)
    then show "\<not> bit lck b" unfolding bit_and_iff bit_push_1 [OF b] by simp
  next
    assume "\<not> bit lck b"
    then show "lck AND push_bit b 1 = 0" by (intro bit_word_eqI) (auto simp: bit_and_iff bit_exp_u32 [OF b])
  qed
  then show ?thesis by (simp add: spin_acquire_dbg_def spin_acquire_def interlocked_bts_def)
qed

end
