(* ===== verification/Token_Bucket.thy ===== *)
theory Token_Bucket
  imports Helper Flow_Rules Spin_Lock
begin

text \<open>
  Traffic policing: \<open>struct tbucket\<close>, \<open>tbucket_desc\<close> and \<open>host_state\<close> of \<open>ntfe/ntfe.h\<close>, and
  \<open>token_bucket_charge\<close> and \<open>host_charge_packet\<close> of \<open>ntfe/ntfe.cpp\<close>.
\<close>

section \<open>State\<close>

record tbucket =
  tokens :: u32
  last_refill :: u32

record tbucket_desc =
  rate :: u32
  capacity :: u32
  level :: u32

definition MAX_METERS :: nat where "MAX_METERS = 4"

record host_state =
  hs_tb :: "tbucket list"
  hs_lock :: u32

definition zero_tbucket :: tbucket where
  "zero_tbucket = \<lparr>tokens = 0, last_refill = 0\<rparr>"

definition zero_tbdesc :: tbucket_desc where
  "zero_tbdesc = \<lparr>rate = 0, capacity = 0, level = 0\<rparr>"

definition zero_host_state :: host_state where
  "zero_host_state = \<lparr>hs_tb = replicate MAX_METERS zero_tbucket, hs_lock = 0\<rparr>"

declare MAX_METERS_def [ntfw_eval] zero_tbucket_def [ntfw_eval] zero_tbdesc_def [ntfw_eval]
  zero_host_state_def [ntfw_eval]

section \<open>Operations\<close>

definition token_bucket_charge :: "tbucket \<Rightarrow> tbucket_desc \<Rightarrow> u32 \<Rightarrow> u32 \<Rightarrow> bool \<times> tbucket" where
  "token_bucket_charge tb tbd tmsec cost =
     (let dt = tmsec - last_refill tb;
          tb1 = (if dt \<noteq> 0 then
                   (let x = capacity tbd; y = satadd32 (tokens tb) (satmul32 dt (rate tbd))
                    in tb\<lparr>tokens := (if x < y then x else y), last_refill := tmsec\<rparr>)
                 else tb);
          tb2 = tb1\<lparr>tokens := satsub32 (tokens tb1) cost\<rparr>
      in (level tbd < tokens tb2, tb2))"

text \<open>
  One \<open>cost ? token_bucket_charge(...) : 1\<close> of \<open>host_charge_packet\<close>; a bucket number outside the
  four buckets is an access outside the arrays.
\<close>

definition charge_meter ::
    "tbucket list \<Rightarrow> tbucket_desc list \<Rightarrow> 3 word \<Rightarrow> u32 \<Rightarrow> u32 \<Rightarrow> (u8 \<times> tbucket list) option" where
  "charge_meter tbs descs i tmsec cost =
     (if cost \<noteq> 0 then do {
        tb \<leftarrow> cell tbs (unat i);
        d \<leftarrow> cell descs (unat i);
        Some (case token_bucket_charge tb d tmsec cost of
          (pass, tb') \<Rightarrow> (of_bool pass, tbs[unat i := tb'])) }
      else Some (1, tbs))"

definition host_charge_packet ::
    "host_state \<Rightarrow> rule \<Rightarrow> tbucket_desc list \<Rightarrow> u32 \<Rightarrow> u16 \<Rightarrow> (bool \<times> host_state) option" where
  "host_charge_packet host rl descs tmsec in_bytes = do {
     let in_bytes_cost = satmul32 (ucast in_bytes) (ucast (in_byte_scale rl));
     let in_packet_cost = ucast (in_packet_scale rl);
     lck \<leftarrow> spin_acquire (hs_lock host) 0;
     (r1, tbs1) \<leftarrow> charge_meter (hs_tb host) descs (in_byte_tb rl) tmsec in_bytes_cost;
     (r2, tbs2) \<leftarrow> charge_meter tbs1 descs (in_packet_tb rl) tmsec in_packet_cost;
     let result = (2 :: u8) - r1 - r2;
     Some (result \<noteq> 0, host\<lparr>hs_tb := tbs2, hs_lock := spin_release lck 0\<rparr>) }"

declare token_bucket_charge_def [ntfw_eval] charge_meter_def [ntfw_eval]
  host_charge_packet_def [ntfw_eval]

section \<open>One charge, in unbounded arithmetic\<close>

text \<open>The tokens a charge finds: the refill saturates at the capacity, whatever the products are.\<close>

definition refilled :: "tbucket \<Rightarrow> tbucket_desc \<Rightarrow> u32 \<Rightarrow> nat" where
  "refilled tb tbd tmsec =
     (if tmsec = last_refill tb then unat (tokens tb)
      else min (unat (capacity tbd))
             (unat (tokens tb) + unat (tmsec - last_refill tb) * unat (rate tbd)))"

lemma sat_refill:
  assumes "c \<le> (M :: nat)"
  shows "min c (min M (a + min M b)) = min c (a + b)"
  using assms by (auto simp: min_def)

lemma charge_tokens:
  "unat (tokens (snd (token_bucket_charge tb tbd t c))) = refilled tb tbd t - unat c"
proof -
  have if_min: "unat (if x < y then x else y) = min (unat x) (unat y)" for x y :: u32
    by (auto simp: word_less_nat_alt min_def)
  show ?thesis
    by (simp add: token_bucket_charge_def refilled_def Let_def if_min sat_refill unat_u32_le)
qed

lemma charge_pass:
  "fst (token_bucket_charge tb tbd t c) \<longleftrightarrow> unat (level tbd) + unat c < refilled tb tbd t"
proof -
  have "fst (token_bucket_charge tb tbd t c)
      \<longleftrightarrow> level tbd < tokens (snd (token_bucket_charge tb tbd t c))"
    by (simp add: token_bucket_charge_def Let_def)
  then show ?thesis by (simp add: word_less_nat_alt charge_tokens less_diff_conv)
qed

lemma charge_last: "last_refill (snd (token_bucket_charge tb tbd t c)) = t"
  by (simp add: token_bucket_charge_def Let_def)

lemma refilled_le: "refilled tb tbd t \<le> unat (tokens tb) + unat (t - last_refill tb) * unat (rate tbd)"
  by (simp add: refilled_def)

lemma refilled_cap:
  "unat (tokens tb) \<le> unat (capacity tbd) \<Longrightarrow> refilled tb tbd t \<le> unat (capacity tbd)"
  by (simp add: refilled_def)

section \<open>A bucket is a rate limiter\<close>

text \<open>
  The engine passes the low 32 bits of its millisecond clock; \<open>bucket_charge\<close> is the charge at an
  absolute time.
\<close>

definition bucket_charge :: "tbucket_desc \<Rightarrow> tbucket \<Rightarrow> nat \<Rightarrow> u32 \<Rightarrow> bool \<times> tbucket" where
  "bucket_charge tbd tb t cost = token_bucket_charge tb tbd (of_nat t) cost"

definition refilled_at :: "tbucket \<Rightarrow> nat \<Rightarrow> bool" where
  "refilled_at tb t \<longleftrightarrow> last_refill tb = of_nat t"

lemma unat_elapsed:
  "t0 \<le> t \<Longrightarrow> t < t0 + 4294967296 \<Longrightarrow> unat ((of_nat t :: u32) - of_nat t0) = t - t0"
  by (simp add: unat_of_nat flip: of_nat_diff)

lemma bucket_charge_credit:
  assumes "refilled_at tb t0" "t0 \<le> t" "t < t0 + 4294967296"
    and "bucket_charge tbd tb t c = (pass, tb')"
  shows "unat (tokens tb') + (if pass then unat c else 0)
    \<le> unat (tokens tb) + unat (rate tbd) * (t - t0)"
proof -
  have tb': "tb' = snd (token_bucket_charge tb tbd (of_nat t) c)"
    and pass: "pass = fst (token_bucket_charge tb tbd (of_nat t) c)"
    using assms(4) by (simp_all add: bucket_charge_def)
  have "refilled tb tbd (of_nat t) \<le> unat (tokens tb) + (t - t0) * unat (rate tbd)"
    using refilled_le [of tb tbd "of_nat t"] assms(1-3) by (simp add: refilled_at_def unat_elapsed)
  moreover have "pass \<Longrightarrow> unat c \<le> refilled tb tbd (of_nat t)"
    unfolding pass charge_pass by simp
  ultimately show ?thesis unfolding tb' charge_tokens
    by (cases pass) (auto simp: mult.commute intro: order_trans [OF diff_le_self])
qed

interpretation tb: rate_limiter "bucket_charge tbd" unat "\<lambda>tb. unat (tokens tb)" refilled_at
    "unat (rate tbd)" "unat (capacity tbd)" 4294967296 for tbd
proof unfold_locales
  fix b :: tbucket and t c pass b'
  assume ch: "bucket_charge tbd b t c = (pass, b')"
  have b': "b' = snd (token_bucket_charge b tbd (of_nat t) c)"
    and pass: "pass = fst (token_bucket_charge b tbd (of_nat t) c)"
    using ch by (simp_all add: bucket_charge_def)
  show "refilled_at b' t" by (simp add: b' refilled_at_def charge_last)
  assume "unat (tokens b) \<le> unat (capacity tbd)"
  from refilled_cap [OF this, of "of_nat t"]
  show "unat (tokens b') + (if pass then unat c else 0) \<le> unat (capacity tbd)"
    using charge_pass [of b tbd "of_nat t" c] pass by (auto simp: b' charge_tokens)
qed (rule bucket_charge_credit)

section \<open>Charging a packet\<close>

text \<open>What one meter contributes to the verdict, and when it is charged within its arrays.\<close>

definition meter_pass :: "tbucket list \<Rightarrow> tbucket_desc list \<Rightarrow> 3 word \<Rightarrow> u32 \<Rightarrow> u32 \<Rightarrow> bool" where
  "meter_pass tbs descs i t cost \<longleftrightarrow>
     cost = 0 \<or> fst (token_bucket_charge (tbs ! unat i) (descs ! unat i) t cost)"

definition meter_update :: "tbucket list \<Rightarrow> tbucket_desc list \<Rightarrow> 3 word \<Rightarrow> u32 \<Rightarrow> u32 \<Rightarrow> tbucket list" where
  "meter_update tbs descs i t cost =
     (if cost = 0 then tbs
      else tbs[unat i := snd (token_bucket_charge (tbs ! unat i) (descs ! unat i) t cost)])"

definition meter_ok :: "3 word \<Rightarrow> u32 \<Rightarrow> bool" where
  "meter_ok i cost \<longleftrightarrow> cost = 0 \<or> unat i < MAX_METERS"

lemma charge_meter_eq:
  assumes "length tbs = MAX_METERS" "length descs = MAX_METERS"
  shows "charge_meter tbs descs i t cost =
    (if meter_ok i cost
     then Some (of_bool (meter_pass tbs descs i t cost), meter_update tbs descs i t cost) else None)"
  using assms by (simp add: charge_meter_def meter_ok_def meter_pass_def meter_update_def cell_def split_beta)

lemma length_meter_update [simp]: "length (meter_update tbs descs i t cost) = length tbs"
  by (simp add: meter_update_def)

definition packet_costs :: "rule \<Rightarrow> u16 \<Rightarrow> u32 \<times> u32" where
  "packet_costs rl in_bytes =
     (satmul32 (ucast in_bytes) (ucast (in_byte_scale rl)), ucast (in_packet_scale rl))"

text \<open>
  The whole operation: it fails to return on a held lock or a bucket number beyond the meters, and
  otherwise reports non-conformance exactly when one of the two meters is not passed.
\<close>

lemma host_charge_packet_eq:
  assumes "length (hs_tb host) = MAX_METERS" "length descs = MAX_METERS"
    and "packet_costs rl in_bytes = (bc, pc)"
  shows "host_charge_packet host rl descs t in_bytes =
    (if \<not> bit (hs_lock host) 0 \<and> meter_ok (in_byte_tb rl) bc \<and> meter_ok (in_packet_tb rl) pc
     then (let tbs1 = meter_update (hs_tb host) descs (in_byte_tb rl) t bc in
       Some (\<not> (meter_pass (hs_tb host) descs (in_byte_tb rl) t bc \<and>
                meter_pass tbs1 descs (in_packet_tb rl) t pc),
             host\<lparr>hs_tb := meter_update tbs1 descs (in_packet_tb rl) t pc\<rparr>))
     else None)"
proof -
  have costs: "bc = satmul32 (ucast in_bytes) (ucast (in_byte_scale rl))"
      "pc = ucast (in_packet_scale rl)"
    using assms(3) by (auto simp: packet_costs_def)
  have len: "length (meter_update (hs_tb host) descs i t c) = MAX_METERS" for i c
    using assms(1) by simp
  show ?thesis
  proof (cases "bit (hs_lock host) 0")
    case True
    then show ?thesis by (simp add: host_charge_packet_def spin_acquire_def interlocked_bts_def)
  next
    case False
    then have acq: "spin_acquire (hs_lock host) 0 = Some (hs_lock host OR 1)"
      by (simp add: spin_acquire_Some)
    have rel: "spin_release (hs_lock host OR 1) 0 = hs_lock host"
      by (rule release_acquire [OF _ acq]) simp
    have host: "host\<lparr>hs_tb := x, hs_lock := hs_lock host\<rparr> = host\<lparr>hs_tb := x\<rparr>" for x
      by (cases host) simp
    show ?thesis using False
      by (auto simp: host_charge_packet_def acq rel host charge_meter_eq [OF assms(1,2)]
          charge_meter_eq [OF len assms(2)] Let_def simp flip: costs)
  qed
qed

end
