(* ===== verification/Host_Bucket.thy ===== *)
theory Host_Bucket
  imports Ntfw_Prelude
begin

text \<open>
  One bucket of the host table: \<open>union host_ctrl\<close> and \<open>struct htbucket\<close> of \<open>ntfe/ntfe.h\<close>,
  \<open>inet_hashfn\<close>, \<open>probe_bucket\<close> and the eviction scan of \<open>allocate\<close> in \<open>ntfe/host.cpp\<close>.
  The bucket lock is bit 31 of the first control word and \<open>exhausted\<close> is bit 31 of the second,
  as the union lays them out.
\<close>

section \<open>Bit fields\<close>

definition get_bits :: "nat \<Rightarrow> nat \<Rightarrow> u32 \<Rightarrow> u32" where
  "get_bits off w v = take_bit w (drop_bit off v)"

definition set_bits :: "nat \<Rightarrow> nat \<Rightarrow> u32 \<Rightarrow> u32 \<Rightarrow> u32" where
  "set_bits off w x v = (v AND NOT (push_bit off (mask w))) OR push_bit off (take_bit w x)"

lemma bit_set_bits:
  "off + w \<le> 32 \<Longrightarrow> bit (set_bits off w x v) n \<longleftrightarrow>
     (if off \<le> n \<and> n < off + w then bit x (n - off) else bit v n)"
  by (auto simp: set_bits_def bit_simps dest: bit_imp_le_length)

lemma get_set_same: "off + w \<le> 32 \<Longrightarrow> get_bits off w (set_bits off w x v) = take_bit w x"
  by (rule bit_word_eqI) (auto simp: get_bits_def bit_set_bits bit_simps dest: bit_imp_le_length)

lemma get_set_other:
  "off + w \<le> 32 \<Longrightarrow> off' + w' \<le> 32 \<Longrightarrow> off' + w' \<le> off \<or> off + w \<le> off' \<Longrightarrow>
    get_bits off' w' (set_bits off w x v) = get_bits off' w' v"
  by (rule bit_word_eqI) (auto simp: get_bits_def bit_set_bits bit_simps dest: bit_imp_le_length)

lemma unat_get_bits: "unat (get_bits off w v) < 2 ^ w"
  by (simp add: get_bits_def unat_take_bit_less)

section \<open>Control words\<close>

definition HTB_AGE_BITS :: nat where "HTB_AGE_BITS = 11"
definition HTB_PRI_BITS :: nat where "HTB_PRI_BITS = 2"
definition HTB_PTR_BITS :: nat where "HTB_PTR_BITS = 18"
definition HTB_AGE_MASK :: u32 where "HTB_AGE_MASK = push_bit HTB_AGE_BITS 1 - 1"
definition HTB_PRI_MASK :: u32 where "HTB_PRI_MASK = push_bit HTB_AGE_BITS (push_bit HTB_PRI_BITS 1 - 1)"
definition HTB_LOCK_BIT :: nat where "HTB_LOCK_BIT = 31"
definition HTBL_SIZE :: nat where "HTBL_SIZE = 0x40000"
definition HTBL_BKT_SZ :: nat where "HTBL_BKT_SZ = 8"

definition HOST_PRI_NONE :: u32 where "HOST_PRI_NONE = 0"
definition HOST_PRI_OUTAUTH :: u32 where "HOST_PRI_OUTAUTH = 1"
definition HOST_PRI_DYNAUTH :: u32 where "HOST_PRI_DYNAUTH = 2"
definition HOST_PRI_STATIC :: u32 where "HOST_PRI_STATIC = 3"

lemmas htb_consts = HTB_AGE_BITS_def HTB_PRI_BITS_def HTB_PTR_BITS_def HTB_AGE_MASK_def
  HTB_PRI_MASK_def HTB_LOCK_BIT_def HTBL_SIZE_def HTBL_BKT_SZ_def
lemmas host_pri_defs = HOST_PRI_NONE_def HOST_PRI_OUTAUTH_def HOST_PRI_DYNAUTH_def HOST_PRI_STATIC_def

definition ctrl_age :: "u32 \<Rightarrow> u32" where "ctrl_age v = get_bits 0 HTB_AGE_BITS v"
definition ctrl_pri :: "u32 \<Rightarrow> u32" where "ctrl_pri v = get_bits HTB_AGE_BITS HTB_PRI_BITS v"
definition ctrl_ptr :: "u32 \<Rightarrow> u32" where
  "ctrl_ptr v = get_bits (HTB_AGE_BITS + HTB_PRI_BITS) HTB_PTR_BITS v"

definition set_age :: "u32 \<Rightarrow> u32 \<Rightarrow> u32" where "set_age x v = set_bits 0 HTB_AGE_BITS x v"
definition set_pri :: "u32 \<Rightarrow> u32 \<Rightarrow> u32" where "set_pri x v = set_bits HTB_AGE_BITS HTB_PRI_BITS x v"
definition set_ptr :: "u32 \<Rightarrow> u32 \<Rightarrow> u32" where
  "set_ptr x v = set_bits (HTB_AGE_BITS + HTB_PRI_BITS) HTB_PTR_BITS x v"

lemmas ctrl_defs = ctrl_age_def ctrl_pri_def ctrl_ptr_def set_age_def set_pri_def set_ptr_def
declare htb_consts [ntfw_eval] host_pri_defs [ntfw_eval] ctrl_defs [ntfw_eval]
  get_bits_def [ntfw_eval] set_bits_def [ntfw_eval]

lemma ctrl_get_set [simp]:
  "ctrl_age (set_age x v) = take_bit 11 x" "ctrl_age (set_pri x v) = ctrl_age v"
  "ctrl_age (set_ptr x v) = ctrl_age v"
  "ctrl_pri (set_age x v) = ctrl_pri v" "ctrl_pri (set_pri x v) = take_bit 2 x"
  "ctrl_pri (set_ptr x v) = ctrl_pri v"
  "ctrl_ptr (set_age x v) = ctrl_ptr v" "ctrl_ptr (set_pri x v) = ctrl_ptr v"
  "ctrl_ptr (set_ptr x v) = take_bit 18 x"
  by (simp_all add: ctrl_defs HTB_AGE_BITS_def HTB_PRI_BITS_def HTB_PTR_BITS_def
      get_set_same get_set_other)

text \<open>No field write touches bit 31, where the lock and \<open>exhausted\<close> live.\<close>

lemma ctrl_set_bit31 [simp]:
  "bit (set_age x v) 31 = bit v 31" "bit (set_pri x v) 31 = bit v 31" "bit (set_ptr x v) 31 = bit v 31"
  by (simp_all add: ctrl_defs HTB_AGE_BITS_def HTB_PRI_BITS_def HTB_PTR_BITS_def bit_set_bits)

lemma ctrl_bounds: "unat (ctrl_age v) < 2048" "unat (ctrl_pri v) < 4" "unat (ctrl_ptr v) < 262144"
  using unat_get_bits [of 0 11 v] unat_get_bits [of 11 2 v] unat_get_bits [of 13 18 v]
  by (simp_all add: ctrl_defs HTB_AGE_BITS_def HTB_PRI_BITS_def HTB_PTR_BITS_def)

section \<open>Buckets\<close>

record htbucket =
  saddr :: "u32 list"
  ctrl :: "u32 list"

definition zero_htbucket :: htbucket where
  "zero_htbucket = \<lparr>saddr = replicate HTBL_BKT_SZ 0, ctrl = replicate HTBL_BKT_SZ 0\<rparr>"

definition HTB_TEST_LOCK :: "htbucket \<Rightarrow> bool" where
  "HTB_TEST_LOCK htb = bit (ctrl htb ! 0) HTB_LOCK_BIT"

definition exhausted :: "htbucket \<Rightarrow> bool" where
  "exhausted htb = bit (ctrl htb ! 1) 31"

definition set_exhausted :: "bool \<Rightarrow> htbucket \<Rightarrow> htbucket" where
  "set_exhausted b htb = htb\<lparr>ctrl := (ctrl htb)[1 := set_bits 31 1 (of_bool b) (ctrl htb ! 1)]\<rparr>"

definition set_lock :: "u32 \<Rightarrow> htbucket \<Rightarrow> htbucket" where
  "set_lock l htb = htb\<lparr>ctrl := (ctrl htb)[0 := l]\<rparr>"

declare zero_htbucket_def [ntfw_eval] HTB_TEST_LOCK_def [ntfw_eval] exhausted_def [ntfw_eval]
  set_exhausted_def [ntfw_eval] set_lock_def [ntfw_eval]

definition inet_hashfn :: "u32 \<Rightarrow> u32" where
  "inet_hashfn a = (let a1 = a * 0x32583499 in a1 XOR drop_bit 16 a1)"

text \<open>\<open>host_fetch_bucket\<close>: the index of the bucket of an address.\<close>

definition host_fetch_bucket :: "u32 \<Rightarrow> nat" where
  "host_fetch_bucket a = unat (inet_hashfn a AND (of_nat HTBL_SIZE - 1))"

declare inet_hashfn_def [ntfw_eval] host_fetch_bucket_def [ntfw_eval]

lemma host_fetch_bucket_less: "host_fetch_bucket a < HTBL_SIZE"
proof -
  have "inet_hashfn a AND 0x3FFFF = take_bit 18 (inet_hashfn a)"
    by (simp add: take_bit_eq_mask mask_eq_exp_minus_1)
  then show ?thesis
    using unat_take_bit_less [of 18 "inet_hashfn a"]
    by (simp add: host_fetch_bucket_def HTBL_SIZE_def)
qed

section \<open>Probing a bucket\<close>

text \<open>
  \<open>probe_bucket\<close> with AVX2: \<open>_mm256_cmpeq_epi32\<close> makes a lane all ones where it equals the key,
  \<open>_mm256_movemask_epi8\<close> collects the top bit of each of the 32 bytes, and the index of the first
  set bit divided by four is the lane.
\<close>

definition cmpeq_epi32 :: "u32 list \<Rightarrow> u32 \<Rightarrow> u32 list" where
  "cmpeq_epi32 lanes a = map (\<lambda>x. if x = a then - 1 else 0) lanes"

definition movemask_epi8 :: "u32 list \<Rightarrow> u32" where
  "movemask_epi8 lanes =
     horner_sum of_bool 2 (map (\<lambda>i. bit (lanes ! (i div 4)) (8 * (i mod 4) + 7)) [0..<32])"

definition probe_bucket :: "htbucket \<Rightarrow> u32 \<Rightarrow> int" where
  "probe_bucket htb a =
     (let idx = movemask_epi8 (cmpeq_epi32 (saddr htb) a)
      in if idx \<noteq> 0 then int (tzcnt_u32 idx div 4) else - 1)"

text \<open>What it computes: the first lane that holds the key.\<close>

definition first_lane :: "u32 list \<Rightarrow> u32 \<Rightarrow> int" where
  "first_lane lanes a =
     (if a \<in> set lanes then int (length (takeWhile (\<lambda>x. x \<noteq> a) lanes)) else - 1)"

lemma bit_movemask: "bit (movemask_epi8 lanes) n \<longleftrightarrow> n < 32 \<and> bit (lanes ! (n div 4)) (8 * (n mod 4) + 7)"
  by (auto simp: movemask_epi8_def bit_horner_sum_bit_word_iff)

lemma bit_probe_mask:
  assumes "length lanes = 8"
  shows "bit (movemask_epi8 (cmpeq_epi32 lanes a)) n \<longleftrightarrow> n < 32 \<and> lanes ! (n div 4) = a"
proof (cases "n < 32")
  case True
  then have "n div 4 < 8" "8 * (n mod 4) + 7 < 32" by linarith+
  with assms True show ?thesis by (auto simp: bit_movemask cmpeq_epi32_def)
qed (simp add: bit_movemask)

lemma probe_bucket_first_lane:
  assumes len: "length (saddr htb) = 8"
  shows "probe_bucket htb a = first_lane (saddr htb) a"
proof (cases "a \<in> set (saddr htb)")
  case False
  then have "movemask_epi8 (cmpeq_epi32 (saddr htb) a) = 0"
    using len by (intro bit_word_eqI) (auto simp: bit_probe_mask)
  with False show ?thesis by (simp add: probe_bucket_def first_lane_def)
next
  case True
  define k where "k = length (takeWhile (\<lambda>x. x \<noteq> a) (saddr htb))"
  let ?m = "movemask_epi8 (cmpeq_epi32 (saddr htb) a)"
  have "k < length (saddr htb)"
  proof (rule ccontr)
    assume "\<not> k < length (saddr htb)"
    then have "takeWhile (\<lambda>x. x \<noteq> a) (saddr htb) = saddr htb"
      unfolding k_def by (metis leI takeWhile_eq_take take_all)
    with True show False by (auto simp: takeWhile_eq_all_conv)
  qed
  then have k: "k < 8" "saddr htb ! k = a"
    using len nth_length_takeWhile [of "\<lambda>x. x \<noteq> a" "saddr htb"] by (auto simp: k_def)
  have before: "saddr htb ! i \<noteq> a" if "i < k" for i
    using that set_takeWhileD [OF nth_mem, of i "\<lambda>x. x \<noteq> a" "saddr htb"]
    by (simp add: k_def takeWhile_nth)
  have "tzcnt_u32 ?m = 4 * k"
    using k before by (intro tzcnt_eq) (auto simp: bit_probe_mask [OF len])
  moreover have "?m \<noteq> 0"
    using k bit_probe_mask [OF len, of a "4 * k"] by auto
  ultimately show ?thesis using True by (simp add: probe_bucket_def first_lane_def k_def)
qed

section \<open>Choosing an eviction candidate\<close>

definition evict_dist :: "u16 \<Rightarrow> u32 \<Rightarrow> u16" where
  "evict_dist tsec v = ucast ((NOT (ucast tsec - ctrl_age v) AND HTB_AGE_MASK) OR (v AND HTB_PRI_MASK))"

text \<open>The loop over the control words; \<open>idx\<close> starts uninitialised (\<open>None\<close>).\<close>

fun evict_scan :: "u16 \<Rightarrow> u32 list \<Rightarrow> nat \<Rightarrow> u16 \<Rightarrow> nat option \<Rightarrow> nat option" where
  "evict_scan tsec [] i best idx = idx"
| "evict_scan tsec (v # vs) i best idx =
     (let dist = evict_dist tsec v in
      if dist < best then evict_scan tsec vs (Suc i) dist (Some i)
      else evict_scan tsec vs (Suc i) best idx)"

declare evict_dist_def [ntfw_eval]

text \<open>The age of an entry in ticks of 1024 ms, modulo the resolution of the field.\<close>

definition entry_age :: "u16 \<Rightarrow> u32 \<Rightarrow> nat" where
  "entry_age tsec v = unat (take_bit 11 (ucast tsec - ctrl_age v))"

lemma entry_age_less: "entry_age tsec v < 2048"
  unfolding entry_age_def using unat_take_bit_less [of 11] by simp

lemma unat_evict_dist: "unat (evict_dist tsec v) = 2048 * unat (ctrl_pri v) + (2047 - entry_age tsec v)"
proof -
  let ?a = "take_bit 11 (NOT (ucast tsec - ctrl_age v)) :: u32"
  have age: "NOT (ucast tsec - ctrl_age v) AND HTB_AGE_MASK = ?a"
    by (simp add: HTB_AGE_MASK_def HTB_AGE_BITS_def take_bit_eq_mask mask_eq_exp_minus_1 push_bit_of_1)
  have pri_mask: "HTB_PRI_MASK = push_bit 11 (mask 2)"
    by (simp add: HTB_PRI_MASK_def HTB_AGE_BITS_def HTB_PRI_BITS_def mask_eq_exp_minus_1 push_bit_of_1)
  have pri: "v AND HTB_PRI_MASK = push_bit 11 (ctrl_pri v)"
    unfolding pri_mask by (intro bit_word_eqI)
      (auto simp: ctrl_defs get_bits_def HTB_AGE_BITS_def HTB_PRI_BITS_def bit_simps)
  have disj: "?a OR push_bit 11 (ctrl_pri v) = ?a + push_bit 11 (ctrl_pri v)"
    by (rule disjunctive_add_eq_or [symmetric], rule bit_word_eqI) (auto simp: bit_simps)
  have a: "unat ?a = 2047 - entry_age tsec v"
  proof -
    have "take_bit 11 x \<le> mask 11" for x :: u32
      using unat_take_bit_less [of 11 x] by (simp add: word_le_nat_alt mask_eq_exp_minus_1)
    then show ?thesis
      by (simp add: take_bit_not_eq_mask_diff unat_sub entry_age_def mask_eq_exp_minus_1)
  qed
  have p: "unat (push_bit 11 (ctrl_pri v)) = 2048 * unat (ctrl_pri v)"
    using ctrl_bounds(2) [of v] by (simp add: push_bit_eq_mult unat_word_ariths)
  have "unat (?a + push_bit 11 (ctrl_pri v)) = 2048 * unat (ctrl_pri v) + (2047 - entry_age tsec v)"
    using ctrl_bounds(2) [of v] by (simp add: unat_word_ariths(1) a p)
  moreover have "evict_dist tsec v = ucast (?a + push_bit 11 (ctrl_pri v))"
    by (simp only: evict_dist_def age pri disj)
  ultimately show ?thesis
    using ctrl_bounds(2) [of v] by (simp only: unat_ucast_u16) simp
qed

text \<open>The scan returns the first control word of least distance.\<close>

lemma evict_scan_spec:
  assumes "evict_scan tsec vs i best idx = r"
  shows "(r = idx \<and> (\<forall>v \<in> set vs. best \<le> evict_dist tsec v)) \<or>
    (\<exists>k < length vs. r = Some (i + k) \<and> evict_dist tsec (vs ! k) < best \<and>
      (\<forall>j < length vs. evict_dist tsec (vs ! k) \<le> evict_dist tsec (vs ! j)))"
  using assms
proof (induction vs arbitrary: i best idx)
  case (Cons v vs)
  let ?d = "evict_dist tsec v"
  show ?case
  proof (cases "?d < best")
    case True
    with Cons.prems have "evict_scan tsec vs (Suc i) ?d (Some i) = r" by simp
    from Cons.IH [OF this] show ?thesis
    proof (elim disjE exE conjE)
      assume "r = Some i" "\<forall>v \<in> set vs. ?d \<le> evict_dist tsec v"
      with True show ?thesis by (auto intro!: exI [of _ 0] simp: nth_Cons' all_set_conv_all_nth)
    next
      fix k assume k: "k < length vs" "r = Some (Suc i + k)" "evict_dist tsec (vs ! k) < ?d"
        "\<forall>j < length vs. evict_dist tsec (vs ! k) \<le> evict_dist tsec (vs ! j)"
      have "\<forall>j < length (v # vs). evict_dist tsec (vs ! k) \<le> evict_dist tsec ((v # vs) ! j)"
        using k(3,4) by (auto simp: nth_Cons')
      with k True show ?thesis by (intro disjI2 exI [of _ "Suc k"]) auto
    qed
  next
    case False
    with Cons.prems have "evict_scan tsec vs (Suc i) best idx = r" by simp
    from Cons.IH [OF this] show ?thesis
    proof (elim disjE exE conjE)
      assume "r = idx" "\<forall>v \<in> set vs. best \<le> evict_dist tsec v"
      with False show ?thesis by auto
    next
      fix k assume k: "k < length vs" "r = Some (Suc i + k)" "evict_dist tsec (vs ! k) < best"
        "\<forall>j < length vs. evict_dist tsec (vs ! k) \<le> evict_dist tsec (vs ! j)"
      have "\<forall>j < length (v # vs). evict_dist tsec (vs ! k) \<le> evict_dist tsec ((v # vs) ! j)"
        using k(3,4) False by (auto simp: nth_Cons' not_less intro: order_trans less_imp_le)
      with k show ?thesis by (intro disjI2 exI [of _ "Suc k"]) auto
    qed
  qed
qed simp

definition evict_victim :: "u16 \<Rightarrow> u32 list \<Rightarrow> nat option" where
  "evict_victim tsec cs = evict_scan tsec cs 0 (- 1) None"

declare evict_victim_def [ntfw_eval]

lemma evict_dist_less_top: "evict_dist tsec v < - 1"
proof -
  have "unat (evict_dist tsec v) < 65535"
    using unat_evict_dist [of tsec v] ctrl_bounds(2) [of v] by linarith
  then show ?thesis
    by (simp add: word_less_nat_alt unsigned_minus_1_eq_mask mask_eq_exp_minus_1)
qed

lemma evict_victim_Some:
  assumes "cs \<noteq> []"
  obtains k where "evict_victim tsec cs = Some k" "k < length cs"
    "\<And>j. j < length cs \<Longrightarrow> evict_dist tsec (cs ! k) \<le> evict_dist tsec (cs ! j)"
proof -
  have "\<not> (\<forall>v \<in> set cs. - 1 \<le> evict_dist tsec v)"
    using assms evict_dist_less_top by (meson hd_in_set not_le)
  with evict_scan_spec [OF refl, of tsec cs 0 "- 1" None] that show ?thesis
    by (auto simp: evict_victim_def)
qed

text \<open>In terms of the fields: least priority first, then greatest age.\<close>

lemma evict_dist_le_iff:
  "evict_dist tsec v \<le> evict_dist tsec w \<longleftrightarrow>
     unat (ctrl_pri v) < unat (ctrl_pri w) \<or>
     unat (ctrl_pri v) = unat (ctrl_pri w) \<and> entry_age tsec w \<le> entry_age tsec v"
  using entry_age_less [of tsec v] entry_age_less [of tsec w]
  unfolding word_le_nat_alt unat_evict_dist by linarith

end
