(* ===== verification/Engine_State.thy ===== *)
theory Engine_State
  imports Token_Bucket Host_Bucket
begin

text \<open>
  The engine's global state \<open>struct _gs\<close> of \<open>ntfe/ntfe.h\<close>: counters, per-CPU variables, the rule
  table, the meters, the host-state pool and the host table; and \<open>env\<close>, what the environment layer
  \<open>ntfe/eal.h\<close> returns during one call (current processor, clocks), with the signature check as a
  function of the signature, the message and the key; the message is \<open>None\<close> where it is not
  readable memory, and the check's result is \<open>None\<close> when it reads that.
\<close>

section \<open>Counters and per-CPU variables\<close>

record counters =
  rx_frames :: u32
  rx_bytes :: u32
  rx_malformed :: u32
  rx_dropped :: u32
  rx_drop_priv :: u32
  rx_drop_policed :: u32
  tx_frames :: u32
  tx_bytes :: u32
  tx_malformed :: u32
  htb_conflicts :: u32
  htb_deferred :: u32
  htb_collisions :: u32
  htb_ins_fails :: u32
  hpl_grow_stall :: u32

record cpu_local =
  ts_hpc :: u64
  ts_msec :: u64
  sc :: counters

definition zero_counters :: counters where
  "zero_counters = \<lparr>rx_frames = 0, rx_bytes = 0, rx_malformed = 0, rx_dropped = 0, rx_drop_priv = 0,
     rx_drop_policed = 0, tx_frames = 0, tx_bytes = 0, tx_malformed = 0, htb_conflicts = 0,
     htb_deferred = 0, htb_collisions = 0, htb_ins_fails = 0, hpl_grow_stall = 0\<rparr>"

definition zero_cpu_local :: cpu_local where
  "zero_cpu_local = \<lparr>ts_hpc = 0, ts_msec = 0, sc = zero_counters\<rparr>"

section \<open>Global state\<close>

text \<open>\<open>hpool\<close> is NULL (\<open>None\<close>) or the pool's memory; \<open>host_tbl\<close> maps bucket numbers to buckets.\<close>

record gs =
  hpool :: "(nat \<Rightarrow> host_state) option"
  hpc_hz :: u64
  rule_seed :: u32
  rule_hashsz :: u8
  tbdesc :: "tbucket_desc list"
  gs_rules :: "rule list"
  gs_pkey :: "u8 list"
  hp_size :: u32
  hp_true_sz :: u32
  cpuls :: "nat \<Rightarrow> cpu_local"
  host_tbl :: "nat \<Rightarrow> htbucket"

record env =
  cur_cpu :: nat
  sys_time :: u64
  hpc_now :: u64
  hpc_freq :: u64
  verify_sig :: "u8 list \<Rightarrow> u8 list option \<Rightarrow> u8 list \<Rightarrow> bool option"

text \<open>The zero-initialised globals of a freshly loaded driver.\<close>

definition gs_init :: gs where
  "gs_init = \<lparr>hpool = None, hpc_hz = 0, rule_seed = 0, rule_hashsz = 0,
     tbdesc = replicate MAX_METERS zero_tbdesc, gs_rules = replicate MAX_RULES zero_rule,
     gs_pkey = replicate 32 0, hp_size = 0, hp_true_sz = 0,
     cpuls = (\<lambda>_. zero_cpu_local), host_tbl = (\<lambda>_. zero_htbucket)\<rparr>"

definition bump :: "env \<Rightarrow> ((u32 \<Rightarrow> u32) \<Rightarrow> counters \<Rightarrow> counters) \<Rightarrow> gs \<Rightarrow> gs" where
  "bump e upd g =
     (let c = cpuls g (cur_cpu e)
      in g\<lparr>cpuls := (cpuls g)(cur_cpu e := c\<lparr>sc := upd (\<lambda>x. x + 1) (sc c)\<rparr>)\<rparr>)"

definition time_msec :: "env \<Rightarrow> gs \<Rightarrow> u64" where
  "time_msec e g = ts_msec (cpuls g (cur_cpu e))"

definition upd_bucket :: "nat \<Rightarrow> (htbucket \<Rightarrow> htbucket) \<Rightarrow> gs \<Rightarrow> gs" where
  "upd_bucket bi f g = g\<lparr>host_tbl := (host_tbl g)(bi := f (host_tbl g bi))\<rparr>"

declare zero_counters_def [ntfw_eval] zero_cpu_local_def [ntfw_eval] gs_init_def [ntfw_eval]
  bump_def [ntfw_eval] time_msec_def [ntfw_eval] upd_bucket_def [ntfw_eval]

text \<open>What the counters do not touch.\<close>

lemma bump_frame [simp]:
  "hpool (bump e u g) = hpool g" "hpc_hz (bump e u g) = hpc_hz g"
  "rule_seed (bump e u g) = rule_seed g" "rule_hashsz (bump e u g) = rule_hashsz g"
  "tbdesc (bump e u g) = tbdesc g" "gs_rules (bump e u g) = gs_rules g"
  "gs_pkey (bump e u g) = gs_pkey g" "hp_size (bump e u g) = hp_size g"
  "hp_true_sz (bump e u g) = hp_true_sz g" "host_tbl (bump e u g) = host_tbl g"
  by (simp_all add: bump_def Let_def)

lemma time_msec_bump [simp]: "time_msec e (bump e u g) = time_msec e g"
  by (simp add: bump_def Let_def time_msec_def)

lemma upd_bucket_frame [simp]:
  "hpool (upd_bucket bi f g) = hpool g" "hpc_hz (upd_bucket bi f g) = hpc_hz g"
  "rule_seed (upd_bucket bi f g) = rule_seed g" "rule_hashsz (upd_bucket bi f g) = rule_hashsz g"
  "tbdesc (upd_bucket bi f g) = tbdesc g" "gs_rules (upd_bucket bi f g) = gs_rules g"
  "gs_pkey (upd_bucket bi f g) = gs_pkey g" "hp_size (upd_bucket bi f g) = hp_size g"
  "hp_true_sz (upd_bucket bi f g) = hp_true_sz g" "cpuls (upd_bucket bi f g) = cpuls g"
  "time_msec e (upd_bucket bi f g) = time_msec e g"
  by (simp_all add: upd_bucket_def time_msec_def)

lemma host_tbl_upd_bucket [simp]:
  "host_tbl (upd_bucket bi f g) = (host_tbl g)(bi := f (host_tbl g bi))"
  by (simp add: upd_bucket_def)

section \<open>The host-state pool\<close>

definition HPOOL_SIZE :: int where "HPOOL_SIZE = 0x40000 * 8"
definition HPOOL_GROW :: u32 where "HPOOL_GROW = 64"

text \<open>
  \<open>host_pool_grow\<close> commits the next entries. \<open>ntfe_init\<close> has reserved \<open>HPOOL_SIZE\<close> of them and nothing
  checks against it: \<open>None\<close> is a commit at addresses that are not the pool's. The result of
  \<open>RegionCommit\<close> is not looked at.
\<close>

definition host_pool_grow :: "gs \<Rightarrow> gs option" where
  "host_pool_grow g =
     (if uint (hp_true_sz g) + uint HPOOL_GROW \<le> HPOOL_SIZE
      then Some (g\<lparr>hp_true_sz := hp_true_sz g + HPOOL_GROW\<rparr>) else None)"

text \<open>
  \<open>host_allocate\<close>. The wait for another core's growth never ends when nobody else runs: \<open>None\<close>.
\<close>

definition host_allocate :: "env \<Rightarrow> gs \<Rightarrow> (u32 \<times> gs) option" where
  "host_allocate e g =
     (let idx = hp_size g + 1;
          g1 = g\<lparr>hp_size := idx\<rparr>
      in if (idx - HPOOL_GROW div 2) AND (HPOOL_GROW - 1) = 0 then map_option (Pair idx) (host_pool_grow g1)
         else if hp_true_sz g1 \<le> idx then None
         else Some (idx, g1))"

text \<open>
  A dereference of \<open>&gs.hpool[ptr]\<close>: a fault when the pool is NULL or the entry lies beyond the
  pool's committed size.
\<close>

definition pool_ok :: "gs \<Rightarrow> u32 \<Rightarrow> bool" where
  "pool_ok g p \<longleftrightarrow> hpool g \<noteq> None \<and> p < hp_true_sz g"

definition read_host :: "gs \<Rightarrow> u32 \<Rightarrow> host_state option" where
  "read_host g p = (case hpool g of None \<Rightarrow> None
     | Some m \<Rightarrow> if p < hp_true_sz g then Some (m (unat p)) else None)"

definition write_host :: "gs \<Rightarrow> u32 \<Rightarrow> host_state \<Rightarrow> gs option" where
  "write_host g p hs = (case hpool g of None \<Rightarrow> None
     | Some m \<Rightarrow> if p < hp_true_sz g then Some (g\<lparr>hpool := Some (m(unat p := hs))\<rparr>) else None)"

text \<open>One entry of the pool for each lane of the host table.\<close>

lemma HPOOL_SIZE_lanes: "HPOOL_SIZE = int HTBL_SIZE * 8" "HPOOL_SIZE = 2097152"
  by (simp_all add: HPOOL_SIZE_def HTBL_SIZE_def)

lemma host_pool_grow_eq:
  "host_pool_grow g = (if unat (hp_true_sz g) + 64 \<le> 2097152
     then Some (g\<lparr>hp_true_sz := hp_true_sz g + HPOOL_GROW\<rparr>) else None)"
proof -
  have "uint (hp_true_sz g) + uint HPOOL_GROW \<le> HPOOL_SIZE \<longleftrightarrow> unat (hp_true_sz g) + 64 \<le> 2097152"
  proof -
    have "uint HPOOL_GROW = 64" by (simp add: HPOOL_GROW_def)
    then show ?thesis
      using uint_nat [of "hp_true_sz g"] HPOOL_SIZE_lanes(2) by linarith
  qed
  then show ?thesis by (simp only: host_pool_grow_def)
qed

declare HPOOL_SIZE_def [ntfw_eval] HPOOL_GROW_def [ntfw_eval] host_pool_grow_def [ntfw_eval]
  host_allocate_def [ntfw_eval] pool_ok_def [ntfw_eval] read_host_def [ntfw_eval]
  write_host_def [ntfw_eval]

end
