(* ===== verification/Host_Table.thy ===== *)
theory Host_Table
  imports Engine_State Interfaces
begin

text \<open>
  The host table of \<open>ntfe/host.cpp\<close>: allocation of a bucket entry, insertion of unauthorised and of
  authorised hosts, lookup, and the clearing of statically authorised hosts. These are the
  operations as one core runs them with no other core in the bucket; the bucket lock is acquired
  and released as in the code.
\<close>

section \<open>Operations\<close>

definition get_host_ptr :: "gs \<Rightarrow> nat \<Rightarrow> nat \<Rightarrow> u32" where
  "get_host_ptr g bi k = ctrl_ptr (ctrl (host_tbl g bi) ! k)"

definition host_lookup :: "gs \<Rightarrow> nat \<Rightarrow> u32 \<Rightarrow> int" where
  "host_lookup g bi a = probe_bucket (host_tbl g bi) a"

definition allocate :: "gs \<Rightarrow> nat \<Rightarrow> u16 \<Rightarrow> u32 \<Rightarrow> (int \<times> gs) option" where
  "allocate g bi tsec priority =
     (let htb = host_tbl g bi in
      if \<not> exhausted htb then
        (let idx = probe_bucket htb 0
         in Some (idx, if idx = 7 then upd_bucket bi (set_exhausted True) g else g))
      else do {
        idx \<leftarrow> evict_victim tsec (ctrl htb);
        if priority < ctrl_pri (ctrl htb ! idx) then Some (- 1, g)
        else do {
          g' \<leftarrow> write_host g (get_host_ptr g bi idx) zero_host_state;
          Some (int idx, g') } })"

definition insert_tsec :: "env \<Rightarrow> gs \<Rightarrow> u16" where
  "insert_tsec e g = ucast (drop_bit 10 (time_msec e g) AND ucast HTB_AGE_MASK)"

text \<open>The initialisation of a new entry, up to its pool pointer, and the store of the pointer.\<close>

definition init_entry :: "nat \<Rightarrow> u32 \<Rightarrow> u16 \<Rightarrow> u32 \<Rightarrow> htbucket \<Rightarrow> htbucket" where
  "init_entry idx a tsec pri htb =
     htb\<lparr>saddr := (saddr htb)[idx := a],
         ctrl := (ctrl htb)[idx := set_pri pri (set_age (ucast tsec) (ctrl htb ! idx))]\<rparr>"

definition set_entry_ptr :: "nat \<Rightarrow> u32 \<Rightarrow> htbucket \<Rightarrow> htbucket" where
  "set_entry_ptr idx p htb = htb\<lparr>ctrl := (ctrl htb)[idx := set_ptr p (ctrl htb ! idx)]\<rparr>"

definition lock_bucket :: "nat \<Rightarrow> gs \<Rightarrow> gs option" where
  "lock_bucket bi g = do {
     l \<leftarrow> spin_acquire (ctrl (host_tbl g bi) ! 0) HTB_LOCK_BIT;
     Some (upd_bucket bi (set_lock l) g) }"

definition unlock_bucket :: "nat \<Rightarrow> gs \<Rightarrow> gs" where
  "unlock_bucket bi g =
     upd_bucket bi (\<lambda>htb. set_lock (spin_release (ctrl htb ! 0) HTB_LOCK_BIT) htb) g"

definition host_insert :: "env \<Rightarrow> gs \<Rightarrow> nat \<Rightarrow> u32 \<Rightarrow> (int \<times> gs) option" where
  "host_insert e g bi a =
     (if HTB_TEST_LOCK (host_tbl g bi) then
        Some (- 1, bump e htb_deferred_update (bump e htb_conflicts_update g))
      else do {
        g1 \<leftarrow> lock_bucket bi g;
        let idx = probe_bucket (host_tbl g1 bi) a;
        (r, g5) \<leftarrow>
          (if 0 \<le> idx then Some (idx, bump e htb_collisions_update g1)
           else do {
             let tsec = insert_tsec e g1;
             (idx, g2) \<leftarrow> allocate g1 bi tsec HOST_PRI_NONE;
             if idx < 0 then Some (idx, bump e htb_ins_fails_update g2)
             else do {
               let g3 = upd_bucket bi (init_entry (nat idx) a tsec HOST_PRI_NONE) g2;
               (p, g4) \<leftarrow> host_allocate e g3;
               Some (idx, upd_bucket bi (set_entry_ptr (nat idx) p) g4) } });
        Some (r, unlock_bucket bi g5) })"

definition raise_pri :: "nat \<Rightarrow> u32 \<Rightarrow> htbucket \<Rightarrow> htbucket" where
  "raise_pri idx pri htb =
     (if ctrl_pri (ctrl htb ! idx) < pri
      then htb\<lparr>ctrl := (ctrl htb)[idx := set_pri pri (ctrl htb ! idx)]\<rparr> else htb)"

definition host_insert_authorized :: "env \<Rightarrow> gs \<Rightarrow> nat \<Rightarrow> u32 \<Rightarrow> u32 \<Rightarrow> (int \<times> gs) option" where
  "host_insert_authorized e g bi a priority = do {
     let g0 = (if HTB_TEST_LOCK (host_tbl g bi) then bump e htb_conflicts_update g else g);
     g1 \<leftarrow> lock_bucket bi g0;
     let idx = probe_bucket (host_tbl g1 bi) a;
     (r, g4) \<leftarrow>
       (if 0 \<le> idx then
          Some (idx, upd_bucket bi (raise_pri (nat idx) priority) (bump e htb_collisions_update g1))
        else do {
          let tsec = insert_tsec e g1;
          (idx, g2) \<leftarrow> allocate g1 bi tsec HOST_PRI_NONE;
          if idx < 0 then Some (idx, g2)
          else Some (idx, upd_bucket bi (\<lambda>htb. set_entry_ptr (nat idx) 0
                            (init_entry (nat idx) a tsec priority htb)) g2) });
     Some (r, unlock_bucket bi g4) }"

text \<open>\<open>host_clear_statically_authorized\<close>: the body of the loops, slot by slot, bucket by bucket.\<close>

definition clear_slot :: "nat \<Rightarrow> gs \<Rightarrow> nat \<Rightarrow> gs option" where
  "clear_slot bi g k =
     (if ctrl_pri (ctrl (host_tbl g bi) ! k) = HOST_PRI_STATIC then do {
        let g1 = upd_bucket bi (\<lambda>htb. set_exhausted False (htb\<lparr>saddr := (saddr htb)[k := 0]\<rparr>)) g;
        write_host g1 (get_host_ptr g1 bi k) zero_host_state }
      else Some g)"

definition clear_bucket :: "gs \<Rightarrow> nat \<Rightarrow> gs option" where
  "clear_bucket g bi = fold_opt (clear_slot bi) g [0..<HTBL_BKT_SZ]"

definition host_clear_statically_authorized :: "gs \<Rightarrow> gs option" where
  "host_clear_statically_authorized g = fold_opt clear_bucket g [0..<HTBL_SIZE]"

declare get_host_ptr_def [ntfw_eval] host_lookup_def [ntfw_eval] allocate_def [ntfw_eval]
  insert_tsec_def [ntfw_eval] init_entry_def [ntfw_eval] set_entry_ptr_def [ntfw_eval]
  lock_bucket_def [ntfw_eval] unlock_bucket_def [ntfw_eval] host_insert_def [ntfw_eval]
  raise_pri_def [ntfw_eval] host_insert_authorized_def [ntfw_eval] clear_slot_def [ntfw_eval]
  clear_bucket_def [ntfw_eval]

section \<open>Lanes and priorities of a bucket\<close>

definition bucket_ok :: "htbucket \<Rightarrow> bool" where
  "bucket_ok htb \<longleftrightarrow> length (saddr htb) = 8 \<and> length (ctrl htb) = 8 \<and> \<not> HTB_TEST_LOCK htb \<and>
     (\<forall>i<8. \<forall>j<8. saddr htb ! i = saddr htb ! j \<longrightarrow> saddr htb ! i \<noteq> 0 \<longrightarrow> i = j)"

definition lane :: "htbucket \<Rightarrow> u32 \<Rightarrow> nat option" where
  "lane htb a = (let i = probe_bucket htb a in if 0 \<le> i then Some (nat i) else None)"

definition pri_at :: "htbucket \<Rightarrow> nat \<Rightarrow> u32" where
  "pri_at htb k = ctrl_pri (ctrl htb ! k)"

definition ptr_at :: "htbucket \<Rightarrow> nat \<Rightarrow> u32" where
  "ptr_at htb k = ctrl_ptr (ctrl htb ! k)"

lemma bucket_okD:
  assumes "bucket_ok htb"
  shows "length (saddr htb) = 8" "length (ctrl htb) = 8" "\<not> HTB_TEST_LOCK htb"
    "i < 8 \<Longrightarrow> j < 8 \<Longrightarrow> saddr htb ! i = saddr htb ! j \<Longrightarrow> saddr htb ! i \<noteq> 0 \<Longrightarrow> i = j"
  using assms by (auto simp: bucket_ok_def)

lemma lane_eq:
  assumes "length (saddr htb) = 8"
  shows "lane htb a =
    (if a \<in> set (saddr htb) then Some (length (takeWhile (\<lambda>x. x \<noteq> a) (saddr htb))) else None)"
  using assms by (simp add: lane_def probe_bucket_first_lane first_lane_def)

lemma lane_None: "length (saddr htb) = 8 \<Longrightarrow> lane htb a = None \<longleftrightarrow> a \<notin> set (saddr htb)"
  by (simp add: lane_eq)

lemma lane_SomeD:
  assumes "length (saddr htb) = 8" "lane htb a = Some k"
  shows "k < 8" "saddr htb ! k = a"
proof -
  have k: "k = length (takeWhile (\<lambda>x. x \<noteq> a) (saddr htb))" and a: "a \<in> set (saddr htb)"
    using assms by (auto simp: lane_eq split: if_splits)
  have "k < length (saddr htb)"
    unfolding k by (rule takeWhile_neq_less [OF a])
  then show "k < 8" "saddr htb ! k = a"
    using assms(1) nth_length_takeWhile [of "\<lambda>x. x \<noteq> a" "saddr htb"] by (auto simp: k)
qed

lemma lane_Some_iff:
  assumes "bucket_ok htb" "a \<noteq> 0"
  shows "lane htb a = Some k \<longleftrightarrow> k < 8 \<and> saddr htb ! k = a"
proof
  assume "lane htb a = Some k"
  then show "k < 8 \<and> saddr htb ! k = a" using lane_SomeD bucket_okD(1) [OF assms(1)] by blast
next
  assume k: "k < 8 \<and> saddr htb ! k = a"
  then have "a \<in> set (saddr htb)" using bucket_okD(1) [OF assms(1)] by auto
  then obtain j where j: "lane htb a = Some j"
    using bucket_okD(1) [OF assms(1)] by (simp add: lane_eq)
  with k bucket_okD(4) [OF assms(1), of k j] assms(2)
  have "k = j" using lane_SomeD [OF bucket_okD(1) [OF assms(1)] j] by auto
  with j show "lane htb a = Some k" by simp
qed

text \<open>The lane as the code sees it: \<open>probe_bucket\<close> is negative exactly when there is none.\<close>

lemma probe_lane: "lane htb a = None \<longleftrightarrow> probe_bucket htb a < 0"
  "lane htb a = Some k \<longleftrightarrow> probe_bucket htb a = int k"
  by (auto simp: lane_def Let_def)

lemma probe_ge: "- 1 \<le> probe_bucket htb a"
  by (simp add: probe_bucket_def Let_def)

lemma probe_neg: "probe_bucket htb a < 0 \<Longrightarrow> probe_bucket htb a = - 1"
  using probe_ge [of htb a] by simp

section \<open>What the lock and exhausted bits leave alone\<close>

lemma ctrl_set_top [simp]:
  "ctrl_pri (set_bits 31 1 x v) = ctrl_pri v" "ctrl_ptr (set_bits 31 1 x v) = ctrl_ptr v"
  "ctrl_age (set_bits 31 1 x v) = ctrl_age v"
  by (simp_all add: ctrl_defs HTB_AGE_BITS_def HTB_PRI_BITS_def HTB_PTR_BITS_def get_set_other
      del: One_nat_def)

lemmas ctrl_set_top_Suc [simp] = ctrl_set_top [unfolded One_nat_def]

lemma set_exhausted_frame [simp]:
  "saddr (set_exhausted b h) = saddr h" "length (ctrl (set_exhausted b h)) = length (ctrl h)"
  "HTB_TEST_LOCK (set_exhausted b h) = HTB_TEST_LOCK h"
  "probe_bucket (set_exhausted b h) a = probe_bucket h a"
  by (simp_all add: set_exhausted_def HTB_TEST_LOCK_def probe_bucket_def)

lemma pri_set_exhausted [simp]:
  "length (ctrl h) = 8 \<Longrightarrow> pri_at (set_exhausted b h) k = pri_at h k"
  "length (ctrl h) = 8 \<Longrightarrow> ptr_at (set_exhausted b h) k = ptr_at h k"
  by (auto simp: pri_at_def ptr_at_def set_exhausted_def nth_list_update)

definition locked :: "htbucket \<Rightarrow> htbucket" where
  "locked htb = set_lock (ctrl htb ! 0 OR push_bit HTB_LOCK_BIT 1) htb"

definition unlocked :: "htbucket \<Rightarrow> htbucket" where
  "unlocked htb = set_lock (spin_release (ctrl htb ! 0) HTB_LOCK_BIT) htb"

lemma lock_bucket_eq:
  "lock_bucket bi g = (if HTB_TEST_LOCK (host_tbl g bi) then None else Some (upd_bucket bi locked g))"
  by (simp add: lock_bucket_def spin_acquire_def interlocked_bts_def HTB_TEST_LOCK_def locked_def
      upd_bucket_def)

lemma unlock_bucket_eq: "unlock_bucket bi g = upd_bucket bi unlocked g"
  by (simp add: unlock_bucket_def unlocked_def [abs_def])

lemma set_lock_frame [simp]:
  "saddr (set_lock l h) = saddr h" "length (ctrl (set_lock l h)) = length (ctrl h)"
  "probe_bucket (set_lock l h) a = probe_bucket h a"
  by (simp_all add: set_lock_def probe_bucket_def)

lemma fields_top_bit:
  assumes "\<And>i. i < 31 \<Longrightarrow> bit v i = bit w i"
  shows "ctrl_pri v = ctrl_pri w" "ctrl_ptr v = ctrl_ptr w" "ctrl_age v = ctrl_age w"
  using assms by (auto intro!: bit_word_eqI simp: ctrl_defs get_bits_def HTB_AGE_BITS_def
      HTB_PRI_BITS_def HTB_PTR_BITS_def bit_simps)

lemma bit_lock_mask: "bit (push_bit HTB_LOCK_BIT (1 :: u32)) i \<longleftrightarrow> i = 31"
  unfolding HTB_LOCK_BIT_def by (rule bit_push_1) simp

lemma lock_word_fields:
  "ctrl_pri (v OR push_bit HTB_LOCK_BIT 1) = ctrl_pri v"
  "ctrl_ptr (v OR push_bit HTB_LOCK_BIT 1) = ctrl_ptr v"
  "ctrl_pri (spin_release v HTB_LOCK_BIT) = ctrl_pri v"
  "ctrl_ptr (spin_release v HTB_LOCK_BIT) = ctrl_ptr v"
proof -
  have set: "bit (v OR push_bit HTB_LOCK_BIT 1) i = bit v i" if "i < 31" for i
    using that by (simp only: bit_or_iff bit_lock_mask) simp
  have rel: "bit (spin_release v HTB_LOCK_BIT) i = bit v i" if "i < 31" for i
    using that by (simp add: bit_spin_release HTB_LOCK_BIT_def)
  show "ctrl_pri (v OR push_bit HTB_LOCK_BIT 1) = ctrl_pri v"
    "ctrl_ptr (v OR push_bit HTB_LOCK_BIT 1) = ctrl_ptr v"
    using fields_top_bit [OF set] by blast+
  show "ctrl_pri (spin_release v HTB_LOCK_BIT) = ctrl_pri v"
    "ctrl_ptr (spin_release v HTB_LOCK_BIT) = ctrl_ptr v"
    using fields_top_bit [OF rel] by blast+
qed

lemma set_lock_fields:
  assumes "length (ctrl h) = 8"
  shows "ctrl_pri l = ctrl_pri (ctrl h ! 0) \<Longrightarrow> pri_at (set_lock l h) k = pri_at h k"
    "ctrl_ptr l = ctrl_ptr (ctrl h ! 0) \<Longrightarrow> ptr_at (set_lock l h) k = ptr_at h k"
    "exhausted (set_lock l h) = exhausted h"
  using assms by (auto simp: set_lock_def pri_at_def ptr_at_def exhausted_def nth_list_update)

lemma locked_frame [simp]:
  "saddr (locked h) = saddr h" "length (ctrl (locked h)) = length (ctrl h)"
  "probe_bucket (locked h) a = probe_bucket h a"
  "saddr (unlocked h) = saddr h" "length (ctrl (unlocked h)) = length (ctrl h)"
  "probe_bucket (unlocked h) a = probe_bucket h a"
  by (simp_all add: locked_def unlocked_def)

lemma locked_fields [simp]:
  assumes "length (ctrl h) = 8"
  shows "pri_at (locked h) k = pri_at h k" "ptr_at (locked h) k = ptr_at h k"
    "pri_at (unlocked h) k = pri_at h k" "ptr_at (unlocked h) k = ptr_at h k"
    "exhausted (locked h) = exhausted h" "exhausted (unlocked h) = exhausted h"
  unfolding locked_def unlocked_def
  by (rule set_lock_fields [OF assms], rule lock_word_fields)+ (rule set_lock_fields [OF assms])+

lemma unlocked_unlocks [simp]: "length (ctrl h) = 8 \<Longrightarrow> \<not> HTB_TEST_LOCK (unlocked h)"
  by (simp add: HTB_TEST_LOCK_def unlocked_def set_lock_def bit_spin_release HTB_LOCK_BIT_def)

lemma entry_frame [simp]:
  "saddr (init_entry k a t p h) = (saddr h)[k := a]"
  "length (ctrl (init_entry k a t p h)) = length (ctrl h)"
  "saddr (set_entry_ptr k x h) = saddr h" "length (ctrl (set_entry_ptr k x h)) = length (ctrl h)"
  "saddr (raise_pri k p h) = saddr h" "length (ctrl (raise_pri k p h)) = length (ctrl h)"
  by (simp_all add: init_entry_def set_entry_ptr_def raise_pri_def)

lemma entry_fields [simp]:
  assumes "length (ctrl h) = 8" "k < 8"
  shows "pri_at (init_entry k a t p h) j = (if j = k then take_bit 2 p else pri_at h j)"
    "ptr_at (init_entry k a t p h) j = ptr_at h j"
    "pri_at (set_entry_ptr k x h) j = pri_at h j"
    "ptr_at (set_entry_ptr k x h) j = (if j = k then take_bit 18 x else ptr_at h j)"
    "ptr_at (raise_pri k p h) j = ptr_at h j"
  using assms by (auto simp: init_entry_def set_entry_ptr_def raise_pri_def pri_at_def ptr_at_def
      nth_list_update)

lemma pri_raise:
  assumes "length (ctrl h) = 8" "k < 8" "p < 4"
  shows "pri_at (raise_pri k p h) j = (if j = k then max (pri_at h k) p else pri_at h j)"
proof -
  have "take_bit 2 p = p" using assms(3) by (intro take_bit_word_self) (simp add: word_less_nat_alt)
  then show ?thesis
    using assms by (auto simp: raise_pri_def pri_at_def nth_list_update max_def)
qed

end
