(* ===== verification/Host_Map.thy ===== *)
theory Host_Map
  imports Host_Table
begin

text \<open>
  What the host table promises: the invariant of its buckets, the effect of an insertion as seen
  through lookups, and the table as an instance of the interface \<open>host_map\<close>.
\<close>

section \<open>The table invariant\<close>

definition table_ok :: "gs \<Rightarrow> bool" where
  "table_ok g \<longleftrightarrow> (\<forall>bi. bucket_ok (host_tbl g bi))"

definition host_pri :: "gs \<Rightarrow> u32 \<Rightarrow> u32 option" where
  "host_pri g a =
     (let htb = host_tbl g (host_fetch_bucket a) in map_option (pri_at htb) (lane htb a))"

lemma table_okD: "table_ok g \<Longrightarrow> bucket_ok (host_tbl g bi)"
  by (simp add: table_ok_def)

lemma table_ok_init: "table_ok gs_init"
  by (auto simp: table_ok_def bucket_ok_def gs_init_def zero_htbucket_def HTBL_BKT_SZ_def
      HTB_TEST_LOCK_def)

lemma write_host_eq:
  "write_host g p hs =
     (if pool_ok g p then Some (g\<lparr>hpool := Some ((the (hpool g))(unat p := hs))\<rparr>) else None)"
  by (auto simp: write_host_def pool_ok_def split: option.splits)

lemma write_host_frame:
  assumes "write_host g p hs = Some g'"
  shows "host_tbl g' = host_tbl g" "hp_size g' = hp_size g" "hp_true_sz g' = hp_true_sz g"
    "gs_rules g' = gs_rules g" "tbdesc g' = tbdesc g" "rule_hashsz g' = rule_hashsz g"
    "rule_seed g' = rule_seed g" "time_msec e g' = time_msec e g" "hpool g' \<noteq> None"
    "cpuls g' = cpuls g" "gs_pkey g' = gs_pkey g"
  using assms by (auto simp: write_host_eq time_msec_def split: if_splits)

lemma allocate_cases:
  assumes ok: "length (saddr (host_tbl g bi)) = 8" "length (ctrl (host_tbl g bi)) = 8"
    and "allocate g bi ts p = Some (r, g')"
  obtains (full) "r = - 1" "g' = g"
    | (fresh) k where "r = int k" "k < 8" "saddr (host_tbl g bi) ! k = 0"
        "\<not> exhausted (host_tbl g bi)"
        "g' = (if k = 7 then upd_bucket bi (set_exhausted True) g else g)"
    | (evict) k where "r = int k" "k < 8" "exhausted (host_tbl g bi)"
        "evict_victim ts (ctrl (host_tbl g bi)) = Some k"
        "pri_at (host_tbl g bi) k \<le> p"
        "write_host g (ptr_at (host_tbl g bi) k) zero_host_state = Some g'"
proof (cases "exhausted (host_tbl g bi)")
  case False
  show ?thesis
  proof (cases "lane (host_tbl g bi) 0")
    case None
    then have "probe_bucket (host_tbl g bi) 0 = - 1" by (simp add: probe_lane probe_neg)
    then show ?thesis using assms(3) False by (intro full) (auto simp: allocate_def)
  next
    case (Some k)
    with lane_SomeD [OF ok(1) Some] False assms(3) show ?thesis
      by (intro fresh [of k]) (auto simp: allocate_def probe_lane(2))
  qed
next
  case True
  then obtain k where k: "evict_victim ts (ctrl (host_tbl g bi)) = Some k" "k < 8"
    using evict_victim_Some [of "ctrl (host_tbl g bi)" ts] ok(2) by (metis length_0_conv zero_neq_numeral)
  show ?thesis
  proof (cases "p < pri_at (host_tbl g bi) k")
    case True
    then show ?thesis using assms(3) k \<open>exhausted _\<close>
      by (intro full) (auto simp: allocate_def pri_at_def)
  next
    case False
    then show ?thesis using assms(3) k True
      by (intro evict [of k])
        (auto simp: allocate_def pri_at_def ptr_at_def get_host_ptr_def bind_eq_Some_conv)
  qed
qed

section \<open>What an insertion does to its bucket\<close>

text \<open>
  \<open>entered a p r h h'\<close>: the outcome \<open>r\<close> of entering host \<open>a\<close> with priority \<open>p\<close> in the bucket \<open>h\<close>,
  with \<open>h'\<close> the bucket after. A free lane or a lane of priority \<open>HOST_PRI_NONE\<close> is taken.
\<close>

definition placed :: "nat \<Rightarrow> u32 \<Rightarrow> u32 \<Rightarrow> htbucket \<Rightarrow> htbucket \<Rightarrow> bool" where
  "placed k a q h h' \<longleftrightarrow> saddr h' = (saddr h)[k := a] \<and> length (ctrl h') = 8 \<and> \<not> HTB_TEST_LOCK h' \<and>
     (\<forall>j. pri_at h' j = (if j = k then q else pri_at h j))"

definition unchanged :: "htbucket \<Rightarrow> htbucket \<Rightarrow> bool" where
  "unchanged h h' \<longleftrightarrow> saddr h' = saddr h \<and> length (ctrl h') = 8 \<and> \<not> HTB_TEST_LOCK h' \<and>
     (\<forall>j. pri_at h' j = pri_at h j)"

definition entered :: "u32 \<Rightarrow> u32 \<Rightarrow> int \<Rightarrow> htbucket \<Rightarrow> htbucket \<Rightarrow> bool" where
  "entered a p r h h' \<longleftrightarrow>
     r = - 1 \<and> lane h a = None \<and> unchanged h h' \<or>
     (\<exists>k<8. r = int k \<and> lane h a = Some k \<and> placed k a (max (pri_at h k) p) h h') \<or>
     (\<exists>k<8. r = int k \<and> lane h a = None \<and> (saddr h ! k = 0 \<or> pri_at h k = HOST_PRI_NONE) \<and>
        placed k a p h h')"

text \<open>\<open>allocate\<close> inside an insertion, which holds the bucket lock.\<close>

lemma allocate_locked:
  assumes "bucket_ok (host_tbl g bi)"
    and "allocate (upd_bucket bi locked g) bi ts HOST_PRI_NONE = Some (r, g')"
  shows "(r = - 1 \<and> g' = upd_bucket bi locked g) \<or>
    (\<exists>k<8. r = int k \<and> (saddr (host_tbl g bi) ! k = 0 \<or> pri_at (host_tbl g bi) k = HOST_PRI_NONE) \<and>
      saddr (host_tbl g' bi) = saddr (host_tbl g bi) \<and> length (ctrl (host_tbl g' bi)) = 8 \<and>
      (\<forall>j. pri_at (host_tbl g' bi) j = pri_at (host_tbl g bi) j) \<and>
      (\<forall>bj. bj \<noteq> bi \<longrightarrow> host_tbl g' bj = host_tbl g bj))"
proof -
  note h = bucket_okD(1,2) [OF assms(1)]
  have len: "length (saddr (host_tbl (upd_bucket bi locked g) bi)) = 8"
    "length (ctrl (host_tbl (upd_bucket bi locked g) bi)) = 8" using h by simp_all
  show ?thesis
  proof (rule allocate_cases [OF len assms(2)])
    fix k
    assume fresh: "r = int k" "k < 8" "saddr (host_tbl (upd_bucket bi locked g) bi) ! k = 0"
      "g' = (if k = 7 then upd_bucket bi (set_exhausted True) (upd_bucket bi locked g)
             else upd_bucket bi locked g)"
    then show ?thesis using h by (intro disjI2 exI [of _ k]) auto
  next
    fix k
    assume evict: "r = int k" "k < 8"
      "pri_at (host_tbl (upd_bucket bi locked g) bi) k \<le> HOST_PRI_NONE"
      "write_host (upd_bucket bi locked g) (ptr_at (host_tbl (upd_bucket bi locked g) bi) k)
         zero_host_state = Some g'"
    then have "pri_at (host_tbl g bi) k = HOST_PRI_NONE"
      using h by (simp add: HOST_PRI_NONE_def word_le_nat_alt unsigned_eq_0_iff)
    with evict h write_host_frame(1) [OF evict(4)] show ?thesis
      by (intro disjI2 exI [of _ k]) auto
  qed simp
qed

lemma host_allocate_frame:
  assumes "host_allocate e g = Some (p, g')"
  shows "host_tbl g' = host_tbl g" "hpool g' = hpool g" "gs_rules g' = gs_rules g"
    "tbdesc g' = tbdesc g" "rule_hashsz g' = rule_hashsz g" "rule_seed g' = rule_seed g"
    "p = hp_size g + 1" "hp_size g' = hp_size g + 1"
  using assms by (auto simp: host_allocate_def host_pool_grow_def Let_def split: if_splits)

lemma host_insert_entered:
  assumes "table_ok g" "host_insert e g bi a = Some (r, g')"
  shows "entered a HOST_PRI_NONE r (host_tbl g bi) (host_tbl g' bi) \<and>
    (\<forall>bj. bj \<noteq> bi \<longrightarrow> host_tbl g' bj = host_tbl g bj)"
proof -
  let ?h = "host_tbl g bi" and ?g1 = "upd_bucket bi locked g"
  note ok = table_okD [OF assms(1), of bi]
  note h = bucket_okD(1-3) [OF ok]
  have max0: "max x HOST_PRI_NONE = x" for x by (simp add: HOST_PRI_NONE_def)
  show ?thesis
  proof (cases "lane ?h a")
    case (Some k)
    then have pr: "probe_bucket ?h a = int k" by (simp add: probe_lane)
    have "r = int k" and g': "g' = unlock_bucket bi (bump e htb_collisions_update ?g1)"
      using assms(2) h(3) by (auto simp: host_insert_def lock_bucket_eq pr Let_def)
    moreover have "(saddr ?h)[k := a] = saddr ?h" "k < 8"
      using lane_SomeD [OF h(1) Some] list_update_id [of "saddr ?h" k] by auto
    ultimately show ?thesis using Some h
      by (auto simp: entered_def placed_def max0 unlock_bucket_eq)
  next
    case None
    then have pr: "probe_bucket ?h a = - 1" by (simp add: probe_lane probe_neg)
    let ?ts = "insert_tsec e ?g1"
    obtain i g2 where al: "allocate ?g1 bi ?ts HOST_PRI_NONE = Some (i, g2)"
      using assms(2) h(3) by (auto simp: host_insert_def lock_bucket_eq pr Let_def bind_eq_Some_conv)
    from allocate_locked [OF ok al] consider (none) "i = - 1" "g2 = ?g1"
      | (slot) k where "k < 8" "i = int k" "saddr ?h ! k = 0 \<or> pri_at ?h k = HOST_PRI_NONE"
        "saddr (host_tbl g2 bi) = saddr ?h" "length (ctrl (host_tbl g2 bi)) = 8"
        "\<forall>j. pri_at (host_tbl g2 bi) j = pri_at ?h j"
        "\<forall>bj. bj \<noteq> bi \<longrightarrow> host_tbl g2 bj = host_tbl g bj"
      by blast
    then show ?thesis
    proof cases
      case none
      then have "r = - 1" "g' = unlock_bucket bi (bump e htb_ins_fails_update ?g1)"
        using assms(2) h(3) al by (auto simp: host_insert_def lock_bucket_eq pr Let_def)
      then show ?thesis using None h by (auto simp: entered_def unchanged_def unlock_bucket_eq)
    next
      case k: (slot k)
      let ?g3 = "upd_bucket bi (init_entry k a ?ts HOST_PRI_NONE) g2"
      obtain p g4 where hal: "host_allocate e ?g3 = Some (p, g4)" "r = int k"
        and g': "g' = unlock_bucket bi (upd_bucket bi (set_entry_ptr k p) g4)"
        using assms(2) h(3) al k(2) by (auto simp: host_insert_def lock_bucket_eq pr Let_def bind_eq_Some_conv)
      have "placed k a HOST_PRI_NONE ?h (host_tbl g' bi)"
        using k h by (simp add: g' unlock_bucket_eq host_allocate_frame(1) [OF hal(1)] placed_def
            HOST_PRI_NONE_def)
      moreover have "\<forall>bj. bj \<noteq> bi \<longrightarrow> host_tbl g' bj = host_tbl g bj"
        using k(7) by (simp add: g' unlock_bucket_eq host_allocate_frame(1) [OF hal(1)])
      ultimately show ?thesis using None k(1-3) hal(2) by (auto simp: entered_def)
    qed
  qed
qed

lemma host_insert_authorized_entered:
  assumes "table_ok g" "p < 4" "host_insert_authorized e g bi a p = Some (r, g')"
  shows "entered a p r (host_tbl g bi) (host_tbl g' bi) \<and>
    (\<forall>bj. bj \<noteq> bi \<longrightarrow> host_tbl g' bj = host_tbl g bj)"
proof -
  let ?h = "host_tbl g bi" and ?g1 = "upd_bucket bi locked g"
  note ok = table_okD [OF assms(1), of bi]
  note h = bucket_okD(1-3) [OF ok]
  have p2: "take_bit 2 p = p" using assms(2) by (intro take_bit_word_self) (simp add: word_less_nat_alt)
  show ?thesis
  proof (cases "lane ?h a")
    case (Some k)
    then have pr: "probe_bucket ?h a = int k" by (simp add: probe_lane)
    have "r = int k" and
      g': "g' = unlock_bucket bi (upd_bucket bi (raise_pri k p) (bump e htb_collisions_update ?g1))"
      using assms(3) h(3) by (auto simp: host_insert_authorized_def lock_bucket_eq pr Let_def)
    moreover have "(saddr ?h)[k := a] = saddr ?h" "k < 8"
      using lane_SomeD [OF h(1) Some] list_update_id [of "saddr ?h" k] by auto
    ultimately show ?thesis using Some h assms(2)
      by (auto simp: entered_def placed_def pri_raise unlock_bucket_eq)
  next
    case None
    then have pr: "probe_bucket ?h a = - 1" by (simp add: probe_lane probe_neg)
    let ?ts = "insert_tsec e ?g1"
    obtain i g2 where al: "allocate ?g1 bi ?ts HOST_PRI_NONE = Some (i, g2)"
      using assms(3) h(3) by (auto simp: host_insert_authorized_def lock_bucket_eq pr Let_def bind_eq_Some_conv)
    from allocate_locked [OF ok al] consider (none) "i = - 1" "g2 = ?g1"
      | (slot) k where "k < 8" "i = int k" "saddr ?h ! k = 0 \<or> pri_at ?h k = HOST_PRI_NONE"
        "saddr (host_tbl g2 bi) = saddr ?h" "length (ctrl (host_tbl g2 bi)) = 8"
        "\<forall>j. pri_at (host_tbl g2 bi) j = pri_at ?h j"
        "\<forall>bj. bj \<noteq> bi \<longrightarrow> host_tbl g2 bj = host_tbl g bj"
      by blast
    then show ?thesis
    proof cases
      case none
      then have "r = - 1" "g' = unlock_bucket bi ?g1"
        using assms(3) h(3) al by (auto simp: host_insert_authorized_def lock_bucket_eq pr Let_def)
      then show ?thesis using None h by (auto simp: entered_def unchanged_def unlock_bucket_eq)
    next
      case k: (slot k)
      have r: "r = int k" and g': "g' = unlock_bucket bi
            (upd_bucket bi (\<lambda>htb. set_entry_ptr k 0 (init_entry k a ?ts p htb)) g2)"
        using assms(3) h(3) al k(2)
        by (auto simp: host_insert_authorized_def lock_bucket_eq pr Let_def bind_eq_Some_conv)
      have "placed k a p ?h (host_tbl g' bi)"
        using k h p2 by (simp add: g' unlock_bucket_eq placed_def)
      moreover have "\<forall>bj. bj \<noteq> bi \<longrightarrow> host_tbl g' bj = host_tbl g bj"
        using k(7) by (simp add: g' unlock_bucket_eq)
      ultimately show ?thesis using None k(1-3) r by (auto simp: entered_def)
    qed
  qed
qed

text \<open>With a free lane in a bucket that is not marked exhausted, an insertion succeeds.\<close>

lemma host_insert_authorized_free:
  assumes ok: "bucket_ok (host_tbl g bi)" and ex: "\<not> exhausted (host_tbl g bi)"
    and free: "lane (host_tbl g bi) 0 = Some j"
  shows "\<exists>r g'. host_insert_authorized e g bi a p = Some (r, g') \<and> 0 \<le> r"
proof (cases "lane (host_tbl g bi) a")
  case (Some k)
  then show ?thesis using bucket_okD(3) [OF ok]
    by (auto simp: host_insert_authorized_def lock_bucket_eq probe_lane(2) Let_def)
next
  case None
  have al: "allocate (upd_bucket bi locked g) bi ts HOST_PRI_NONE = Some (int j,
      if int j = 7 then upd_bucket bi (set_exhausted True) (upd_bucket bi locked g)
      else upd_bucket bi locked g)" for ts
    using bucket_okD(2) [OF ok] ex free by (simp add: allocate_def probe_lane(2) Let_def)
  have "probe_bucket (host_tbl g bi) a < 0" using None by (simp add: probe_lane)
  then show ?thesis using bucket_okD(3) [OF ok] al
    by (simp add: host_insert_authorized_def lock_bucket_eq Let_def)
qed

text \<open>
  Exactly: a bucket takes a new host when it is marked exhausted and one of its hosts is not authorised,
  or is not marked and has a free lane.
\<close>

definition takes_host :: "htbucket \<Rightarrow> bool" where
  "takes_host h \<longleftrightarrow> (if exhausted h then \<exists>k<8. pri_at h k = HOST_PRI_NONE else lane h 0 \<noteq> None)"

lemma allocate_takes:
  assumes h: "length (ctrl (host_tbl g bi)) = 8" and al: "allocate g bi ts HOST_PRI_NONE = Some (r, g')"
  shows "0 \<le> r \<longleftrightarrow> takes_host (host_tbl g bi)"
proof (cases "exhausted (host_tbl g bi)")
  case False
  then show ?thesis using al by (auto simp: allocate_def takes_host_def probe_lane Let_def not_less)
next
  case True
  let ?c = "ctrl (host_tbl g bi)"
  obtain k where k: "evict_victim ts ?c = Some k" "k < 8"
    "\<And>j. j < 8 \<Longrightarrow> evict_dist ts (?c ! k) \<le> evict_dist ts (?c ! j)"
    using evict_victim_Some [of ?c ts] h by (metis length_0_conv zero_neq_numeral)
  have "HOST_PRI_NONE < pri_at (host_tbl g bi) k \<longleftrightarrow> (\<forall>j<8. pri_at (host_tbl g bi) j \<noteq> HOST_PRI_NONE)"
  proof
    assume pos: "HOST_PRI_NONE < pri_at (host_tbl g bi) k"
    show "\<forall>j<8. pri_at (host_tbl g bi) j \<noteq> HOST_PRI_NONE"
    proof (intro allI impI)
      fix j assume "j < (8 :: nat)"
      from k(3) [OF this] have "unat (pri_at (host_tbl g bi) k) \<le> unat (pri_at (host_tbl g bi) j)"
        unfolding evict_dist_le_iff by (auto simp: pri_at_def)
      with pos show "pri_at (host_tbl g bi) j \<noteq> HOST_PRI_NONE"
        by (auto simp: HOST_PRI_NONE_def word_less_nat_alt)
    qed
  next
    assume "\<forall>j<8. pri_at (host_tbl g bi) j \<noteq> HOST_PRI_NONE"
    with k(2) show "HOST_PRI_NONE < pri_at (host_tbl g bi) k"
      by (simp add: HOST_PRI_NONE_def word_gt_0)
  qed
  then show ?thesis using True al k(1)
    by (auto simp: allocate_def takes_host_def pri_at_def split: if_splits bind_splits)
qed

lemma insert_takes:
  assumes "table_ok g" "host_insert_authorized e g bi a p = Some (r, g')"
  shows "0 \<le> r \<longleftrightarrow> lane (host_tbl g bi) a \<noteq> None \<or> takes_host (host_tbl g bi)"
proof (cases "lane (host_tbl g bi) a")
  case (Some k)
  then have "r = int k" using assms(2) bucket_okD(3) [OF table_okD [OF assms(1), of bi]]
    by (auto simp: host_insert_authorized_def lock_bucket_eq probe_lane(2) Let_def)
  then show ?thesis using Some by simp
next
  case None
  note h = bucket_okD(1-3) [OF table_okD [OF assms(1), of bi]]
  let ?g1 = "upd_bucket bi locked g"
  have pr: "probe_bucket (host_tbl g bi) a < 0" using None by (simp add: probe_lane)
  obtain i g2 where al: "allocate ?g1 bi (insert_tsec e ?g1) HOST_PRI_NONE = Some (i, g2)" and r: "r = i"
    using assms(2) h(3) pr
    by (auto simp: host_insert_authorized_def lock_bucket_eq Let_def bind_eq_Some_conv split: if_splits)
  have "0 \<le> i \<longleftrightarrow> takes_host (locked (host_tbl g bi))" using allocate_takes [OF _ al] h(2) by simp
  then show ?thesis using None h(2) by (simp add: r takes_host_def lane_def)
qed

section \<open>The effect seen through lookups\<close>

definition bucket_pri :: "htbucket \<Rightarrow> u32 \<Rightarrow> u32 option" where
  "bucket_pri h a = map_option (pri_at h) (lane h a)"

lemma host_pri_bucket: "host_pri g a = bucket_pri (host_tbl g (host_fetch_bucket a)) a"
  by (simp add: host_pri_def bucket_pri_def Let_def)

lemma lane_unchanged: "unchanged h h' \<Longrightarrow> lane h' a = lane h a"
  by (simp add: unchanged_def lane_def probe_bucket_def)

lemma placed_ok:
  assumes ok: "bucket_ok h" and k: "k < 8" and pl: "placed k a q h h'"
    and new: "lane h a = None \<or> lane h a = Some k"
  shows "bucket_ok h'"
proof -
  note h = bucket_okD(1,2) [OF ok]
  have notin: "saddr h ! j \<noteq> a" if "j < 8" "j \<noteq> k" "a \<noteq> 0" for j
    using new lane_Some_iff [OF ok that(3)] lane_None [OF h(1), of a] that h(1) by (metis nth_mem option.inject)
  show ?thesis unfolding bucket_ok_def
  proof (intro conjI allI impI)
    fix i j assume ij: "i < 8" "j < 8" "saddr h' ! i = saddr h' ! j" "saddr h' ! i \<noteq> 0"
    show "i = j"
    proof (cases "i = k \<or> j = k")
      case True
      then show ?thesis using ij notin [of i] notin [of j] pl h(1) k
        by (auto simp: placed_def nth_list_update split: if_splits)
    next
      case False
      then show ?thesis using ij bucket_okD(4) [OF ok ij(1,2)] pl by (simp add: placed_def)
    qed
  qed (use pl h in \<open>auto simp: placed_def\<close>)
qed

lemma placed_lane:
  assumes ok: "bucket_ok h" and k: "k < 8" and pl: "placed k a q h h'"
    and new: "lane h a = None \<or> lane h a = Some k" and a: "a \<noteq> 0"
  shows "bucket_pri h' a = Some q"
    and "b \<noteq> 0 \<Longrightarrow> b \<noteq> a \<Longrightarrow> bucket_pri h' b = (if saddr h ! k = b then None else bucket_pri h b)"
proof -
  note h = bucket_okD(1,2) [OF ok] and ok' = placed_ok [OF ok k pl new]
  have "lane h' a = Some k"
    using pl k h(1) by (simp add: lane_Some_iff [OF ok' a] placed_def)
  then show "bucket_pri h' a = Some q" using pl by (simp add: bucket_pri_def placed_def)
  assume b: "b \<noteq> 0" "b \<noteq> a"
  have lanes: "lane h' b = Some j \<longleftrightarrow> lane h b = Some j \<and> j \<noteq> k" for j
    using b(2) pl k h(1) unfolding lane_Some_iff [OF ok' b(1)] lane_Some_iff [OF ok b(1)]
    by (auto simp: placed_def nth_list_update)
  have "lane h' b = (if saddr h ! k = b then None else lane h b)"
  proof (cases "lane h b")
    case None
    then show ?thesis using lanes by (metis not_None_eq)
  next
    case (Some j)
    then have "saddr h ! k = b \<longleftrightarrow> j = k"
      using lane_Some_iff [OF ok b(1)] k by (metis option.inject)
    with lanes Some show ?thesis by (metis not_None_eq option.inject)
  qed
  moreover have "bucket_pri h' b = map_option (pri_at h) (lane h' b)"
    using pl lanes by (cases "lane h' b") (auto simp: bucket_pri_def placed_def)
  ultimately show "bucket_pri h' b = (if saddr h ! k = b then None else bucket_pri h b)"
    by (simp add: bucket_pri_def)
qed

lemma entered_ok:
  assumes ok: "bucket_ok h" and ent: "entered a p r h h'"
  shows "bucket_ok h'"
proof -
  from ent consider (none) "unchanged h h'"
    | (slot) k q where "k < 8" "placed k a q h h'" "lane h a = None \<or> lane h a = Some k"
    by (auto simp: entered_def)
  then show ?thesis
  proof cases
    case none
    then show ?thesis using ok by (auto simp: unchanged_def bucket_ok_def)
  next
    case (slot k q)
    then show ?thesis using placed_ok [OF ok] by blast
  qed
qed

lemma host_insert_authorized_table_ok:
  assumes "table_ok g" "p < 4" "host_insert_authorized e g bi a p = Some (r, g')"
  shows "table_ok g'"
  using host_insert_authorized_entered [OF assms] entered_ok table_okD [OF assms(1)]
  unfolding table_ok_def by metis

lemma entered_effect:
  assumes ok: "bucket_ok h" and a: "a \<noteq> 0" and ent: "entered a p r h h'"
  shows "bucket_ok h'"
    and "0 \<le> r \<Longrightarrow> bucket_pri h' a = Some (case bucket_pri h a of None \<Rightarrow> p | Some q \<Rightarrow> max q p)"
    and "r < 0 \<Longrightarrow> bucket_pri h' b = bucket_pri h b"
    and "b \<noteq> 0 \<Longrightarrow> b \<noteq> a \<Longrightarrow> bucket_pri h' b = bucket_pri h b \<or>
      bucket_pri h b = Some HOST_PRI_NONE \<and> bucket_pri h' b = None"
proof -
  note h = bucket_okD(1-4) [OF ok]
  from ent consider (none) "r = - 1" "unchanged h h'"
    | (slot) k q where "k < 8" "r = int k" "placed k a q h h'" "lane h a = None \<or> lane h a = Some k"
        "lane h a = Some k \<or> saddr h ! k = 0 \<or> pri_at h k = HOST_PRI_NONE"
        "q = (case bucket_pri h a of None \<Rightarrow> p | Some q \<Rightarrow> max q p)"
    by (auto simp: entered_def bucket_pri_def)
  note cs = this
  show "bucket_ok h'" by (rule entered_ok [OF ok ent])
  show "0 \<le> r \<Longrightarrow> bucket_pri h' a = Some (case bucket_pri h a of None \<Rightarrow> p | Some q \<Rightarrow> max q p)"
    using cs by cases (use placed_lane(1) [OF ok _ _ _ a] in auto)
  have same: "bucket_pri h' b = bucket_pri h b" if "unchanged h h'" for b
    using that lane_unchanged [OF that, of b] by (simp add: bucket_pri_def unchanged_def cong: option.map_cong)
  show "r < 0 \<Longrightarrow> bucket_pri h' b = bucket_pri h b"
    using cs by cases (use same in auto)
  assume b: "b \<noteq> 0" "b \<noteq> a"
  show "bucket_pri h' b = bucket_pri h b \<or>
      bucket_pri h b = Some HOST_PRI_NONE \<and> bucket_pri h' b = None"
    using cs
  proof cases
    case none
    then show ?thesis using same by simp
  next
    case (slot k q)
    note b' = placed_lane(2) [OF ok slot(1,3,4) a b]
    show ?thesis
    proof (cases "saddr h ! k = b")
      case True
      then have lb: "lane h b = Some k" using slot(1) by (simp add: lane_Some_iff [OF ok b(1)])
      have "lane h a \<noteq> Some k" using True b(2) lane_Some_iff [OF ok a] by auto
      with slot(5) True b(1) have "pri_at h k = HOST_PRI_NONE" by auto
      with lb b' True show ?thesis by (simp add: bucket_pri_def)
    qed (simp add: b')
  qed
qed

section \<open>The table is a host map\<close>

definition enter :: "env \<Rightarrow> gs \<Rightarrow> u32 \<Rightarrow> u32 \<Rightarrow> (bool \<times> gs) option" where
  "enter e g a p =
     map_option (map_prod (\<lambda>r. 0 \<le> r) id)
       (if p = HOST_PRI_NONE then host_insert e g (host_fetch_bucket a) a
        else host_insert_authorized e g (host_fetch_bucket a) a p)"

definition legal_host :: "u32 \<Rightarrow> u32 \<Rightarrow> bool" where
  "legal_host a p \<longleftrightarrow> a \<noteq> 0 \<and> p < 4"

lemma enter_entered:
  assumes "table_ok g" "legal_host a p" "enter e g a p = Some (ok, g')"
  obtains r where "ok \<longleftrightarrow> 0 \<le> r"
    "entered a p r (host_tbl g (host_fetch_bucket a)) (host_tbl g' (host_fetch_bucket a))"
    "\<And>bj. bj \<noteq> host_fetch_bucket a \<Longrightarrow> host_tbl g' bj = host_tbl g bj"
proof (cases "p = HOST_PRI_NONE")
  case True
  then obtain r where "host_insert e g (host_fetch_bucket a) a = Some (r, g')" "ok \<longleftrightarrow> 0 \<le> r"
    using assms(3) by (auto simp: enter_def)
  then show ?thesis using that host_insert_entered [OF assms(1)] True by metis
next
  case False
  then obtain r where "host_insert_authorized e g (host_fetch_bucket a) a p = Some (r, g')" "ok \<longleftrightarrow> 0 \<le> r"
    using assms(3) by (auto simp: enter_def)
  then show ?thesis
    using that host_insert_authorized_entered [OF assms(1)] assms(2) by (metis legal_host_def)
qed

interpretation hm: host_map "enter e" host_pri HOST_PRI_NONE table_ok legal_host for e
proof unfold_locales
  show "HOST_PRI_NONE \<le> p" for p by (simp add: HOST_PRI_NONE_def)
  fix g g' a p ok
  assume g: "table_ok g" and leg: "legal_host a p"
  have a: "a \<noteq> 0" using leg by (simp add: legal_host_def)
  let ?bi = "host_fetch_bucket a"
  note bok = table_okD [OF g]
  show "table_ok g'" if "enter e g a p = Some (ok, g')"
    using enter_entered [OF g leg that] entered_effect(1) [OF bok a] bok
    by (metis table_ok_def)
  show "host_pri g' a = Some (case host_pri g a of None \<Rightarrow> p | Some q \<Rightarrow> max q p)"
    if "enter e g a p = Some (True, g')"
    using enter_entered [OF g leg that] entered_effect(2) [OF bok a] by (metis host_pri_bucket)
  fix b q
  assume b: "legal_host b q"
  show "host_pri g' b = host_pri g b" if "enter e g a p = Some (False, g')"
  proof (rule enter_entered [OF g leg that])
    fix r assume r: "False = (0 \<le> r)" "entered a p r (host_tbl g ?bi) (host_tbl g' ?bi)"
      "\<And>bj. bj \<noteq> ?bi \<Longrightarrow> host_tbl g' bj = host_tbl g bj"
    show ?thesis
      using entered_effect(3) [OF bok a r(2), of b] r(1,3) by (cases "host_fetch_bucket b = ?bi") (auto simp: host_pri_bucket)
  qed
  show "host_pri g' b = host_pri g b \<or> host_pri g b = Some HOST_PRI_NONE \<and> host_pri g' b = None"
    if "enter e g a p = Some (ok, g')" "b \<noteq> a"
  proof (rule enter_entered [OF g leg that(1)])
    fix r assume r: "entered a p r (host_tbl g ?bi) (host_tbl g' ?bi)"
      "\<And>bj. bj \<noteq> ?bi \<Longrightarrow> host_tbl g' bj = host_tbl g bj"
    have "b \<noteq> 0" using b by (simp add: legal_host_def)
    then show ?thesis
      using entered_effect(4) [OF bok a r(1), of b] that(2) r(2)
      by (cases "host_fetch_bucket b = ?bi") (auto simp: host_pri_bucket)
  qed
qed

end
