(* ===== verification/Engine_Inv.thy ===== *)
theory Engine_Inv
  imports Host_Map
begin

text \<open>
  The invariant of the engine's state between two calls, and the totality of the host operations
  under it: no operation reads or writes outside the tables, waits for ever, or leaves a lock held.
\<close>

section \<open>The pool\<close>

definition host_state_ok :: "host_state \<Rightarrow> bool" where
  "host_state_ok hs \<longleftrightarrow> length (hs_tb hs) = MAX_METERS \<and> \<not> bit (hs_lock hs) 0"

definition pool_inv :: "gs \<Rightarrow> bool" where
  "pool_inv g \<longleftrightarrow> unat (hp_true_sz g) = 64 * ((unat (hp_size g) + 32) div 64 + 1) \<and>
     (case hpool g of None \<Rightarrow> False | Some m \<Rightarrow> \<forall>n. host_state_ok (m n)) \<and>
     (\<forall>bi. length (saddr (host_tbl g bi)) = 8 \<and> length (ctrl (host_tbl g bi)) = 8 \<and>
       (\<forall>k<8. ptr_at (host_tbl g bi) k < hp_true_sz g))"

text \<open>Room for \<open>n\<close> more allocations in the region of the pool.\<close>

definition pool_room :: "nat \<Rightarrow> gs \<Rightarrow> bool" where
  "pool_room n g \<longleftrightarrow> uint (hp_size g) + int n + 32 < HPOOL_SIZE"

lemma pool_room_iff: "pool_room n g \<longleftrightarrow> unat (hp_size g) + n + 32 < 2097152"
  unfolding pool_room_def HPOOL_SIZE_lanes(2) uint_nat by linarith

lemma host_state_ok_zero [simp]: "host_state_ok zero_host_state"
  by (simp add: host_state_ok_def zero_host_state_def)

lemma pool_invD:
  assumes "pool_inv g"
  shows "\<exists>m. hpool g = Some m \<and> (\<forall>n. host_state_ok (m n))"
    "k < 8 \<Longrightarrow> ptr_at (host_tbl g bi) k < hp_true_sz g"
    "length (saddr (host_tbl g bi)) = 8" "length (ctrl (host_tbl g bi)) = 8"
    "k < 8 \<Longrightarrow> pool_ok g (ptr_at (host_tbl g bi) k)"
  using assms by (auto simp: pool_inv_def pool_ok_def split: option.splits)

text \<open>The test for growth: the index is half an interval past a multiple of the growth rate.\<close>

lemma grow_test: "(idx - HPOOL_GROW div 2) AND (HPOOL_GROW - 1) = 0 \<longleftrightarrow> (unat idx + 32) mod 64 = 0"
proof -
  have "(idx - 32) AND 63 = take_bit 6 (idx - 32)"
    by (simp add: take_bit_eq_mask mask_eq_exp_minus_1)
  moreover have "unat (take_bit 6 (idx - 32)) = (unat idx + 32) mod 64"
  proof -
    have "idx - 32 = idx + 4294967264" by simp
    then have "unat (idx - 32) = (unat idx + 4294967264) mod 4294967296"
      by (simp only:) (simp add: unat_word_ariths(1))
    then have "unat (idx - 32) mod 64 = (unat idx + 4294967264) mod 64"
      by (simp add: mod_mod_cancel)
    also have "\<dots> = (unat idx + 32) mod 64"
      using mod_mult_self1 [of "unat idx + 32" 67108863 64] by (simp add: add.commute)
    finally have "unat (idx - 32) mod 2 ^ 6 = (unat idx + 32) mod 64" by simp
    then show ?thesis unfolding unsigned_take_bit_eq take_bit_eq_mod [where ?'a = nat] .
  qed
  ultimately have "unat ((idx - 32) AND 63) = (unat idx + 32) mod 64" by simp
  moreover have "x = 0 \<longleftrightarrow> unat x = 0" for x :: u32 by (simp add: unsigned_eq_0_iff)
  ultimately show ?thesis unfolding HPOOL_GROW_def by simp
qed

lemma div_step: "(n + 33) div 64 = (if (n + 33) mod 64 = 0 then (n + 32) div 64 + 1 else (n + 32) div 64)"
  for n :: nat
proof -
  have "Suc (n + 32) = n + 33" by simp
  with div_Suc [of "n + 32" 64] show ?thesis by (simp only: Suc_eq_plus1)
qed

definition pool_size_ok :: "gs \<Rightarrow> bool" where
  "pool_size_ok g \<longleftrightarrow> unat (hp_true_sz g) = 64 * ((unat (hp_size g) + 32) div 64 + 1)"

text \<open>The growth stays inside the region while there is room.\<close>

lemma host_pool_grow_ok:
  assumes "pool_size_ok g" "(unat (hp_size g) + 33) mod 64 = 0" "pool_room 1 g"
  shows "host_pool_grow g = Some (g\<lparr>hp_true_sz := hp_true_sz g + HPOOL_GROW\<rparr>)"
    "unat (hp_true_sz g + HPOOL_GROW) = 64 * ((unat (hp_size g) + 32) div 64 + 2)"
proof -
  let ?n = "unat (hp_size g)"
  have true: "unat (hp_true_sz g) = 64 * ((?n + 32) div 64 + 1)"
    using assms(1) by (simp add: pool_size_ok_def)
  have le: "64 * (m div 64) + 128 \<le> 2097152" if "(m + 1) mod 64 = 0" "m + 1 < 2097152" for m :: nat
  proof -
    from that(1) obtain q where q: "m + 1 = 64 * q" by (auto elim!: dvdE simp flip: dvd_eq_mod_eq_0)
    then have "m = 63 + 64 * (q - 1)" "1 \<le> q" by (cases q; simp)+
    moreover from q that(2) have "q < 32768" by simp
    ultimately show ?thesis by simp
  qed
  have bound: "64 * ((?n + 32) div 64) + 128 \<le> 2097152"
    by (rule le) (use assms(2,3) in \<open>simp_all add: pool_room_iff add.commute\<close>)
  then show "host_pool_grow g = Some (g\<lparr>hp_true_sz := hp_true_sz g + HPOOL_GROW\<rparr>)"
    by (simp add: host_pool_grow_eq true)
  show "unat (hp_true_sz g + HPOOL_GROW) = 64 * ((?n + 32) div 64 + 2)"
    using bound by (simp add: unat_word_ariths HPOOL_GROW_def true)
qed

text \<open>
  An allocation returns, with an index inside the pool's committed part, and grows the pool by
  half an interval before the index that would need it.
\<close>

lemma host_allocate_ok:
  assumes "pool_size_ok g" "pool_room 1 g"
  obtains p g' where "host_allocate e g = Some (p, g')" "pool_size_ok g'" "p < hp_true_sz g'"
    "hp_true_sz g \<le> hp_true_sz g'"
proof -
  let ?n = "unat (hp_size g)"
  let ?g1 = "g\<lparr>hp_size := hp_size g + 1\<rparr>"
  have n: "?n + 33 < 2097152" using assms(2) by (simp add: pool_room_iff)
  then have idx: "unat (hp_size g + 1) = ?n + 1" by (simp add: unat_word_ariths)
  have idx32: "unat (hp_size g + 1) + 32 = ?n + 33" using idx by simp
  have test: "(hp_size g + 1 - HPOOL_GROW div 2) AND (HPOOL_GROW - 1) = 0 \<longleftrightarrow> (?n + 33) mod 64 = 0"
    unfolding grow_test idx by (simp add: ac_simps)
  have step: "(?n + 33) div 64 = (if (?n + 33) mod 64 = 0 then (?n + 32) div 64 + 1 else (?n + 32) div 64)"
    by (rule div_step)
  have true: "unat (hp_true_sz g) = 64 * ((?n + 32) div 64 + 1)"
    using assms(1) by (simp add: pool_size_ok_def)
  show ?thesis
  proof (cases "(?n + 33) mod 64 = 0")
    case True
    note grow = host_pool_grow_ok [OF assms(1) True assms(2)]
    have "host_pool_grow ?g1 = Some (?g1\<lparr>hp_true_sz := hp_true_sz g + HPOOL_GROW\<rparr>)"
      using grow(1) by (simp add: host_pool_grow_eq split: if_splits)
    then have "host_allocate e g = Some (hp_size g + 1, ?g1\<lparr>hp_true_sz := hp_true_sz g + HPOOL_GROW\<rparr>)"
      unfolding host_allocate_def Let_def test using True by simp
    then show ?thesis
    proof (rule that)
      show "pool_size_ok (?g1\<lparr>hp_true_sz := hp_true_sz g + HPOOL_GROW\<rparr>)"
        using True step by (simp add: pool_size_ok_def grow(2) idx32)
      show "hp_size g + 1 < hp_true_sz (?g1\<lparr>hp_true_sz := hp_true_sz g + HPOOL_GROW\<rparr>)"
        "hp_true_sz g \<le> hp_true_sz (?g1\<lparr>hp_true_sz := hp_true_sz g + HPOOL_GROW\<rparr>)"
        by (simp_all add: word_less_nat_alt word_le_nat_alt grow(2) idx true)
    qed
  next
    case False
    have lt: "hp_size g + 1 < hp_true_sz g"
      using False by (simp add: word_less_nat_alt idx true)
    then have "host_allocate e g = Some (hp_size g + 1, ?g1)"
      unfolding host_allocate_def Let_def test using False by (simp add: not_le)
    then show ?thesis
    proof (rule that)
      show "pool_size_ok ?g1"
        using False step by (simp add: pool_size_ok_def idx32 true)
    qed (use lt in simp_all)
  qed
qed

section \<open>Steps that keep the pool invariant\<close>

definition same_config :: "gs \<Rightarrow> gs \<Rightarrow> bool" where
  "same_config g g' \<longleftrightarrow> gs_rules g' = gs_rules g \<and> rule_seed g' = rule_seed g \<and>
     rule_hashsz g' = rule_hashsz g \<and> tbdesc g' = tbdesc g \<and> hpc_hz g' = hpc_hz g \<and>
     gs_pkey g' = gs_pkey g"

lemma same_config_refl [simp]: "same_config g g"
  by (simp add: same_config_def)

lemma same_config_trans: "same_config g g' \<Longrightarrow> same_config g' g'' \<Longrightarrow> same_config g g''"
  by (simp add: same_config_def)

lemma same_config_upd [simp]:
  "same_config g (upd_bucket bi f g') = same_config g g'" "same_config g (bump e u g') = same_config g g'"
  by (simp_all add: same_config_def)

lemma pool_inv_bump [simp]: "pool_inv (bump e u g) = pool_inv g"
  by (simp add: pool_inv_def)

lemma pool_inv_upd:
  assumes "pool_inv g" "length (saddr (f (host_tbl g bi))) = 8" "length (ctrl (f (host_tbl g bi))) = 8"
    and "\<And>k. k < 8 \<Longrightarrow> ptr_at (f (host_tbl g bi)) k < hp_true_sz g"
  shows "pool_inv (upd_bucket bi f g)"
  using assms by (simp add: pool_inv_def)

lemma write_host_ok:
  assumes "pool_inv g" "pool_ok g p" "host_state_ok hs"
  obtains g' where "write_host g p hs = Some g'" "pool_inv g'" "same_config g g'" "hp_size g' = hp_size g"
    "host_tbl g' = host_tbl g"
proof (rule that)
  show "write_host g p hs = Some (g\<lparr>hpool := Some ((the (hpool g))(unat p := hs))\<rparr>)"
    using assms(2) by (simp add: write_host_eq)
  show "pool_inv (g\<lparr>hpool := Some ((the (hpool g))(unat p := hs))\<rparr>)"
    using assms(1,3) by (auto simp: pool_inv_def split: option.splits)
qed (simp_all add: same_config_def)

lemma host_allocate_inv:
  assumes "pool_inv g" "pool_room 1 g"
  obtains p g' where "host_allocate e g = Some (p, g')" "pool_inv g'" "p < hp_true_sz g'"
    "same_config g g'" "unat (hp_size g') = unat (hp_size g) + 1" "host_tbl g' = host_tbl g"
proof -
  have "pool_size_ok g" using assms(1) by (simp add: pool_inv_def pool_size_ok_def)
  then obtain p g' where a: "host_allocate e g = Some (p, g')" "pool_size_ok g'" "p < hp_true_sz g'"
    "hp_true_sz g \<le> hp_true_sz g'" using host_allocate_ok assms(2) by blast
  note f = host_allocate_frame [OF a(1)]
  have same: "same_config g g'"
    using a(1) by (auto simp: same_config_def host_allocate_def host_pool_grow_def Let_def split: if_splits)
  have "pool_inv g'" using assms(1) a(2,4) f(1,2) by (auto simp: pool_inv_def pool_size_ok_def intro: less_le_trans)
  moreover have "unat (hp_size g') = unat (hp_size g) + 1"
    using assms(2) by (simp add: f(8) pool_room_iff unat_word_ariths)
  ultimately show ?thesis using that a(1,3) same f(1) by blast
qed

lemma allocate_ok:
  assumes "pool_inv g"
  obtains r g' where "allocate g bi ts p = Some (r, g')" "pool_inv g'" "same_config g g'"
    "hp_size g' = hp_size g" "r < 8"
proof (cases "exhausted (host_tbl g bi)")
  case False
  have r: "probe_bucket (host_tbl g bi) 0 < 8"
    using lane_SomeD(1) [OF pool_invD(3) [OF assms]] by (cases "lane (host_tbl g bi) 0") (auto simp: probe_lane)
  show ?thesis
    by (rule that [of "probe_bucket (host_tbl g bi) 0"
          "if probe_bucket (host_tbl g bi) 0 = 7 then upd_bucket bi (set_exhausted True) g else g"])
      (use False assms r in \<open>auto simp: allocate_def pool_invD Let_def intro!: pool_inv_upd\<close>)
next
  case True
  obtain k where k: "evict_victim ts (ctrl (host_tbl g bi)) = Some k" "k < 8"
    using evict_victim_Some [of "ctrl (host_tbl g bi)" ts] pool_invD(4) [OF assms, of bi]
    by (metis length_0_conv zero_neq_numeral)
  obtain g' where g': "write_host g (ptr_at (host_tbl g bi) k) zero_host_state = Some g'" "pool_inv g'"
      "same_config g g'" "hp_size g' = hp_size g"
    using write_host_ok [OF assms pool_invD(5) [OF assms k(2)] host_state_ok_zero] by metis
  show ?thesis
  proof (cases "p < ctrl_pri (ctrl (host_tbl g bi) ! k)")
    case True
    then show ?thesis using k assms \<open>exhausted _\<close> by (intro that [of "- 1" g]) (auto simp: allocate_def)
  next
    case False
    then show ?thesis using k g' \<open>exhausted _\<close>
      by (intro that [of "int k" g']) (auto simp: allocate_def get_host_ptr_def ptr_at_def)
  qed
qed

section \<open>Insertions return and keep the invariant\<close>

definition grown_by :: "nat \<Rightarrow> gs \<Rightarrow> gs \<Rightarrow> bool" where
  "grown_by n g g' \<longleftrightarrow> pool_inv g' \<and> same_config g g' \<and> unat (hp_size g') \<le> unat (hp_size g) + n"

lemma pool_inv_locked [simp]: "pool_inv g \<Longrightarrow> pool_inv (upd_bucket bi locked g)"
  by (rule pool_inv_upd) (simp_all add: pool_invD)

lemma pool_inv_unlock [simp]: "pool_inv g \<Longrightarrow> pool_inv (unlock_bucket bi g)"
  unfolding unlock_bucket_eq by (rule pool_inv_upd) (simp_all add: pool_invD)

lemma same_config_unlock [simp]: "same_config g (unlock_bucket bi g') = same_config g g'"
  by (simp add: unlock_bucket_eq)

lemma unlock_frame [simp]:
  "hp_size (unlock_bucket bi g) = hp_size g" "gs_rules (unlock_bucket bi g) = gs_rules g"
  "rule_seed (unlock_bucket bi g) = rule_seed g" "rule_hashsz (unlock_bucket bi g) = rule_hashsz g"
  "tbdesc (unlock_bucket bi g) = tbdesc g" "hpc_hz (unlock_bucket bi g) = hpc_hz g"
  "gs_pkey (unlock_bucket bi g) = gs_pkey g"
  by (simp_all add: unlock_bucket_eq)

lemma pool_inv_init_entry:
  "pool_inv g \<Longrightarrow> k < 8 \<Longrightarrow> pool_inv (upd_bucket bi (init_entry k a t p) g)"
  by (rule pool_inv_upd) (simp_all add: pool_invD)

lemma take_bit_le_word: "take_bit n x \<le> (x :: 'a::len word)"
  by (simp add: word_le_nat_alt unsigned_take_bit_eq)

lemma pool_inv_set_entry_ptr:
  assumes "pool_inv g" "k < 8" "p < hp_true_sz g"
  shows "pool_inv (upd_bucket bi (set_entry_ptr k p) g)"
  using assms by (intro pool_inv_upd) (auto simp: pool_invD intro: le_less_trans [OF take_bit_le_word])

lemma pool_inv_raise_pri: "pool_inv g \<Longrightarrow> k < 8 \<Longrightarrow> pool_inv (upd_bucket bi (raise_pri k p) g)"
  by (rule pool_inv_upd) (simp_all add: pool_invD)

lemma host_insert_total:
  assumes "pool_inv g" "pool_room 1 g" "\<not> HTB_TEST_LOCK (host_tbl g bi)"
  obtains r g' where "host_insert e g bi a = Some (r, g')" "grown_by 1 g g'" "r < 8"
proof -
  let ?h = "host_tbl g bi" and ?g1 = "upd_bucket bi locked g"
  let ?ts = "insert_tsec e ?g1"
  note inv1 = pool_inv_locked [OF assms(1), of bi]
  show ?thesis
  proof (cases "lane ?h a")
    case (Some k)
    then show ?thesis
      using assms lane_SomeD(1) [OF pool_invD(3) [OF assms(1)] Some]
      by (intro that [of "int k" "unlock_bucket bi (bump e htb_collisions_update ?g1)"])
        (simp_all add: host_insert_def lock_bucket_eq probe_lane Let_def grown_by_def)
  next
    case None
    then have pr: "probe_bucket ?h a < 0" by (simp add: probe_lane)
    obtain i g2 where al: "allocate ?g1 bi ?ts HOST_PRI_NONE = Some (i, g2)" "pool_inv g2"
      "same_config ?g1 g2" "hp_size g2 = hp_size ?g1" "i < 8" using allocate_ok [OF inv1] by metis
    show ?thesis
    proof (cases "i < 0")
      case True
      then show ?thesis using assms(3) pr al
        by (intro that [of i "unlock_bucket bi (bump e htb_ins_fails_update g2)"])
          (simp_all add: host_insert_def lock_bucket_eq Let_def grown_by_def same_config_def)
    next
      case False
      define k where "k = nat i"
      have k: "k < 8" "i = int k" using False al(5) by (auto simp: k_def)
      let ?g3 = "upd_bucket bi (init_entry k a ?ts HOST_PRI_NONE) g2"
      have "pool_room 1 ?g3" using assms(2) al(4) by (simp add: pool_room_iff)
      then obtain p g4 where ha: "host_allocate e ?g3 = Some (p, g4)" "pool_inv g4" "p < hp_true_sz g4"
        "same_config ?g3 g4" "unat (hp_size g4) = unat (hp_size ?g3) + 1"
        using host_allocate_inv [OF pool_inv_init_entry [OF al(2) k(1)]] by metis
      show ?thesis
        by (rule that [of i "unlock_bucket bi (upd_bucket bi (set_entry_ptr k p) g4)"])
          (use assms(3) pr al(1,3-5) k ha pool_inv_set_entry_ptr [OF ha(2) k(1) ha(3), of bi] in
            \<open>auto simp: host_insert_def lock_bucket_eq Let_def grown_by_def same_config_def\<close>)
    qed
  qed
qed

lemma host_insert_authorized_total:
  assumes "pool_inv g" "\<not> HTB_TEST_LOCK (host_tbl g bi)"
  obtains r g' where "host_insert_authorized e g bi a p = Some (r, g')" "grown_by 0 g g'"
proof -
  let ?h = "host_tbl g bi" and ?g1 = "upd_bucket bi locked g"
  let ?ts = "insert_tsec e ?g1"
  note inv1 = pool_inv_locked [OF assms(1), of bi]
  show ?thesis
  proof (cases "lane ?h a")
    case (Some k)
    have k: "k < 8" by (rule lane_SomeD(1) [OF pool_invD(3) [OF assms(1)] Some])
    have "pool_inv (bump e htb_collisions_update ?g1)" using inv1 by simp
    from pool_inv_raise_pri [OF this k, of bi p] show ?thesis using assms Some
      by (intro that [of "int k" "unlock_bucket bi (upd_bucket bi (raise_pri k p)
            (bump e htb_collisions_update ?g1))"])
        (simp_all add: host_insert_authorized_def lock_bucket_eq probe_lane Let_def grown_by_def)
  next
    case None
    then have pr: "probe_bucket ?h a < 0" by (simp add: probe_lane)
    obtain i g2 where al: "allocate ?g1 bi ?ts HOST_PRI_NONE = Some (i, g2)" "pool_inv g2"
      "same_config ?g1 g2" "hp_size g2 = hp_size ?g1" "i < 8" using allocate_ok [OF inv1] by metis
    show ?thesis
    proof (cases "i < 0")
      case True
      then show ?thesis using assms(2) pr al
        by (intro that [of i "unlock_bucket bi g2"])
          (simp_all add: host_insert_authorized_def lock_bucket_eq Let_def grown_by_def same_config_def)
    next
      case False
      define k where "k = nat i"
      have k: "k < 8" "i = int k" using False al(5) by (auto simp: k_def)
      let ?f = "\<lambda>htb. set_entry_ptr k 0 (init_entry k a ?ts p htb)"
      have true0: "0 < hp_true_sz g2"
      proof -
        have "unat (hp_true_sz g2) \<noteq> 0" using al(2) by (simp add: pool_inv_def)
        then show ?thesis by (metis unsigned_0 word_neq_0_conv)
      qed
      have "pool_inv (upd_bucket bi ?f g2)"
        using k(1) al(2) true0 by (intro pool_inv_upd) (auto simp: pool_invD)
      then show ?thesis using assms(2) pr al k
        by (intro that [of i "unlock_bucket bi (upd_bucket bi ?f g2)"])
          (simp_all add: host_insert_authorized_def lock_bucket_eq Let_def grown_by_def same_config_def)
    qed
  qed
qed

section \<open>The engine's invariant\<close>

text \<open>
  \<open>config_ok\<close> is what a loaded configuration has to provide: a hash that stays inside the rule
  table, and, for every rule that charges a meter, the number of one of the four meters.
\<close>

definition rule_meters_ok :: "rule \<Rightarrow> bool" where
  "rule_meters_ok r \<longleftrightarrow> (in_byte_scale r = 0 \<or> unat (in_byte_tb r) < MAX_METERS) \<and>
     (in_packet_scale r = 0 \<or> unat (in_packet_tb r) < MAX_METERS)"

definition config_ok :: "gs \<Rightarrow> bool" where
  "config_ok g \<longleftrightarrow> length (tbdesc g) = MAX_METERS \<and> length (gs_rules g) = MAX_RULES \<and>
     hash_size (rule_hashsz g) \<le> MAX_RULES \<and> (\<forall>r \<in> set (gs_rules g). rule_meters_ok r)"

definition engine_inv :: "gs \<Rightarrow> bool" where
  "engine_inv g \<longleftrightarrow> table_ok g \<and> pool_inv g \<and> config_ok g"

lemma engine_invD: "engine_inv g \<Longrightarrow> table_ok g" "engine_inv g \<Longrightarrow> pool_inv g" "engine_inv g \<Longrightarrow> config_ok g"
  by (simp_all add: engine_inv_def)

lemma config_ok_same: "same_config g g' \<Longrightarrow> config_ok g' = config_ok g"
  by (simp add: config_ok_def same_config_def)

text \<open>A lookup in the loaded rule table never leaves it, and finds what the keyed store finds.\<close>

lemma rule_lookup_ok:
  assumes "config_ok g"
  shows "rule_lookup (gs_rules g) (rule_seed g) (rule_hashsz g) fs =
    Some (rule_find (rule_seed g) (rule_hashsz g) (gs_rules g) fs)"
  using assms hash_flowsig_less [of "rule_seed g" "rule_hashsz g" fs]
  by (simp add: rule_lookup_def rule_find_def' cell_def config_ok_def Let_def)

lemma rule_find_in:
  assumes "rule_find seed hsz rules fs = Some r"
  shows "r \<in> set rules"
proof -
  from assms have "\<exists>i < length rules. rules ! i = r"
    by (auto simp: rule_find_def' Let_def split: if_splits)
  then show ?thesis by (auto simp: in_set_conv_nth)
qed

definition live_rule :: "gs \<Rightarrow> u32 \<Rightarrow> rule option" where
  "live_rule g fs = rule_find (rule_seed g) (rule_hashsz g) (gs_rules g) fs"

lemma live_rule_same: "same_config g g' \<Longrightarrow> live_rule g' = live_rule g"
  by (simp add: live_rule_def same_config_def fun_eq_iff)

lemma live_rule_meters: "config_ok g \<Longrightarrow> live_rule g fs = Some r \<Longrightarrow> rule_meters_ok r"
  using rule_find_in by (fastforce simp: live_rule_def config_ok_def)

lemma meters_ok_costs:
  assumes "rule_meters_ok rl" "packet_costs rl len = (bc, pc)"
  shows "meter_ok (in_byte_tb rl) bc" "meter_ok (in_packet_tb rl) pc"
proof -
  have "unat (satmul32 x 0) = unat (0 :: u32)" for x by (simp only: unat_satmul32) simp
  then have "satmul32 x 0 = 0" for x by (simp only: word_unat_eq_iff)
  then show "meter_ok (in_byte_tb rl) bc" "meter_ok (in_packet_tb rl) pc"
    using assms by (auto simp: rule_meters_ok_def packet_costs_def meter_ok_def)
qed

end
