(* ===== verification/Engine_Rx.thy ===== *)
theory Engine_Rx
  imports Engine_Inv
begin

text \<open>
  The receive path of \<open>ntfe/ntfe.cpp\<close>: \<open>ntfe_rx_prepare\<close>, \<open>ntfp_rx_process\<close> and \<open>ntfe_rx\<close>, what
  verdict it reaches on every frame, and that it keeps the engine's invariant. A frame is the list of
  the contiguous bytes the driver hands over, with the frame's length beside it.
\<close>

section \<open>Operations\<close>

definition ntfe_rx_prepare :: "env \<Rightarrow> gs \<Rightarrow> gs option" where
  "ntfe_rx_prepare e g =
     (if hpc_hz g = 0 then None
      else Some (g\<lparr>cpuls := (cpuls g)(cur_cpu e := (cpuls g (cur_cpu e))
             \<lparr>ts_hpc := hpc_now e, ts_msec := (hpc_now e * 1000) div hpc_hz g\<rparr>)\<rparr>))"

definition AUTH_TWND :: u64 where "AUTH_TWND = 4 * 60 * 10000000"

definition pkey_magic :: "gs \<Rightarrow> u64 option" where "pkey_magic g = rd64 (gs_pkey g) 0"

text \<open>
  The three header checks subtract a header size from the 16-bit \<open>len\<close> and compare the result,
  whatever the subtraction has wrapped to.
\<close>

definition ntfp_rx_process :: "env \<Rightarrow> gs \<Rightarrow> u8 list \<Rightarrow> u16 \<Rightarrow> gs option" where
  "ntfp_rx_process e g f len = do {
     m \<leftarrow> msg_magic f;
     pm \<leftarrow> pkey_magic g;
     if m \<noteq> pm then Some g else do {
     let len1 = len - of_nat sizeof_eth_hdr;
     il \<leftarrow> ip_len f;
     if unat len1 < sizeof_ip_hdr \<or> len1 < ntohs il then Some g else do {
     let len2 = ntohs il - of_nat sizeof_ip_hdr;
     ul \<leftarrow> udp_len f;
     if unat len2 < sizeof_udp_hdr \<or> len2 < ntohs ul then Some g else do {
     let len3 = len2 - of_nat sizeof_udp_hdr;
     if unat len3 < sizeof_ntfp_hdr then Some g else do {
     ml \<leftarrow> msg_len f;
     if len3 < ml then Some g else do {
     let t = sys_time e;
     ts \<leftarrow> msg_timestamp f;
     if ts < t - AUTH_TWND div 2 \<or> t + AUTH_TWND div 2 < ts then Some g else do {
     sig \<leftarrow> msg_signature f;
     ok \<leftarrow> verify_sig e sig (msg_payload f (unat ml)) (gs_pkey g);
     if \<not> ok then Some g else do {
     a \<leftarrow> msg_auth_addr f;
     if a = 0 then Some g else do {
     (r, g') \<leftarrow> host_insert_authorized e g (host_fetch_bucket a) a HOST_PRI_DYNAUTH;
     Some g' } } } } } } } } }"

definition rx_drop :: "env \<Rightarrow> gs \<Rightarrow> (bool \<times> gs) option" where
  "rx_drop e g = Some (False, bump e rx_dropped_update g)"

definition has_ports :: "u8 \<Rightarrow> bool" where
  "has_ports p \<longleftrightarrow> p = IP_P_UDP \<or> p = IP_P_TCP \<or> p = IP_P_LDP"

definition port_mask :: "u8 \<Rightarrow> u32" where
  "port_mask p = (if has_ports p then 0x0000FFFF OR 0xFFFF0000 else 0x0000FFFF)"

definition NTFP_FLOW :: u32 where
  "NTFP_FLOW = push_bit 8 (ucast IP_P_UDP) OR push_bit 16 (ucast (htons NTFP_PORT))"

text \<open>The part of \<open>ntfe_rx\<close> after a rule was found: policing.\<close>

definition rx_police :: "env \<Rightarrow> gs \<Rightarrow> nat \<Rightarrow> int \<Rightarrow> u32 \<Rightarrow> rule \<Rightarrow> u16 \<Rightarrow> (bool \<times> gs) option" where
  "rx_police e g bi hidx sa rl len =
     (if hpool g = None then Some (True, g)
      else do {
        (hidx, g1) \<leftarrow> (if hidx < 0 then host_insert e g bi sa else Some (hidx, g));
        if hidx < 0 then rx_drop e g1
        else do {
          let p = get_host_ptr g1 bi (nat hidx);
          hs \<leftarrow> read_host g1 p;
          (bad, hs') \<leftarrow> host_charge_packet hs rl (tbdesc g1) (ucast (time_msec e g1))
                         (len - of_nat sizeof_eth_hdr);
          g2 \<leftarrow> write_host g1 p hs';
          if bad then rx_drop e (bump e rx_drop_policed_update g2) else Some (True, g2) } })"

definition ntfe_rx :: "env \<Rightarrow> gs \<Rightarrow> u8 list \<Rightarrow> u16 \<Rightarrow> (bool \<times> gs) option" where
  "ntfe_rx e g f len = do {
     ep \<leftarrow> eth_proto f;
     ipp \<leftarrow> ip_proto f;
     dp \<leftarrow> l4_dport f;
     let sig = mk_flowsig (ETHER_BE16_TO_FS ep) ipp dp;
     if ep \<noteq> htons ETH_P_IP then do {
       r \<leftarrow> rule_lookup (gs_rules g) (rule_seed g) (rule_hashsz g) (sig AND 0xFF);
       if r = None then rx_drop e g else Some (True, g) }
     else do {
     ihl \<leftarrow> ip_ihl f;
     if ihl \<noteq> IP_IHL_MIN then rx_drop e (bump e rx_malformed_update g) else do {
     sa \<leftarrow> ip_saddr f;
     if sa = 0 then rx_drop e (bump e rx_malformed_update g) else do {
     let bi = host_fetch_bucket sa;
     frag \<leftarrow> ip_frag_off f;
     if frag AND htons (IP_MF OR IP_OFFSET) \<noteq> 0 then rx_drop e (bump e rx_malformed_update g) else do {
     if has_ports ipp \<and> dp = 0 then rx_drop e (bump e rx_malformed_update g) else do {
     let hidx = host_lookup g bi sa;
     if 0 \<le> hidx \<and> ctrl_pri (ctrl (host_tbl g bi) ! nat hidx) \<noteq> HOST_PRI_NONE then Some (True, g)
     else if sig = NTFP_FLOW then do {
       g' \<leftarrow> ntfp_rx_process e g f len;
       rx_drop e g' }
     else do {
     r \<leftarrow> rule_lookup (gs_rules g) (rule_seed g) (rule_hashsz g) (sig AND port_mask ipp);
     case r of None \<Rightarrow> rx_drop e (bump e rx_drop_priv_update g)
     | Some rl \<Rightarrow> rx_police e g bi hidx sa rl len } } } } } } }"

declare ntfe_rx_prepare_def [ntfw_eval] AUTH_TWND_def [ntfw_eval] pkey_magic_def [ntfw_eval]
  ntfp_rx_process_def [ntfw_eval] rx_drop_def [ntfw_eval] has_ports_def [ntfw_eval]
  port_mask_def [ntfw_eval] NTFP_FLOW_def [ntfw_eval] rx_police_def [ntfw_eval] ntfe_rx_def [ntfw_eval]

section \<open>Frames as the policy sees them\<close>

text \<open>
  \<open>rx_classify\<close> reads a frame once: a frame other than IPv4 with its signature, a malformed frame, or
  a flow from a source address.
\<close>

datatype rx_class = Non_IP u32 | Malformed | Flow u32 u32

definition rx_classify :: "u8 list \<Rightarrow> rx_class option" where
  "rx_classify f = do {
     ep \<leftarrow> eth_proto f;
     ipp \<leftarrow> ip_proto f;
     dp \<leftarrow> l4_dport f;
     ihl \<leftarrow> ip_ihl f;
     sa \<leftarrow> ip_saddr f;
     frag \<leftarrow> ip_frag_off f;
     Some (if ep \<noteq> htons ETH_P_IP then Non_IP (ucast (ETHER_BE16_TO_FS ep))
       else if ihl \<noteq> IP_IHL_MIN \<or> sa = 0 \<or> frag AND htons (IP_MF OR IP_OFFSET) \<noteq> 0 \<or>
            has_ports ipp \<and> dp = 0 then Malformed
       else Flow sa (mk_flowsig (ETHER_BE16_TO_FS ep) ipp dp AND port_mask ipp)) }"

lemma mk_flowsig_low: "mk_flowsig eth p d AND 0xFF = ucast eth"
  by (rule bit_word_eqI) (auto simp: and_255_eq bit_mk_flowsig bit_simps dest: bit_imp_le_length)

text \<open>
  The signature of a received frame always has the ethertype marker in bit 7, and the pattern the
  protocol hook compares it with never does.
\<close>

lemma hook_never_matches: "mk_flowsig (ETHER_BE16_TO_FS ep) p d \<noteq> NTFP_FLOW"
proof
  assume "mk_flowsig (ETHER_BE16_TO_FS ep) p d = NTFP_FLOW"
  moreover have "bit (mk_flowsig (ETHER_BE16_TO_FS ep) p d) 7" by (simp add: bit_mk_flowsig bit_ether_fs)
  ultimately have "bit NTFP_FLOW 7" by simp
  then show False by (simp add: NTFP_FLOW_def bit_simps)
qed

definition auth_pri :: "gs \<Rightarrow> u32 \<Rightarrow> bool" where
  "auth_pri g a \<longleftrightarrow> (case host_pri g a of None \<Rightarrow> False | Some p \<Rightarrow> p \<noteq> HOST_PRI_NONE)"

lemma auth_pri_code:
  "auth_pri g a \<longleftrightarrow> (let bi = host_fetch_bucket a; hidx = host_lookup g bi a in
     0 \<le> hidx \<and> ctrl_pri (ctrl (host_tbl g bi) ! nat hidx) \<noteq> HOST_PRI_NONE)"
  by (simp add: auth_pri_def host_pri_def lane_def host_lookup_def pri_at_def Let_def)

text \<open>The receive path by class of frame.\<close>

lemma ntfe_rx_class:
  assumes "42 \<le> length f"
  shows "ntfe_rx e g f len = do {
    c \<leftarrow> rx_classify f;
    case c of
      Non_IP sig \<Rightarrow> do {
        r \<leftarrow> rule_lookup (gs_rules g) (rule_seed g) (rule_hashsz g) sig;
        if r = None then rx_drop e g else Some (True, g) }
    | Malformed \<Rightarrow> rx_drop e (bump e rx_malformed_update g)
    | Flow sa sig \<Rightarrow>
        if auth_pri g sa then Some (True, g)
        else do {
          r \<leftarrow> rule_lookup (gs_rules g) (rule_seed g) (rule_hashsz g) sig;
          case r of None \<Rightarrow> rx_drop e (bump e rx_drop_priv_update g)
          | Some rl \<Rightarrow> rx_police e g (host_fetch_bucket sa)
                        (host_lookup g (host_fetch_bucket sa) sa) sa rl len } }"
proof -
  obtain ep ipp dp ihl sa fr where flds: "eth_proto f = Some ep" "ip_proto f = Some ipp"
    "l4_dport f = Some dp" "ip_ihl f = Some ihl" "ip_saddr f = Some sa" "ip_frag_off f = Some fr"
    using frame_fields_ok [OF assms] by metis
  show ?thesis
    by (simp add: ntfe_rx_def rx_classify_def flds Let_def mk_flowsig_low hook_never_matches
        auth_pri_code)
qed

section \<open>Policing\<close>

text \<open>When a packet conforms: both of its meters pass, the second after the charge of the first.\<close>

definition conforms :: "host_state \<Rightarrow> rule \<Rightarrow> tbucket_desc list \<Rightarrow> u32 \<Rightarrow> u16 \<Rightarrow> bool" where
  "conforms hs rl descs t len \<longleftrightarrow> (case packet_costs rl len of (bc, pc) \<Rightarrow>
     meter_pass (hs_tb hs) descs (in_byte_tb rl) t bc \<and>
     meter_pass (meter_update (hs_tb hs) descs (in_byte_tb rl) t bc) descs (in_packet_tb rl) t pc)"

definition charged :: "host_state \<Rightarrow> rule \<Rightarrow> tbucket_desc list \<Rightarrow> u32 \<Rightarrow> u16 \<Rightarrow> host_state" where
  "charged hs rl descs t len = (case packet_costs rl len of (bc, pc) \<Rightarrow>
     hs\<lparr>hs_tb := meter_update (meter_update (hs_tb hs) descs (in_byte_tb rl) t bc)
                   descs (in_packet_tb rl) t pc\<rparr>)"

lemma host_charge_packet_conforms:
  assumes "host_state_ok hs" "length descs = MAX_METERS" "rule_meters_ok rl"
  shows "host_charge_packet hs rl descs t len =
    Some (\<not> conforms hs rl descs t len, charged hs rl descs t len)"
proof -
  obtain bc pc where c: "packet_costs rl len = (bc, pc)" by (cases "packet_costs rl len")
  show ?thesis
    using assms meters_ok_costs [OF assms(3) c]
    by (simp add: host_charge_packet_eq [OF _ _ c] host_state_ok_def conforms_def charged_def c Let_def)
qed

lemma host_state_ok_charged: "host_state_ok hs \<Longrightarrow> host_state_ok (charged hs rl descs t len)"
  by (simp add: host_state_ok_def charged_def split_beta)

lemma read_host_ok:
  assumes "pool_inv g" "pool_ok g p"
  obtains hs where "read_host g p = Some hs" "host_state_ok hs"
proof -
  obtain m where m: "hpool g = Some m" "\<forall>n. host_state_ok (m n)" using pool_invD(1) [OF assms(1)] by auto
  with assms(2) that [of "m (unat p)"] show ?thesis by (simp add: read_host_def pool_ok_def)
qed

text \<open>
  The end of the receive path for a host whose lane is known: it is charged, and only the pool and
  the counters change.
\<close>

lemma police_charge:
  assumes inv: "table_ok g" "pool_inv g" "config_ok g" and k: "k < 8" and rl: "rule_meters_ok rl"
  obtains hs g2 where "read_host g (get_host_ptr g bi k) = Some hs" "host_state_ok hs"
    "write_host g (get_host_ptr g bi k)
       (charged hs rl (tbdesc g) (ucast (time_msec e g)) (len - of_nat sizeof_eth_hdr)) = Some g2"
    "pool_inv g2" "same_config g g2" "hp_size g2 = hp_size g" "host_tbl g2 = host_tbl g"
    "rx_police e g bi (int k) sa rl len =
       (if conforms hs rl (tbdesc g) (ucast (time_msec e g)) (len - of_nat sizeof_eth_hdr)
        then Some (True, g2) else rx_drop e (bump e rx_drop_policed_update g2))"
proof -
  have ptr: "pool_ok g (get_host_ptr g bi k)"
    using pool_invD(5) [OF inv(2) k] by (simp add: get_host_ptr_def ptr_at_def)
  obtain hs where hs: "read_host g (get_host_ptr g bi k) = Some hs" "host_state_ok hs"
    using read_host_ok [OF inv(2) ptr] .
  let ?hs' = "charged hs rl (tbdesc g) (ucast (time_msec e g)) (len - of_nat sizeof_eth_hdr)"
  obtain g2 where g2: "write_host g (get_host_ptr g bi k) ?hs' = Some g2" "pool_inv g2"
    "same_config g g2" "hp_size g2 = hp_size g" "host_tbl g2 = host_tbl g"
    using write_host_ok [OF inv(2) ptr host_state_ok_charged [OF hs(2)]] by metis
  have "length (tbdesc g) = MAX_METERS" using inv(3) by (simp add: config_ok_def)
  note charge = host_charge_packet_conforms [OF hs(2) this rl]
  have "hpool g \<noteq> None" using pool_invD(1) [OF inv(2)] by auto
  then have "rx_police e g bi (int k) sa rl len =
      (if conforms hs rl (tbdesc g) (ucast (time_msec e g)) (len - of_nat sizeof_eth_hdr)
       then Some (True, g2) else rx_drop e (bump e rx_drop_policed_update g2))"
    by (auto simp: rx_police_def hs(1) charge g2(1) Let_def)
  with that hs g2 show ?thesis by blast
qed

lemma rx_police_insert:
  assumes "hpool g \<noteq> None" "hidx < 0" "host_insert e g bi sa = Some (r, g1)" "hpool g1 \<noteq> None"
  shows "rx_police e g bi hidx sa rl len =
    (if r < 0 then rx_drop e g1 else rx_police e g1 bi r sa rl len)"
  using assms by (auto simp: rx_police_def Let_def)

section \<open>The receive path keeps the invariant and authorises nobody\<close>

lemma bump_inv [simp]:
  "table_ok (bump e u g) = table_ok g" "engine_inv (bump e u g) = engine_inv g"
  "host_pri (bump e u g) a = host_pri g a" "auth_pri (bump e u g) a = auth_pri g a"
  "hpool (bump e u g) = hpool g"
  by (simp_all add: table_ok_def engine_inv_def config_ok_def host_pri_def auth_pri_def)

lemma host_tbl_same:
  assumes "host_tbl g' = host_tbl g"
  shows "table_ok g' = table_ok g" "host_pri g' a = host_pri g a" "auth_pri g' a = auth_pri g a"
  using assms by (simp_all add: table_ok_def host_pri_def auth_pri_def)

lemma auth_pri_enter_none:
  assumes "table_ok g" "a \<noteq> 0" "b \<noteq> 0" "enter e g a HOST_PRI_NONE = Some (ok, g')"
  shows "auth_pri g' b = auth_pri g b"
proof -
  have leg: "legal_host a HOST_PRI_NONE" "legal_host b HOST_PRI_NONE"
    using assms(2,3) by (simp_all add: legal_host_def HOST_PRI_NONE_def)
  show ?thesis
  proof (cases "b = a")
    case True
    show ?thesis
    proof (cases ok)
      case True
      then show ?thesis using hm.enter_self [OF assms(1) leg(1)] assms(4) \<open>b = a\<close>
        by (auto simp: auth_pri_def max_def HOST_PRI_NONE_def split: option.splits)
    next
      case False
      then show ?thesis using hm.enter_fail [OF assms(1) leg(1) _ leg(2)] assms(4)
        by (simp add: auth_pri_def)
    qed
  next
    case False
    then show ?thesis using hm.enter_other [OF assms(1) leg(1) assms(4) leg(2)]
      by (auto simp: auth_pri_def)
  qed
qed

lemma host_lookup_cases:
  assumes "table_ok g"
  obtains "host_lookup g bi a = - 1" | k where "host_lookup g bi a = int k" "k < 8"
  using lane_SomeD(1) [OF bucket_okD(1) [OF table_okD [OF assms]]]
  by (cases "lane (host_tbl g bi) a") (auto simp: host_lookup_def probe_lane probe_neg)

lemma grown_byD: "grown_by n g g' \<Longrightarrow> pool_inv g'" "grown_by n g g' \<Longrightarrow> same_config g g'"
  by (simp_all add: grown_by_def)

lemma police_ok:
  assumes "engine_inv g" "rule_meters_ok rl" "k < 8"
  obtains v g' where "rx_police e g bi (int k) sa rl len = Some (v, g')" "engine_inv g'"
    "same_config g g'" "hp_size g' = hp_size g" "host_tbl g' = host_tbl g"
proof -
  note inv = engine_invD [OF assms(1)]
  obtain hs g2 where g2: "pool_inv g2" "same_config g g2" "hp_size g2 = hp_size g"
    "host_tbl g2 = host_tbl g"
    and run: "rx_police e g bi (int k) sa rl len =
       (if conforms hs rl (tbdesc g) (ucast (time_msec e g)) (len - of_nat sizeof_eth_hdr)
        then Some (True, g2) else rx_drop e (bump e rx_drop_policed_update g2))"
    using police_charge [OF inv assms(3,2)] by metis
  have "engine_inv g2"
    using g2(1) inv config_ok_same [OF g2(2)] host_tbl_same(1) [OF g2(4)] by (simp add: engine_inv_def)
  note g2 = this g2
  show ?thesis
  proof (cases "conforms hs rl (tbdesc g) (ucast (time_msec e g)) (len - of_nat sizeof_eth_hdr)")
    case True
    with run g2 show ?thesis by (intro that [of True g2]) simp_all
  next
    case False
    with run g2 show ?thesis
      by (intro that [of False "bump e rx_dropped_update (bump e rx_drop_policed_update g2)"])
        (simp_all add: rx_drop_def)
  qed
qed

lemma rx_police_ok:
  assumes "engine_inv g" "pool_room 1 g" "rule_meters_ok rl" "sa \<noteq> 0" "\<not> auth_pri g sa"
  obtains v g' where
    "rx_police e g (host_fetch_bucket sa) (host_lookup g (host_fetch_bucket sa) sa) sa rl len = Some (v, g')"
    "engine_inv g'" "grown_by 1 g g'" "\<And>a. a \<noteq> 0 \<Longrightarrow> auth_pri g' a = auth_pri g a"
    "v \<Longrightarrow> host_pri g' sa = Some HOST_PRI_NONE"
proof -
  note inv = engine_invD [OF assms(1)]
  let ?bi = "host_fetch_bucket sa"
  show ?thesis
  proof (cases rule: host_lookup_cases [OF inv(1), of ?bi sa])
    case (2 k)
    obtain v g' where g': "rx_police e g ?bi (int k) sa rl len = Some (v, g')" "engine_inv g'"
      "same_config g g'" "hp_size g' = hp_size g" "host_tbl g' = host_tbl g"
      using police_ok [OF assms(1,3) 2(2)] by metis
    have "host_pri g sa = Some HOST_PRI_NONE"
      using assms(5) 2(1) by (simp add: auth_pri_def host_pri_def lane_def host_lookup_def Let_def)
    then show ?thesis using that [of v g'] g' 2(1) host_tbl_same [OF g'(5)]
      by (simp add: grown_by_def engine_invD(2))
  next
    case 1
    have "\<not> HTB_TEST_LOCK (host_tbl g ?bi)" by (rule bucket_okD(3) [OF table_okD [OF inv(1)]])
    then obtain r g1 where ins: "host_insert e g ?bi sa = Some (r, g1)" "grown_by 1 g g1" "r < 8"
      using host_insert_total [OF inv(2) assms(2)] by metis
    have ent: "enter e g sa HOST_PRI_NONE = Some (0 \<le> r, g1)" by (simp add: enter_def ins(1))
    have leg: "legal_host sa HOST_PRI_NONE" using assms(4) by (simp add: legal_host_def HOST_PRI_NONE_def)
    have inv1: "engine_inv g1"
      using hm.enter_inv [OF inv(1) leg ent] grown_byD [OF ins(2)] inv(3) config_ok_same
      by (auto simp: engine_inv_def)
    have auth1: "auth_pri g1 a = auth_pri g a" if "a \<noteq> 0" for a
      by (rule auth_pri_enter_none [OF inv(1) assms(4) that ent])
    have pri1: "host_pri g1 sa = Some HOST_PRI_NONE" if "0 \<le> r"
    proof -
      have "host_pri g sa = None"
        using 1 by (simp add: host_pri_def lane_def host_lookup_def Let_def)
      then show ?thesis using hm.enter_self [OF inv(1) leg] ent that by simp
    qed
    have pools: "hpool g \<noteq> None" "hpool g1 \<noteq> None"
      using pool_invD(1) [OF inv(2)] pool_invD(1) [OF grown_byD(1) [OF ins(2)]] by auto
    have run: "rx_police e g ?bi (host_lookup g ?bi sa) sa rl len =
        (if r < 0 then rx_drop e g1 else rx_police e g1 ?bi r sa rl len)"
      using 1 by (intro rx_police_insert [OF pools(1) _ ins(1) pools(2)]) simp
    show ?thesis
    proof (cases "r < 0")
      case True
      then show ?thesis using run inv1 ins(2) auth1
        by (intro that [of False "bump e rx_dropped_update g1"])
          (simp_all add: rx_drop_def grown_by_def)
    next
      case False
      then have k: "nat r < 8" "r = int (nat r)" using ins(3) by auto
      obtain v g2 where g2: "rx_police e g1 ?bi (int (nat r)) sa rl len = Some (v, g2)" "engine_inv g2"
        "same_config g1 g2" "hp_size g2 = hp_size g1" "host_tbl g2 = host_tbl g1"
        using police_ok [OF inv1 assms(3) k(1)] by metis
      show ?thesis
      proof (rule that)
        show "rx_police e g ?bi (host_lookup g ?bi sa) sa rl len = Some (v, g2)"
          using run g2(1) False by simp
        show "grown_by 1 g g2" using g2(2-4) ins(2) same_config_trans
          unfolding grown_by_def by (metis engine_invD(2))
      qed (use g2(2) auth1 pri1 False host_tbl_same [OF g2(5)] in auto)
    qed
  qed
qed

lemma rx_classify_ok:
  assumes "42 \<le> length f"
  obtains c where "rx_classify f = Some c" "\<And>sa sig. c = Flow sa sig \<Longrightarrow> sa \<noteq> 0"
  using frame_fields_ok [OF assms] by (fastforce simp: rx_classify_def)

lemma rx_ok:
  assumes "engine_inv g" "pool_room 1 g" "42 \<le> length f"
  shows "\<exists>v g'. ntfe_rx e g f len = Some (v, g') \<and> engine_inv g' \<and> grown_by 1 g g' \<and>
    (\<forall>a. a \<noteq> 0 \<longrightarrow> auth_pri g' a = auth_pri g a)"
proof -
  note inv = engine_invD [OF assms(1)]
  obtain c where c: "rx_classify f = Some c" and nz: "\<And>sa sig. c = Flow sa sig \<Longrightarrow> sa \<noteq> 0"
    using rx_classify_ok [OF assms(3)] by metis
  have stay: "grown_by 1 g g" "grown_by 1 g (bump e u g)" "grown_by 1 g (bump e u (bump e u' g))" for u u'
    using inv(2) by (simp_all add: grown_by_def)
  note run = ntfe_rx_class [OF assms(3), of e g len, unfolded c rule_lookup_ok [OF inv(3)], simplified]
  show ?thesis
  proof (cases c)
    case (Non_IP sig)
    then show ?thesis using run assms(1) stay by (auto simp: rx_drop_def split: if_splits)
  next
    case Malformed
    then show ?thesis using run assms(1) stay by (auto simp: rx_drop_def)
  next
    case (Flow sa sig)
    show ?thesis
    proof (cases "auth_pri g sa \<or> live_rule g sig = None")
      case True
      then show ?thesis using run Flow assms(1) stay
        by (auto simp: rx_drop_def live_rule_def split: if_splits)
    next
      case False
      then obtain rl where rl: "live_rule g sig = Some rl" "\<not> auth_pri g sa" by auto
      have eq: "ntfe_rx e g f len = rx_police e g (host_fetch_bucket sa)
          (host_lookup g (host_fetch_bucket sa) sa) sa rl len"
        using run Flow rl by (simp add: live_rule_def)
      show ?thesis unfolding eq
        using rx_police_ok [OF assms(1,2) live_rule_meters [OF inv(3) rl(1)] nz [OF Flow] rl(2), of e len]
        by metis
    qed
  qed
qed

end
