(* ===== verification/Engine_Tx.thy ===== *)
theory Engine_Tx
  imports Engine_Rx
begin

text \<open>
  The transmit path of \<open>ntfe/ntfe.cpp\<close>: \<open>ntfe_tx_prepare\<close> and \<open>ntfe_tx\<close>, which authorises the
  destinations of outgoing private traffic.
\<close>

section \<open>Operations\<close>

definition ntfe_tx_prepare :: "env \<Rightarrow> gs \<Rightarrow> gs option" where
  "ntfe_tx_prepare e g = ntfe_rx_prepare e g"

definition tx_sig :: "u16 \<Rightarrow> u8 \<Rightarrow> u16 \<Rightarrow> u32" where
  "tx_sig ep ipp dp = mk_flowsig (ucast (drop_bit 7 ep)) ipp dp"

definition ntfe_tx :: "env \<Rightarrow> gs \<Rightarrow> u8 list \<Rightarrow> u16 \<Rightarrow> gs option" where
  "ntfe_tx e g f len = do {
     ep \<leftarrow> eth_proto f;
     ipp \<leftarrow> ip_proto f;
     dp \<leftarrow> l4_dport f;
     let sig = tx_sig ep ipp dp;
     if ep \<noteq> htons ETH_P_IP then Some g else do {
     ihl \<leftarrow> ip_ihl f;
     if ihl \<noteq> IP_IHL_MIN then Some (bump e tx_malformed_update g) else do {
     da \<leftarrow> ip_daddr f;
     let bi = host_fetch_bucket da;
     r \<leftarrow> rule_lookup (gs_rules g) (rule_seed g) (rule_hashsz g) (sig AND port_mask ipp);
     if r \<noteq> None then Some g else do {
     let hidx = host_lookup g bi da;
     if hidx < 0 \<or> ctrl_pri (ctrl (host_tbl g bi) ! nat hidx) < HOST_PRI_OUTAUTH then do {
       (r, g') \<leftarrow> host_insert_authorized e g bi da HOST_PRI_OUTAUTH;
       Some g' }
     else Some g } } } }"

declare ntfe_tx_prepare_def [ntfw_eval] tx_sig_def [ntfw_eval] ntfe_tx_def [ntfw_eval]

section \<open>What the transmit path looks up\<close>

text \<open>
  A loaded rule's signature carries the ethertype marker in bit 7; an empty slot's is zero.
\<close>

definition marked_rules :: "gs \<Rightarrow> bool" where
  "marked_rules g \<longleftrightarrow> (\<forall>r \<in> set (gs_rules g). fsig r = 0 \<or> bit (fsig r) 7)"

text \<open>The transmit signature of an IPv4 frame has no marker, so only an empty slot can match it.\<close>

lemma tx_sig_unmarked: "\<not> bit (tx_sig (htons ETH_P_IP) ipp dp AND m) 7"
  by (simp add: tx_sig_def bit_mk_flowsig ETH_P_IP_def bswap16_def bit_simps)

lemma has_ports_nonzero: "has_ports p \<Longrightarrow> p \<noteq> 0"
  by (auto simp: has_ports_def IP_P_UDP_def IP_P_TCP_def IP_P_LDP_def)

lemma tx_sig_zero: "tx_sig (htons ETH_P_IP) ipp dp AND port_mask ipp = 0 \<Longrightarrow> ipp = 0"
proof (rule bit_word_eqI)
  fix n assume z: "tx_sig (htons ETH_P_IP) ipp dp AND port_mask ipp = 0" and n: "n < LENGTH(8)"
  have "bit (tx_sig (htons ETH_P_IP) ipp dp AND port_mask ipp) (n + 8) = bit ipp n"
  proof -
    have low: "bit (0xFFFF :: u32) (n + 8)" using n bit_mask_iff [of 16 "n + 8", where ?'a = u32]
      by (simp add: mask_eq_exp_minus_1)
    then have "bit (port_mask ipp) (n + 8)" by (simp only: port_mask_def bit_or_iff split: if_splits) simp
    then show ?thesis using n by (simp add: bit_and_iff tx_sig_def bit_mk_flowsig)
  qed
  with z show "bit ipp n = bit 0 n" by simp
qed

lemma tx_lookup_misses:
  assumes "config_ok g" "marked_rules g" "ipp \<noteq> 0"
  shows "live_rule g (tx_sig (htons ETH_P_IP) ipp dp AND port_mask ipp) = None"
proof (rule ccontr)
  let ?sig = "tx_sig (htons ETH_P_IP) ipp dp AND port_mask ipp"
  assume "live_rule g ?sig \<noteq> None"
  then obtain r where r: "live_rule g ?sig = Some r" by auto
  then have "r \<in> set (gs_rules g)" "fsig r = ?sig"
    using rule_find_in by (fastforce simp: live_rule_def, auto simp: live_rule_def rule_find_def' Let_def split: if_splits)
  with assms(2) have "?sig = 0 \<or> bit ?sig 7" by (metis marked_rules_def)
  with tx_sig_unmarked tx_sig_zero assms(3) show False by blast
qed

text \<open>The transmit path by what it does to the host table: the rules have no part in it.\<close>

lemma ntfe_tx_eq:
  assumes "config_ok g" "marked_rules g" "42 \<le> length f"
    and "eth_proto f = Some (htons ETH_P_IP)" "ip_ihl f = Some IP_IHL_MIN" "ip_proto f = Some ipp" "ipp \<noteq> 0"
    and "ip_daddr f = Some da"
  shows "ntfe_tx e g f len =
    (if auth_pri g da then Some g
     else map_option snd (host_insert_authorized e g (host_fetch_bucket da) da HOST_PRI_OUTAUTH))"
proof -
  obtain dp where dp: "l4_dport f = Some dp" using frame_fields_ok [OF assms(3)] by metis
  have pri: "p < HOST_PRI_OUTAUTH \<longleftrightarrow> p = HOST_PRI_NONE" for p
    by (auto simp: HOST_PRI_OUTAUTH_def HOST_PRI_NONE_def word_less_nat_alt unsigned_eq_0_iff)
  have miss: "rule_lookup (gs_rules g) (rule_seed g) (rule_hashsz g)
      (tx_sig (htons ETH_P_IP) ipp dp AND port_mask ipp) = Some None"
    using tx_lookup_misses [OF assms(1,2,7)] by (simp add: rule_lookup_ok [OF assms(1)] live_rule_def)
  show ?thesis
    by (auto simp: ntfe_tx_def assms dp miss Let_def auth_pri_code pri map_option_case not_le
        split: option.splits)
qed

lemma tx_ok:
  assumes "engine_inv g" "42 \<le> length f"
  shows "\<exists>g'. ntfe_tx e g f len = Some g' \<and> engine_inv g' \<and> grown_by 0 g g'"
proof -
  note inv = engine_invD [OF assms(1)]
  obtain ep ipp dp ihl da where flds: "eth_proto f = Some ep" "ip_proto f = Some ipp"
    "l4_dport f = Some dp" "ip_ihl f = Some ihl" "ip_daddr f = Some da"
    using frame_fields_ok [OF assms(2)] by metis
  let ?bi = "host_fetch_bucket da"
  have "\<not> HTB_TEST_LOCK (host_tbl g ?bi)" by (rule bucket_okD(3) [OF table_okD [OF inv(1)]])
  then obtain r g1 where ins: "host_insert_authorized e g ?bi da HOST_PRI_OUTAUTH = Some (r, g1)"
    "grown_by 0 g g1" using host_insert_authorized_total [OF inv(2)] by metis
  have "table_ok g1"
    by (rule host_insert_authorized_table_ok [OF inv(1) _ ins(1)]) (simp add: HOST_PRI_OUTAUTH_def)
  then have "engine_inv g1"
    using grown_byD [OF ins(2)] inv(3) config_ok_same [OF grown_byD(2) [OF ins(2)]]
    by (simp add: engine_inv_def)
  moreover have "grown_by 0 g g" "grown_by 0 g (bump e u g)" for u
    using inv(2) by (simp_all add: grown_by_def)
  ultimately show ?thesis
    using assms(1) ins by (simp add: ntfe_tx_def flds rule_lookup_ok [OF inv(3)] Let_def)
qed

end
