(* ===== verification/Engine_Config.thy ===== *)
theory Engine_Config
  imports Engine_Tx
begin

text \<open>
  The control path of \<open>ntfe/ntfe.cpp\<close>: \<open>ntfe_validate_configuration\<close>, \<open>ntfe_configure\<close>,
  \<open>ntfe_init\<close> and \<open>ntfe_cleanup\<close>. A configuration image is the list of its bytes, read at the
  offsets of \<open>ntfe_config\<close> in \<open>ntfe/ntfeusr.h\<close>; the entries follow each other from \<open>ect\<close> on, and one
  cursor walks over all of them, as the anonymous unions of the code do.
\<close>

section \<open>The configuration image\<close>

definition sizeof_ntfe_config :: nat where "sizeof_ntfe_config = 100"
definition sizeof_ntfe_rule :: nat where "sizeof_ntfe_rule = 26"
definition sizeof_ntfe_meter :: nat where "sizeof_ntfe_meter = 16"
definition sizeof_ntfe_host :: nat where "sizeof_ntfe_host = 32"
definition NTFE_CFG_VERSION :: u16 where "NTFE_CFG_VERSION = 1"

lemmas cfg_size_defs = sizeof_ntfe_config_def sizeof_ntfe_rule_def sizeof_ntfe_meter_def
  sizeof_ntfe_host_def

definition cfg_reserved :: "u8 list \<Rightarrow> u32 option" where "cfg_reserved m = rd32 m 0"
definition cfg_version :: "u8 list \<Rightarrow> u16 option" where "cfg_version m = rd16 m 4"
definition cfg_length :: "u8 list \<Rightarrow> u16 option" where "cfg_length m = rd16 m 6"
definition cfg_rule_seed :: "u8 list \<Rightarrow> u32 option" where "cfg_rule_seed m = rd32 m 80"
definition cfg_rule_hashsz :: "u8 list \<Rightarrow> u32 option" where "cfg_rule_hashsz m = rd32 m 84"
definition cfg_rule_count :: "u8 list \<Rightarrow> u32 option" where "cfg_rule_count m = rd32 m 88"
definition cfg_meter_count :: "u8 list \<Rightarrow> u32 option" where "cfg_meter_count m = rd32 m 92"
definition cfg_host_count :: "u8 list \<Rightarrow> u32 option" where "cfg_host_count m = rd32 m 96"

lemmas cfg_field_defs = cfg_reserved_def cfg_version_def cfg_length_def cfg_rule_seed_def
  cfg_rule_hashsz_def cfg_rule_count_def cfg_meter_count_def cfg_host_count_def
declare cfg_size_defs [ntfw_eval] NTFE_CFG_VERSION_def [ntfw_eval] cfg_field_defs [ntfw_eval]

definition rule_at :: "u8 list \<Rightarrow> nat \<Rightarrow> cfg_rule option" where
  "rule_at m p = do {
     ether \<leftarrow> rd16 m p;
     dport \<leftarrow> rd16 m (p + 2);
     bs \<leftarrow> rd16 m (p + 4);
     ps \<leftarrow> rd16 m (p + 6);
     ss \<leftarrow> rd16 m (p + 8);
     proto \<leftarrow> rd8 m (p + 10);
     bt \<leftarrow> rd8 m (p + 11);
     pt \<leftarrow> rd8 m (p + 12);
     st \<leftarrow> rd8 m (p + 13);
     Some \<lparr>cr_ether = ether, cr_dport = dport, cr_byte_scale = bs, cr_packet_scale = ps,
       cr_syn_scale = ss, cr_proto = proto, cr_byte_tb = bt, cr_packet_tb = pt, cr_syn_tb = st\<rparr> }"

definition meter_at :: "u8 list \<Rightarrow> nat \<Rightarrow> tbucket_desc option" where
  "meter_at m p = do {
     r \<leftarrow> rd32 m p;
     s \<leftarrow> rd32 m (p + 4);
     l \<leftarrow> rd32 m (p + 8);
     Some \<lparr>rate = r, capacity = s, level = l\<rparr> }"

definition host_at :: "u8 list \<Rightarrow> nat \<Rightarrow> u32 option" where
  "host_at m p = rd32 m (p + 28)"

declare rule_at_def [ntfw_eval] meter_at_def [ntfw_eval] host_at_def [ntfw_eval]

section \<open>Validation\<close>

text \<open>\<open>(1 << hashsz) > MAX_RULES\<close> on a 32-bit signed \<open>int\<close>, the count taken modulo 32.\<close>

definition hash_too_big :: "u32 \<Rightarrow> bool" where
  "hash_too_big hashsz \<longleftrightarrow> int MAX_RULES < sint (push_bit (unat hashsz mod 32) (1 :: u32))"

text \<open>\<open>n\<close> rules from position \<open>p\<close> on, each tried against the table in use.\<close>

fun check_rules :: "gs \<Rightarrow> u8 list \<Rightarrow> u32 \<Rightarrow> u8 \<Rightarrow> nat \<Rightarrow> nat \<Rightarrow> bool option" where
  "check_rules g m seed hashsz p 0 = Some True"
| "check_rules g m seed hashsz p (Suc n) = do {
     rl \<leftarrow> rule_at m p;
     (ok, _) \<leftarrow> rule_insert (gs_rules g) rl seed hashsz True;
     if ok then check_rules g m seed hashsz (p + sizeof_ntfe_rule) n else Some False }"

definition ntfe_validate_configuration :: "gs \<Rightarrow> u8 list \<Rightarrow> u32 \<Rightarrow> bool option" where
  "ntfe_validate_configuration g m cfg_len =
     (if unat cfg_len < sizeof_ntfe_config then Some False else do {
      len \<leftarrow> cfg_length m;
      if unat cfg_len < unat len then Some False else do {
      rc \<leftarrow> cfg_rule_count m;
      mc \<leftarrow> cfg_meter_count m;
      hc \<leftarrow> cfg_host_count m;
      if unat len < sizeof_ntfe_config + unat rc * sizeof_ntfe_rule + unat mc * sizeof_ntfe_meter +
           unat hc * sizeof_ntfe_host then Some False else do {
      res \<leftarrow> cfg_reserved m;
      if res \<noteq> 0 then Some False else do {
      ver \<leftarrow> cfg_version m;
      if ver \<noteq> NTFE_CFG_VERSION then Some False else do {
      hsz \<leftarrow> cfg_rule_hashsz m;
      seed \<leftarrow> cfg_rule_seed m;
      if MAX_RULES < unat rc \<or> hash_too_big hsz \<or> hsz = 0 then Some False else do {
      ok \<leftarrow> check_rules g m seed (ucast hsz) sizeof_ntfe_config (unat rc);
      if \<not> ok then Some False else
      Some (unat mc \<le> MAX_METERS) } } } } } })"

section \<open>Configuration\<close>

fun load_rules :: "gs \<Rightarrow> u8 list \<Rightarrow> u32 \<Rightarrow> u8 \<Rightarrow> nat \<Rightarrow> nat \<Rightarrow> (bool \<times> gs) option" where
  "load_rules g m seed hashsz p 0 = Some (True, g)"
| "load_rules g m seed hashsz p (Suc n) = do {
     rl \<leftarrow> rule_at m p;
     (ok, rules) \<leftarrow> rule_insert (gs_rules g) rl seed hashsz False;
     if ok then load_rules (g\<lparr>gs_rules := rules\<rparr>) m seed hashsz (p + sizeof_ntfe_rule) n
     else Some (False, g) }"

fun load_meters :: "gs \<Rightarrow> u8 list \<Rightarrow> nat \<Rightarrow> nat \<Rightarrow> nat \<Rightarrow> gs option" where
  "load_meters g m p i 0 = Some g"
| "load_meters g m p i (Suc n) = do {
     d \<leftarrow> meter_at m p;
     _ \<leftarrow> cell (tbdesc g) i;
     load_meters (g\<lparr>tbdesc := (tbdesc g)[i := d]\<rparr>) m (p + sizeof_ntfe_meter) (Suc i) n }"

fun load_hosts :: "env \<Rightarrow> gs \<Rightarrow> u8 list \<Rightarrow> nat \<Rightarrow> nat \<Rightarrow> (bool \<times> gs) option" where
  "load_hosts e g m p 0 = Some (True, g)"
| "load_hosts e g m p (Suc n) = do {
     a \<leftarrow> host_at m p;
     (r, g') \<leftarrow> host_insert_authorized e g (host_fetch_bucket a) a HOST_PRI_STATIC;
     if r < 0 then Some (False, g')
     else load_hosts e g' m (p + sizeof_ntfe_host) n }"

text \<open>The tables emptied before a load; the host table is cleared by the next step.\<close>

definition reset_config :: "gs \<Rightarrow> gs" where
  "reset_config g = g\<lparr>gs_rules := replicate MAX_RULES zero_rule,
     tbdesc := replicate MAX_METERS zero_tbdesc, gs_pkey := replicate 32 0\<rparr>"

definition ntfe_configure :: "env \<Rightarrow> gs \<Rightarrow> u8 list \<Rightarrow> u32 \<Rightarrow> (bool \<times> gs) option" where
  "ntfe_configure e g m cfg_len = do {
     valid \<leftarrow> ntfe_validate_configuration g m cfg_len;
     if \<not> valid then Some (False, g) else do {
     g1 \<leftarrow> host_clear_statically_authorized (reset_config g);
     hsz \<leftarrow> cfg_rule_hashsz m;
     seed \<leftarrow> cfg_rule_seed m;
     rc \<leftarrow> cfg_rule_count m;
     mc \<leftarrow> cfg_meter_count m;
     hc \<leftarrow> cfg_host_count m;
     let g2 = g1\<lparr>rule_hashsz := ucast hsz, rule_seed := seed\<rparr>;
     let rules_p = sizeof_ntfe_config;
     let meters_p = rules_p + unat rc * sizeof_ntfe_rule;
     let hosts_p = meters_p + unat mc * sizeof_ntfe_meter;
     (ok, g3) \<leftarrow> load_rules g2 m seed (ucast hsz) rules_p (unat rc);
     if \<not> ok then Some (False, g3) else do {
     g4 \<leftarrow> load_meters g3 m meters_p 0 (unat mc);
     load_hosts e g4 m hosts_p (unat hc) } } }"

section \<open>Start and stop\<close>

text \<open>\<open>region\<close>: what \<open>RegionAllocate\<close> returns, NULL (\<open>None\<close>) or the memory of the pool.\<close>

definition ntfe_init :: "env \<Rightarrow> (nat \<Rightarrow> host_state) option \<Rightarrow> gs \<Rightarrow> (bool \<times> gs) option" where
  "ntfe_init e region g =
     (let g1 = g\<lparr>hpc_hz := hpc_freq e, hpool := region\<rparr>
      in if region = None then Some (False, g1) else map_option (Pair True) (host_pool_grow g1))"

definition ntfe_cleanup :: "gs \<Rightarrow> gs" where
  "ntfe_cleanup g = g\<lparr>hpool := None\<rparr>"

declare hash_too_big_def [ntfw_eval] check_rules.simps [ntfw_eval]
  ntfe_validate_configuration_def [ntfw_eval] load_rules.simps [ntfw_eval]
  load_meters.simps [ntfw_eval] load_hosts.simps [ntfw_eval] reset_config_def [ntfw_eval]
  ntfe_configure_def [ntfw_eval] ntfe_init_def [ntfw_eval] ntfe_cleanup_def [ntfw_eval]

end
