(* ===== verification/Host_Clear.thy ===== *)
theory Host_Clear
  imports Engine_Inv
begin

text \<open>
  \<open>host_clear_statically_authorized\<close> of \<open>ntfe/host.cpp\<close>: the two loops visit every lane of every
  bucket, and what is left in the table are the hosts that were not statically authorised.
\<close>

lemma fold_opt_append: "fold_opt f s (xs @ ys) = Option.bind (fold_opt f s xs) (\<lambda>t. fold_opt f t ys)"
  by (induction xs arbitrary: s) simp_all

text \<open>A counting loop whose body keeps an invariant that advances with the counter.\<close>

lemma fold_opt_upt:
  assumes "P 0 s" and "\<And>k s. k < n \<Longrightarrow> P k s \<Longrightarrow> \<exists>t. f s k = Some t \<and> P (Suc k) t"
  shows "\<exists>t. fold_opt f s [0..<n] = Some t \<and> P n t"
  using assms(2)
proof (induction n)
  case 0
  with assms(1) show ?case by simp
next
  case (Suc n)
  then obtain t where t: "fold_opt f s [0..<n] = Some t" "P n t" by force
  then obtain u where "f t n = Some u" "P (Suc n) u" using Suc.prems [of n t] by auto
  with t show ?case by (simp add: fold_opt_append)
qed

definition clear_lane :: "nat \<Rightarrow> htbucket \<Rightarrow> htbucket" where
  "clear_lane k htb = set_exhausted False (htb\<lparr>saddr := (saddr htb)[k := 0]\<rparr>)"

text \<open>\<open>cleared n h h'\<close>: the first \<open>n\<close> lanes of \<open>h\<close> have been visited.\<close>

definition cleared :: "nat \<Rightarrow> htbucket \<Rightarrow> htbucket \<Rightarrow> bool" where
  "cleared n h h' \<longleftrightarrow> length (saddr h') = 8 \<and> length (ctrl h') = 8 \<and>
     HTB_TEST_LOCK h' = HTB_TEST_LOCK h \<and>
     (\<forall>j<8. saddr h' ! j = (if j < n \<and> pri_at h j = HOST_PRI_STATIC then 0 else saddr h ! j)) \<and>
     (\<forall>j. pri_at h' j = pri_at h j) \<and> (exhausted h' \<longrightarrow> exhausted h)"

definition others_same :: "nat \<Rightarrow> gs \<Rightarrow> gs \<Rightarrow> bool" where
  "others_same bi g g' \<longleftrightarrow> (\<forall>bj. bj \<noteq> bi \<longrightarrow> host_tbl g' bj = host_tbl g bj)"

definition quiet :: "gs \<Rightarrow> gs \<Rightarrow> bool" where
  "quiet g g' \<longleftrightarrow> pool_inv g' \<and> same_config g g' \<and> hp_size g' = hp_size g"

lemma quiet_trans: "quiet g g' \<Longrightarrow> quiet g' g'' \<Longrightarrow> quiet g g''"
  by (auto simp: quiet_def intro: same_config_trans)

lemma clear_lane_frame:
  assumes "length (ctrl h) = 8"
  shows "saddr (clear_lane k h) = (saddr h)[k := 0]" "length (ctrl (clear_lane k h)) = 8"
    "HTB_TEST_LOCK (clear_lane k h) = HTB_TEST_LOCK h" "pri_at (clear_lane k h) j = pri_at h j"
    "ptr_at (clear_lane k h) j = ptr_at h j" "\<not> exhausted (clear_lane k h)"
  using assms by (auto simp: exhausted_def bit_set_bits clear_lane_def set_exhausted_def HTB_TEST_LOCK_def pri_at_def ptr_at_def
      nth_list_update)

lemma clear_slot_ok:
  assumes inv: "pool_inv g'" and k: "k < 8" and cl: "cleared k h (host_tbl g' bi)"
  shows "\<exists>g''. clear_slot bi g' k = Some g'' \<and> quiet g' g'' \<and> others_same bi g' g'' \<and>
    cleared (Suc k) h (host_tbl g'' bi)"
proof (cases "pri_at h k = HOST_PRI_STATIC")
  case False
  have "clear_slot bi g' k = Some g'" using False cl by (simp add: clear_slot_def cleared_def pri_at_def)
  moreover have "cleared (Suc k) h (host_tbl g' bi)" using cl False by (auto simp: cleared_def less_Suc_eq)
  ultimately show ?thesis using inv by (simp add: quiet_def others_same_def)
next
  case True
  note len = pool_invD(3,4) [OF inv, of bi]
  let ?g1 = "upd_bucket bi (clear_lane k) g'"
  note fr = clear_lane_frame [OF len(2)]
  have inv1: "pool_inv ?g1" using inv by (intro pool_inv_upd) (simp_all add: fr len pool_invD)
  obtain g2 where g2: "write_host ?g1 (get_host_ptr ?g1 bi k) zero_host_state = Some g2" "pool_inv g2"
    "same_config ?g1 g2" "hp_size g2 = hp_size ?g1" "host_tbl g2 = host_tbl ?g1"
    using write_host_ok [OF inv1 pool_invD(5) [OF inv1 k] host_state_ok_zero]
    unfolding get_host_ptr_def ptr_at_def by metis
  have "clear_slot bi g' k = Some g2"
    using True cl g2(1) by (simp add: clear_slot_def cleared_def pri_at_def clear_lane_def [abs_def] Let_def)
  moreover have "cleared (Suc k) h (host_tbl g2 bi)"
    using cl k True by (auto simp: cleared_def g2(5) fr len nth_list_update less_Suc_eq)
  ultimately show ?thesis
    using g2 by (auto simp: quiet_def others_same_def same_config_def)
qed

lemma clear_bucket_ok:
  assumes "pool_inv g"
  shows "\<exists>g'. clear_bucket g bi = Some g' \<and> quiet g g' \<and> others_same bi g g' \<and>
    cleared 8 (host_tbl g bi) (host_tbl g' bi)"
proof -
  let ?P = "\<lambda>k g'. quiet g g' \<and> others_same bi g g' \<and> cleared k (host_tbl g bi) (host_tbl g' bi)"
  have "\<exists>g'. fold_opt (clear_slot bi) g [0..<8] = Some g' \<and> ?P 8 g'"
  proof (rule fold_opt_upt)
    show "?P 0 g" using assms by (simp add: quiet_def others_same_def cleared_def pool_invD)
    fix k g' assume "k < 8" "?P k g'"
    then show "\<exists>g''. clear_slot bi g' k = Some g'' \<and> ?P (Suc k) g''"
      using clear_slot_ok [of g' k "host_tbl g bi" bi] quiet_trans
      by (metis (no_types, lifting) others_same_def quiet_def)
  qed
  then show ?thesis by (simp add: clear_bucket_def HTBL_BKT_SZ_def)
qed

lemma cleared_bucket_ok: "bucket_ok h \<Longrightarrow> cleared 8 h h' \<Longrightarrow> bucket_ok h'"
  by (auto simp: bucket_ok_def cleared_def)

lemma cleared_bucket_pri:
  assumes "bucket_ok h" "cleared 8 h h'" "a \<noteq> 0"
  shows "bucket_pri h' a = (if bucket_pri h a = Some HOST_PRI_STATIC then None else bucket_pri h a)"
proof -
  note ok = assms(1) cleared_bucket_ok [OF assms(1,2)]
  have lanes: "lane h' a = Some k \<longleftrightarrow> lane h a = Some k \<and> pri_at h k \<noteq> HOST_PRI_STATIC" for k
    using assms(2,3) unfolding lane_Some_iff [OF ok(1) assms(3)] lane_Some_iff [OF ok(2) assms(3)]
    by (auto simp: cleared_def)
  have pri: "pri_at h' = pri_at h" using assms(2) by (auto simp: cleared_def)
  have no: "lane h' a = None" if "\<And>k. \<not> (lane h a = Some k \<and> pri_at h k \<noteq> HOST_PRI_STATIC)"
    using that lanes not_None_eq by metis
  show ?thesis
  proof (cases "lane h a")
    case None
    then show ?thesis using no by (simp add: bucket_pri_def)
  next
    case (Some k)
    show ?thesis
    proof (cases "pri_at h k = HOST_PRI_STATIC")
      case True
      then have "lane h' a = None" using Some by (intro no) auto
      then show ?thesis using Some True by (simp add: bucket_pri_def)
    next
      case False
      then have "lane h' a = Some k" by (simp only: lanes Some simp_thms)
      then show ?thesis using Some False by (simp add: bucket_pri_def pri)
    qed
  qed
qed

text \<open>The whole table: the statically authorised hosts are gone, every other host has its priority.\<close>

lemma clear_ok:
  assumes "pool_inv g" "table_ok g"
  shows "\<exists>g'. host_clear_statically_authorized g = Some g' \<and> quiet g g' \<and> table_ok g' \<and>
    (\<forall>bj < HTBL_SIZE. cleared 8 (host_tbl g bj) (host_tbl g' bj)) \<and>
    (\<forall>a. a \<noteq> 0 \<longrightarrow> host_pri g' a = (if host_pri g a = Some HOST_PRI_STATIC then None else host_pri g a))"
proof -
  let ?P = "\<lambda>n g'. quiet g g' \<and>
    (\<forall>bj. if bj < n then cleared 8 (host_tbl g bj) (host_tbl g' bj) else host_tbl g' bj = host_tbl g bj)"
  have "\<exists>g'. fold_opt clear_bucket g [0..<HTBL_SIZE] = Some g' \<and> ?P HTBL_SIZE g'"
  proof (rule fold_opt_upt)
    show "?P 0 g" using assms by (simp add: quiet_def)
    fix n g' assume n: "n < HTBL_SIZE" and P: "?P n g'"
    have inv: "pool_inv g'" using P by (simp add: quiet_def)
    obtain g'' where g'': "clear_bucket g' n = Some g''" "quiet g' g''" "others_same n g' g''"
      "cleared 8 (host_tbl g' n) (host_tbl g'' n)" using clear_bucket_ok [OF inv, of n] by auto
    have "?P (Suc n) g''"
    proof (intro conjI allI)
      show "quiet g g''" using P g''(2) quiet_trans by blast
      fix bj
      show "if bj < Suc n then cleared 8 (host_tbl g bj) (host_tbl g'' bj)
            else host_tbl g'' bj = host_tbl g bj"
        using P g''(3,4) by (cases "bj = n") (auto simp: others_same_def less_Suc_eq split: if_splits)
    qed
    with g''(1) show "\<exists>t. clear_bucket g' n = Some t \<and> ?P (Suc n) t" by blast
  qed
  then obtain g' where g': "host_clear_statically_authorized g = Some g'" "quiet g g'"
    and cl: "bj < HTBL_SIZE \<Longrightarrow> cleared 8 (host_tbl g bj) (host_tbl g' bj)"
      "\<not> bj < HTBL_SIZE \<Longrightarrow> host_tbl g' bj = host_tbl g bj" for bj
    by (auto simp: host_clear_statically_authorized_def split: if_splits)
  have tab: "table_ok g'"
    using cl cleared_bucket_ok assms(2) unfolding table_ok_def by metis
  have "host_pri g' a = (if host_pri g a = Some HOST_PRI_STATIC then None else host_pri g a)" if "a \<noteq> 0" for a
    unfolding host_pri_bucket
    by (rule cleared_bucket_pri [OF table_okD [OF assms(2)] cl(1) [OF host_fetch_bucket_less] that])
  with g' tab cl(1) show ?thesis by blast
qed

end
