(* ===== verification/Config_Load.thy ===== *)
theory Config_Load
  imports Engine_Config Host_Clear
begin

text \<open>
  What loading a configuration guarantees: it stays inside the image it was given, it returns, it
  keeps the engine's invariant, and afterwards the rule table holds the rules of the image and the
  host table its statically authorised hosts.
\<close>

section \<open>The size of the rule table\<close>

lemma sint_pow: "k < 31 \<Longrightarrow> sint (push_bit k (1 :: u32)) = 2 ^ k"
proof -
  assume k: "k < 31"
  have "push_bit k (1 :: u32) = word_of_int (2 ^ k)" by simp
  moreover have "(2 :: int) ^ k < 2 ^ 31" using k by (intro power_strict_increasing) simp_all
  ultimately show ?thesis
    by (simp only: sint_sbintrunc') (simp add: signed_take_bit_int_eq_self order.trans [of _ 0])
qed

text \<open>The size check lets the sizes 0 to 7 through, and 31, all modulo 32.\<close>

lemma hash_too_big_iff: "hash_too_big hsz \<longleftrightarrow> 7 < unat hsz mod 32 \<and> unat hsz mod 32 \<noteq> 31"
proof (cases "unat hsz mod 32 = 31")
  case True
  have "sint (push_bit 31 (1 :: u32)) = - 2147483648" by simp
  with True show ?thesis by (simp add: hash_too_big_def MAX_RULES_def del: push_bit_of_1)
next
  case False
  then have k: "unat hsz mod 32 < 31" using mod_less_divisor [of 32 "unat hsz"] by linarith
  have "(128 :: int) < 2 ^ k \<longleftrightarrow> 7 < k" for k :: nat
    using power_strict_increasing_iff [of "2 :: int" 7 k] by simp
  with False show ?thesis
    by (simp only: hash_too_big_def sint_pow [OF k] MAX_RULES_def) simp
qed

lemma unat_ucast_u8_mod: "unat (ucast (x :: u32) :: u8) mod 32 = unat x mod 32"
  by (simp add: unsigned_ucast_eq take_bit_eq_mod mod_mod_cancel)

lemma hash_size_ucast:
  "\<not> hash_too_big hsz \<Longrightarrow> unat hsz mod 32 \<noteq> 31 \<Longrightarrow> hash_size (ucast hsz) \<le> MAX_RULES"
  using power_increasing [of "unat hsz mod 32" 7 "2 :: nat"]
  by (simp add: hash_too_big_iff hash_size_def unat_ucast_u8_mod MAX_RULES_def)

section \<open>Reading the image\<close>

lemma rd_total:
  "p < length m \<Longrightarrow> \<exists>x. rd8 m p = Some x" "p + 1 < length m \<Longrightarrow> \<exists>x. rd16 m p = Some x"
  "p + 3 < length m \<Longrightarrow> \<exists>x. rd32 m p = Some x"
  by (simp_all add: rd8_ok rd16_ok rd32_ok)

lemma rule_at_ok:
  assumes "p + 26 \<le> length m"
  obtains rl where "rule_at m p = Some rl"
proof -
  have "\<exists>x. rd16 m p = Some x" "\<exists>x. rd16 m (p + 2) = Some x" "\<exists>x. rd16 m (p + 4) = Some x"
    "\<exists>x. rd16 m (p + 6) = Some x" "\<exists>x. rd16 m (p + 8) = Some x" "\<exists>x. rd8 m (p + 10) = Some x"
    "\<exists>x. rd8 m (p + 11) = Some x" "\<exists>x. rd8 m (p + 12) = Some x" "\<exists>x. rd8 m (p + 13) = Some x"
    using assms by (auto intro!: rd_total)
  then show ?thesis using that by (auto simp: rule_at_def)
qed

lemma meter_at_ok: "p + 16 \<le> length m \<Longrightarrow> \<exists>d. meter_at m p = Some d"
proof -
  assume "p + 16 \<le> length m"
  then have "\<exists>x. rd32 m p = Some x" "\<exists>x. rd32 m (p + 4) = Some x" "\<exists>x. rd32 m (p + 8) = Some x"
    by (auto intro!: rd_total)
  then show ?thesis by (auto simp: meter_at_def)
qed

lemma host_at_ok: "p + 32 \<le> length m \<Longrightarrow> \<exists>a. host_at m p = Some a"
  by (auto simp: host_at_def intro!: rd_total)

text \<open>The rules and hosts of an image, as lists.\<close>

fun rules_at :: "u8 list \<Rightarrow> nat \<Rightarrow> nat \<Rightarrow> cfg_rule list" where
  "rules_at m p 0 = []"
| "rules_at m p (Suc n) = the (rule_at m p) # rules_at m (p + sizeof_ntfe_rule) n"

fun hosts_at :: "u8 list \<Rightarrow> nat \<Rightarrow> nat \<Rightarrow> u32 list" where
  "hosts_at m p 0 = []"
| "hosts_at m p (Suc n) = the (host_at m p) # hosts_at m (p + sizeof_ntfe_host) n"

declare rules_at.simps [ntfw_eval] hosts_at.simps [ntfw_eval]

section \<open>Rules\<close>

lemma rule_insert_ok:
  assumes "hash_size hsz \<le> length rules"
  shows "\<exists>ok rules'. rule_insert rules rl seed hsz test = Some (ok, rules') \<and> length rules' = length rules"
  using assms hash_flowsig_less [of seed hsz "cfg_sig rl"]
  by (auto simp: rule_insert_def cell_def rule_slot_eq Let_def)

lemma rule_insert_False:
  assumes "hash_size hsz \<le> length rules"
  shows "rule_insert rules rl seed hsz False =
    Some (case rule_ins seed hsz rules rl of None \<Rightarrow> (False, rules) | Some rules' \<Rightarrow> (True, rules'))"
  using assms hash_flowsig_less [of seed hsz "cfg_sig rl"]
  by (auto simp: rule_ins_def rule_insert_def cell_def rule_slot_eq Let_def)

lemma rule_insert_test:
  assumes "hash_size hsz \<le> length rules"
  shows "rule_insert rules rl seed hsz True = Some (rule_ins seed hsz rules rl \<noteq> None, rules)"
  using assms hash_flowsig_less [of seed hsz "cfg_sig rl"]
  by (auto simp: rule_ins_def rule_insert_def cell_def rule_slot_eq Let_def)

lemma rule_ins_length: "rule_ins seed hsz rules rl = Some rules' \<Longrightarrow> length rules' = length rules"
  by (auto simp: rule_ins_Some Let_def)

lemma check_rules_eq:
  "p + n * 26 \<le> length m \<Longrightarrow> hash_size hsz \<le> length (gs_rules g) \<Longrightarrow>
    check_rules g m seed hsz p n =
      Some (\<forall>rl \<in> set (rules_at m p n). rule_ins seed hsz (gs_rules g) rl \<noteq> None)"
proof (induction n arbitrary: p)
  case (Suc n)
  then obtain rl where rl: "rule_at m p = Some rl" using rule_at_ok [of p m] by auto
  have "check_rules g m seed hsz (p + 26) n =
      Some (\<forall>rl \<in> set (rules_at m (p + 26) n). rule_ins seed hsz (gs_rules g) rl \<noteq> None)"
    using Suc.prems by (intro Suc.IH) simp_all
  then show ?case using Suc.prems(2)
    by (auto simp: rl rule_insert_test sizeof_ntfe_rule_def)
qed simp

lemma load_rules_eq:
  "p + n * 26 \<le> length m \<Longrightarrow> hash_size hsz \<le> length (gs_rules g) \<Longrightarrow>
    \<exists>ok g'. load_rules g m seed hsz p n = Some (ok, g') \<and>
      (\<exists>rules. g' = g\<lparr>gs_rules := rules\<rparr> \<and> length rules = length (gs_rules g)) \<and>
      fold_opt (rule_ins seed hsz) (gs_rules g) (rules_at m p n) = (if ok then Some (gs_rules g') else None)"
proof (induction n arbitrary: p g)
  case 0
  have "g = g\<lparr>gs_rules := gs_rules g\<rparr>" by simp
  then show ?case by (intro exI [of _ True] exI [of _ g]) (auto intro: exI [of _ "gs_rules g"])
next
  case (Suc n)
  then obtain rl where rl: "rule_at m p = Some rl" using rule_at_ok [of p m] by auto
  show ?case
  proof (cases "rule_ins seed hsz (gs_rules g) rl")
    case None
    have "g = g\<lparr>gs_rules := gs_rules g\<rparr>" by simp
    moreover have "load_rules g m seed hsz p (Suc n) = Some (False, g)"
      using Suc.prems(2) None by (simp add: rl rule_insert_False)
    ultimately show ?thesis using None rl
      by (intro exI [of _ False] exI [of _ g]) (auto intro: exI [of _ "gs_rules g"])
  next
    case (Some rules)
    note len = rule_ins_length [OF Some]
    have "\<exists>ok g'. load_rules (g\<lparr>gs_rules := rules\<rparr>) m seed hsz (p + 26) n = Some (ok, g') \<and>
      (\<exists>rules'. g' = g\<lparr>gs_rules := rules\<rparr>\<lparr>gs_rules := rules'\<rparr> \<and>
        length rules' = length (gs_rules (g\<lparr>gs_rules := rules\<rparr>))) \<and>
      fold_opt (rule_ins seed hsz) (gs_rules (g\<lparr>gs_rules := rules\<rparr>)) (rules_at m (p + 26) n)
        = (if ok then Some (gs_rules g') else None)"
      using Suc.prems len by (intro Suc.IH) simp_all
    then show ?thesis using Suc.prems(2) Some len
      by (auto simp: rl rule_insert_False sizeof_ntfe_rule_def)
  qed
qed

section \<open>Meters and hosts\<close>

lemma load_meters_ok:
  "p + n * 16 \<le> length m \<Longrightarrow> i + n \<le> length (tbdesc g) \<Longrightarrow>
    \<exists>ds. load_meters g m p i n = Some (g\<lparr>tbdesc := ds\<rparr>) \<and> length ds = length (tbdesc g)"
proof (induction n arbitrary: p i g)
  case 0
  have "g = g\<lparr>tbdesc := tbdesc g\<rparr>" by simp
  then show ?case by (metis load_meters.simps(1))
next
  case (Suc n)
  obtain d where d: "meter_at m p = Some d" using meter_at_ok [of p m] Suc.prems by auto
  let ?g = "g\<lparr>tbdesc := (tbdesc g)[i := d]\<rparr>"
  have "\<exists>ds. load_meters ?g m (p + 16) (Suc i) n = Some (?g\<lparr>tbdesc := ds\<rparr>) \<and> length ds = length (tbdesc ?g)"
    using Suc.prems by (intro Suc.IH) simp_all
  then show ?case using d Suc.prems
    by (auto simp: sizeof_ntfe_meter_def cell_def)
qed

lemma enter_static:
  assumes "host_insert_authorized e g (host_fetch_bucket a) a HOST_PRI_STATIC = Some (r, g')"
  shows "enter e g a HOST_PRI_STATIC = Some (0 \<le> r, g')"
  using assms by (simp add: enter_def HOST_PRI_NONE_def HOST_PRI_STATIC_def)

lemma legal_static: "a \<noteq> 0 \<Longrightarrow> legal_host a HOST_PRI_STATIC"
  by (simp add: legal_host_def HOST_PRI_STATIC_def)

text \<open>The hosts loaded so far are entries of the table; a failed entry stops the load.\<close>

lemma load_hosts_ok:
  "p + n * 32 \<le> length m \<Longrightarrow> pool_inv g \<Longrightarrow> table_ok g \<Longrightarrow>
    \<exists>ok g'. load_hosts e g m p n = Some (ok, g') \<and> grown_by 0 g g' \<and> table_ok g'"
proof (induction n arbitrary: p g)
  case (Suc n)
  obtain a where a: "host_at m p = Some a" using host_at_ok [of p m] Suc.prems by auto
  have "\<not> HTB_TEST_LOCK (host_tbl g (host_fetch_bucket a))"
    by (rule bucket_okD(3) [OF table_okD [OF Suc.prems(3)]])
  then obtain r g1 where ins: "host_insert_authorized e g (host_fetch_bucket a) a HOST_PRI_STATIC = Some (r, g1)"
    "grown_by 0 g g1" using host_insert_authorized_total [OF Suc.prems(2)] by metis
  have tab: "table_ok g1"
    by (rule host_insert_authorized_table_ok [OF Suc.prems(3) _ ins(1)]) (simp add: HOST_PRI_STATIC_def)
  show ?case
  proof (cases "r < 0")
    case True
    then show ?thesis using ins a tab by auto
  next
    case False
    have "\<exists>ok g'. load_hosts e g1 m (p + 32) n = Some (ok, g') \<and> grown_by 0 g1 g' \<and> table_ok g'"
      using Suc.prems(1) tab grown_byD(1) [OF ins(2)] by (intro Suc.IH) simp_all
    then obtain ok g' where r: "load_hosts e g1 m (p + 32) n = Some (ok, g')" "grown_by 0 g1 g'" "table_ok g'"
      by auto
    have "grown_by 0 g g'" using ins(2) r(2) by (auto simp: grown_by_def intro: same_config_trans)
    with r False ins(1) a show ?thesis by (simp add: sizeof_ntfe_host_def)
  qed
qed (auto simp: grown_by_def)

lemma load_hosts_entries:
  "load_hosts e g m p n = Some (True, g') \<Longrightarrow>
    hm.entries e g (map (\<lambda>a. (a, HOST_PRI_STATIC)) (hosts_at m p n)) = Some g' \<and>
    (\<forall>a \<in> set (hosts_at m p n). \<exists>u v. enter e u a HOST_PRI_STATIC = Some (True, v))"
proof (induction n arbitrary: p g)
  case (Suc n)
  from Suc.prems obtain a r g1 where a: "host_at m p = Some a"
    "host_insert_authorized e g (host_fetch_bucket a) a HOST_PRI_STATIC = Some (r, g1)" "\<not> r < 0"
    and rest: "load_hosts e g1 m (p + sizeof_ntfe_host) n = Some (True, g')"
    by (auto simp: bind_eq_Some_conv split: if_splits)
  note en = enter_static [OF a(2)]
  from Suc.IH [OF rest] show ?case using a en by (auto simp: hm.entries_def)
qed simp

text \<open>After a complete load every host of the list has the highest priority.\<close>

lemma load_hosts_static:
  "load_hosts e g m p n = Some (True, g') \<Longrightarrow> table_ok g \<Longrightarrow> 0 \<notin> set (hosts_at m p n) \<Longrightarrow>
    a \<in> set (hosts_at m p n) \<Longrightarrow> host_pri g' a = Some HOST_PRI_STATIC"
proof (induction n arbitrary: p g)
  case (Suc n)
  from Suc.prems obtain b r g1 where b: "host_at m p = Some b"
    "host_insert_authorized e g (host_fetch_bucket b) b HOST_PRI_STATIC = Some (r, g1)" "\<not> r < 0"
    and rest: "load_hosts e g1 m (p + sizeof_ntfe_host) n = Some (True, g')"
    by (auto simp: bind_eq_Some_conv split: if_splits)
  have en: "enter e g b HOST_PRI_STATIC = Some (True, g1)" using enter_static [OF b(2)] b(3) by simp
  have leg: "legal_host b HOST_PRI_STATIC" using Suc.prems(3) b(1) by (intro legal_static) auto
  note tab = hm.enter_inv [OF Suc.prems(2) leg en]
  show ?case
  proof (cases "a \<in> set (hosts_at m (p + sizeof_ntfe_host) n)")
    case True
    with Suc.IH [OF rest tab] Suc.prems(3) show ?thesis by simp
  next
    case False
    then have ab: "a = b" using Suc.prems(4) b(1) by simp
    have max3: "max q HOST_PRI_STATIC = HOST_PRI_STATIC" if "q < 4" for q :: u32
      using that by (auto simp: max_def HOST_PRI_STATIC_def word_le_nat_alt word_less_nat_alt
          intro: word_unat_eq_iff [THEN iffD2])
    have q4: "q < 4" if "host_pri u c = Some q" for u c q
      using that ctrl_bounds(2) by (auto simp: host_pri_def pri_at_def Let_def word_less_nat_alt)
    have pri1: "host_pri g1 b = Some HOST_PRI_STATIC"
      using hm.enter_self [OF Suc.prems(2) leg en] max3 q4 by (auto split: option.splits)
    have "HOST_PRI_NONE < HOST_PRI_STATIC" by (simp add: HOST_PRI_NONE_def HOST_PRI_STATIC_def)
    have "\<exists>q. host_pri g' b = Some q \<and> HOST_PRI_STATIC \<le> q"
      by (rule hm.authorised_kept [OF tab _ _ leg pri1 \<open>HOST_PRI_NONE < HOST_PRI_STATIC\<close>])
        (use load_hosts_entries [OF rest] Suc.prems(3) in \<open>auto intro!: legal_static\<close>)
    then obtain q where "host_pri g' b = Some q" "HOST_PRI_STATIC \<le> q" by auto
    with q4 max3 [of q] show ?thesis by (auto simp: ab max_def split: if_splits)
  qed
qed simp

section \<open>Validation\<close>

text \<open>The shape of an image that passes: the counts it declares, within the bytes it has.\<close>

record image =
  im_seed :: u32
  im_hashsz :: u32
  im_rules :: nat
  im_meters :: nat
  im_hosts :: nat

definition image_of :: "u8 list \<Rightarrow> image" where
  "image_of m = \<lparr>im_seed = the (cfg_rule_seed m), im_hashsz = the (cfg_rule_hashsz m),
     im_rules = unat (the (cfg_rule_count m)), im_meters = unat (the (cfg_meter_count m)),
     im_hosts = unat (the (cfg_host_count m))\<rparr>"

definition well_formed :: "u8 list \<Rightarrow> u32 \<Rightarrow> bool" where
  "well_formed m cfg_len \<longleftrightarrow> sizeof_ntfe_config \<le> unat cfg_len \<and>
     unat (the (cfg_length m)) \<le> unat cfg_len \<and>
     sizeof_ntfe_config + im_rules (image_of m) * sizeof_ntfe_rule +
       im_meters (image_of m) * sizeof_ntfe_meter + im_hosts (image_of m) * sizeof_ntfe_host
       \<le> unat (the (cfg_length m)) \<and>
     cfg_reserved m = Some 0 \<and> cfg_version m = Some NTFE_CFG_VERSION \<and>
     im_rules (image_of m) \<le> MAX_RULES \<and> \<not> hash_too_big (im_hashsz (image_of m)) \<and>
     im_hashsz (image_of m) \<noteq> 0"

definition img_rules :: "u8 list \<Rightarrow> cfg_rule list" where
  "img_rules m = rules_at m sizeof_ntfe_config (im_rules (image_of m))"

definition img_hosts :: "u8 list \<Rightarrow> u32 list" where
  "img_hosts m = hosts_at m (sizeof_ntfe_config + im_rules (image_of m) * sizeof_ntfe_rule +
     im_meters (image_of m) * sizeof_ntfe_meter) (im_hosts (image_of m))"

definition img_hash :: "u8 list \<Rightarrow> u8" where
  "img_hash m = ucast (im_hashsz (image_of m))"

declare image_of_def [ntfw_eval] img_rules_def [ntfw_eval] img_hosts_def [ntfw_eval]
  img_hash_def [ntfw_eval]

lemma cfg_fields_ok:
  assumes "100 \<le> length m"
  shows "\<exists>x. cfg_reserved m = Some x" "\<exists>x. cfg_version m = Some x" "\<exists>x. cfg_length m = Some x"
    "\<exists>x. cfg_rule_seed m = Some x" "\<exists>x. cfg_rule_hashsz m = Some x" "\<exists>x. cfg_rule_count m = Some x"
    "\<exists>x. cfg_meter_count m = Some x" "\<exists>x. cfg_host_count m = Some x"
  using assms by (auto simp: cfg_field_defs intro!: rd_total)

text \<open>
  Validation as one formula. The table size 31, which the check lets through, is left out: with
  it the slot of a rule can lie outside the table.
\<close>

lemma validate_eq:
  assumes len: "length m = unat cfg_len" and rules: "length (gs_rules g) = MAX_RULES"
    and h31: "unat (im_hashsz (image_of m)) mod 32 \<noteq> 31"
  shows "ntfe_validate_configuration g m cfg_len =
    Some (well_formed m cfg_len \<and>
      (\<forall>rl \<in> set (img_rules m).
         rule_ins (im_seed (image_of m)) (img_hash m) (gs_rules g) rl \<noteq> None) \<and>
      im_meters (image_of m) \<le> MAX_METERS)"
proof (cases "sizeof_ntfe_config \<le> unat cfg_len")
  case False
  then show ?thesis by (simp add: ntfe_validate_configuration_def well_formed_def)
next
  case True
  then have "100 \<le> length m" by (simp add: len sizeof_ntfe_config_def)
  from cfg_fields_ok [OF this] obtain res ver ln seed hsz rc mc hc where
    f: "cfg_reserved m = Some res" "cfg_version m = Some ver" "cfg_length m = Some ln"
      "cfg_rule_seed m = Some seed" "cfg_rule_hashsz m = Some hsz" "cfg_rule_count m = Some rc"
      "cfg_meter_count m = Some mc" "cfg_host_count m = Some hc" by blast
  have im: "image_of m = \<lparr>im_seed = seed, im_hashsz = hsz, im_rules = unat rc,
      im_meters = unat mc, im_hosts = unat hc\<rparr>" by (simp add: image_of_def f)
  show ?thesis
  proof (cases "well_formed m cfg_len")
    case True
    then have "sizeof_ntfe_config + unat rc * 26 \<le> length m"
      by (simp add: well_formed_def im f len cfg_size_defs)
    moreover have "hash_size (ucast hsz) \<le> length (gs_rules g)"
      using True h31 hash_size_ucast by (simp add: rules well_formed_def im)
    ultimately have "check_rules g m seed (ucast hsz) sizeof_ntfe_config (unat rc) =
        Some (\<forall>rl \<in> set (img_rules m). rule_ins seed (ucast hsz) (gs_rules g) rl \<noteq> None)"
      unfolding img_rules_def by (subst check_rules_eq) (simp_all add: im)
    with True show ?thesis
      by (auto simp: ntfe_validate_configuration_def f well_formed_def im img_hash_def)
  next
    case False
    then show ?thesis using \<open>sizeof_ntfe_config \<le> unat cfg_len\<close>
      by (auto simp: ntfe_validate_configuration_def f well_formed_def im)
  qed
qed

section \<open>Configuration\<close>

text \<open>What the control path relies on and keeps, whatever configuration is loaded.\<close>

definition control_inv :: "gs \<Rightarrow> bool" where
  "control_inv g \<longleftrightarrow> table_ok g \<and> pool_inv g \<and> length (gs_rules g) = MAX_RULES \<and>
     length (tbdesc g) = MAX_METERS"

lemma control_invD:
  assumes "control_inv g"
  shows "table_ok g" "pool_inv g" "length (gs_rules g) = MAX_RULES" "length (tbdesc g) = MAX_METERS"
  using assms by (simp_all add: control_inv_def)

lemma engine_control: "engine_inv g \<Longrightarrow> control_inv g"
  by (simp add: engine_inv_def control_inv_def config_ok_def)

lemma table_ok_with [simp]:
  "table_ok (g\<lparr>gs_rules := r\<rparr>) = table_ok g" "table_ok (g\<lparr>tbdesc := d\<rparr>) = table_ok g"
  "table_ok (g\<lparr>rule_hashsz := h, rule_seed := s\<rparr>) = table_ok g" "table_ok (reset_config g) = table_ok g"
  by (simp_all add: table_ok_def reset_config_def)

lemma pool_inv_with [simp]:
  "pool_inv (g\<lparr>gs_rules := r\<rparr>) = pool_inv g" "pool_inv (g\<lparr>tbdesc := d\<rparr>) = pool_inv g"
  "pool_inv (g\<lparr>rule_hashsz := h, rule_seed := s\<rparr>) = pool_inv g" "pool_inv (reset_config g) = pool_inv g"
  by (simp_all add: pool_inv_def reset_config_def)

definition loaded :: "env \<Rightarrow> gs \<Rightarrow> u8 list \<Rightarrow> gs \<Rightarrow> bool" where
  "loaded e g m g' \<longleftrightarrow>
     fold_opt (rule_ins (im_seed (image_of m)) (img_hash m)) (replicate MAX_RULES zero_rule) (img_rules m)
       = Some (gs_rules g') \<and>
     rule_seed g' = im_seed (image_of m) \<and> rule_hashsz g' = img_hash m \<and>
     (\<exists>g1 g4. host_clear_statically_authorized (reset_config g) = Some g1 \<and>
        host_tbl g4 = host_tbl g1 \<and>
        load_hosts e g4 m (sizeof_ntfe_config + im_rules (image_of m) * sizeof_ntfe_rule +
          im_meters (image_of m) * sizeof_ntfe_meter) (im_hosts (image_of m)) = Some (True, g'))"

lemma configure_ok:
  assumes ctl: "control_inv g" and len: "length m = unat cfg_len"
    and h31: "unat (im_hashsz (image_of m)) mod 32 \<noteq> 31"
  shows "\<exists>ok g'. ntfe_configure e g m cfg_len = Some (ok, g') \<and> control_inv g' \<and>
    unat (hp_size g') \<le> unat (hp_size g) \<and> (ok \<longrightarrow> ntfe_validate_configuration g m cfg_len = Some True \<and> loaded e g m g') \<and>
    (\<not> ok \<longrightarrow> ntfe_validate_configuration g m cfg_len = Some False \<or>
       fold_opt (rule_ins (im_seed (image_of m)) (img_hash m)) (replicate MAX_RULES zero_rule) (img_rules m) = None \<or>
       (\<exists>g1 g4 g5. host_clear_statically_authorized (reset_config g) = Some g1 \<and>
         host_tbl g4 = host_tbl g1 \<and> hpool g4 = hpool g1 \<and>
         load_hosts e g4 m (sizeof_ntfe_config + im_rules (image_of m) * sizeof_ntfe_rule +
           im_meters (image_of m) * sizeof_ntfe_meter) (im_hosts (image_of m)) = Some (False, g5)))"
proof (cases "ntfe_validate_configuration g m cfg_len = Some True")
  case False
  then have "ntfe_configure e g m cfg_len = Some (False, g)"
    by (simp add: ntfe_configure_def validate_eq [OF len control_invD(3) [OF ctl] h31])
  with ctl False show ?thesis
    by (auto simp: validate_eq [OF len control_invD(3) [OF ctl] h31])
next
  case True
  note val = True
  note inv = control_invD [OF ctl]
  have wf: "well_formed m cfg_len" and mc: "im_meters (image_of m) \<le> MAX_METERS"
    using val by (auto simp: validate_eq [OF len inv(3) h31])
  then have "100 \<le> length m" by (simp add: len well_formed_def sizeof_ntfe_config_def)
  from cfg_fields_ok [OF this] obtain seed hsz rc mcw hc where
    f: "cfg_rule_seed m = Some seed" "cfg_rule_hashsz m = Some hsz" "cfg_rule_count m = Some rc"
      "cfg_meter_count m = Some mcw" "cfg_host_count m = Some hc" by blast
  have im: "im_seed (image_of m) = seed" "im_hashsz (image_of m) = hsz" "im_rules (image_of m) = unat rc"
    "im_meters (image_of m) = unat mcw" "im_hosts (image_of m) = unat hc"
    by (simp_all add: image_of_def f)
  have bounds: "sizeof_ntfe_config + unat rc * 26 + unat mcw * 16 + unat hc * 32 \<le> length m"
    using wf by (simp add: well_formed_def len im cfg_size_defs)
  obtain g1 where g1: "host_clear_statically_authorized (reset_config g) = Some g1"
    "quiet (reset_config g) g1" "table_ok g1" using clear_ok [of "reset_config g"] inv by auto
  have g1c: "gs_rules g1 = replicate MAX_RULES zero_rule" "tbdesc g1 = replicate MAX_METERS zero_tbdesc"
    "pool_inv g1" "hp_size g1 = hp_size g"
    using g1(2) by (simp_all add: quiet_def same_config_def reset_config_def)
  let ?g2 = "g1\<lparr>rule_hashsz := ucast hsz, rule_seed := seed\<rparr>"
  have hs: "hash_size (ucast hsz) \<le> length (gs_rules ?g2)"
    using wf h31 hash_size_ucast by (simp add: g1c well_formed_def im)
  have bnd: "sizeof_ntfe_config + unat rc * 26 \<le> length m" using bounds by simp
  obtain ok3 g3 rules where g3: "load_rules ?g2 m seed (ucast hsz) sizeof_ntfe_config (unat rc) = Some (ok3, g3)"
    "g3 = ?g2\<lparr>gs_rules := rules\<rparr>" "length rules = length (gs_rules ?g2)"
    "fold_opt (rule_ins seed (ucast hsz)) (gs_rules ?g2)
       (rules_at m sizeof_ntfe_config (unat rc)) = (if ok3 then Some (gs_rules g3) else None)"
    using load_rules_eq [OF bnd hs, of seed] by blast
  have ctl3: "control_inv g3" and hp3: "hp_size g3 = hp_size g"
    using g3(2,3) g1 g1c by (simp_all add: control_inv_def)
  have step: "ntfe_configure e g m cfg_len =
      (if \<not> ok3 then Some (False, g3) else do {
         g4 \<leftarrow> load_meters g3 m (sizeof_ntfe_config + unat rc * sizeof_ntfe_rule) 0 (unat mcw);
         load_hosts e g4 m (sizeof_ntfe_config + unat rc * sizeof_ntfe_rule + unat mcw * sizeof_ntfe_meter)
           (unat hc) })"
    by (simp add: ntfe_configure_def val g1(1) f g3(1) Let_def)
  show ?thesis
  proof (cases ok3)
    case False
    then show ?thesis using step ctl3 hp3 g3(4)
      by (intro exI [of _ False] exI [of _ g3]) (simp add: g1c im img_rules_def img_hash_def)
  next
    case True
    have "\<exists>ds. load_meters g3 m (sizeof_ntfe_config + unat rc * sizeof_ntfe_rule) 0 (unat mcw) =
        Some (g3\<lparr>tbdesc := ds\<rparr>) \<and> length ds = length (tbdesc g3)"
      using bounds mc control_invD(4) [OF ctl3]
      by (intro load_meters_ok) (simp_all add: cfg_size_defs im)
    then obtain ds where ds: "load_meters g3 m (sizeof_ntfe_config + unat rc * sizeof_ntfe_rule) 0 (unat mcw) =
        Some (g3\<lparr>tbdesc := ds\<rparr>)" "length ds = length (tbdesc g3)" by auto
    let ?g4 = "g3\<lparr>tbdesc := ds\<rparr>"
    let ?p = "sizeof_ntfe_config + unat rc * sizeof_ntfe_rule + unat mcw * sizeof_ntfe_meter"
    have "\<exists>ok g'. load_hosts e ?g4 m ?p (unat hc) = Some (ok, g') \<and> grown_by 0 ?g4 g' \<and> table_ok g'"
      using bounds control_invD(1,2) [OF ctl3]
      by (intro load_hosts_ok) (simp_all add: cfg_size_defs)
    then obtain ok g' where h: "load_hosts e ?g4 m ?p (unat hc) = Some (ok, g')" "grown_by 0 ?g4 g'" "table_ok g'"
      by auto
    have same: "same_config ?g4 g'" "pool_inv g'" "unat (hp_size g') \<le> unat (hp_size g)"
      using h(2) hp3 by (simp_all add: grown_by_def)
    have "control_inv g'"
      using same h(3) control_invD(3,4) [OF ctl3] ds(2) by (simp add: control_inv_def same_config_def)
    moreover have "loaded e g m g'" if ok
      unfolding loaded_def im img_rules_def img_hash_def
    proof (intro conjI exI)
      show "load_hosts e ?g4 m ?p (unat hc) = Some (True, g')" using h(1) that by simp
    qed (use g1(1) g3(2,4) True g1c same(1) in \<open>auto simp: same_config_def im\<close>)
    moreover have "\<exists>g1 g4 g5. host_clear_statically_authorized (reset_config g) = Some g1 \<and>
         host_tbl g4 = host_tbl g1 \<and> hpool g4 = hpool g1 \<and>
         load_hosts e g4 m ?p (unat hc) = Some (False, g5)" if "\<not> ok"
    proof (intro conjI exI)
      show "load_hosts e ?g4 m ?p (unat hc) = Some (False, g')" using h(1) that by simp
    qed (use g1(1) g3(2) in auto)
    ultimately show ?thesis using step True ds(1) h(1) val same(3) by (simp add: im)
  qed
qed

section \<open>The loaded rules and hosts\<close>

lemma rule_find_empty: "fs \<noteq> 0 \<Longrightarrow> rule_find seed hsz (replicate n zero_rule) fs = None"
  by (auto simp: rule_find_def' Let_def)

lemma loaded_rules:
  assumes "loaded e g m g'"
  shows "rl \<in> set (img_rules m) \<Longrightarrow> live_rule g' (cfg_sig rl) = Some (rule_of_cfg rl)"
    and "fs \<noteq> 0 \<Longrightarrow> fs \<notin> cfg_sig ` set (img_rules m) \<Longrightarrow> live_rule g' fs = None"
proof -
  have l: "fold_opt (rule_ins (im_seed (image_of m)) (img_hash m)) (replicate MAX_RULES zero_rule)
      (img_rules m) = Some (gs_rules g')"
    and c: "rule_seed g' = im_seed (image_of m)" "rule_hashsz g' = img_hash m"
    using assms by (simp_all add: loaded_def)
  show "rl \<in> set (img_rules m) \<Longrightarrow> live_rule g' (cfg_sig rl) = Some (rule_of_cfg rl)"
    unfolding live_rule_def c by (rule rt.load_finds_all [OF l])
  show "fs \<noteq> 0 \<Longrightarrow> fs \<notin> cfg_sig ` set (img_rules m) \<Longrightarrow> live_rule g' fs = None"
    unfolding live_rule_def c using rt.load_finds_only [OF l] rule_find_empty by metis
qed

lemma host_pri_less: "host_pri g a = Some q \<Longrightarrow> q < 4"
  using ctrl_bounds(2) by (auto simp: host_pri_def pri_at_def Let_def word_less_nat_alt)

lemma pri_none_less: "HOST_PRI_NONE < HOST_PRI_STATIC" "HOST_PRI_NONE < HOST_PRI_DYNAUTH"
  "HOST_PRI_NONE < HOST_PRI_OUTAUTH"
  by (simp_all add: host_pri_defs)

lemma loaded_hosts:
  assumes ctl: "control_inv g" and l: "loaded e g m g'" and nz: "0 \<notin> set (img_hosts m)" and a: "a \<noteq> 0"
  shows "host_pri g' a = Some HOST_PRI_STATIC \<longleftrightarrow> a \<in> set (img_hosts m)"
    and "host_pri g a = Some q \<Longrightarrow> q \<noteq> HOST_PRI_NONE \<Longrightarrow> q \<noteq> HOST_PRI_STATIC \<Longrightarrow>
      \<exists>q'. host_pri g' a = Some q' \<and> q \<le> q'"
proof -
  obtain g1 g4 where g1: "host_clear_statically_authorized (reset_config g) = Some g1"
    "host_tbl g4 = host_tbl g1"
    and run: "load_hosts e g4 m (sizeof_ntfe_config + im_rules (image_of m) * sizeof_ntfe_rule +
          im_meters (image_of m) * sizeof_ntfe_meter) (im_hosts (image_of m)) = Some (True, g')"
    using l by (auto simp: loaded_def)
  have same: "host_pri (reset_config g) b = host_pri g b" for b
    by (simp add: host_pri_def reset_config_def)
  obtain g1' where g1': "host_clear_statically_authorized (reset_config g) = Some g1'" "table_ok g1'"
    "b \<noteq> 0 \<Longrightarrow> host_pri g1' b = (if host_pri g b = Some HOST_PRI_STATIC then None else host_pri g b)" for b
    using clear_ok [of "reset_config g"] control_invD [OF ctl] same by auto
  have "g1' = g1" using g1'(1) g1(1) by simp
  with g1' host_tbl_same [OF g1(2)] have tab: "table_ok g4"
    and pri4: "b \<noteq> 0 \<Longrightarrow> host_pri g4 b = (if host_pri g b = Some HOST_PRI_STATIC then None else host_pri g b)" for b
    by auto
  note en = load_hosts_entries [OF run, folded img_hosts_def, THEN conjunct1]
  have leg: "(b, p) \<in> set (map (\<lambda>a. (a, HOST_PRI_STATIC)) (img_hosts m)) \<Longrightarrow> legal_host b p" for b p
    using nz by (auto intro!: legal_static)
  show "host_pri g' a = Some HOST_PRI_STATIC \<longleftrightarrow> a \<in> set (img_hosts m)"
  proof
    assume "host_pri g' a = Some HOST_PRI_STATIC"
    from hm.authorised_source [OF tab en leg legal_static [OF a] this pri_none_less(1)] pri4 [OF a]
    show "a \<in> set (img_hosts m)" by (auto split: if_splits)
  next
    assume "a \<in> set (img_hosts m)"
    then show "host_pri g' a = Some HOST_PRI_STATIC"
      using load_hosts_static [OF run tab] nz by (simp add: img_hosts_def)
  qed
  assume q: "host_pri g a = Some q" "q \<noteq> HOST_PRI_NONE" "q \<noteq> HOST_PRI_STATIC"
  then have "HOST_PRI_NONE < q" "host_pri g4 a = Some q"
    using pri4 [OF a] by (auto simp: HOST_PRI_NONE_def word_neq_0_conv)
  then show "\<exists>q'. host_pri g' a = Some q' \<and> q \<le> q'"
    using hm.authorised_kept [OF tab en leg legal_static [OF a]] by blast
qed

text \<open>Each rule of the image occupies its slot, so the image cannot be validated again.\<close>

lemma loaded_blocks_reload:
  assumes l: "loaded e g m g'" and "control_inv g'" "length m = unat cfg_len" "img_rules m \<noteq> []"
    and "unat (im_hashsz (image_of m)) mod 32 \<noteq> 31"
  shows "ntfe_validate_configuration g' m cfg_len = Some False"
proof -
  obtain rl where rl: "rl \<in> set (img_rules m)" using assms(4) by (cases "img_rules m") auto
  have "rule_find (im_seed (image_of m)) (img_hash m) (gs_rules g') (cfg_sig rl) = Some (rule_of_cfg rl)"
    using loaded_rules(1) [OF l rl] l by (simp add: live_rule_def loaded_def)
  then have "rule_ins (im_seed (image_of m)) (img_hash m) (gs_rules g') rl = None"
    using rt.ins_fresh by (metis not_None_eq option.distinct(1))
  with rl show ?thesis by (auto simp: validate_eq [OF assms(3) control_invD(3) [OF assms(2)] assms(5)])
qed

text \<open>Meter numbers below four in the rules of the image are all the data path needs.\<close>

definition img_meters_ok :: "u8 list \<Rightarrow> bool" where
  "img_meters_ok m \<longleftrightarrow> (\<forall>rl \<in> set (img_rules m). rule_meters_ok (rule_of_cfg rl))"

lemma fold_rule_ins_set:
  "fold_opt (rule_ins seed hsz) rules rls = Some rules' \<Longrightarrow>
    set rules' \<subseteq> set rules \<union> rule_of_cfg ` set rls"
proof (induction rls arbitrary: rules)
  case (Cons rl rls)
  then obtain r1 where r1: "rule_ins seed hsz rules rl = Some r1"
    "fold_opt (rule_ins seed hsz) r1 rls = Some rules'" by (auto simp: bind_eq_Some_conv)
  have "set r1 \<subseteq> insert (rule_of_cfg rl) (set rules)"
    using r1(1) set_update_subset_insert [of rules "rule_slot rl seed hsz" "rule_of_cfg rl"]
    by (simp add: rule_ins_Some Let_def)
  with Cons.IH [OF r1(2)] show ?case by auto
qed simp

lemma loaded_engine_inv:
  assumes "loaded e g m g'" "control_inv g'" "img_meters_ok m"
    and "\<not> hash_too_big (im_hashsz (image_of m))" "unat (im_hashsz (image_of m)) mod 32 \<noteq> 31"
  shows "engine_inv g'" "marked_rules g'"
proof -
  note ctl = control_invD [OF assms(2)]
  have rules: "set (gs_rules g') \<subseteq> insert zero_rule (rule_of_cfg ` set (img_rules m))"
    using assms(1) fold_rule_ins_set unfolding loaded_def by fastforce
  have "rule_meters_ok zero_rule" by (simp add: rule_meters_ok_def zero_rule_def)
  then have "\<forall>r \<in> set (gs_rules g'). rule_meters_ok r"
    using rules assms(3) by (auto simp: img_meters_ok_def)
  moreover have "hash_size (rule_hashsz g') \<le> MAX_RULES"
    using assms(1,4,5) hash_size_ucast by (simp add: loaded_def img_hash_def)
  ultimately show "engine_inv g'" using ctl by (simp add: engine_inv_def config_ok_def)
  show "marked_rules g'" using rules cfg_sig_bit7 by (auto simp: marked_rules_def)
qed

end
