(* ===== verification/Engine_Props.thy ===== *)
theory Engine_Props
  imports Config_Load
begin

text \<open>
  The properties of the packet filter as a whole: the policy the receive path implements, the safety
  of the data path, what a configuration installs, who becomes and stays authorised. The first
  section fixes a small engine (one rule, one meter) and frames on which the witnesses run.
\<close>

section \<open>A running engine\<close>

definition demo_env :: env where
  "demo_env = \<lparr>cur_cpu = 0, sys_time = 0, hpc_now = 5000, hpc_freq = 1000,
     verify_sig = (\<lambda>_ _ _. Some True)\<rparr>"

definition demo_rule :: cfg_rule where
  "demo_rule = \<lparr>cr_ether = 0x0800, cr_dport = 53, cr_byte_scale = 1, cr_packet_scale = 0,
     cr_syn_scale = 0, cr_proto = 17, cr_byte_tb = 0, cr_packet_tb = 0, cr_syn_tb = 0\<rparr>"

definition demo_gs :: gs where
  "demo_gs = (snd (the (ntfe_init demo_env (Some (\<lambda>_. zero_host_state)) gs_init)))
     \<lparr>rule_hashsz := 1, tbdesc := replicate MAX_METERS \<lparr>rate = 10, capacity = 1000, level = 0\<rparr>,
      gs_rules := (replicate MAX_RULES zero_rule)[1 := rule_of_cfg demo_rule]\<rparr>"

text \<open>A 64-byte UDP frame with the given source, destination and destination port.\<close>

definition demo_frame :: "u8 list \<Rightarrow> u8 list \<Rightarrow> u8 list \<Rightarrow> u8 list" where
  "demo_frame src dst port = replicate 12 0 @ [8, 0] @ [0x45, 0, 0, 50, 0, 0, 0, 0, 64, 17, 0, 0] @
     src @ dst @ [0x30, 0x39] @ port @ [0, 30, 0, 0] @ replicate 22 0"

definition dns_frame :: "u8 list" where "dns_frame = demo_frame [10, 0, 0, 1] [10, 0, 0, 2] [0, 53]"
definition ssh_frame :: "u8 list" where "ssh_frame = demo_frame [10, 0, 0, 1] [10, 0, 0, 2] [0, 22]"

lemma demo_frames:
  "length dns_frame = 64" "eth_proto dns_frame = Some 8" "ip_proto dns_frame = Some 17"
  "l4_dport dns_frame = Some 0x3500" "ip_ihl dns_frame = Some 5" "ip_saddr dns_frame = Some 0x0100000A"
  "ip_daddr dns_frame = Some 0x0200000A" "ip_frag_off dns_frame = Some 0"
  "length ssh_frame = 64" "eth_proto ssh_frame = Some 8" "ip_proto ssh_frame = Some 17"
  "l4_dport ssh_frame = Some 0x1600" "ip_ihl ssh_frame = Some 5" "ip_saddr ssh_frame = Some 0x0100000A"
  "ip_daddr ssh_frame = Some 0x0200000A" "ip_frag_off ssh_frame = Some 0"
  by code_simp+

lemma demo_classes:
  "rx_classify dns_frame = Some (Flow 0x0100000A (cfg_sig demo_rule))"
  "rx_classify ssh_frame = Some (Flow 0x0100000A 0x16001180)"
  by code_simp+

lemma demo_gs_fields:
  "hpool demo_gs = Some (\<lambda>_. zero_host_state)" "hp_size demo_gs = 0" "hp_true_sz demo_gs = 64"
  "host_tbl demo_gs = (\<lambda>_. zero_htbucket)" "rule_hashsz demo_gs = 1" "rule_seed demo_gs = 0"
  "hpc_hz demo_gs = 1000" "tbdesc demo_gs = replicate MAX_METERS \<lparr>rate = 10, capacity = 1000, level = 0\<rparr>"
  "gs_rules demo_gs = (replicate MAX_RULES zero_rule)[1 := rule_of_cfg demo_rule]"
  by (simp_all add: demo_gs_def ntfe_init_def gs_init_def host_pool_grow_eq HPOOL_GROW_def demo_env_def)

lemma zero_bucket_fields: "pri_at zero_htbucket k = 0 \<or> 8 \<le> k" "k < 8 \<Longrightarrow> ptr_at zero_htbucket k = 0"
  by (auto simp: pri_at_def ptr_at_def zero_htbucket_def HTBL_BKT_SZ_def ctrl_defs get_bits_def)

lemma zero_bucket_free: "\<not> exhausted zero_htbucket" "lane zero_htbucket 0 = Some 0"
  by (simp_all add: exhausted_def lane_eq zero_htbucket_def HTBL_BKT_SZ_def)

lemma demo_inv: "engine_inv demo_gs"
proof -
  have "table_ok demo_gs" using table_ok_init by (simp add: table_ok_def demo_gs_fields gs_init_def)
  moreover have "pool_inv demo_gs"
    by (simp add: pool_inv_def demo_gs_fields zero_bucket_fields)
      (simp add: zero_htbucket_def HTBL_BKT_SZ_def)
  moreover have "config_ok demo_gs"
  proof -
    have "rule_meters_ok zero_rule" "rule_meters_ok (rule_of_cfg demo_rule)"
      by (simp_all add: rule_meters_ok_def zero_rule_def rule_of_cfg_def demo_rule_def MAX_METERS_def)
    moreover have "set (gs_rules demo_gs) \<subseteq> {zero_rule, rule_of_cfg demo_rule}"
      unfolding demo_gs_fields by (rule subset_trans [OF set_update_subset_insert]) auto
    moreover have "hash_size (rule_hashsz demo_gs) \<le> MAX_RULES"
      by (simp add: demo_gs_fields hash_size_def MAX_RULES_def)
    ultimately show ?thesis by (auto simp: config_ok_def demo_gs_fields)
  qed
  ultimately show ?thesis by (simp add: engine_inv_def)
qed

lemma demo_room: "n < 1000 \<Longrightarrow> pool_room n demo_gs"
  by (simp add: pool_room_iff demo_gs_fields)

lemma demo_marked: "marked_rules demo_gs"
proof -
  have "set (gs_rules demo_gs) \<subseteq> {zero_rule, rule_of_cfg demo_rule}"
    unfolding demo_gs_fields by (rule subset_trans [OF set_update_subset_insert]) auto
  then show ?thesis using cfg_sig_bit7 by (auto simp: marked_rules_def)
qed

text \<open>A configuration image with the rule above, its meter and one statically authorised host.\<close>

definition demo_image :: "u8 list" where
  "demo_image = [0, 0, 0, 0, 1, 0, 174, 0] @ replicate 72 0 @
     [0, 0, 0, 0, 1, 0, 0, 0, 1, 0, 0, 0, 1, 0, 0, 0, 1, 0, 0, 0] @
     [0, 8, 53, 0, 1, 0, 0, 0, 0, 0, 17, 0, 0, 0] @ replicate 12 0 @
     [10, 0, 0, 0, 0xE8, 3, 0, 0, 0, 0, 0, 0, 0, 0, 0, 0] @ replicate 28 0 @ [10, 0, 0, 9]"

lemma demo_image_fields:
  "length demo_image = 174" "cfg_reserved demo_image = Some 0" "cfg_version demo_image = Some 1"
  "cfg_length demo_image = Some 174"
  "image_of demo_image = \<lparr>im_seed = 0, im_hashsz = 1, im_rules = 1, im_meters = 1, im_hosts = 1\<rparr>"
  "img_rules demo_image = [demo_rule]" "img_hosts demo_image = [0x0900000A]" "img_hash demo_image = 1"
  by code_simp+

definition ready_gs :: gs where
  "ready_gs = snd (the (ntfe_init demo_env (Some (\<lambda>_. zero_host_state)) gs_init))"

lemma ready_fields:
  "hpool ready_gs = Some (\<lambda>_. zero_host_state)" "hp_size ready_gs = 0" "hp_true_sz ready_gs = 64"
  "host_tbl ready_gs = (\<lambda>_. zero_htbucket)" "gs_rules ready_gs = replicate MAX_RULES zero_rule"
  "tbdesc ready_gs = replicate MAX_METERS zero_tbdesc"
  by (simp_all add: ready_gs_def ntfe_init_def gs_init_def host_pool_grow_eq HPOOL_GROW_def demo_env_def)

lemma ready_inv: "control_inv ready_gs"
proof -
  have "table_ok ready_gs" using table_ok_init by (simp add: table_ok_def ready_fields gs_init_def)
  moreover have "pool_inv ready_gs"
    by (simp add: pool_inv_def ready_fields zero_bucket_fields)
      (simp add: zero_htbucket_def HTBL_BKT_SZ_def)
  ultimately show ?thesis by (simp add: control_inv_def ready_fields)
qed

lemma demo_rule_fits:
  "rule_ins 0 1 (replicate MAX_RULES zero_rule) demo_rule =
     Some ((replicate MAX_RULES zero_rule)[1 := rule_of_cfg demo_rule])"
proof -
  have "rule_slot demo_rule 0 1 = 1" by code_simp
  then show ?thesis by (simp add: rule_ins_Some MAX_RULES_def)
qed

lemma demo_hash_fits: "\<not> hash_too_big 1"
  by (simp add: hash_too_big_iff)

lemma demo_validates:
  assumes "gs_rules g = replicate MAX_RULES zero_rule"
  shows "ntfe_validate_configuration g demo_image 174 = Some True"
proof -
  have "well_formed demo_image 174"
    by (simp add: well_formed_def demo_image_fields demo_hash_fits cfg_size_defs NTFE_CFG_VERSION_def MAX_RULES_def)
  then show ?thesis
    by (subst validate_eq) (simp_all add: demo_image_fields assms demo_rule_fits MAX_METERS_def)
qed

lemma demo_configure:
  assumes inv: "control_inv g" and empty: "gs_rules g = replicate MAX_RULES zero_rule"
    and room: "host_tbl g (host_fetch_bucket 0x0900000A) = zero_htbucket"
  shows "\<exists>g'. ntfe_configure demo_env g demo_image 174 = Some (True, g')"
proof -
  have img: "length demo_image = unat (174 :: u32)" "unat (im_hashsz (image_of demo_image)) mod 32 \<noteq> 31"
    by (simp_all add: demo_image_fields)
  obtain ok g' where c: "ntfe_configure demo_env g demo_image 174 = Some (ok, g')"
    and no: "\<not> ok \<longrightarrow> ntfe_validate_configuration g demo_image 174 = Some False \<or>
       fold_opt (rule_ins (im_seed (image_of demo_image)) (img_hash demo_image))
         (replicate MAX_RULES zero_rule) (img_rules demo_image) = None \<or>
       (\<exists>g1 g4 g5. host_clear_statically_authorized (reset_config g) = Some g1 \<and>
         host_tbl g4 = host_tbl g1 \<and> hpool g4 = hpool g1 \<and>
         load_hosts demo_env g4 demo_image (sizeof_ntfe_config + im_rules (image_of demo_image) * sizeof_ntfe_rule +
           im_meters (image_of demo_image) * sizeof_ntfe_meter) (im_hosts (image_of demo_image)) = Some (False, g5))"
    using configure_ok [OF inv img, of demo_env] by (elim exE conjE) (rule that)
  have "load_hosts demo_env g4 demo_image 142 1 \<noteq> Some (False, g5)"
    if clr: "host_clear_statically_authorized (reset_config g) = Some g1" and g4: "host_tbl g4 = host_tbl g1" for g1 g4 g5
  proof -
    let ?bi = "host_fetch_bucket 0x0900000A"
    obtain g1' where g1': "host_clear_statically_authorized (reset_config g) = Some g1'"
      "table_ok g1'" "\<forall>bj < HTBL_SIZE. cleared 8 (host_tbl (reset_config g) bj) (host_tbl g1' bj)"
    proof -
      have "pool_inv (reset_config g)" "table_ok (reset_config g)"
        using control_invD [OF inv] by simp_all
      from clear_ok [OF this] that show ?thesis by blast
    qed
    have tbl: "host_tbl g4 = host_tbl g1'" using g1'(1) clr g4 by simp
    have zb: "host_tbl (reset_config g) ?bi = zero_htbucket" by (simp add: reset_config_def room)
    have b: "bucket_ok (host_tbl g4 ?bi)" unfolding tbl by (rule table_okD [OF g1'(2)])
    have cl: "cleared 8 zero_htbucket (host_tbl g4 ?bi)"
      using g1'(3) [rule_format, OF host_fetch_bucket_less, of "0x0900000A"] unfolding tbl zb .
    have ex: "\<not> exhausted zero_htbucket" by (simp add: exhausted_def zero_htbucket_def HTBL_BKT_SZ_def)
    have "saddr (host_tbl g4 ?bi) ! 0 = 0"
      using cl by (simp add: cleared_def zero_htbucket_def HTBL_BKT_SZ_def)
    have len: "length (saddr (host_tbl g4 ?bi)) = 8" by (rule bucket_okD(1) [OF b])
    then have "0 < length (saddr (host_tbl g4 ?bi))" by simp
    from nth_mem [OF this] have "0 \<in> set (saddr (host_tbl g4 ?bi))"
      unfolding \<open>saddr (host_tbl g4 ?bi) ! 0 = 0\<close> .
    then obtain j where j: "lane (host_tbl g4 ?bi) 0 = Some j" by (simp add: lane_eq [OF len])
    have "\<not> exhausted (host_tbl g4 ?bi)" using cl ex by (simp add: cleared_def)
    from host_insert_authorized_free [OF b this j, of demo_env] obtain r g' where
      "host_insert_authorized demo_env g4 ?bi 0x0900000A HOST_PRI_STATIC = Some (r, g')" "0 \<le> r"
      by blast
    moreover have "host_at demo_image 142 = Some 0x0900000A" by code_simp
    ultimately show ?thesis by simp
  qed
  then have ok using no
    by (auto simp: demo_image_fields demo_rule_fits demo_validates [OF empty] cfg_size_defs)
  with c show ?thesis by auto
qed

lemma ready_configure: "\<exists>g'. ntfe_configure demo_env ready_gs demo_image 174 = Some (True, g')"
  by (rule demo_configure [OF ready_inv]) (simp_all add: ready_fields)

section \<open>The receive path implements the policy\<close>

datatype rx_decision = Accept | Reject | Police rule

definition rx_policy :: "(u32 \<Rightarrow> bool) \<Rightarrow> (u32 \<Rightarrow> rule option) \<Rightarrow> rx_class \<Rightarrow> rx_decision" where
  "rx_policy authorised rules c = (case c of
     Non_IP sig \<Rightarrow> if rules sig = None then Reject else Accept
   | Malformed \<Rightarrow> Reject
   | Flow sa sig \<Rightarrow> if authorised sa then Accept
       else (case rules sig of None \<Rightarrow> Reject | Some rl \<Rightarrow> Police rl))"

definition source_of :: "rx_class \<Rightarrow> u32" where
  "source_of c = (case c of Flow sa sig \<Rightarrow> sa | _ \<Rightarrow> 0)"

text \<open>
  C1: On every frame of at least 42 readable bytes, the receive path returns, and its verdict is the
  abstract policy's over the set of authorised hosts and the loaded rules: it accepts without
  touching any state where the policy accepts, drops without touching a host where the policy
  rejects, and where the policy polices, an accepted packet's source is in the host table, still
  unauthorised.
\<close>

theorem rx_implements_policy:
  assumes "engine_inv g" "pool_room 1 g" "42 \<le> length f"
  shows "\<exists>c v g'. rx_classify f = Some c \<and> ntfe_rx e g f len = Some (v, g') \<and>
    (case rx_policy (auth_pri g) (live_rule g) c of
       Accept \<Rightarrow> v \<and> g' = g
     | Reject \<Rightarrow> \<not> v \<and> host_tbl g' = host_tbl g \<and> hpool g' = hpool g
     | Police rl \<Rightarrow> v \<longrightarrow> host_pri g' (source_of c) = Some HOST_PRI_NONE)"
proof -
  note inv = engine_invD [OF assms(1)]
  obtain c where c: "rx_classify f = Some c" and nz: "\<And>sa sig. c = Flow sa sig \<Longrightarrow> sa \<noteq> 0"
    using rx_classify_ok [OF assms(3)] by metis
  note run = ntfe_rx_class [OF assms(3), of e g len, unfolded c rule_lookup_ok [OF inv(3)], simplified]
  show ?thesis
  proof (cases c)
    case (Flow sa sig)
    show ?thesis
    proof (cases "auth_pri g sa \<or> live_rule g sig = None")
      case True
      then show ?thesis using run Flow c by (auto simp: rx_drop_def rx_policy_def live_rule_def)
    next
      case False
      then obtain rl where rl: "live_rule g sig = Some rl" "\<not> auth_pri g sa" by auto
      obtain v g' where "rx_police e g (host_fetch_bucket sa) (host_lookup g (host_fetch_bucket sa) sa)
          sa rl len = Some (v, g')" "v \<Longrightarrow> host_pri g' sa = Some HOST_PRI_NONE"
        using rx_police_ok [OF assms(1,2) live_rule_meters [OF inv(3) rl(1)] nz [OF Flow] rl(2)] by metis
      then show ?thesis using run Flow c rl by (auto simp: rx_policy_def live_rule_def source_of_def)
    qed
  qed (use run c in \<open>auto simp: rx_drop_def rx_policy_def live_rule_def\<close>)
qed

theorem rx_implements_policy_witness:
  "\<exists>c v g'. rx_classify ssh_frame = Some c \<and> ntfe_rx demo_env demo_gs ssh_frame 64 = Some (v, g') \<and>
    (case rx_policy (auth_pri demo_gs) (live_rule demo_gs) c of
       Accept \<Rightarrow> v \<and> g' = demo_gs
     | Reject \<Rightarrow> \<not> v \<and> host_tbl g' = host_tbl demo_gs \<and> hpool g' = hpool demo_gs
     | Police rl \<Rightarrow> v \<longrightarrow> host_pri g' (source_of c) = Some HOST_PRI_NONE)"
  by (rule rx_implements_policy [OF demo_inv demo_room]) (simp_all add: demo_frames)

text \<open>
  C3: A policed packet of a host that is in the table is accepted exactly when it conforms to both
  meters of its rule, and in either case the host's buckets are charged, in place.
\<close>

theorem rx_polices_known_host:
  assumes "engine_inv g" "42 \<le> length f" "rx_classify f = Some (Flow sa sig)" "\<not> auth_pri g sa"
    "live_rule g sig = Some rl" "lane (host_tbl g (host_fetch_bucket sa)) sa = Some k"
  shows "\<exists>hs g'. read_host g (get_host_ptr g (host_fetch_bucket sa) k) = Some hs \<and>
    ntfe_rx e g f len =
      Some (conforms hs rl (tbdesc g) (ucast (time_msec e g)) (len - 14), g') \<and>
    read_host g' (get_host_ptr g (host_fetch_bucket sa) k) =
      Some (charged hs rl (tbdesc g) (ucast (time_msec e g)) (len - 14)) \<and>
    host_tbl g' = host_tbl g"
proof -
  note inv = engine_invD [OF assms(1)]
  let ?bi = "host_fetch_bucket sa" and ?t = "ucast (time_msec e g) :: u32"
  have k: "k < 8" by (rule lane_SomeD(1) [OF bucket_okD(1) [OF table_okD [OF inv(1)]] assms(6)])
  have hdr: "(of_nat sizeof_eth_hdr :: u16) = 14" by (simp add: sizeof_eth_hdr_def)
  obtain hs g2 where hs: "read_host g (get_host_ptr g ?bi k) = Some hs"
    and wr: "write_host g (get_host_ptr g ?bi k) (charged hs rl (tbdesc g) ?t (len - 14)) = Some g2"
    and g2: "host_tbl g2 = host_tbl g"
    and run: "rx_police e g ?bi (int k) sa rl len =
      (if conforms hs rl (tbdesc g) ?t (len - 14) then Some (True, g2)
       else rx_drop e (bump e rx_drop_policed_update g2))"
    using police_charge [OF inv k live_rule_meters [OF inv(3) assms(5)], where e = e and bi = ?bi and len = len and sa = sa, unfolded hdr]
    by metis
  have "host_lookup g ?bi sa = int k" using assms(6) by (simp add: host_lookup_def probe_lane)
  then have rx: "ntfe_rx e g f len = rx_police e g ?bi (int k) sa rl len"
    using assms(4,5) by (simp add: ntfe_rx_class [OF assms(2)] assms(3) rule_lookup_ok [OF inv(3)] live_rule_def)
  have rd: "read_host g2 (get_host_ptr g ?bi k) = Some (charged hs rl (tbdesc g) ?t (len - 14))"
    "read_host (bump e u g2') p = read_host g2' p" for u g2' p
    using wr by (auto simp: write_host_eq read_host_def pool_ok_def split: if_splits option.splits)
  show ?thesis
    using hs rd g2 by (auto simp: rx run rx_drop_def)
qed

text \<open>The engine with the source of the demo frames already in its table, at priority \<open>p\<close>.\<close>

abbreviation demo_src :: u32 where "demo_src \<equiv> 0x0100000A"

definition host_gs :: "u32 \<Rightarrow> gs" where
  "host_gs p = upd_bucket (host_fetch_bucket demo_src)
     (\<lambda>h. set_entry_ptr 0 1 (init_entry 0 demo_src 0 p h)) (demo_gs\<lparr>hp_size := 1\<rparr>)"

lemma zero_bucket_ok: "bucket_ok zero_htbucket" "lane zero_htbucket demo_src = None"
  by (auto simp: bucket_ok_def zero_htbucket_def HTBL_BKT_SZ_def HTB_TEST_LOCK_def lane_eq)

lemma host_gs_placed:
  "placed 0 demo_src (take_bit 2 p) (host_tbl demo_gs (host_fetch_bucket demo_src))
     (host_tbl (host_gs p) (host_fetch_bucket demo_src))"
proof -
  have "\<not> HTB_TEST_LOCK (set_entry_ptr 0 1 (init_entry 0 demo_src 0 p zero_htbucket))"
    by (simp add: set_entry_ptr_def init_entry_def zero_htbucket_def HTBL_BKT_SZ_def HTB_TEST_LOCK_def
        HTB_LOCK_BIT_def)
  then show ?thesis using bucket_okD(2) [OF zero_bucket_ok(1)]
    by (simp add: host_gs_def demo_gs_fields placed_def)
qed

lemma host_gs_inv: "engine_inv (host_gs p)"
proof -
  let ?h = "host_tbl demo_gs (host_fetch_bucket demo_src)"
  note inv = engine_invD [OF demo_inv]
  have "bucket_ok (host_tbl (host_gs p) (host_fetch_bucket demo_src))"
    by (rule placed_ok [OF _ _ host_gs_placed]) (simp_all add: demo_gs_fields zero_bucket_ok)
  then have "table_ok (host_gs p)"
    using inv(1) by (auto simp: table_ok_def host_gs_def)
  moreover have "pool_inv (demo_gs\<lparr>hp_size := 1\<rparr>)"
    using inv(2) by (simp add: pool_inv_def demo_gs_fields)
  then have "pool_inv (host_gs p)" unfolding host_gs_def
    by (rule pool_inv_upd)
      (use bucket_okD(1,2) [OF zero_bucket_ok(1)] zero_bucket_fields(2) in \<open>auto simp: demo_gs_fields\<close>)
  moreover have "config_ok (host_gs p)" using inv(3) by (simp add: config_ok_def host_gs_def)
  ultimately show ?thesis by (simp add: engine_inv_def)
qed

lemma host_gs_lane: "lane (host_tbl (host_gs p) (host_fetch_bucket demo_src)) demo_src = Some 0"
  using host_gs_placed [of p] bucket_okD(1) [OF zero_bucket_ok(1)]
  by (subst lane_Some_iff [OF table_okD [OF engine_invD(1) [OF host_gs_inv]]])
    (simp_all add: placed_def demo_gs_fields)

lemma host_gs_pri: "host_pri (host_gs p) demo_src = Some (take_bit 2 p)"
  using host_gs_placed [of p] by (simp add: host_pri_def host_gs_lane Let_def placed_def)

lemma host_gs_fields:
  "live_rule (host_gs p) = live_rule demo_gs" "tbdesc (host_gs p) = tbdesc demo_gs"
  by (simp_all add: host_gs_def live_rule_def fun_eq_iff)

lemma demo_live: "live_rule demo_gs (cfg_sig demo_rule) = Some (rule_of_cfg demo_rule)"
  by code_simp

theorem rx_polices_known_host_witness:
  "\<exists>hs g'. read_host (host_gs 0) (get_host_ptr (host_gs 0) (host_fetch_bucket demo_src) 0) = Some hs \<and>
    ntfe_rx demo_env (host_gs 0) dns_frame 64 =
      Some (conforms hs (rule_of_cfg demo_rule) (tbdesc (host_gs 0))
        (ucast (time_msec demo_env (host_gs 0))) 50, g')"
proof -
  have "\<not> auth_pri (host_gs 0) demo_src" by (simp add: auth_pri_def host_gs_pri HOST_PRI_NONE_def)
  from rx_polices_known_host [OF host_gs_inv _ demo_classes(1) this _ host_gs_lane, of _ demo_env 64]
  show ?thesis by (auto simp: demo_frames host_gs_fields demo_live)
qed

section \<open>The data path is safe and receiving authorises nobody\<close>

text \<open>
  C4: Receiving a frame never changes who is authorised: no frame, the protocol's authentication
  messages included, makes an address authorised or takes an authorisation away.
\<close>

theorem rx_never_authorises:
  assumes "engine_inv g" "pool_room 1 g" "42 \<le> length f" "ntfe_rx e g f len = Some (v, g')" "a \<noteq> 0"
  shows "auth_pri g' a = auth_pri g a"
  using rx_ok [OF assms(1-3), of e len] assms(4,5) by auto

theorem rx_never_authorises_witness:
  "\<exists>v g'. ntfe_rx demo_env demo_gs dns_frame 64 = Some (v, g') \<and>
     auth_pri g' demo_src = auth_pri demo_gs demo_src"
proof -
  have r: "pool_room 1 demo_gs" "42 \<le> length dns_frame" by (simp_all add: demo_room demo_frames)
  obtain v g' where "ntfe_rx demo_env demo_gs dns_frame 64 = Some (v, g')"
    using rx_ok [OF demo_inv r] by blast
  with rx_never_authorises [OF demo_inv r this, of demo_src] show ?thesis by auto
qed

datatype packet = Rx env "u8 list" u16 | Tx env "u8 list" u16

fun step :: "gs \<Rightarrow> packet \<Rightarrow> gs option" where
  "step g (Rx e f len) = map_option snd (ntfe_rx e g f len)"
| "step g (Tx e f len) = ntfe_tx e g f len"

fun frame_of :: "packet \<Rightarrow> u8 list" where
  "frame_of (Rx e f len) = f"
| "frame_of (Tx e f len) = f"

lemma step_ok:
  assumes "engine_inv g" "pool_room (Suc n) g" "42 \<le> length (frame_of p)"
  shows "\<exists>g'. step g p = Some g' \<and> engine_inv g' \<and> pool_room n g'"
proof (cases p)
  case (Rx e f len)
  have "pool_room 1 g" using assms(2) by (simp add: pool_room_iff)
  from rx_ok [OF assms(1) this, of f e len] assms(2,3) Rx show ?thesis
    by (auto simp: pool_room_iff grown_by_def)
next
  case (Tx e f len)
  from tx_ok [OF assms(1), of f e len] assms(2,3) Tx show ?thesis
    by (auto simp: pool_room_iff grown_by_def)
qed

text \<open>
  C2: As long as the reserved region of the host pool has room for one entry per frame, a run of the
  data path over any mix of received and transmitted frames, each with at least 42 readable bytes,
  never faults, never waits for ever and leaves the engine's invariant intact.
\<close>

theorem data_path_safe:
  assumes "engine_inv g" "pool_room (length ps) g" "\<forall>p \<in> set ps. 42 \<le> length (frame_of p)"
  shows "\<exists>g'. fold_opt step g ps = Some g' \<and> engine_inv g'"
  using assms
proof (induction ps arbitrary: g)
  case (Cons p ps)
  then obtain g1 where "step g p = Some g1" "engine_inv g1" "pool_room (length ps) g1"
    using step_ok [OF Cons.prems(1), of "length ps" p] by auto
  with Cons.IH [of g1] Cons.prems(3) show ?case by simp
qed simp

theorem data_path_safe_witness:
  "\<exists>g'. fold_opt step demo_gs [Rx demo_env dns_frame 64, Tx demo_env dns_frame 64, Rx demo_env ssh_frame 64]
     = Some g' \<and> engine_inv g'"
  by (rule data_path_safe [OF demo_inv demo_room]) (simp_all add: demo_frames)

section \<open>The transmit path authorises its peers\<close>

text \<open>
  C17: When an IPv4 frame without options and with a nonzero protocol is sent, its destination is
  authorised afterwards exactly when its bucket knew it or can take a new host: a bucket marked
  exhausted takes one as long as one of its hosts is not authorised, any other as long as it has a free
  lane. The loaded rules have no part in it, also where they make the traffic public: the signature the
  transmit path looks up lacks the marker that every loaded signature has.
\<close>

theorem tx_authorises_any_peer:
  assumes "engine_inv g" "marked_rules g" "42 \<le> length f"
    and "eth_proto f = Some (htons ETH_P_IP)" "ip_ihl f = Some IP_IHL_MIN" "ip_proto f = Some ipp" "ipp \<noteq> 0"
    and "ip_daddr f = Some da" "da \<noteq> 0"
  shows "\<exists>g'. ntfe_tx e g f len = Some g' \<and>
    (auth_pri g' da \<longleftrightarrow> lane (host_tbl g (host_fetch_bucket da)) da \<noteq> None \<or>
      takes_host (host_tbl g (host_fetch_bucket da)))"
proof -
  let ?bi = "host_fetch_bucket da"
  note tab = engine_invD(1) [OF assms(1)]
  note tx = ntfe_tx_eq [OF engine_invD(3) [OF assms(1)] assms(2-8), of e len]
  have leg: "legal_host da HOST_PRI_OUTAUTH" using assms(9) by (simp add: legal_host_def host_pri_defs)
  have "\<not> HTB_TEST_LOCK (host_tbl g ?bi)" by (rule bucket_okD(3) [OF table_okD [OF tab]])
  then obtain r g' where ins: "host_insert_authorized e g ?bi da HOST_PRI_OUTAUTH = Some (r, g')"
    using host_insert_authorized_total [OF engine_invD(2) [OF assms(1)]] by metis
  then have en: "enter e g da HOST_PRI_OUTAUTH = Some (0 \<le> r, g')" by (simp add: enter_def host_pri_defs)
  have known: "auth_pri g da \<Longrightarrow> lane (host_tbl g ?bi) da \<noteq> None"
    by (auto simp: auth_pri_def host_pri_bucket bucket_pri_def split: option.splits)
  have "auth_pri g' da \<longleftrightarrow> 0 \<le> r \<or> auth_pri g da"
  proof (cases "0 \<le> r")
    case True
    then have "enter e g da HOST_PRI_OUTAUTH = Some (True, g')" using en by simp
    from hm.enter_self [OF tab leg this] show ?thesis using True
      by (auto simp: auth_pri_def max_def host_pri_defs split: option.splits)
  next
    case False
    then have "enter e g da HOST_PRI_OUTAUTH = Some (False, g')" using en by simp
    from hm.enter_fail [OF tab leg this leg] show ?thesis using False by (simp add: auth_pri_def)
  qed
  moreover have "0 \<le> r \<longleftrightarrow> lane (host_tbl g ?bi) da \<noteq> None \<or> takes_host (host_tbl g ?bi)"
    by (rule insert_takes [OF tab ins])
  ultimately show ?thesis using ins known tx by (cases "auth_pri g da") auto
qed

theorem tx_authorises_any_peer_witness:
  "live_rule demo_gs (cfg_sig demo_rule) \<noteq> None \<and>
   rx_classify dns_frame = Some (Flow demo_src (cfg_sig demo_rule)) \<and>
   (\<exists>g'. ntfe_tx demo_env demo_gs dns_frame 64 = Some g' \<and> auth_pri g' 0x0200000A)"
proof -
  have "takes_host zero_htbucket" by (simp add: takes_host_def zero_bucket_free)
  then have "\<exists>g'. ntfe_tx demo_env demo_gs dns_frame 64 = Some g' \<and> auth_pri g' 0x0200000A"
    using tx_authorises_any_peer [OF demo_inv demo_marked, of dns_frame 17 "0x0200000A" demo_env 64]
    by (simp add: demo_frames ETH_P_IP_def bswap16_def IP_IHL_MIN_def demo_gs_fields)
  then show ?thesis by (simp add: demo_live demo_classes)
qed

section \<open>What a configuration installs\<close>

text \<open>
  Whatever image it is given, with as many bytes as the caller says, configuring never reads
  outside the image or writes outside the engine's tables and leaves the tables well formed,
  whether it succeeds or not (a declared table size of 31 modulo 32 excepted).
\<close>

theorem configure_safe:
  assumes "control_inv g" "length m = unat cfg_len" "unat (im_hashsz (image_of m)) mod 32 \<noteq> 31"
  shows "\<exists>ok g'. ntfe_configure e g m cfg_len = Some (ok, g') \<and> control_inv g'"
  using configure_ok [OF assms, of e] by blast

theorem configure_safe_witness:
  "\<exists>ok g'. ntfe_configure demo_env ready_gs demo_image 174 = Some (ok, g') \<and> control_inv g'"
  by (rule configure_safe [OF ready_inv]) (simp_all add: demo_image_fields)

lemma configured:
  assumes "control_inv g" "length m = unat cfg_len" "unat (im_hashsz (image_of m)) mod 32 \<noteq> 31"
    and "ntfe_configure e g m cfg_len = Some (True, g')"
  shows "loaded e g m g'" "control_inv g'" "ntfe_validate_configuration g m cfg_len = Some True"
  using configure_ok [OF assms(1-3), of e] assms(4) by auto

text \<open>
  C5: After a successful configuration the receive path finds exactly the rules of the image: a
  rule's signature looks up that rule with the image's scales and meters, and no other signature
  looks up anything.
\<close>

theorem configure_installs_rules:
  assumes "control_inv g" "length m = unat cfg_len" "unat (im_hashsz (image_of m)) mod 32 \<noteq> 31"
    and "ntfe_configure e g m cfg_len = Some (True, g')"
  shows "(\<forall>rl \<in> set (img_rules m). live_rule g' (cfg_sig rl) = Some (rule_of_cfg rl)) \<and>
    (\<forall>fs. fs \<noteq> 0 \<and> fs \<notin> cfg_sig ` set (img_rules m) \<longrightarrow> live_rule g' fs = None)"
  using loaded_rules [OF configured(1) [OF assms]] by blast

theorem configure_installs_rules_witness:
  "\<exists>g'. ntfe_configure demo_env ready_gs demo_image 174 = Some (True, g') \<and>
    live_rule g' (cfg_sig demo_rule) = Some (rule_of_cfg demo_rule)"
proof -
  obtain g' where g': "ntfe_configure demo_env ready_gs demo_image 174 = Some (True, g')"
    using ready_configure by auto
  have "length demo_image = unat (174 :: u32)" "unat (im_hashsz (image_of demo_image)) mod 32 \<noteq> 31"
    by (simp_all add: demo_image_fields)
  from configure_installs_rules [OF ready_inv this g'] show ?thesis
    using g' by (auto simp: demo_image_fields)
qed

text \<open>
  C6: After a successful configuration the statically authorised hosts are exactly the image's
  hosts, whichever were configured before.
\<close>

theorem configure_installs_hosts:
  assumes "control_inv g" "length m = unat cfg_len" "unat (im_hashsz (image_of m)) mod 32 \<noteq> 31"
    and "ntfe_configure e g m cfg_len = Some (True, g')" "0 \<notin> set (img_hosts m)" "a \<noteq> 0"
  shows "host_pri g' a = Some HOST_PRI_STATIC \<longleftrightarrow> a \<in> set (img_hosts m)"
  by (rule loaded_hosts(1) [OF assms(1) configured(1) [OF assms(1-4)] assms(5,6)])

theorem configure_installs_hosts_witness:
  "\<exists>g'. ntfe_configure demo_env ready_gs demo_image 174 = Some (True, g') \<and>
    host_pri g' 0x0900000A = Some HOST_PRI_STATIC \<and> host_pri g' 0x0800000A \<noteq> Some HOST_PRI_STATIC"
proof -
  obtain g' where g': "ntfe_configure demo_env ready_gs demo_image 174 = Some (True, g')"
    using ready_configure by auto
  have img: "length demo_image = unat (174 :: u32)" "unat (im_hashsz (image_of demo_image)) mod 32 \<noteq> 31"
    by (simp_all add: demo_image_fields)
  note c = configure_installs_hosts [OF ready_inv img g']
  from c [where a = "0x0900000A"] c [where a = "0x0800000A"] show ?thesis
    using g' by (simp add: demo_image_fields)
qed

text \<open>
  Hosts authorised dynamically or by outgoing traffic stay authorised, with at least their
  priority, across a configuration: only the statically authorised ones are invalidated.
\<close>

theorem configure_keeps_dynamic_hosts:
  assumes "control_inv g" "length m = unat cfg_len" "unat (im_hashsz (image_of m)) mod 32 \<noteq> 31"
    and "ntfe_configure e g m cfg_len = Some (True, g')" "0 \<notin> set (img_hosts m)" "a \<noteq> 0"
    and "host_pri g a = Some q" "q \<noteq> HOST_PRI_NONE" "q \<noteq> HOST_PRI_STATIC"
  shows "\<exists>q'. host_pri g' a = Some q' \<and> q \<le> q'"
  by (rule loaded_hosts(2) [OF assms(1) configured(1) [OF assms(1-4)] assms(5-9)])

text \<open>The engine with an authorised host and no rules.\<close>

definition dyn_gs :: gs where
  "dyn_gs = (host_gs HOST_PRI_DYNAUTH)\<lparr>gs_rules := replicate MAX_RULES zero_rule\<rparr>"

lemma dyn_inv: "control_inv dyn_gs" "host_pri dyn_gs demo_src = Some HOST_PRI_DYNAUTH"
  "gs_rules dyn_gs = replicate MAX_RULES zero_rule"
proof -
  show "control_inv dyn_gs"
    using engine_control [OF host_gs_inv, of HOST_PRI_DYNAUTH]
    by (simp add: control_inv_def dyn_gs_def)
  have "host_pri dyn_gs demo_src = host_pri (host_gs HOST_PRI_DYNAUTH) demo_src"
    by (simp add: host_pri_def dyn_gs_def)
  then show "host_pri dyn_gs demo_src = Some HOST_PRI_DYNAUTH"
    by (simp add: host_gs_pri HOST_PRI_DYNAUTH_def take_bit_word_self)
qed (simp add: dyn_gs_def)

lemma dyn_room: "host_tbl dyn_gs (host_fetch_bucket 0x0900000A) = zero_htbucket"
proof -
  have "host_fetch_bucket 0x0900000A \<noteq> host_fetch_bucket demo_src"
    by (simp add: ntfw_eval)
  then show ?thesis by (simp add: dyn_gs_def host_gs_def demo_gs_fields)
qed

theorem configure_keeps_dynamic_hosts_witness:
  "\<exists>g' q'. ntfe_configure demo_env dyn_gs demo_image 174 = Some (True, g') \<and>
    host_pri g' demo_src = Some q' \<and> HOST_PRI_DYNAUTH \<le> q'"
proof -
  obtain g' where g': "ntfe_configure demo_env dyn_gs demo_image 174 = Some (True, g')"
    using demo_configure [OF dyn_inv(1,3) dyn_room] by auto
  have img: "length demo_image = unat (174 :: u32)" "unat (im_hashsz (image_of demo_image)) mod 32 \<noteq> 31"
    by (simp_all add: demo_image_fields)
  have "HOST_PRI_DYNAUTH \<noteq> HOST_PRI_NONE" "HOST_PRI_DYNAUTH \<noteq> HOST_PRI_STATIC"
    by (simp_all add: host_pri_defs)
  from configure_keeps_dynamic_hosts [OF dyn_inv(1) img g' _ _ dyn_inv(2) this] g'
  show ?thesis by (auto simp: demo_image_fields)
qed

text \<open>
  An image with at least one rule cannot be loaded twice: on the engine that runs it, validation
  of the very same image fails, because its rules are tried against the occupied table.
\<close>

theorem reconfigure_same_image_fails:
  assumes "control_inv g" "length m = unat cfg_len" "unat (im_hashsz (image_of m)) mod 32 \<noteq> 31"
    and "ntfe_configure e g m cfg_len = Some (True, g')" "img_rules m \<noteq> []"
  shows "ntfe_validate_configuration g' m cfg_len = Some False \<and>
    ntfe_configure e' g' m cfg_len = Some (False, g')"
proof -
  have "ntfe_validate_configuration g' m cfg_len = Some False"
    by (rule loaded_blocks_reload [OF configured(1,2) [OF assms(1-4)] assms(2,5,3)])
  then show ?thesis by (simp add: ntfe_configure_def)
qed

theorem reconfigure_same_image_fails_witness:
  "\<exists>g'. ntfe_configure demo_env ready_gs demo_image 174 = Some (True, g') \<and>
    ntfe_configure demo_env g' demo_image 174 = Some (False, g')"
proof -
  obtain g' where g': "ntfe_configure demo_env ready_gs demo_image 174 = Some (True, g')"
    using ready_configure by auto
  have img: "length demo_image = unat (174 :: u32)" "unat (im_hashsz (image_of demo_image)) mod 32 \<noteq> 31"
    by (simp_all add: demo_image_fields)
  from reconfigure_same_image_fails [OF ready_inv img g', of demo_env] g'
  show ?thesis by (auto simp: demo_image_fields)
qed

text \<open>
  C7: An engine configured with an image whose declared table size is not 31 modulo 32 satisfies the
  invariant of the data path as soon as the rules of the image that charge a meter name one of the four
  meters, so its data path is safe. With a table size of 31 this fails even without rules
  (\<open>ruleless_image_faults\<close>).
\<close>

theorem configured_engine_safe:
  assumes "control_inv g" "length m = unat cfg_len" "unat (im_hashsz (image_of m)) mod 32 \<noteq> 31"
    and "ntfe_configure e g m cfg_len = Some (True, g')" "img_meters_ok m"
  shows "engine_inv g' \<and> marked_rules g'"
proof -
  have "well_formed m cfg_len"
    using configured(3) [OF assms(1-4)] by (simp add: validate_eq [OF assms(2) control_invD(3) [OF assms(1)] assms(3)])
  then have "\<not> hash_too_big (im_hashsz (image_of m))" by (simp add: well_formed_def)
  with loaded_engine_inv [OF configured(1,2) [OF assms(1-4)] assms(5) _ assms(3)] show ?thesis by simp
qed

theorem configured_engine_safe_witness:
  "\<exists>g'. ntfe_configure demo_env ready_gs demo_image 174 = Some (True, g') \<and> engine_inv g'"
proof -
  obtain g' where g': "ntfe_configure demo_env ready_gs demo_image 174 = Some (True, g')"
    using ready_configure by auto
  have img: "length demo_image = unat (174 :: u32)" "unat (im_hashsz (image_of demo_image)) mod 32 \<noteq> 31"
    by (simp_all add: demo_image_fields)
  have "img_meters_ok demo_image"
    by (simp add: img_meters_ok_def demo_image_fields rule_meters_ok_def rule_of_cfg_def demo_rule_def MAX_METERS_def)
  from configured_engine_safe [OF ready_inv img g' this] g' show ?thesis by auto
qed

end
