(* ===== verification/Host_Props.thy ===== *)
theory Host_Props
  imports Engine_Props
begin

text \<open>
  The properties of the parts the packet filter is made of: the host table's priorities, its
  eviction policy and its limits, the pool, traffic meters, and the textual form of addresses.
\<close>

section \<open>Priorities\<close>

text \<open>
  C8: A host that was authorised stays authorised, with at least its priority, under any sequence of
  insertions of hosts, authorised or not: nothing but a host of the lowest priority is evicted.
\<close>

theorem authorised_hosts_stay:
  assumes "table_ok g" "fold_opt (\<lambda>s (a, p). map_option snd (enter e s a p)) g es = Some g'"
    and "\<forall>(a, p) \<in> set es. legal_host a p" "b \<noteq> 0" "host_pri g b = Some q" "HOST_PRI_NONE < q"
  shows "\<exists>q'. host_pri g' b = Some q' \<and> q \<le> q'"
proof -
  have leg: "legal_host b 0" using assms(4) by (simp add: legal_host_def)
  have es: "(a, p) \<in> set es \<Longrightarrow> legal_host a p" for a p using assms(3) by auto
  show ?thesis
    by (rule hm.authorised_kept [OF assms(1) assms(2) [folded hm.entries_def] es leg assms(5,6)])
qed

text \<open>
  And a host is authorised only by an insertion that asks for it: a priority found after any
  sequence of insertions was there before or was requested for that very host.
\<close>

theorem authorised_only_on_request:
  assumes "table_ok g" "fold_opt (\<lambda>s (a, p). map_option snd (enter e s a p)) g es = Some g'"
    and "\<forall>(a, p) \<in> set es. legal_host a p" "b \<noteq> 0" "host_pri g' b = Some q" "HOST_PRI_NONE < q"
  shows "host_pri g b = Some q \<or> (b, q) \<in> set es"
proof -
  have leg: "legal_host b 0" using assms(4) by (simp add: legal_host_def)
  have es: "(a, p) \<in> set es \<Longrightarrow> legal_host a p" for a p using assms(3) by auto
  show ?thesis
    by (rule hm.authorised_source [OF assms(1) assms(2) [folded hm.entries_def] es leg assms(5,6)])
qed

lemma demo_enter:
  assumes "engine_inv g" "a \<noteq> 0" "HOST_PRI_NONE < p" "p < 4"
    and "\<not> exhausted (host_tbl g (host_fetch_bucket a))" "lane (host_tbl g (host_fetch_bucket a)) 0 = Some j"
  obtains g' where "enter e g a p = Some (True, g')"
proof -
  obtain r g' where "host_insert_authorized e g (host_fetch_bucket a) a p = Some (r, g')" "0 \<le> r"
    using host_insert_authorized_free [OF table_okD [OF engine_invD(1) [OF assms(1)]] assms(5,6)] by blast
  then have "enter e g a p = Some (True, g')" using assms(3) by (auto simp: enter_def)
  then show ?thesis by (rule that)
qed

lemma demo_enter_one:
  obtains g' where "enter demo_env (host_gs 2) 0x0900000A 1 = Some (True, g')"
proof (rule demo_enter [OF host_gs_inv, of "0x0900000A" 1])
  have b: "host_tbl (host_gs 2) (host_fetch_bucket 0x0900000A) = zero_htbucket"
    using dyn_room by (simp add: dyn_gs_def HOST_PRI_DYNAUTH_def)
  show "\<not> exhausted (host_tbl (host_gs 2) (host_fetch_bucket 0x0900000A))"
    "lane (host_tbl (host_gs 2) (host_fetch_bucket 0x0900000A)) 0 = Some 0"
    by (simp_all only: b zero_bucket_free not_False_eq_True)
qed (use that in \<open>simp_all add: HOST_PRI_NONE_def\<close>)

theorem authorised_hosts_stay_witness:
  "\<exists>g' q'. fold_opt (\<lambda>s (a, p). map_option snd (enter demo_env s a p)) (host_gs 2) [(0x0900000A, 1)] = Some g' \<and>
     host_pri g' demo_src = Some q' \<and> 2 \<le> q'"
proof -
  obtain u where u: "enter demo_env (host_gs 2) 0x0900000A 1 = Some (True, u)" by (rule demo_enter_one)
  have "\<exists>q'. host_pri u demo_src = Some q' \<and> 2 \<le> q'"
    by (rule authorised_hosts_stay [OF engine_invD(1) [OF host_gs_inv [of 2]],
          where es = "[(0x0900000A, 1)]" and e = demo_env])
      (simp_all add: u legal_host_def host_gs_pri take_bit_word_self HOST_PRI_NONE_def)
  with u show ?thesis by simp
qed

theorem authorised_only_on_request_witness:
  "\<exists>g'. fold_opt (\<lambda>s (a, p). map_option snd (enter demo_env s a p)) (host_gs 2) [(0x0900000A, 1)] = Some g' \<and>
     host_pri g' 0x0800000A \<noteq> Some 2"
proof -
  obtain u where u: "enter demo_env (host_gs 2) 0x0900000A 1 = Some (True, u)" by (rule demo_enter_one)
  have "host_pri (host_gs 2) 0x0800000A = None"
  proof -
    have "host_fetch_bucket 0x0800000A \<noteq> host_fetch_bucket demo_src" by (simp add: ntfw_eval)
    then have "host_tbl (host_gs 2) (host_fetch_bucket 0x0800000A) = zero_htbucket"
      by (simp add: host_gs_def demo_gs_fields)
    then show ?thesis by (simp add: host_pri_def Let_def) (simp add: lane_eq zero_htbucket_def HTBL_BKT_SZ_def)
  qed
  have "host_pri u 0x0800000A \<noteq> Some 2"
  proof
    assume "host_pri u 0x0800000A = Some 2"
    from authorised_only_on_request [OF engine_invD(1) [OF host_gs_inv [of 2]] _ _ _ this,
        where es = "[(0x0900000A, 1)]" and e = demo_env]
    show False using u \<open>host_pri (host_gs 2) _ = None\<close> by (simp add: legal_host_def HOST_PRI_NONE_def)
  qed
  with u show ?thesis by simp
qed

section \<open>Full buckets\<close>

definition full_bucket :: "htbucket \<Rightarrow> bool" where
  "full_bucket h \<longleftrightarrow> 0 \<notin> set (saddr h)"

lemma probe_zero_full: "length (saddr h) = 8 \<Longrightarrow> full_bucket h \<Longrightarrow> probe_bucket h 0 = - 1"
  using lane_None [of h 0] by (simp add: full_bucket_def probe_lane probe_neg)

text \<open>Buckets for the witnesses, in the first bucket of an otherwise empty table.\<close>

definition bucket_gs :: "u32 list \<Rightarrow> u32 \<Rightarrow> bool \<Rightarrow> gs" where
  "bucket_gs as p ex = gs_init\<lparr>host_tbl := (host_tbl gs_init)(0 :=
     set_exhausted ex \<lparr>saddr = as, ctrl = replicate 8 (set_pri p 0)\<rparr>)\<rparr>"

lemma bucket_gs_bucket:
  "host_tbl (bucket_gs as p ex) 0 = set_exhausted ex \<lparr>saddr = as, ctrl = replicate 8 (set_pri p 0)\<rparr>"
  by (simp add: bucket_gs_def)

lemma bucket_gs_ok:
  assumes "length as = 8" "\<forall>i<8. \<forall>j<8. as ! i = as ! j \<longrightarrow> as ! i \<noteq> 0 \<longrightarrow> i = j"
  shows "bucket_ok (host_tbl (bucket_gs as p ex) 0)" "exhausted (host_tbl (bucket_gs as p ex) 0) = ex"
    "k < 8 \<Longrightarrow> pri_at (host_tbl (bucket_gs as p ex) 0) k = take_bit 2 p" "saddr (host_tbl (bucket_gs as p ex) 0) = as"
proof -
  have "\<not> HTB_TEST_LOCK \<lparr>saddr = as, ctrl = replicate 8 (set_pri p 0)\<rparr>"
    by (simp add: HTB_TEST_LOCK_def HTB_LOCK_BIT_def)
  with assms show "bucket_ok (host_tbl (bucket_gs as p ex) 0)"
    by (simp add: bucket_ok_def bucket_gs_bucket)
  show "exhausted (host_tbl (bucket_gs as p ex) 0) = ex"
    by (simp add: bucket_gs_bucket exhausted_def set_exhausted_def bit_set_bits)
  show "k < 8 \<Longrightarrow> pri_at (host_tbl (bucket_gs as p ex) 0) k = take_bit 2 p"
    by (simp add: bucket_gs_bucket) (simp add: pri_at_def)
qed (simp add: bucket_gs_bucket)

abbreviation eight :: "u32 list" where "eight \<equiv> [11, 12, 13, 14, 15, 16, 17, 18]"

lemma eight_ok: "length eight = 8"
  "\<forall>i<8. \<forall>j<8. eight ! i = eight ! j \<longrightarrow> eight ! i \<noteq> 0 \<longrightarrow> i = j"
proof -
  have d: "distinct eight" by simp
  show "\<forall>i<8. \<forall>j<8. eight ! i = eight ! j \<longrightarrow> eight ! i \<noteq> 0 \<longrightarrow> i = j"
    using nth_eq_iff_index_eq [OF d] by simp
qed simp_all

text \<open>
  A bucket whose eight hosts are all authorised takes no other authorised host, of whatever
  priority: the insertion reports failure and leaves the bucket's hosts as they were.
\<close>

theorem full_of_authorised_rejects:
  assumes "bucket_ok (host_tbl g bi)" "exhausted (host_tbl g bi)" "lane (host_tbl g bi) a = None"
    and "\<forall>k<8. HOST_PRI_NONE < pri_at (host_tbl g bi) k"
  shows "\<exists>g'. host_insert_authorized e g bi a p = Some (- 1, g') \<and>
    saddr (host_tbl g' bi) = saddr (host_tbl g bi) \<and> lane (host_tbl g' bi) a = None"
proof -
  let ?h = "host_tbl g bi" and ?g1 = "upd_bucket bi locked g"
  note h = bucket_okD(1-3) [OF assms(1)]
  have al: "allocate ?g1 bi ts HOST_PRI_NONE = Some (- 1, ?g1)" for ts
  proof -
    have "length (ctrl (locked ?h)) = 8" using h by simp
    then obtain k where k: "evict_victim ts (ctrl (locked ?h)) = Some k" "k < 8"
      using evict_victim_Some [of "ctrl (locked ?h)" ts] by (metis length_0_conv zero_neq_numeral)
    moreover have "HOST_PRI_NONE < ctrl_pri (ctrl (locked ?h) ! k)"
      using assms(4) k(2) locked_fields(1) [OF h(2), of k] by (simp add: pri_at_def)
    ultimately show ?thesis using assms(2) h by (simp add: allocate_def)
  qed
  have "probe_bucket ?h a < 0" using assms(3) by (simp add: probe_lane)
  then have "host_insert_authorized e g bi a p = Some (- 1, unlock_bucket bi ?g1)"
    using h al by (simp add: host_insert_authorized_def lock_bucket_eq Let_def)
  then show ?thesis using assms(3) h(1) by (simp add: unlock_bucket_eq lane_None)
qed

theorem full_of_authorised_rejects_witness:
  "\<exists>g'. host_insert_authorized demo_env (bucket_gs eight 1 True) 0 99 3 = Some (- 1, g') \<and>
     lane (host_tbl g' 0) 99 = None"
proof -
  note b = bucket_gs_ok [OF eight_ok, where p = 1 and ex = True]
  have "lane (host_tbl (bucket_gs eight 1 True) 0) 99 = None"
    by (simp only: lane_None [OF bucket_okD(1) [OF b(1)]] b(4)) simp
  from full_of_authorised_rejects [OF b(1) _ this, of demo_env 3] show ?thesis
    by (auto simp: b(2,3) HOST_PRI_NONE_def take_bit_word_self)
qed

text \<open>
  A bucket with no free lane that is not marked exhausted accepts no new host at all, neither as
  unauthorised nor with any priority, and stays that way.
\<close>

theorem full_unmarked_bucket_stuck:
  assumes "bucket_ok (host_tbl g bi)" "\<not> exhausted (host_tbl g bi)" "full_bucket (host_tbl g bi)"
    and "lane (host_tbl g bi) a = None"
  shows "(\<exists>g'. host_insert e g bi a = Some (- 1, g') \<and> \<not> exhausted (host_tbl g' bi) \<and> full_bucket (host_tbl g' bi)) \<and>
    (\<exists>g'. host_insert_authorized e g bi a p = Some (- 1, g') \<and> \<not> exhausted (host_tbl g' bi) \<and> full_bucket (host_tbl g' bi))"
proof -
  let ?h = "host_tbl g bi" and ?g1 = "upd_bucket bi locked g"
  note h = bucket_okD(1-3) [OF assms(1)]
  have al: "allocate ?g1 bi ts HOST_PRI_NONE = Some (- 1, ?g1)" for ts
    using assms(2) h probe_zero_full [OF h(1) assms(3)] by (simp add: allocate_def)
  have pr: "probe_bucket ?h a < 0" using assms(4) by (simp add: probe_lane)
  have "host_insert e g bi a = Some (- 1, unlock_bucket bi (bump e htb_ins_fails_update ?g1))"
    "host_insert_authorized e g bi a p = Some (- 1, unlock_bucket bi ?g1)"
    using h al pr by (simp_all add: host_insert_def host_insert_authorized_def lock_bucket_eq Let_def)
  then show ?thesis using assms(2,3) h(2) by (simp add: unlock_bucket_eq full_bucket_def)
qed

theorem full_unmarked_bucket_stuck_witness:
  "(\<exists>g'. host_insert demo_env (bucket_gs eight 0 False) 0 99 = Some (- 1, g')) \<and>
   (\<exists>g'. host_insert_authorized demo_env (bucket_gs eight 0 False) 0 99 3 = Some (- 1, g'))"
proof -
  note b = bucket_gs_ok [OF eight_ok, where p = 0 and ex = False]
  have "lane (host_tbl (bucket_gs eight 0 False) 0) 99 = None"
    by (simp only: lane_None [OF bucket_okD(1) [OF b(1)]] b(4)) simp
  from full_unmarked_bucket_stuck [OF b(1) _ _ this, of demo_env 3] show ?thesis
    by (auto simp: b(2,4) full_bucket_def)
qed

text \<open>
  Such a bucket comes about when the lane that clearing the static hosts has freed is filled
  again: after an insertion into the only free lane of an unmarked bucket, unless it is the last
  lane, the bucket is full and unmarked.
\<close>

theorem refilled_hole_unmarked:
  assumes "bucket_ok (host_tbl g bi)" "\<not> exhausted (host_tbl g bi)" "lane (host_tbl g bi) 0 = Some k" "k \<noteq> 7"
    and "\<forall>j<8. j \<noteq> k \<longrightarrow> saddr (host_tbl g bi) ! j \<noteq> 0" "a \<noteq> 0" "lane (host_tbl g bi) a = None"
  shows "\<exists>g'. host_insert_authorized e g bi a p = Some (int k, g') \<and>
    full_bucket (host_tbl g' bi) \<and> \<not> exhausted (host_tbl g' bi)"
proof -
  let ?h = "host_tbl g bi" and ?g1 = "upd_bucket bi locked g" and ?ts = "insert_tsec e (upd_bucket bi locked g)"
  note h = bucket_okD(1-3) [OF assms(1)]
  have k: "k < 8" by (rule lane_SomeD(1) [OF h(1) assms(3)])
  have al: "allocate ?g1 bi ts HOST_PRI_NONE = Some (int k, ?g1)" for ts
    using assms(2-4) h by (simp add: allocate_def probe_lane(2) Let_def)
  have pr: "probe_bucket ?h a < 0" using assms(7) by (simp add: probe_lane)
  let ?f = "\<lambda>htb. set_entry_ptr k 0 (init_entry k a ?ts p htb)"
  have ins: "host_insert_authorized e g bi a p = Some (int k, unlock_bucket bi (upd_bucket bi ?f ?g1))"
    using h al pr by (simp add: host_insert_authorized_def lock_bucket_eq Let_def)
  have "full_bucket (host_tbl (unlock_bucket bi (upd_bucket bi ?f ?g1)) bi)"
    using assms(5,6) k h(1) by (auto simp: unlock_bucket_eq full_bucket_def in_set_conv_nth nth_list_update)
  moreover have "\<not> exhausted (host_tbl (unlock_bucket bi (upd_bucket bi ?f ?g1)) bi)"
  proof -
    have "exhausted (set_entry_ptr k x (init_entry k a t p b)) = exhausted b" if "length (ctrl b) = 8" for x t b
      using that k by (cases "k = 1") (auto simp: exhausted_def set_entry_ptr_def init_entry_def)
    then show ?thesis using assms(2) h by (simp add: unlock_bucket_eq)
  qed
  ultimately show ?thesis using ins by blast
qed

theorem refilled_hole_unmarked_witness:
  "\<exists>g'. host_insert_authorized demo_env (bucket_gs [0, 12, 13, 14, 15, 16, 17, 18] 3 False) 0 99 2 = Some (0, g') \<and>
     full_bucket (host_tbl g' 0) \<and> \<not> exhausted (host_tbl g' 0)"
proof -
  let ?as = "[0, 12, 13, 14, 15, 16, 17, 18] :: u32 list"
  have d: "distinct ?as" by simp
  have uniq: "\<forall>i<8. \<forall>j<8. ?as ! i = ?as ! j \<longrightarrow> ?as ! i \<noteq> 0 \<longrightarrow> i = j"
    using nth_eq_iff_index_eq [OF d] by simp
  have len: "length ?as = 8" by simp
  note b = bucket_gs_ok [OF len uniq, where p = 3 and ex = False]
  note l = lane_eq [OF bucket_okD(1) [OF b(1)]]
  have lanes: "lane (host_tbl (bucket_gs ?as 3 False) 0) 0 = Some 0"
    "lane (host_tbl (bucket_gs ?as 3 False) 0) 99 = None"
    by (simp_all only: l b(4)) simp_all
  have "?as ! j \<noteq> 0" if "j < 8" "j \<noteq> 0" for j
    using nth_eq_iff_index_eq [OF d, of j 0] that by simp
  with refilled_hole_unmarked [OF b(1) _ lanes(1) _ _ _ lanes(2), of demo_env 2] show ?thesis
    by (simp add: b(2,4))
qed

section \<open>Probing and eviction\<close>

text \<open>
  The vector probe of a bucket returns the first lane that holds the address, and -1 when no
  lane does.
\<close>

theorem probe_is_first_lane:
  assumes "length (saddr htb) = 8"
  shows "probe_bucket htb a = first_lane (saddr htb) a"
  by (rule probe_bucket_first_lane [OF assms])

theorem probe_is_first_lane_witness:
  "probe_bucket \<lparr>saddr = eight, ctrl = []\<rparr> 13 = 2 \<and> probe_bucket \<lparr>saddr = eight, ctrl = []\<rparr> 19 = - 1"
  using probe_is_first_lane [of "\<lparr>saddr = eight, ctrl = []\<rparr>" 13]
    probe_is_first_lane [of "\<lparr>saddr = eight, ctrl = []\<rparr>" 19] by (simp add: first_lane_def)

text \<open>
  The host evicted from a full bucket is one of least priority, and among those one of the
  oldest by the bucket's 11-bit clock; ages wrap without disturbing the order.
\<close>

theorem eviction_policy:
  assumes "cs \<noteq> []"
  shows "\<exists>k < length cs. evict_victim tsec cs = Some k \<and>
    (\<forall>j < length cs. unat (ctrl_pri (cs ! k)) < unat (ctrl_pri (cs ! j)) \<or>
       unat (ctrl_pri (cs ! k)) = unat (ctrl_pri (cs ! j)) \<and> entry_age tsec (cs ! j) \<le> entry_age tsec (cs ! k))"
proof -
  obtain k where "evict_victim tsec cs = Some k" "k < length cs"
    "\<And>j. j < length cs \<Longrightarrow> evict_dist tsec (cs ! k) \<le> evict_dist tsec (cs ! j)"
    using evict_victim_Some [OF assms, of tsec] by metis
  then show ?thesis unfolding evict_dist_le_iff by blast
qed

theorem eviction_policy_witness:
  "evict_victim 5 [set_pri 1 3, set_pri 0 2047, set_pri 0 4] = Some 1 \<and>
   (\<exists>k < 3. evict_victim 5 [set_pri 1 3, set_pri 0 2047, set_pri 0 4] = Some k)"
proof -
  have "evict_victim 5 [set_pri 1 3, set_pri 0 2047, set_pri 0 4] = Some 1" by code_simp
  moreover have "\<exists>k < 3. evict_victim 5 [set_pri 1 3, set_pri 0 2047, set_pri 0 4] = Some k"
    using eviction_policy [of "[set_pri 1 3, set_pri 0 2047, set_pri 0 4]" 5] by (auto simp: numeral_3_eq_3)
  ultimately show ?thesis by simp
qed

section \<open>The pool\<close>

text \<open>
  An allocation of host storage returns, without waiting, an index inside the committed part of
  the pool, and commits the next part half an interval before it is needed.
\<close>

theorem pool_allocation_backed:
  assumes "pool_size_ok g" "pool_room 1 g"
  shows "\<exists>p g'. host_allocate e g = Some (p, g') \<and> p = hp_size g + 1 \<and> p < hp_true_sz g' \<and> pool_size_ok g' \<and>
    unat (hp_size g') + 32 < unat (hp_true_sz g')"
proof -
  obtain p g' where a: "host_allocate e g = Some (p, g')" "pool_size_ok g'" "p < hp_true_sz g'"
    using host_allocate_ok [OF assms] by metis
  have "unat (hp_size g') + 32 < unat (hp_true_sz g')"
    using a(2) by (simp add: pool_size_ok_def)
  with a host_allocate_frame(7) [OF a(1)] show ?thesis by blast
qed

theorem pool_allocation_backed_witness:
  "\<exists>p g'. host_allocate demo_env (demo_gs\<lparr>hp_size := 31\<rparr>) = Some (p, g') \<and> p = 32 \<and> hp_true_sz g' = 128"
proof -
  have "pool_size_ok (demo_gs\<lparr>hp_size := 31\<rparr>)" "pool_room 1 (demo_gs\<lparr>hp_size := 31\<rparr>)"
    by (simp_all add: pool_size_ok_def pool_room_iff demo_gs_fields)
  from pool_allocation_backed [OF this, of demo_env] obtain p g' where
    a: "host_allocate demo_env (demo_gs\<lparr>hp_size := 31\<rparr>) = Some (p, g')" "p = 32" "pool_size_ok g'" by auto
  have "hp_size g' = 32" using host_allocate_frame(8) [OF a(1)] by simp
  with a(3) have "unat (hp_true_sz g') = unat (128 :: u32)" by (simp add: pool_size_ok_def)
  then have "hp_true_sz g' = 128" by (simp only: word_unat_eq_iff)
  with a show ?thesis by auto
qed

section \<open>Meters\<close>

text \<open>
  Over any sequence of charges less than 2^32 milliseconds apart, the total of the charges that
  pass is at most the meter's capacity plus its rate times the elapsed time; saturation and the
  wrapping clock do not let more through.
\<close>

theorem meter_bounds_traffic:
  assumes "refilled_at tb t0" "unat (tokens tb) \<le> unat (capacity tbd)" "timely 4294967296 t0 xs"
  shows "accepted (bucket_charge tbd) unat tb xs \<le>
    unat (capacity tbd) + unat (rate tbd) * (last_time t0 xs - t0)"
  by (rule tb.accepted_bound [OF assms])

theorem meter_bounds_traffic_witness:
  "accepted (bucket_charge \<lparr>rate = 1, capacity = 100, level = 0\<rparr>) unat \<lparr>tokens = 100, last_refill = 0\<rparr>
     [(0, 60), (10, 60), (20, 50)] \<le> 120"
  using meter_bounds_traffic [of "\<lparr>tokens = 100, last_refill = 0\<rparr>" 0 "\<lparr>rate = 1, capacity = 100, level = 0\<rparr>"
    "[(0, 60), (10, 60), (20, 50)]"] by (simp add: refilled_at_def)

text \<open>
  A single charge in exact arithmetic: the refill saturates at the capacity however large the
  products get, the cost is taken from it down to zero, and the charge passes exactly when the
  refilled tokens exceed the level by more than the cost.
\<close>

theorem meter_charge_exact:
  "unat (tokens (snd (token_bucket_charge tb tbd t c))) = refilled tb tbd t - unat c \<and>
   (fst (token_bucket_charge tb tbd t c) \<longleftrightarrow> unat (level tbd) + unat c < refilled tb tbd t) \<and>
   last_refill (snd (token_bucket_charge tb tbd t c)) = t"
  by (simp add: charge_tokens charge_pass charge_last)

text \<open>
  A rule whose byte meter is not one of the four meters makes charging a packet access memory
  outside the meters, and validation lets such a rule through.
\<close>

theorem bad_meter_number_faults:
  assumes "unat (in_byte_tb rl) \<ge> MAX_METERS" "length (hs_tb hs) = MAX_METERS" "in_byte_scale rl \<noteq> 0" "len \<noteq> 0"
  shows "host_charge_packet hs rl descs t len = None"
proof -
  have "satmul32 (ucast len) (ucast (in_byte_scale rl)) \<noteq> 0"
  proof
    assume "satmul32 (ucast len) (ucast (in_byte_scale rl)) = 0"
    then have "unat (satmul32 (ucast len) (ucast (in_byte_scale rl))) = 0" by simp
    moreover have "unat (ucast x :: u32) = unat x" for x :: u16
      using unat_u16_less [of x] by (simp add: unsigned_ucast_eq take_bit_nat_eq_self)
    ultimately show False using assms(3,4) by (auto simp only: unat_satmul32) (simp add: unsigned_eq_0_iff min_def split: if_splits)
  qed
  then have "charge_meter (hs_tb hs) descs (in_byte_tb rl) t (satmul32 (ucast len) (ucast (in_byte_scale rl))) = None"
    using assms(1,2) by (simp add: charge_meter_def cell_def)
  then show ?thesis
    by (cases "spin_acquire (hs_lock hs) 0") (simp_all add: host_charge_packet_def)
qed

theorem bad_meter_number_faults_witness:
  "host_charge_packet zero_host_state (rule_of_cfg (demo_rule\<lparr>cr_byte_tb := 5\<rparr>)) (tbdesc demo_gs) 0 50 = None"
  by (rule bad_meter_number_faults)
    (simp_all add: rule_of_cfg_def demo_rule_def zero_host_state_def MAX_METERS_def)

section \<open>Clearing\<close>

text \<open>
  Clearing removes exactly the statically authorised hosts: every other host keeps its priority.
\<close>

theorem clear_removes_static_hosts:
  assumes "control_inv g" "a \<noteq> 0"
  shows "\<exists>g'. host_clear_statically_authorized g = Some g' \<and> table_ok g' \<and>
    host_pri g' a = (if host_pri g a = Some HOST_PRI_STATIC then None else host_pri g a)"
  using clear_ok [OF control_invD(2,1) [OF assms(1)]] assms(2) by blast

theorem clear_removes_static_hosts_witness:
  "\<exists>g'. host_clear_statically_authorized (host_gs 3) = Some g' \<and> host_pri g' demo_src = None"
proof -
  have "host_pri (host_gs 3) demo_src = Some HOST_PRI_STATIC"
    by (simp add: host_gs_pri take_bit_word_self HOST_PRI_STATIC_def)
  with clear_removes_static_hosts [OF engine_control [OF host_gs_inv], of demo_src 3] show ?thesis by auto
qed

section \<open>Printed addresses and table sizes\<close>

text \<open>
  The textual form of an address reads back as its four octets in network order, ends in its
  only terminator, fits in sixteen bytes, and its length is the one returned.
\<close>

theorem ipxs_round_trip:
  "dotted (fst (ipxs a)) 0 = map (\<lambda>i. unat (ip_octet a i)) [0..<4] \<and>
   length (fst (ipxs a)) = unat (snd (ipxs a)) + 1 \<and> length (fst (ipxs a)) \<le> 16 \<and>
   last (fst (ipxs a)) = 0"
proof (cases "a = 0")
  case True
  then show ?thesis by (simp add: ipxs_zero ip_octet_def upt_rec)
next
  case False
  obtain s where s: "ipxs a = (s @ [0], of_nat (length s))" "7 \<le> length s" "length s \<le> 15"
    using ipxs_nonzero [OF False] by metis
  have "unat (of_nat (length s) :: u8) = length s"
    using s(3) by (simp add: unat_of_nat)
  with s dotted_ipxs_nonzero [OF False] show ?thesis by simp
qed

text \<open>
  A declared table size of 31 passes the size check, and with it a rule is looked for outside
  the 128 slots of the table: validating such an image does not return normally.
\<close>

definition image_31 :: "u8 list" where
  "image_31 = take 84 demo_image @ [31, 0, 0, 0] @ drop 88 demo_image"

theorem table_size_31_faults:
  "length image_31 = 174 \<and> \<not> hash_too_big (the (cfg_rule_hashsz image_31)) \<and>
   ntfe_validate_configuration ready_gs image_31 174 = None"
proof -
  have f: "length image_31 = 174" "cfg_length image_31 = Some 174" "cfg_rule_count image_31 = Some 1"
    "cfg_meter_count image_31 = Some 1" "cfg_host_count image_31 = Some 1" "cfg_reserved image_31 = Some 0"
    "cfg_version image_31 = Some 1" "cfg_rule_hashsz image_31 = Some 31" "cfg_rule_seed image_31 = Some 0"
    "rule_at image_31 100 = Some demo_rule"
    by code_simp+
  have slot: "128 \<le> rule_slot demo_rule 0 31" by code_simp
  have big: "\<not> hash_too_big 31" by (simp add: hash_too_big_iff)
  have "rule_insert (gs_rules ready_gs) demo_rule 0 31 True = None"
    using slot by (simp add: rule_insert_def cell_def ready_fields MAX_RULES_def)
  then have "check_rules ready_gs image_31 0 31 100 1 = None"
    by (simp add: f(10))
  with f big show ?thesis
    by (simp add: ntfe_validate_configuration_def cfg_size_defs NTFE_CFG_VERSION_def MAX_RULES_def)
qed

text \<open>
  Without rules such an image is even installed, and the lookups of the data path then leave the table:
  receiving a frame of an address that is not authorised does not return normally when the hash of its
  signature is not below 128.
\<close>

theorem ruleless_image_faults:
  assumes "control_inv g" "length m = unat cfg_len" "well_formed m cfg_len"
    and "im_hashsz (image_of m) = 31" "im_rules (image_of m) = 0" "im_meters (image_of m) = 0" "im_hosts (image_of m) = 0"
  shows "\<exists>g'. ntfe_configure e g m cfg_len = Some (True, g') \<and>
    (\<forall>f sa sig. 42 \<le> length f \<and> rx_classify f = Some (Flow sa sig) \<and> sa \<noteq> 0 \<and> \<not> auth_pri g sa \<and>
      MAX_RULES \<le> unat (hash_flowsig (im_seed (image_of m)) 31 sig) \<longrightarrow> ntfe_rx e' g' f len = None)"
proof -
  have "100 \<le> length m" using assms(2,3) by (simp add: well_formed_def sizeof_ntfe_config_def)
  from cfg_fields_ok [OF this] obtain res ver ln seed hsz rc mc hc where
    f: "cfg_reserved m = Some res" "cfg_version m = Some ver" "cfg_length m = Some ln"
      "cfg_rule_seed m = Some seed" "cfg_rule_hashsz m = Some hsz" "cfg_rule_count m = Some rc"
      "cfg_meter_count m = Some mc" "cfg_host_count m = Some hc" by blast
  then have v: "hsz = 31" "rc = 0" "mc = 0" "hc = 0" "im_seed (image_of m) = seed"
    using assms(4-7) by (simp_all add: image_of_def unsigned_eq_0_iff)
  have ok: "ntfe_validate_configuration g m cfg_len = Some True"
    using assms(3) f v
    by (simp add: ntfe_validate_configuration_def well_formed_def image_of_def cfg_size_defs)
  have r: "pool_inv (reset_config g)" "table_ok (reset_config g)" using control_invD [OF assms(1)] by simp_all
  obtain g1 where g1: "host_clear_statically_authorized (reset_config g) = Some g1" "quiet (reset_config g) g1"
    "\<And>a. a \<noteq> 0 \<Longrightarrow> host_pri g1 a = (if host_pri g a = Some HOST_PRI_STATIC then None else host_pri g a)"
    using clear_ok [OF r] by (auto simp: host_pri_def reset_config_def)
  define g' where "g' = g1\<lparr>rule_hashsz := 31, rule_seed := seed\<rparr>"
  have conf: "ntfe_configure e g m cfg_len = Some (True, g')"
    using ok g1(1) f v by (simp add: ntfe_configure_def g'_def)
  have rules: "length (gs_rules g') = MAX_RULES"
    using g1(2) by (simp add: g'_def quiet_def same_config_def reset_config_def)
  have "ntfe_rx e' g' fr len = None"
    if "42 \<le> length fr" "rx_classify fr = Some (Flow sa sig)" "sa \<noteq> 0" "\<not> auth_pri g sa"
      "MAX_RULES \<le> unat (hash_flowsig seed 31 sig)" for fr sa sig
  proof -
    have "host_pri g' sa = host_pri g1 sa" by (simp add: g'_def host_pri_def)
    then have "\<not> auth_pri g' sa" using that(4) g1(3) [OF that(3)]
      by (auto simp: auth_pri_def host_pri_defs split: if_splits option.splits)
    moreover have "rule_lookup (gs_rules g') (rule_seed g') (rule_hashsz g') sig = None"
      using that(5) rules by (simp add: rule_lookup_def cell_def g'_def)
    ultimately show ?thesis using that(1,2) by (simp add: ntfe_rx_class)
  qed
  then show ?thesis using conf v(5) by blast
qed

text \<open>The header alone, for a table of \<open>2^31\<close> slots.\<close>

definition header_31 :: "u8 list" where
  "header_31 = [0, 0, 0, 0, 1, 0, 100, 0] @ replicate 72 0 @ [0, 0, 0, 0, 31, 0, 0, 0] @ replicate 12 0"

theorem ruleless_image_faults_witness:
  "\<exists>g'. ntfe_configure demo_env ready_gs header_31 100 = Some (True, g') \<and> ntfe_rx demo_env g' dns_frame 64 = None"
proof -
  have i: "length header_31 = unat (100 :: u32)" "cfg_length header_31 = Some 100" "cfg_reserved header_31 = Some 0"
    "cfg_version header_31 = Some 1"
    "image_of header_31 = \<lparr>im_seed = 0, im_hashsz = 31, im_rules = 0, im_meters = 0, im_hosts = 0\<rparr>"
    by code_simp+
  have "well_formed header_31 100"
    by (simp add: well_formed_def i cfg_size_defs hash_too_big_iff NTFE_CFG_VERSION_def)
  moreover have "MAX_RULES \<le> unat (hash_flowsig 0 31 (cfg_sig demo_rule))" by code_simp
  moreover have "\<not> auth_pri ready_gs demo_src"
    using zero_bucket_ok(2) by (simp add: auth_pri_def host_pri_def ready_fields)
  moreover obtain g' where g': "ntfe_configure demo_env ready_gs header_31 100 = Some (True, g')"
    "\<And>f sa sig. 42 \<le> length f \<Longrightarrow> rx_classify f = Some (Flow sa sig) \<Longrightarrow> sa \<noteq> 0 \<Longrightarrow> \<not> auth_pri ready_gs sa \<Longrightarrow>
      MAX_RULES \<le> unat (hash_flowsig 0 31 sig) \<Longrightarrow> ntfe_rx demo_env g' f 64 = None"
    using ruleless_image_faults [OF ready_inv i(1) calculation(1), of demo_env demo_env 64] by (auto simp: i(5))
  ultimately show ?thesis
    using g'(2) [OF _ demo_classes(1)] by (auto simp: demo_frames(1))
qed

end
