(* ===== verification/Core_Pool.thy ===== *)
theory Core_Pool
  imports Engine_Inv "HOL-Library.Multiset"
begin

text \<open>
  \<open>host_allocate\<close> and \<open>host_pool_grow\<close> of \<open>ntfe/host.cpp\<close> run by several cores at once: a core's call as
  a sequence of atomic accesses to the two counters of the pool, interleaved with those of the other
  cores. The lemmas show what any interleaving keeps when there are at most 33 cores.
\<close>

section \<open>One core\<close>

text \<open>
  The counters, the bases passed to \<open>RegionCommit\<close> (each backs \<open>HPOOL_GROW\<close> entries), and the indices
  returned to callers, latest first.
\<close>

record pool =
  pool_size :: u32
  pool_true_sz :: u32
  commits :: "u32 list"
  handed :: "u32 list"

text \<open>
  Where a core is: outside, behind the interlocked increment, in the wait, about to commit, about to
  load \<open>hp_true_sz\<close> for its increment, about to store it.
\<close>

datatype alloc_pc =
    Outside
  | Drawn u32
  | Stalled u32
  | Committing u32
  | Loading u32
  | Storing u32 u32

definition short_straw :: "u32 \<Rightarrow> bool" where
  "short_straw idx \<longleftrightarrow> (idx - HPOOL_GROW div 2) AND (HPOOL_GROW - 1) = 0"

definition alloc_step :: "pool \<Rightarrow> alloc_pc \<Rightarrow> pool \<times> alloc_pc" where
  "alloc_step p c = (case c of
     Outside \<Rightarrow> let idx = pool_size p + 1 in (p\<lparr>pool_size := idx\<rparr>, Drawn idx)
   | Drawn idx \<Rightarrow>
       if short_straw idx then (p, Committing idx)
       else if pool_true_sz p \<le> idx then (p, Stalled idx)
       else (p\<lparr>handed := idx # handed p\<rparr>, Outside)
   | Stalled idx \<Rightarrow>
       if pool_true_sz p \<le> idx then (p, Stalled idx) else (p\<lparr>handed := idx # handed p\<rparr>, Outside)
   | Committing idx \<Rightarrow> (p\<lparr>commits := pool_true_sz p # commits p\<rparr>, Loading idx)
   | Loading idx \<Rightarrow> (p, Storing idx (pool_true_sz p))
   | Storing idx t \<Rightarrow> (p\<lparr>pool_true_sz := t + HPOOL_GROW, handed := idx # handed p\<rparr>, Outside))"

section \<open>Several cores\<close>

text \<open>
  The pool as \<open>ntfe_init\<close> leaves it, and runs in which a core that draws an index has room for it in the
  region of the pool.
\<close>

definition pool_start :: pool where
  "pool_start = \<lparr>pool_size = 0, pool_true_sz = HPOOL_GROW, commits = [0], handed = []\<rparr>"

definition pool_has_room :: "pool \<Rightarrow> bool" where
  "pool_has_room p \<longleftrightarrow> uint (pool_size p) + 33 < HPOOL_SIZE"

inductive pool_step :: "pool \<times> alloc_pc list \<Rightarrow> pool \<times> alloc_pc list \<Rightarrow> bool" where
  "alloc_step p c = (p', c') \<Longrightarrow> (c = Outside \<Longrightarrow> pool_has_room p) \<Longrightarrow>
   pool_step (p, xs @ c # ys) (p', xs @ c' # ys)"

inductive pool_running :: "nat \<Rightarrow> pool \<times> alloc_pc list \<Rightarrow> bool" for n where
  "pool_running n (pool_start, replicate n Outside)"
| "pool_running n s \<Longrightarrow> pool_step s s' \<Longrightarrow> pool_running n s'"

section \<open>The invariant\<close>

fun held :: "alloc_pc \<Rightarrow> nat list" where
  "held Outside = []"
| "held (Drawn idx) = [unat idx]"
| "held (Stalled idx) = [unat idx]"
| "held (Committing idx) = [unat idx]"
| "held (Loading idx) = [unat idx]"
| "held (Storing idx t) = [unat idx]"

fun growing :: "alloc_pc \<Rightarrow> bool" where
  "growing Outside = False"
| "growing (Drawn idx) = short_straw idx"
| "growing (Stalled idx) = False"
| "growing (Committing idx) = True"
| "growing (Loading idx) = True"
| "growing (Storing idx t) = True"

fun past_commit :: "alloc_pc \<Rightarrow> bool" where
  "past_commit (Loading idx) = True"
| "past_commit (Storing idx t) = True"
| "past_commit _ = False"

text \<open>A growing core holds the index half an interval below the committed size.\<close>

definition core_ok :: "pool \<Rightarrow> alloc_pc \<Rightarrow> bool" where
  "core_ok p c \<longleftrightarrow> (growing c \<longrightarrow> held c = [unat (pool_true_sz p) - 32]) \<and>
     (\<forall>idx t. c = Storing idx t \<longrightarrow> t = pool_true_sz p)"

definition growers :: "alloc_pc list \<Rightarrow> nat" where
  "growers cs = length (filter growing cs)"

definition pool_cores_inv :: "nat \<Rightarrow> pool \<times> alloc_pc list \<Rightarrow> bool" where
  "pool_cores_inv n s \<longleftrightarrow> (case s of (p, cs) \<Rightarrow> length cs = n \<and> growers cs \<le> 1 \<and>
     unat (pool_size p) + 32 < 2097152 \<and>
     unat (pool_true_sz p) + 64 * growers cs = 64 * ((unat (pool_size p) + 32) div 64 + 1) \<and>
     (\<forall>c\<in>set cs. core_ok p c) \<and> (\<forall>idx\<in>set (handed p). idx < pool_true_sz p) \<and>
     mset (map unat (handed p)) + mset (concat (map held cs)) = mset_set {1..unat (pool_size p)} \<and>
     mset (map unat (commits p)) =
       mset (map ((*) 64) [0..<unat (pool_true_sz p) div 64 + length (filter past_commit cs)]))"

lemma pool_has_room_iff: "pool_has_room p \<longleftrightarrow> unat (pool_size p) + 33 < 2097152"
  unfolding pool_has_room_def HPOOL_SIZE_lanes(2) uint_nat by linarith

lemma short_straw_iff: "short_straw idx \<longleftrightarrow> (unat idx + 32) mod 64 = 0"
  by (simp add: short_straw_def grow_test)

lemma length_held: "length (held c) \<le> 1" "held c = [] \<longleftrightarrow> c = Outside"
  by (cases c; simp)+

lemma held_bound: "length (concat (map held cs)) \<le> length cs"
proof (induction cs)
  case (Cons c cs)
  then show ?case using length_held(1) [of c] by simp
qed simp

lemma growers_0: "growers cs = 0 \<longleftrightarrow> (\<forall>c\<in>set cs. \<not> growing c)"
  by (simp add: growers_def filter_empty_conv)

lemma growers_split [simp]:
  "growers (xs @ c # ys) = growers xs + growers ys + (if growing c then 1 else 0)"
  by (simp add: growers_def)

lemma pool_start_inv: "pool_cores_inv n (pool_start, replicate n Outside)"
  by (simp add: pool_cores_inv_def pool_start_def growers_def HPOOL_GROW_def core_ok_def)

text \<open>Indices that are drawn and not returned are distinct, and include all from the committed size on.\<close>

lemma cores_distinct:
  assumes "pool_cores_inv n (p, cs)"
  shows "distinct (handed p)" "distinct (concat (map held cs))"
    "set (map unat (handed p)) \<union> set (concat (map held cs)) = {1..unat (pool_size p)}"
    "unat (pool_true_sz p) \<le> k \<Longrightarrow> k \<le> unat (pool_size p) \<Longrightarrow> k \<in> set (concat (map held cs))"
proof -
  have "mset (map unat (handed p) @ concat (map held cs)) = mset_set {1..unat (pool_size p)}"
    using assms by (simp add: pool_cores_inv_def)
  also have "\<dots> = mset [1..<unat (pool_size p) + 1]"
    by (simp add: atLeastLessThanSuc_atLeastAtMost del: upt_Suc)
  finally have m: "mset (map unat (handed p) @ concat (map held cs)) = mset [1..<unat (pool_size p) + 1]" .
  have h: "\<forall>idx\<in>set (handed p). idx < pool_true_sz p" and t: "unat (pool_true_sz p) \<noteq> 0 \<or> growers cs = 1"
    using assms by (auto simp: pool_cores_inv_def)
  have d: "distinct (map unat (handed p) @ concat (map held cs))"
    using mset_eq_imp_distinct_iff [OF m] by simp
  then show "distinct (handed p)" "distinct (concat (map held cs))"
    by (auto simp: distinct_map)
  have s: "set (map unat (handed p) @ concat (map held cs)) = set [1..<unat (pool_size p) + 1]"
    using mset_eq_setD [OF m] .
  then show e: "set (map unat (handed p)) \<union> set (concat (map held cs)) = {1..unat (pool_size p)}"
    by auto
  assume k: "unat (pool_true_sz p) \<le> k" "k \<le> unat (pool_size p)"
  have "1 \<le> k"
  proof (cases "growers cs = 1")
    case True
    then obtain c where c: "c \<in> set cs" "growing c" using growers_0 [of cs] by auto
    then have "unat (pool_true_sz p) - 32 \<in> set (concat (map held cs))"
      using assms by (force simp: pool_cores_inv_def core_ok_def)
    then have "1 \<le> unat (pool_true_sz p) - 32" using e by auto
    then show ?thesis using k(1) by simp
  qed (use t k(1) in auto)
  then have "k \<in> set (map unat (handed p)) \<union> set (concat (map held cs))" using k(2) e by simp
  moreover have "k \<notin> set (map unat (handed p))" using h k(1) by (auto simp: word_less_nat_alt)
  ultimately show "k \<in> set (concat (map held cs))" by blast
qed

text \<open>With at most 33 cores no second core draws a short straw while one still grows the pool.\<close>

lemma one_grower:
  assumes inv: "pool_cores_inv n (p, xs @ Outside # ys)" and n: "n \<le> 33"
    and s: "(unat (pool_size p) + 33) mod 64 = 0"
  shows "growers (xs @ Outside # ys) = 0"
proof (rule ccontr)
  let ?cs = "xs @ Outside # ys" and ?T = "unat (pool_true_sz p)" and ?S = "unat (pool_size p)"
  assume "growers ?cs \<noteq> 0"
  moreover have "growers ?cs \<le> 1" using inv unfolding pool_cores_inv_def by blast
  ultimately have g: "growers ?cs = 1" by linarith
  then obtain c where c: "c \<in> set ?cs" "growing c" using growers_0 [of ?cs] by auto
  have t: "?T + 64 = 64 * ((?S + 32) div 64 + 1)" using inv g by (simp add: pool_cores_inv_def)
  have "?S + 33 = 64 * ((?S + 33) div 64)" using s mult_div_mod_eq [of 64 "?S + 33"] by linarith
  then have S: "?S = ?T + 31" using t div_step [of ?S] s by simp
  have low: "?T - 32 \<in> set (concat (map held ?cs))"
    using inv c by (force simp: pool_cores_inv_def core_ok_def)
  have "1 \<le> ?T - 32" using low cores_distinct(3) [OF inv] by auto
  have "{?T..?S} \<subseteq> set (concat (map held ?cs))"
    using cores_distinct(4) [OF inv] by (intro subsetI) (simp only: atLeastAtMost_iff)
  with low have "insert (?T - 32) {?T..?S} \<subseteq> set (concat (map held ?cs))"
    by (simp only: insert_subset simp_thms)
  then have "card (insert (?T - 32) {?T..?S}) \<le> card (set (concat (map held ?cs)))"
    by (rule card_mono [OF finite_set])
  moreover have "card (insert (?T - 32) {?T..?S}) = 33"
    using S \<open>1 \<le> ?T - 32\<close> by simp
  moreover have "card (set (concat (map held ?cs))) \<le> length (concat (map held (xs @ ys)))"
    using card_length [of "concat (map held (xs @ ys))"] by simp
  moreover have "length (concat (map held (xs @ ys))) \<le> length (xs @ ys)" by (rule held_bound)
  moreover have "length (xs @ ys) + 1 = n" using inv by (simp add: pool_cores_inv_def)
  ultimately show False using n by simp
qed

text \<open>One step at a time. While a core grows the pool no other does.\<close>

lemma draw_inv:
  assumes inv: "pool_cores_inv n (p, xs @ Outside # ys)" and n: "n \<le> 33"
    and room: "pool_has_room p"
  shows "pool_cores_inv n (p\<lparr>pool_size := pool_size p + 1\<rparr>, xs @ Drawn (pool_size p + 1) # ys)"
proof -
  let ?S = "unat (pool_size p)" and ?T = "unat (pool_true_sz p)"
  have r: "?S + 33 < 2097152" using room by (simp add: pool_has_room_iff)
  have S: "unat (pool_size p + 1) = ?S + 1" using r by (simp add: unat_word_ariths)
  have t: "?T + 64 * (growers xs + growers ys) = 64 * ((?S + 32) div 64 + 1)"
    using inv by (simp add: pool_cores_inv_def)
  have q: "short_straw (pool_size p + 1) \<longleftrightarrow> (?S + 33) mod 64 = 0" 
    unfolding short_straw_iff S by (simp add: ac_simps)
  have up: "mset_set {1..?S + 1} = add_mset (?S + 1) (mset_set {1..?S})"
    by (simp add: atLeastAtMostSuc_conv)
  have g: "(?S + 33) mod 64 = 0 \<Longrightarrow> growers xs + growers ys = 0" using one_grower [OF inv n] by simp
  have d: "(?S + 33) div 64 = (if (?S + 33) mod 64 = 0 then (?S + 32) div 64 + 1 else (?S + 32) div 64)"
    by (rule div_step)
  have new: "core_ok p (Drawn (pool_size p + 1))"
  proof (cases "(?S + 33) mod 64 = 0")
    case True
    then have "?S + 33 = 64 * ((?S + 33) div 64)" using mult_div_mod_eq [of 64 "?S + 33"] by linarith
    then have "?S + 1 = ?T - 32" using t g True d by simp
    then show ?thesis by (simp add: core_ok_def S)
  qed (simp add: core_ok_def q)
  note i = inv [unfolded pool_cores_inv_def prod.case]
  show ?thesis unfolding pool_cores_inv_def prod.case
  proof (intro conjI)
    show "growers (xs @ Drawn (pool_size p + 1) # ys) \<le> 1"
      using i g q by auto
    show "unat (pool_true_sz (p\<lparr>pool_size := pool_size p + 1\<rparr>)) + 64 * growers (xs @ Drawn (pool_size p + 1) # ys) =
      64 * ((unat (pool_size (p\<lparr>pool_size := pool_size p + 1\<rparr>)) + 32) div 64 + 1)"
      using t g q d by (cases "(?S + 33) mod 64 = 0") (simp_all add: S add.commute [of 33])
    show "mset (map unat (handed (p\<lparr>pool_size := pool_size p + 1\<rparr>))) +
        mset (concat (map held (xs @ Drawn (pool_size p + 1) # ys))) =
      mset_set {1..unat (pool_size (p\<lparr>pool_size := pool_size p + 1\<rparr>))}"
      using i up by (simp add: S)
    show "\<forall>c\<in>set (xs @ Drawn (pool_size p + 1) # ys). core_ok (p\<lparr>pool_size := pool_size p + 1\<rparr>) c"
      using i new by (auto simp: core_ok_def)
  qed (use i r in \<open>simp_all add: S\<close>)
qed

lemma return_inv:
  assumes "pool_cores_inv n (p, xs @ c # ys)" "held c = [unat idx]" "\<not> growing c" "\<not> past_commit c"
    and "idx < pool_true_sz p"
  shows "pool_cores_inv n (p\<lparr>handed := idx # handed p\<rparr>, xs @ Outside # ys)"
  using assms by (auto simp: pool_cores_inv_def core_ok_def)

lemma stall_inv:
  assumes "pool_cores_inv n (p, xs @ Drawn idx # ys)" "\<not> short_straw idx"
  shows "pool_cores_inv n (p, xs @ Stalled idx # ys)"
  using assms by (auto simp: pool_cores_inv_def core_ok_def)

lemma straw_inv:
  assumes "pool_cores_inv n (p, xs @ Drawn idx # ys)" "short_straw idx"
  shows "pool_cores_inv n (p, xs @ Committing idx # ys)"
  using assms by (auto simp: pool_cores_inv_def core_ok_def)

lemma past_growing: "past_commit c \<Longrightarrow> growing c"
  by (cases c) simp_all

lemma no_grower_past: "growers cs = 0 \<Longrightarrow> filter past_commit cs = []"
  by (auto simp: growers_0 filter_empty_conv dest: past_growing)

lemma commit_inv:
  assumes inv: "pool_cores_inv n (p, xs @ Committing idx # ys)"
  shows "pool_cores_inv n (p\<lparr>commits := pool_true_sz p # commits p\<rparr>, xs @ Loading idx # ys)"
proof -
  have g: "growers xs = 0" "growers ys = 0" using inv by (simp_all add: pool_cores_inv_def)
  have "64 dvd unat (pool_true_sz p)" using inv g by (simp add: pool_cores_inv_def dvd_def)
  then have "unat (pool_true_sz p) = 64 * (unat (pool_true_sz p) div 64)" by simp
  then show ?thesis using inv no_grower_past [OF g(1)] no_grower_past [OF g(2)]
    by (auto simp: pool_cores_inv_def core_ok_def atLeast0_lessThan_Suc)
qed

lemma load_inv:
  assumes "pool_cores_inv n (p, xs @ Loading idx # ys)"
  shows "pool_cores_inv n (p, xs @ Storing idx (pool_true_sz p) # ys)"
  using assms by (auto simp: pool_cores_inv_def core_ok_def)

lemma store_inv:
  assumes inv: "pool_cores_inv n (p, xs @ Storing idx t # ys)"
  shows "pool_cores_inv n (p\<lparr>pool_true_sz := t + HPOOL_GROW, handed := idx # handed p\<rparr>, xs @ Outside # ys)"
proof -
  let ?S = "unat (pool_size p)" and ?T = "unat (pool_true_sz p)"
  have g: "growers xs = 0" "growers ys = 0" using inv by (simp_all add: pool_cores_inv_def)
  have t: "t = pool_true_sz p" and i: "unat idx = ?T - 32" and T: "?T + 64 = 64 * ((?S + 32) div 64 + 1)"
    and S: "?S + 32 < 2097152"
    using inv g by (simp_all add: pool_cores_inv_def core_ok_def)
  have T': "unat (t + HPOOL_GROW) = ?T + 64"
    using T S by (simp add: unat_word_ariths HPOOL_GROW_def t)
  have others: "core_ok q c" if "c \<in> set xs \<union> set ys" for q c
    using that g by (cases c) (auto simp: growers_0 core_ok_def)
  have h: "\<forall>j\<in>set (handed p). j < t + HPOOL_GROW" and j: "idx < t + HPOOL_GROW"
    using inv i T' by (auto simp: pool_cores_inv_def word_less_nat_alt)
  show ?thesis using inv g others h j T T' no_grower_past [OF g(1)] no_grower_past [OF g(2)]
    by (auto simp: pool_cores_inv_def core_ok_def [of _ Outside])
qed

lemma alloc_step_inv:
  assumes inv: "pool_cores_inv n (p, xs @ c # ys)" and "n \<le> 33" "alloc_step p c = (p', c')"
    and "c = Outside \<Longrightarrow> pool_has_room p"
  shows "pool_cores_inv n (p', xs @ c' # ys)"
proof (cases c)
  case Outside
  then show ?thesis using draw_inv [OF inv [unfolded Outside] assms(2,4)] Outside assms(3) by (simp add: alloc_step_def Let_def)
next
  case (Drawn idx)
  then show ?thesis
    using straw_inv [OF inv [unfolded Drawn]] stall_inv [OF inv [unfolded Drawn]] return_inv [OF inv, of idx] assms(3)
    by (simp add: alloc_step_def not_le split: if_splits)
next
  case (Stalled idx)
  then show ?thesis using inv return_inv [OF inv, of idx] assms(3)
    by (simp add: alloc_step_def not_le split: if_splits)
next
  case (Committing idx)
  then show ?thesis using commit_inv [OF inv [unfolded Committing]] assms(3) by (simp add: alloc_step_def)
next
  case (Loading idx)
  then show ?thesis using load_inv [OF inv [unfolded Loading]] assms(3) by (auto simp: alloc_step_def)
next
  case (Storing idx t)
  then show ?thesis using store_inv [OF inv [unfolded Storing]] assms(3) by (simp add: alloc_step_def)
qed

lemma pool_running_inv:
  assumes "pool_running n s" "n \<le> 33"
  shows "pool_cores_inv n s"
  using assms(1)
proof induction
  case 1
  show ?case by (rule pool_start_inv)
next
  case (2 s s')
  from 2(2) 2(3) show ?case
    by (auto elim!: pool_step.cases dest: alloc_step_inv [OF _ assms(2)])
qed

end
