(* ===== verification/Core_Bucket.thy ===== *)
theory Core_Bucket
  imports Host_Map
begin

text \<open>
  \<open>host_insert\<close> and \<open>host_insert_authorized\<close> of \<open>ntfe/host.cpp\<close> run by several cores in one bucket. A call
  is a sequence of atomic accesses: the test of the lock, the interlocked test-and-set and the wait of
  \<open>spin_acquire\<close>, then the stores of the critical section, where a field of a control word is loaded,
  changed and stored, and the release, which is also a load and a store. The first control word holds
  the lock and fields, and the interlocked instruction of a waiting core writes it at any time.
\<close>

section \<open>One core\<close>

text \<open>
  A call with its address, its priority (\<open>None\<close> for \<open>host_insert\<close>), its time stamp, and what
  \<open>host_allocate\<close> returns to it.
\<close>

record entry_call =
  call_addr :: u32
  call_pri :: "u32 option"
  call_tsec :: u16
  call_ptr :: u32

datatype store = Put_key nat u32 | Put_field nat "u32 \<Rightarrow> u32"

fun run_store :: "store \<Rightarrow> htbucket \<Rightarrow> htbucket" where
  "run_store (Put_key k a) h = h\<lparr>saddr := (saddr h)[k := a]\<rparr>"
| "run_store (Put_field k f) h = h\<lparr>ctrl := (ctrl h)[k := f (ctrl h ! k)]\<rparr>"

text \<open>The initialisation of entry \<open>k\<close>.\<close>

definition entry_stores :: "entry_call \<Rightarrow> nat \<Rightarrow> store list" where
  "entry_stores rq k = (case call_pri rq of
     None \<Rightarrow> [Put_key k (call_addr rq), Put_field k (set_age (ucast (call_tsec rq))),
       Put_field k (set_pri HOST_PRI_NONE), Put_field k (set_ptr (call_ptr rq))]
   | Some pri \<Rightarrow> [Put_key k (call_addr rq), Put_field k (set_age (ucast (call_tsec rq))),
       Put_field k (set_pri pri), Put_field k (set_ptr 0)])"

text \<open>What is stored under the lock, decided by what is found there.\<close>

definition call_stores :: "entry_call \<Rightarrow> htbucket \<Rightarrow> store list" where
  "call_stores rq h =
     (let idx = probe_bucket h (call_addr rq) in
      if 0 \<le> idx then (case call_pri rq of None \<Rightarrow> []
        | Some pri \<Rightarrow> if ctrl_pri (ctrl h ! nat idx) < pri then [Put_field (nat idx) (set_pri pri)] else [])
      else if \<not> exhausted h then
        (let idx = probe_bucket h 0 in
         (if idx = 7 then [Put_field 1 (set_bits 31 1 1)] else []) @
         (if idx < 0 then [] else entry_stores rq (nat idx)))
      else (case evict_victim (call_tsec rq) (ctrl h) of None \<Rightarrow> []
        | Some k \<Rightarrow> if HOST_PRI_NONE < ctrl_pri (ctrl h ! k) then [] else entry_stores rq k))"

datatype entry_pc =
    Away
  | Testing entry_call
  | Acquiring entry_call
  | Spinning entry_call
  | Deciding entry_call
  | Writing "store list"
  | Rewriting nat u32 "store list"
  | Releasing u32

fun entry_step :: "htbucket \<Rightarrow> entry_pc \<Rightarrow> htbucket \<times> entry_pc" where
  "entry_step h Away = (h, Away)"
| "entry_step h (Testing rq) =
     (h, if call_pri rq = None \<and> HTB_TEST_LOCK h then Away else Acquiring rq)"
| "entry_step h (Acquiring rq) =
     (case interlocked_bts (ctrl h ! 0) HTB_LOCK_BIT of (old, w) \<Rightarrow>
        (set_lock w h, if old then Spinning rq else Deciding rq))"
| "entry_step h (Spinning rq) = (h, if HTB_TEST_LOCK h then Spinning rq else Acquiring rq)"
| "entry_step h (Deciding rq) = (h, Writing (call_stores rq h))"
| "entry_step h (Writing []) = (h, Releasing (spin_release (ctrl h ! 0) HTB_LOCK_BIT))"
| "entry_step h (Writing (Put_key k a # ms)) = (run_store (Put_key k a) h, Writing ms)"
| "entry_step h (Writing (Put_field k f # ms)) = (h, Rewriting k (f (ctrl h ! k)) ms)"
| "entry_step h (Rewriting k w ms) = (h\<lparr>ctrl := (ctrl h)[k := w]\<rparr>, Writing ms)"
| "entry_step h (Releasing w) = (set_lock w h, Away)"

section \<open>Several cores\<close>

text \<open>The bucket, the calls in the order they took the lock, and the cores. Priorities have two bits.\<close>

type_synonym cores_state = "htbucket \<times> entry_call list \<times> entry_pc list"

fun takes_lock :: "htbucket \<Rightarrow> entry_pc \<Rightarrow> entry_call list" where
  "takes_lock h (Acquiring rq) = (if HTB_TEST_LOCK h then [] else [rq])"
| "takes_lock h _ = []"

inductive cores_step :: "cores_state \<Rightarrow> cores_state \<Rightarrow> bool" where
  call: "\<forall>pri. call_pri rq = Some pri \<longrightarrow> pri < 4 \<Longrightarrow>
    cores_step (h, lg, xs @ Away # ys) (h, lg, xs @ Testing rq # ys)"
| moves: "entry_step h c = (h', c') \<Longrightarrow>
    cores_step (h, lg, xs @ c # ys) (h', lg @ takes_lock h c, xs @ c' # ys)"

inductive cores_running :: "nat \<Rightarrow> htbucket \<Rightarrow> cores_state \<Rightarrow> bool" for n h0 where
  "cores_running n h0 (h0, [], replicate n Away)"
| "cores_running n h0 s \<Longrightarrow> cores_step s s' \<Longrightarrow> cores_running n h0 s'"

text \<open>The calls one after the other.\<close>

definition serial_enter :: "entry_call \<Rightarrow> htbucket \<Rightarrow> htbucket" where
  "serial_enter rq h = unlocked (fold run_store (call_stores rq (locked h)) (locked h))"

section \<open>The invariant\<close>

fun inside :: "entry_pc \<Rightarrow> bool" where
  "inside (Deciding rq) = True"
| "inside (Writing ms) = True"
| "inside (Rewriting k w ms) = True"
| "inside (Releasing w) = True"
| "inside _ = False"

text \<open>The bucket that a core inside leaves behind.\<close>

fun leaves :: "entry_pc \<Rightarrow> htbucket \<Rightarrow> htbucket" where
  "leaves (Deciding rq) h = unlocked (fold run_store (call_stores rq h) h)"
| "leaves (Writing ms) h = unlocked (fold run_store ms h)"
| "leaves (Rewriting k w ms) h = unlocked (fold run_store ms (h\<lparr>ctrl := (ctrl h)[k := w]\<rparr>))"
| "leaves (Releasing w) h = set_lock w h"
| "leaves _ h = h"

definition keys_ok :: "htbucket \<Rightarrow> bool" where
  "keys_ok h \<longleftrightarrow> length (saddr h) = 8 \<and> length (ctrl h) = 8 \<and>
     (\<forall>i<8. \<forall>j<8. saddr h ! i = saddr h ! j \<longrightarrow> saddr h ! i \<noteq> 0 \<longrightarrow> i = j)"

fun store_ok :: "store \<Rightarrow> bool" where
  "store_ok (Put_key k a) \<longleftrightarrow> k < 8"
| "store_ok (Put_field k f) \<longleftrightarrow> k < 8 \<and> (k = 0 \<longrightarrow> (\<forall>w. bit (f w) 31 = bit w 31))"

text \<open>Stores that keep the lock bit, and keep the keys apart at every moment.\<close>

definition stores_ok :: "store list \<Rightarrow> htbucket \<Rightarrow> bool" where
  "stores_ok ms h \<longleftrightarrow> (\<forall>m\<in>set ms. store_ok m) \<and> (\<forall>n. keys_ok (fold run_store (take n ms) h))"

fun pc_ok :: "entry_pc \<Rightarrow> htbucket \<Rightarrow> bool" where
  "pc_ok (Writing ms) h \<longleftrightarrow> stores_ok ms h"
| "pc_ok (Rewriting k w ms) h \<longleftrightarrow> k < 8 \<and> (k = 0 \<longrightarrow> bit w 31) \<and> stores_ok ms (h\<lparr>ctrl := (ctrl h)[k := w]\<rparr>)"
| "pc_ok (Releasing w) h \<longleftrightarrow> w = spin_release (ctrl h ! 0) HTB_LOCK_BIT"
| "pc_ok _ h \<longleftrightarrow> True"

definition cores_inv :: "htbucket \<Rightarrow> cores_state \<Rightarrow> bool" where
  "cores_inv h0 s \<longleftrightarrow> (case s of (h, lg, cs) \<Rightarrow> keys_ok h \<and> (\<forall>c\<in>set cs. inside c \<longrightarrow> pc_ok c h) \<and>
     (case filter inside cs of
        [] \<Rightarrow> \<not> HTB_TEST_LOCK h \<and> h = fold serial_enter lg h0
      | [c] \<Rightarrow> HTB_TEST_LOCK h \<and> leaves c h = fold serial_enter lg h0
      | _ \<Rightarrow> False))"

lemma keys_ok_lock [simp]: "keys_ok (set_lock w h) = keys_ok h" "keys_ok (locked h) = keys_ok h"
  by (simp_all add: keys_ok_def locked_def)

lemma keys_ok_ctrl [simp]: "keys_ok (h\<lparr>ctrl := (ctrl h)[k := w]\<rparr>) = keys_ok h"
  by (simp add: keys_ok_def)

lemma keys_ok_both [simp]:
  "length c = length (ctrl h) \<Longrightarrow> keys_ok (h\<lparr>saddr := s, ctrl := c\<rparr>) = keys_ok (h\<lparr>saddr := s\<rparr>)"
  by (simp add: keys_ok_def)

lemma bucket_ok_keys: "bucket_ok h \<longleftrightarrow> keys_ok h \<and> \<not> HTB_TEST_LOCK h"
  by (auto simp: bucket_ok_def keys_ok_def)

lemma stores_ok_Nil [simp]: "stores_ok [] h = keys_ok h"
  by (simp add: stores_ok_def)

lemma stores_ok_Cons [simp]: "stores_ok (m # ms) h \<longleftrightarrow> store_ok m \<and> keys_ok h \<and> stores_ok ms (run_store m h)"
proof
  assume a: "stores_ok (m # ms) h"
  have "keys_ok (fold run_store (take n ms) (run_store m h))" for n
    using a [unfolded stores_ok_def, THEN conjunct2, THEN spec, of "Suc n"] by simp
  moreover have "keys_ok h" using a [unfolded stores_ok_def, THEN conjunct2, THEN spec, of 0] by simp
  ultimately show "store_ok m \<and> keys_ok h \<and> stores_ok ms (run_store m h)"
    using a by (simp add: stores_ok_def)
next
  assume a: "store_ok m \<and> keys_ok h \<and> stores_ok ms (run_store m h)"
  have "keys_ok (fold run_store (take n (m # ms)) h)" for n
    using a by (cases n) (simp_all add: stores_ok_def)
  then show "stores_ok (m # ms) h" using a by (simp add: stores_ok_def)
qed

text \<open>The interlocked instruction changes nothing while the lock is held.\<close>

lemma bts_held:
  assumes "HTB_TEST_LOCK h"
  shows "interlocked_bts (ctrl h ! 0) HTB_LOCK_BIT = (True, ctrl h ! 0)" "set_lock (ctrl h ! 0) h = h"
proof -
  have "ctrl h ! 0 OR push_bit HTB_LOCK_BIT 1 = ctrl h ! 0"
    using assms by (intro bit_word_eqI, unfold bit_or_iff bit_lock_mask)
      (auto simp: HTB_TEST_LOCK_def HTB_LOCK_BIT_def)
  then show "interlocked_bts (ctrl h ! 0) HTB_LOCK_BIT = (True, ctrl h ! 0)"
    using assms by (simp add: interlocked_bts_def HTB_TEST_LOCK_def)
  show "set_lock (ctrl h ! 0) h = h" by (simp add: set_lock_def)
qed

lemma bts_free:
  assumes "\<not> HTB_TEST_LOCK h"
  shows "interlocked_bts (ctrl h ! 0) HTB_LOCK_BIT = (False, ctrl h ! 0 OR push_bit HTB_LOCK_BIT 1)"
  using assms by (simp add: interlocked_bts_def HTB_TEST_LOCK_def)

lemma locked_held: "length (ctrl h) = 8 \<Longrightarrow> HTB_TEST_LOCK (locked h)"
  by (simp add: HTB_TEST_LOCK_def locked_def set_lock_def bit_or_iff bit_lock_mask HTB_LOCK_BIT_def)

section \<open>The stores of a call\<close>

lemma keys_ok_put:
  assumes "keys_ok h" "k < 8" "a \<notin> set (saddr h)"
  shows "keys_ok (h\<lparr>saddr := (saddr h)[k := a]\<rparr>)"
  using assms by (auto simp: keys_ok_def nth_list_update in_set_conv_nth)

lemma entry_stores_ok:
  assumes "keys_ok h" "k < 8" "call_addr rq \<notin> set (saddr h)"
  shows "stores_ok (entry_stores rq k) h"
  using assms keys_ok_put [OF assms] by (simp add: entry_stores_def split: option.split)

text \<open>\<open>call_stores\<close> by cases, as a bucket sees them.\<close>

lemma call_stores_cases:
  assumes "length (saddr h) = 8" "length (ctrl h) = 8"
  obtains (hit) k where "lane h (call_addr rq) = Some k" "k < 8"
      "call_stores rq h = (case call_pri rq of None \<Rightarrow> []
         | Some pri \<Rightarrow> if pri_at h k < pri then [Put_field k (set_pri pri)] else [])"
    | (full) "lane h (call_addr rq) = None" "call_stores rq h = []"
    | (fresh) k where "lane h (call_addr rq) = None" "\<not> exhausted h" "k < 8" "saddr h ! k = 0"
        "call_stores rq h = (if k = 7 then [Put_field 1 (set_bits 31 1 1)] else []) @ entry_stores rq k"
    | (evict) k where "lane h (call_addr rq) = None" "exhausted h" "k < 8" "pri_at h k = HOST_PRI_NONE"
        "call_stores rq h = entry_stores rq k"
proof (cases "lane h (call_addr rq)")
  case (Some k)
  then show ?thesis using lane_SomeD [OF assms(1) Some]
    by (intro hit [of k]) (auto simp: call_stores_def probe_lane(2) pri_at_def Let_def split: option.split)
next
  case None
  then have p: "probe_bucket h (call_addr rq) < 0" by (simp add: probe_lane)
  show ?thesis
  proof (cases "exhausted h")
    case False
    show ?thesis
    proof (cases "lane h 0")
      case None': None
      then have "probe_bucket h 0 = - 1" by (simp add: probe_lane probe_neg)
      then show ?thesis using None False p by (intro full) (simp_all add: call_stores_def)
    next
      case (Some k)
      then show ?thesis using None False p lane_SomeD [OF assms(1) Some]
        by (intro fresh [of k]) (simp_all add: call_stores_def probe_lane(2))
    qed
  next
    case True
    obtain k where k: "evict_victim (call_tsec rq) (ctrl h) = Some k" "k < 8"
      using evict_victim_Some [of "ctrl h" "call_tsec rq"] assms(2) by (metis length_0_conv zero_neq_numeral)
    show ?thesis
    proof (cases "HOST_PRI_NONE < pri_at h k")
      case True': True
      then show ?thesis using None True p k by (intro full) (simp_all add: call_stores_def pri_at_def)
    next
      case False
      then have "pri_at h k = HOST_PRI_NONE"
        by (simp add: HOST_PRI_NONE_def word_less_nat_alt unsigned_eq_0_iff)
      then show ?thesis using None True p k False
        by (intro evict [of k]) (simp_all add: call_stores_def pri_at_def)
    qed
  qed
qed

lemma call_stores_ok:
  assumes "keys_ok h"
  shows "stores_ok (call_stores rq h) h"
proof -
  have len: "length (saddr h) = 8" "length (ctrl h) = 8" using assms by (simp_all add: keys_ok_def)
  show ?thesis
  proof (rule call_stores_cases [OF len, of rq])
    fix k assume "k < 8" "call_stores rq h = (case call_pri rq of None \<Rightarrow> []
         | Some pri \<Rightarrow> if pri_at h k < pri then [Put_field k (set_pri pri)] else [])"
    then show ?thesis using assms by (simp split: option.split)
  next
    fix k assume "lane h (call_addr rq) = None" "k < 8"
      "call_stores rq h = (if k = 7 then [Put_field 1 (set_bits 31 1 1)] else []) @ entry_stores rq k"
    then show ?thesis using assms entry_stores_ok [of h k rq]
        entry_stores_ok [of "h\<lparr>ctrl := (ctrl h)[1 := set_bits 31 1 1 (ctrl h ! 1)]\<rparr>" k rq] lane_None [OF len(1)]
      by (cases "k = 7") simp_all
  next
    fix k assume "lane h (call_addr rq) = None" "k < 8" "call_stores rq h = entry_stores rq k"
    then show ?thesis using assms entry_stores_ok [of h k rq] lane_None [OF len(1)] by simp
  qed (use assms in simp)
qed

section \<open>Every step keeps the invariant\<close>

lemma cores_inv_start: "bucket_ok h0 \<Longrightarrow> cores_inv h0 (h0, [], replicate n Away)"
  by (simp add: cores_inv_def bucket_ok_keys)

text \<open>A core outside, and a core inside with all others outside.\<close>

lemma cores_inv_outside:
  assumes "\<not> inside c" "\<not> inside c'"
  shows "cores_inv h0 (h, lg, xs @ c' # ys) = cores_inv h0 (h, lg, xs @ c # ys)"
  using assms by (auto simp: cores_inv_def)

lemma cores_inv_inside:
  assumes "inside c"
  shows "cores_inv h0 (h, lg, xs @ c # ys) \<longleftrightarrow>
    keys_ok h \<and> pc_ok c h \<and> HTB_TEST_LOCK h \<and> leaves c h = fold serial_enter lg h0 \<and>
    filter inside (xs @ ys) = []"
proof -
  show ?thesis
  proof (cases "filter inside (xs @ ys) = []")
    case True
    then have f: "filter inside (xs @ c # ys) = [c]" using assms by simp
    have "(\<forall>d\<in>set (xs @ c # ys). inside d \<longrightarrow> pc_ok d h) \<longleftrightarrow> pc_ok c h"
      using True assms by (auto simp: filter_empty_conv)
    then show ?thesis using True unfolding cores_inv_def prod.case f by simp
  next
    case False
    then have "2 \<le> length (filter inside (xs @ c # ys))"
      using assms by (cases "filter inside xs"; cases "filter inside ys") simp_all
    then obtain a b r where "filter inside (xs @ c # ys) = a # b # r"
      by (metis Suc_le_length_iff numeral_2_eq_2)
    then show ?thesis using False unfolding cores_inv_def prod.case by simp
  qed
qed

lemma cores_inv_free:
  assumes "filter inside cs = []"
  shows "cores_inv h0 (h, lg, cs) \<longleftrightarrow> keys_ok h \<and> \<not> HTB_TEST_LOCK h \<and> h = fold serial_enter lg h0"
  using assms by (auto simp: cores_inv_def filter_empty_conv)

lemma cores_inv_lock:
  assumes "cores_inv h0 (h, lg, cs)"
  shows "HTB_TEST_LOCK h \<longleftrightarrow> filter inside cs \<noteq> []" "keys_ok h" "length (filter inside cs) \<le> 1"
  using assms by (auto simp: cores_inv_def split: list.splits)

lemma acquire_inv:
  assumes inv: "cores_inv h0 (h, lg, xs @ Acquiring rq # ys)" and e: "entry_step h (Acquiring rq) = (h', c')"
  shows "cores_inv h0 (h', lg @ takes_lock h (Acquiring rq), xs @ c' # ys)"
proof (cases "HTB_TEST_LOCK h")
  case True
  then have "h' = h" "c' = Spinning rq" using e bts_held [OF True] by simp_all
  then show ?thesis using inv True cores_inv_outside [of "Acquiring rq" "Spinning rq"] by simp
next
  case False
  have k: "keys_ok h" and n: "filter inside (xs @ ys) = []"
    using cores_inv_lock [OF inv] False by simp_all
  have "h = fold serial_enter lg h0"
    using inv n cores_inv_free [of "xs @ Acquiring rq # ys"] by simp
  moreover have "h' = locked h" "c' = Deciding rq"
    using e bts_free [OF False] by (simp_all add: locked_def)
  ultimately show ?thesis using k n False locked_held [of h]
    by (simp add: cores_inv_inside serial_enter_def keys_ok_def)
qed

lemma lock_kept:
  assumes "keys_ok h" "HTB_TEST_LOCK h" "k < 8" "k = 0 \<longrightarrow> bit w 31"
  shows "HTB_TEST_LOCK (h\<lparr>ctrl := (ctrl h)[k := w]\<rparr>)"
  using assms by (auto simp: HTB_TEST_LOCK_def HTB_LOCK_BIT_def keys_ok_def nth_list_update)

lemma write_inv:
  assumes inv: "cores_inv h0 (h, lg, xs @ Writing ms # ys)" and e: "entry_step h (Writing ms) = (h', c')"
  shows "cores_inv h0 (h', lg, xs @ c' # ys)"
proof -
  have i: "keys_ok h" "stores_ok ms h" "HTB_TEST_LOCK h" "unlocked (fold run_store ms h) = fold serial_enter lg h0"
    "filter inside (xs @ ys) = []"
    using inv by (simp_all add: cores_inv_inside)
  show ?thesis
  proof (cases ms)
    case Nil
    then show ?thesis using i e by (auto simp: cores_inv_inside unlocked_def)
  next
    case (Cons m ns)
    show ?thesis
    proof (cases m)
      case (Put_key k a)
      then have "h' = h\<lparr>saddr := (saddr h)[k := a]\<rparr>" "c' = Writing ns" using e Cons by simp_all
      moreover have "keys_ok (h\<lparr>saddr := (saddr h)[k := a]\<rparr>)"
        using i(2) Cons Put_key by (cases ns) simp_all
      ultimately show ?thesis using i Cons Put_key by (simp add: cores_inv_inside HTB_TEST_LOCK_def)
    next
      case (Put_field k f)
      then have "h' = h" "c' = Rewriting k (f (ctrl h ! k)) ns" using e Cons by auto
      then show ?thesis using i Cons Put_field
        by (auto simp: cores_inv_inside HTB_TEST_LOCK_def HTB_LOCK_BIT_def)
    qed
  qed
qed

lemma entry_step_inv:
  assumes inv: "cores_inv h0 (h, lg, xs @ c # ys)" and e: "entry_step h c = (h', c')"
  shows "cores_inv h0 (h', lg @ takes_lock h c, xs @ c' # ys)"
proof (cases c)
  case Away
  then show ?thesis using inv e by auto
next
  case (Testing rq)
  then have "h' = h" "\<not> inside c'" using e by (auto split: if_splits)
  then show ?thesis using inv Testing cores_inv_outside [of "Testing rq" c'] by simp
next
  case (Acquiring rq)
  then show ?thesis using acquire_inv [of h0 h lg xs rq ys] inv e by simp
next
  case (Spinning rq)
  then have "h' = h" "\<not> inside c'" using e by (auto split: if_splits)
  then show ?thesis using inv Spinning cores_inv_outside [of "Spinning rq" c'] by simp
next
  case (Deciding rq)
  then show ?thesis using inv e by (auto simp: cores_inv_inside call_stores_ok)
next
  case (Writing ms)
  then show ?thesis using write_inv [of h0 h lg xs ms ys] inv e by simp
next
  case (Rewriting k w ms)
  then show ?thesis using inv e lock_kept [of h k w] by (auto simp: cores_inv_inside)
next
  case (Releasing w)
  then have i: "keys_ok h" "w = spin_release (ctrl h ! 0) HTB_LOCK_BIT" "set_lock w h = fold serial_enter lg h0"
    "filter inside (xs @ ys) = []"
    using inv unfolding Releasing by (auto simp only: cores_inv_inside inside.simps leaves.simps pc_ok.simps)
  have "h' = set_lock w h" "c' = Away" using e Releasing by simp_all
  moreover have "\<not> HTB_TEST_LOCK (set_lock w h)"
    using unlocked_unlocks [of h] i(1,2) by (simp add: unlocked_def keys_ok_def)
  moreover have "keys_ok (set_lock w h)" using i(1) by simp
  ultimately show ?thesis using i(3,4) Releasing by (simp add: cores_inv_free)
qed

lemma cores_running_inv:
  assumes "cores_running n h0 s" "bucket_ok h0"
  shows "cores_inv h0 s"
  using assms(1)
proof induction
  case 1
  show ?case by (rule cores_inv_start [OF assms(2)])
next
  case (2 s s')
  from 2(2) 2(3) show ?case
  proof cases
    case (call rq h lg xs ys)
    then show ?thesis using 2(3) cores_inv_outside [of Away "Testing rq"] by simp
  next
    case (moves h c h' c' lg xs ys)
    then show ?thesis using 2(3) entry_step_inv by simp
  qed
qed

section \<open>The calls one by one\<close>

text \<open>\<open>serial_enter\<close> is what \<open>host_insert\<close> and \<open>host_insert_authorized\<close> do to their bucket.\<close>

lemma entry_stores_run:
  "length (ctrl h) = 8 \<Longrightarrow> k < 8 \<Longrightarrow> fold run_store (entry_stores rq k) h =
     set_entry_ptr k (case call_pri rq of None \<Rightarrow> call_ptr rq | Some _ \<Rightarrow> 0)
       (init_entry k (call_addr rq) (call_tsec rq) (case call_pri rq of None \<Rightarrow> HOST_PRI_NONE | Some p \<Rightarrow> p) h)"
  by (simp add: entry_stores_def set_entry_ptr_def init_entry_def split: option.split)

lemma exhausted_run: "run_store (Put_field 1 (set_bits 31 1 1)) h = set_exhausted True h"
  by (simp add: set_exhausted_def)

lemma write_host_bucket: "write_host g p hs = Some g' \<Longrightarrow> host_tbl g' = host_tbl g"
  by (rule write_host_frame(1))

lemma insert_tsec_upd [simp]: "insert_tsec e (upd_bucket bi f g) = insert_tsec e g"
  by (simp add: insert_tsec_def)

text \<open>\<open>allocate\<close> followed by the initialisation of the entry, as stores.\<close>

lemma allocate_stores:
  assumes len: "length (ctrl (host_tbl g bi)) = 8" "length (saddr (host_tbl g bi)) = 8"
    and al: "allocate g bi (call_tsec rq) HOST_PRI_NONE = Some (i, g')"
    and miss: "probe_bucket (host_tbl g bi) (call_addr rq) < 0"
  shows "i < 0 \<Longrightarrow> host_tbl g' bi = fold run_store (call_stores rq (host_tbl g bi)) (host_tbl g bi)"
    and "0 \<le> i \<Longrightarrow> fold run_store (entry_stores rq (nat i)) (host_tbl g' bi) =
      fold run_store (call_stores rq (host_tbl g bi)) (host_tbl g bi)"
proof -
  let ?h = "host_tbl g bi"
  consider (none) "i = - 1" "g' = g" "call_stores rq ?h = []"
    | (fresh) k where "i = int k" "g' = (if k = 7 then upd_bucket bi (set_exhausted True) g else g)"
        "call_stores rq ?h = (if k = 7 then [Put_field 1 (set_bits 31 1 1)] else []) @ entry_stores rq k"
    | (evict) k where "i = int k" "host_tbl g' = host_tbl g" "call_stores rq ?h = entry_stores rq k"
  proof (cases "exhausted ?h")
    case False
    have i: "i = probe_bucket ?h 0" "g' = (if i = 7 then upd_bucket bi (set_exhausted True) g else g)"
      using al False by (auto simp: allocate_def Let_def)
    show ?thesis
    proof (cases "probe_bucket ?h 0 < 0")
      case True
      then show ?thesis using i miss False none probe_neg [OF True] by (simp add: call_stores_def)
    next
      case nn: False
      then obtain k where "probe_bucket ?h 0 = int k" by (metis nat_0_le not_less)
      then show ?thesis using i miss False fresh [of k] by (simp add: call_stores_def)
    qed
  next
    case True
    obtain k where k: "evict_victim (call_tsec rq) (ctrl ?h) = Some k"
      using evict_victim_Some [of "ctrl ?h" "call_tsec rq"] len by (metis length_0_conv zero_neq_numeral)
    show ?thesis
    proof (cases "HOST_PRI_NONE < ctrl_pri (ctrl ?h ! k)")
      case True': True
      then show ?thesis using al True k miss none by (simp add: allocate_def call_stores_def)
    next
      case False
      then show ?thesis using al True k miss evict [of k] write_host_bucket
        by (auto simp: allocate_def call_stores_def bind_eq_Some_conv)
    qed
  qed
  then have "(i < 0 \<longrightarrow> host_tbl g' bi = fold run_store (call_stores rq ?h) ?h) \<and>
    (0 \<le> i \<longrightarrow> fold run_store (entry_stores rq (nat i)) (host_tbl g' bi) =
      fold run_store (call_stores rq ?h) ?h)"
  proof cases
    case none
    then show ?thesis by simp
  next
    case (fresh k)
    then show ?thesis by (cases "k = 7") (simp_all add: exhausted_run del: run_store.simps One_nat_def)
  next
    case (evict k)
    then show ?thesis by simp
  qed
  then show "i < 0 \<Longrightarrow> host_tbl g' bi = fold run_store (call_stores rq ?h) ?h"
    and "0 \<le> i \<Longrightarrow> fold run_store (entry_stores rq (nat i)) (host_tbl g' bi) =
      fold run_store (call_stores rq ?h) ?h" by blast+
qed

lemma serial_host_insert:
  assumes ok: "bucket_ok (host_tbl g bi)" and ins: "host_insert e g bi a = Some (r, g')"
  shows "\<exists>p. host_tbl g' bi = serial_enter
    \<lparr>call_addr = a, call_pri = None, call_tsec = insert_tsec e g, call_ptr = p\<rparr> (host_tbl g bi)"
proof -
  let ?h = "host_tbl g bi" and ?g1 = "upd_bucket bi locked g"
  let ?rq = "\<lambda>p. \<lparr>call_addr = a, call_pri = None, call_tsec = insert_tsec e g, call_ptr = p\<rparr>"
  note h = bucket_okD(1-3) [OF ok]
  have len: "length (ctrl (host_tbl ?g1 bi)) = 8" "length (saddr (host_tbl ?g1 bi)) = 8" using h by simp_all
  show ?thesis
  proof (cases "0 \<le> probe_bucket ?h a")
    case True
    then have "g' = unlock_bucket bi (bump e htb_collisions_update ?g1)"
      using ins h(3) by (auto simp: host_insert_def lock_bucket_eq Let_def)
    then show ?thesis using True by (simp add: unlock_bucket_eq serial_enter_def call_stores_def)
  next
    case False
    obtain i g2 where al: "allocate ?g1 bi (insert_tsec e g) HOST_PRI_NONE = Some (i, g2)"
      using ins h(3) False by (auto simp: host_insert_def lock_bucket_eq Let_def bind_eq_Some_conv)
    note al' = allocate_stores [OF len, of "?rq p" for p, simplified, OF al]
    show ?thesis
    proof (cases "i < 0")
      case True
      then have "g' = unlock_bucket bi (bump e htb_ins_fails_update g2)"
        using ins h(3) False al by (auto simp: host_insert_def lock_bucket_eq Let_def)
      then show ?thesis using al'(1) True False by (simp add: unlock_bucket_eq serial_enter_def)
    next
      case ge: False
      obtain p g4 where p: "host_allocate e (upd_bucket bi (init_entry (nat i) a (insert_tsec e g) HOST_PRI_NONE) g2) = Some (p, g4)"
        and g': "g' = unlock_bucket bi (upd_bucket bi (set_entry_ptr (nat i) p) g4)"
        using ins h(3) False al ge by (auto simp: host_insert_def lock_bucket_eq Let_def bind_eq_Some_conv)
      have i: "i < 8" "length (ctrl (host_tbl g2 bi)) = 8"
        using allocate_locked [OF ok al] ge by auto
      have "host_tbl g' bi = unlocked (fold run_store (entry_stores (?rq p) (nat i)) (host_tbl g2 bi))"
        using i ge by (simp add: g' unlock_bucket_eq host_allocate_frame(1) [OF p] entry_stores_run)
      then show ?thesis using al'(2) [of p] ge False by (intro exI [of _ p]) (simp add: serial_enter_def)
    qed
  qed
qed

lemma serial_host_insert_authorized:
  assumes ok: "bucket_ok (host_tbl g bi)" and ins: "host_insert_authorized e g bi a pri = Some (r, g')"
  shows "host_tbl g' bi = serial_enter
    \<lparr>call_addr = a, call_pri = Some pri, call_tsec = insert_tsec e g, call_ptr = p\<rparr> (host_tbl g bi)"
proof -
  let ?h = "host_tbl g bi" and ?g1 = "upd_bucket bi locked g"
  let ?rq = "\<lparr>call_addr = a, call_pri = Some pri, call_tsec = insert_tsec e g, call_ptr = p\<rparr>"
  note h = bucket_okD(1-3) [OF ok]
  have len: "length (ctrl (host_tbl ?g1 bi)) = 8" "length (saddr (host_tbl ?g1 bi)) = 8" using h by simp_all
  show ?thesis
  proof (cases "0 \<le> probe_bucket ?h a")
    case True
    then have "g' = unlock_bucket bi (upd_bucket bi (raise_pri (nat (probe_bucket ?h a)) pri)
        (bump e htb_collisions_update ?g1))"
      using ins h(3) by (auto simp: host_insert_authorized_def lock_bucket_eq Let_def)
    then show ?thesis using True
      by (simp add: unlock_bucket_eq serial_enter_def call_stores_def raise_pri_def)
  next
    case False
    obtain i g2 where al: "allocate ?g1 bi (insert_tsec e g) HOST_PRI_NONE = Some (i, g2)"
      using ins h(3) False by (auto simp: host_insert_authorized_def lock_bucket_eq Let_def bind_eq_Some_conv)
    note al' = allocate_stores [OF len, of ?rq, simplified, OF al]
    show ?thesis
    proof (cases "i < 0")
      case True
      then have "g' = unlock_bucket bi g2"
        using ins h(3) False al by (auto simp: host_insert_authorized_def lock_bucket_eq Let_def)
      then show ?thesis using al'(1) True False by (simp add: unlock_bucket_eq serial_enter_def)
    next
      case ge: False
      have g': "g' = unlock_bucket bi (upd_bucket bi (\<lambda>htb. set_entry_ptr (nat i) 0
          (init_entry (nat i) a (insert_tsec e g) pri htb)) g2)"
        using ins h(3) False al ge by (auto simp: host_insert_authorized_def lock_bucket_eq Let_def bind_eq_Some_conv)
      have i: "i < 8" "length (ctrl (host_tbl g2 bi)) = 8"
        using allocate_locked [OF ok al] ge by auto
      have "host_tbl g' bi = unlocked (fold run_store (entry_stores ?rq (nat i)) (host_tbl g2 bi))"
        using i ge by (simp add: g' unlock_bucket_eq entry_stores_run)
      then show ?thesis using al'(2) ge False by (simp add: serial_enter_def)
    qed
  qed
qed

end
