(* ===== verification/Core_Visible.thy ===== *)
theory Core_Visible
  imports Core_Bucket
begin

text \<open>
  What lookups without the lock see of an authorised host while other cores write its bucket: every
  single store leaves its lane and does not lower its priority.
\<close>

section \<open>Stores that leave a host alone\<close>

text \<open>Host \<open>b\<close> is in lane \<open>k\<close> with at least priority \<open>p\<close>.\<close>

definition seen_at :: "u32 \<Rightarrow> nat \<Rightarrow> u32 \<Rightarrow> htbucket \<Rightarrow> bool" where
  "seen_at b k p h \<longleftrightarrow> length (ctrl h) = 8 \<and> length (saddr h) = 8 \<and> k < 8 \<and> saddr h ! k = b \<and> p \<le> pri_at h k"

definition keep_showing :: "u32 \<Rightarrow> nat \<Rightarrow> u32 \<Rightarrow> store list \<Rightarrow> htbucket \<Rightarrow> bool" where
  "keep_showing b k p ms h \<longleftrightarrow> (\<forall>n. seen_at b k p (fold run_store (take n ms) h))"

lemma keep_Nil [simp]: "keep_showing b k p [] h = seen_at b k p h"
  by (simp add: keep_showing_def)

lemma keep_Cons [simp]:
  "keep_showing b k p (m # ms) h \<longleftrightarrow> seen_at b k p h \<and> keep_showing b k p ms (run_store m h)"
proof
  assume a: "keep_showing b k p (m # ms) h"
  have "seen_at b k p (fold run_store (take n ms) (run_store m h))" for n
    using a [unfolded keep_showing_def, THEN spec, of "Suc n"] by simp
  moreover have "seen_at b k p h" using a [unfolded keep_showing_def, THEN spec, of 0] by simp
  ultimately show "seen_at b k p h \<and> keep_showing b k p ms (run_store m h)" by (simp add: keep_showing_def)
next
  assume a: "seen_at b k p h \<and> keep_showing b k p ms (run_store m h)"
  have "seen_at b k p (fold run_store (take n (m # ms)) h)" for n
    using a by (cases n) (simp_all add: keep_showing_def)
  then show "keep_showing b k p (m # ms) h" by (simp add: keep_showing_def)
qed

lemma keep_start: "keep_showing b k p ms h \<Longrightarrow> seen_at b k p h"
  by (cases ms) simp_all

lemma seen_lock [simp]:
  "seen_at b k p (locked h) = seen_at b k p h" "seen_at b k p (unlocked h) = seen_at b k p h"
  by (auto simp: seen_at_def)

text \<open>A store in another lane, and one in the lane that does not lower the priority.\<close>

lemma seen_other:
  "seen_at b k p h \<Longrightarrow> j \<noteq> k \<Longrightarrow> seen_at b k p (h\<lparr>saddr := (saddr h)[j := a]\<rparr>)"
  "seen_at b k p h \<Longrightarrow> j \<noteq> k \<Longrightarrow> seen_at b k p (h\<lparr>ctrl := (ctrl h)[j := w]\<rparr>)"
  "seen_at b k p h \<Longrightarrow> ctrl_pri (ctrl h ! k) \<le> ctrl_pri w \<Longrightarrow> seen_at b k p (h\<lparr>ctrl := (ctrl h)[k := w]\<rparr>)"
  by (auto simp: seen_at_def pri_at_def)

lemma keep_entry:
  assumes "seen_at b k p h" "j \<noteq> k"
  shows "keep_showing b k p (entry_stores rq j) h"
proof -
  have "seen_at b k p (h\<lparr>saddr := (saddr h)[j := a], ctrl := (ctrl h)[j := w]\<rparr>)" for a w
    using seen_other(2) [OF seen_other(1) [OF assms, of a] assms(2)] by simp
  then show ?thesis using assms seen_other(1) [OF assms]
    by (simp add: entry_stores_def split: option.split)
qed

lemma keep_call:
  assumes s: "seen_at b k p h" and b: "b \<noteq> 0" and p: "p \<noteq> HOST_PRI_NONE"
    and pri: "\<forall>q. call_pri rq = Some q \<longrightarrow> q < 4"
  shows "keep_showing b k p (call_stores rq h) h"
proof -
  have len: "length (saddr h) = 8" "length (ctrl h) = 8" using s by (simp_all add: seen_at_def)
  have mark: "seen_at b k p (h\<lparr>ctrl := (ctrl h)[Suc 0 := set_bits 31 (Suc 0) 1 (ctrl h ! Suc 0)]\<rparr>)"
    using s seen_other(2) [OF s, of "Suc 0"] seen_other(3) [OF s] by (cases "k = Suc 0") auto
  show ?thesis
  proof (rule call_stores_cases [OF len, of rq])
    fix j assume j: "j < 8" "call_stores rq h = (case call_pri rq of None \<Rightarrow> []
         | Some pri \<Rightarrow> if pri_at h j < pri then [Put_field j (set_pri pri)] else [])"
    have "seen_at b k p (h\<lparr>ctrl := (ctrl h)[j := set_pri q (ctrl h ! j)]\<rparr>)" if "pri_at h j < q" "q < 4" for q
    proof (cases "j = k")
      case True
      have "take_bit 2 q = q" using that(2) by (intro take_bit_word_self) (simp add: word_less_nat_alt)
      then show ?thesis using seen_other(3) [OF s, of "set_pri q (ctrl h ! j)"] that(1) True
        by (simp add: pri_at_def)
    qed (use seen_other(2) [OF s] in blast)
    then show ?thesis using s j pri by (simp split: option.split)
  next
    fix j assume j: "j < 8" "saddr h ! j = 0"
      "call_stores rq h = (if j = 7 then [Put_field 1 (set_bits 31 1 1)] else []) @ entry_stores rq j"
    then have "j \<noteq> k" using s b by (auto simp: seen_at_def)
    then show ?thesis using j(3) s mark keep_entry by (cases "j = 7") simp_all
  next
    fix j assume j: "j < 8" "pri_at h j = HOST_PRI_NONE" "call_stores rq h = entry_stores rq j"
    then have "j \<noteq> k" using s p by (auto simp: seen_at_def HOST_PRI_NONE_def word_le_nat_alt unsigned_eq_0_iff)
    then show ?thesis using j(3) s keep_entry by simp
  qed (use s in simp)
qed

section \<open>Every reachable state shows the host\<close>

fun pc_keeps :: "u32 \<Rightarrow> nat \<Rightarrow> u32 \<Rightarrow> entry_pc \<Rightarrow> htbucket \<Rightarrow> bool" where
  "pc_keeps b k p (Writing ms) h = keep_showing b k p ms h"
| "pc_keeps b k p (Rewriting j w ms) h = keep_showing b k p ms (h\<lparr>ctrl := (ctrl h)[j := w]\<rparr>)"
| "pc_keeps b k p _ h = True"

text \<open>The priorities that are asked for are those of \<open>ntfe.h\<close>.\<close>

fun pc_legal :: "entry_pc \<Rightarrow> bool" where
  "pc_legal (Testing rq) = (\<forall>q. call_pri rq = Some q \<longrightarrow> q < 4)"
| "pc_legal (Acquiring rq) = (\<forall>q. call_pri rq = Some q \<longrightarrow> q < 4)"
| "pc_legal (Spinning rq) = (\<forall>q. call_pri rq = Some q \<longrightarrow> q < 4)"
| "pc_legal (Deciding rq) = (\<forall>q. call_pri rq = Some q \<longrightarrow> q < 4)"
| "pc_legal _ = True"

lemma step_seen:
  assumes s: "seen_at b k p h" "pc_keeps b k p c h" "pc_legal c" and b: "b \<noteq> 0" "p \<noteq> HOST_PRI_NONE"
    and ok: "pc_ok c h" and e: "entry_step h c = (h', c')"
  shows "seen_at b k p h' \<and> pc_keeps b k p c' h' \<and> pc_legal c'"
proof (cases c)
  case (Acquiring rq)
  show ?thesis
  proof (cases "HTB_TEST_LOCK h")
    case True
    then show ?thesis using assms Acquiring bts_held [OF True] by auto
  next
    case False
    then have "h' = locked h" "c' = Deciding rq"
      using e Acquiring bts_free [OF False] by (simp_all add: locked_def)
    then show ?thesis using s Acquiring by simp
  qed
next
  case (Deciding rq)
  then show ?thesis using e s b keep_call [OF s(1) b, of rq] by auto
next
  case (Writing ms)
  then show ?thesis using e s by (cases ms; cases "hd ms") (auto dest: keep_start)
next
  case (Rewriting j w ms)
  then show ?thesis using e s by (auto dest: keep_start)
next
  case (Releasing w)
  then show ?thesis using e s ok by (auto simp: unlocked_def [symmetric])
qed (use assms in \<open>auto split: if_splits\<close>)

definition all_keep :: "u32 \<Rightarrow> nat \<Rightarrow> u32 \<Rightarrow> cores_state \<Rightarrow> bool" where
  "all_keep b k p s \<longleftrightarrow> (case s of (h, lg, cs) \<Rightarrow>
     seen_at b k p h \<and> (\<forall>c\<in>set cs. pc_keeps b k p c h \<and> pc_legal c))"

text \<open>A core that is not inside keeps the host whatever the bucket.\<close>

lemma outside_keeps: "\<not> inside c \<Longrightarrow> pc_keeps b k p c h"
  by (cases c) simp_all

text \<open>The bucket changes only by the core inside, or by the lock bit when there is none.\<close>

lemma step_others:
  assumes inv: "cores_inv h0 (h, lg, xs @ c # ys)" and e: "entry_step h c = (h', c')"
    and d: "d \<in> set (xs @ ys)" "pc_keeps b k p d h"
  shows "pc_keeps b k p d h'"
proof (cases "inside d")
  case True
  then have "filter inside (xs @ ys) \<noteq> []" using d(1) by (auto simp: filter_empty_conv)
  then have c: "\<not> inside c" and l: "HTB_TEST_LOCK h"
    using cores_inv_lock [OF inv] cores_inv_inside [of c h0 h lg xs ys] inv by auto
  then have "h' = h" using e bts_held [OF l] by (cases c) auto
  then show ?thesis using d(2) by simp
qed (rule outside_keeps)

lemma entry_step_keeps:
  assumes inv: "cores_inv h0 (h, lg, xs @ c # ys)" and e: "entry_step h c = (h', c')"
    and a: "all_keep b k p (h, lg, xs @ c # ys)" and b: "b \<noteq> 0" "p \<noteq> HOST_PRI_NONE"
  shows "all_keep b k p (h', lg', xs @ c' # ys)"
proof -
  have ok: "pc_ok c h \<or> \<not> inside c" using inv cores_inv_inside [of c] by blast
  have "pc_ok c h" if "\<not> inside c" using that by (cases c) simp_all
  then have "seen_at b k p h' \<and> pc_keeps b k p c' h' \<and> pc_legal c'"
    using step_seen [OF _ _ _ b _ e] a ok by (auto simp: all_keep_def)
  then show ?thesis using a step_others [OF inv e] by (auto simp: all_keep_def)
qed

lemma cores_running_keeps:
  assumes "cores_running n h0 s" "bucket_ok h0" "seen_at b k p h0" "b \<noteq> 0" "p \<noteq> HOST_PRI_NONE"
  shows "all_keep b k p s"
  using assms(1)
proof induction
  case 1
  show ?case using assms(3) by (simp add: all_keep_def)
next
  case (2 s s')
  note inv = cores_running_inv [OF 2(1) assms(2)]
  from 2(2) show ?case
  proof cases
    case (call rq h lg xs ys)
    then show ?thesis using 2(3) by (auto simp: all_keep_def)
  next
    case (moves h c h' c' lg xs ys)
    then show ?thesis using 2(3) inv entry_step_keeps [OF _ _ _ assms(4,5)] by blast
  qed
qed

end
