(* ===== verification/Core_Props.thy ===== *)
theory Core_Props
  imports Core_Pool Core_Visible
begin

text \<open>Properties of the host table's buckets and of the pool under several cores.\<close>

section \<open>Buckets\<close>

text \<open>Runs by a schedule: a core makes a call, or moves.\<close>

fun run_bucket :: "nat \<times> entry_call option \<Rightarrow> cores_state \<Rightarrow> cores_state" where
  "run_bucket (i, Some rq) (h, lg, cs) = (h, lg, cs[i := Testing rq])"
| "run_bucket (i, None) (h, lg, cs) =
     (case entry_step h (cs ! i) of (h', c') \<Rightarrow> (h', lg @ takes_lock h (cs ! i), cs[i := c']))"

definition allowed :: "nat \<times> entry_call option \<Rightarrow> cores_state \<Rightarrow> bool" where
  "allowed m s \<longleftrightarrow> fst m < length (snd (snd s)) \<and> (case snd m of None \<Rightarrow> True
     | Some rq \<Rightarrow> (case snd (snd s) ! fst m of Away \<Rightarrow> True | _ \<Rightarrow> False) \<and>
         (case call_pri rq of None \<Rightarrow> True | Some pri \<Rightarrow> pri < 4))"

lemma run_bucket_step: "allowed m s \<Longrightarrow> cores_step s (run_bucket m s)"
proof -
  assume a: "allowed m s"
  obtain i r h lg cs where ms: "m = (i, r)" "s = (h, lg, cs)" by (cases m, cases s) auto
  have i: "i < length cs" using a ms by (simp add: allowed_def)
  have cs: "cs = take i cs @ cs ! i # drop (Suc i) cs" by (rule id_take_nth_drop [OF i])
  have up: "cs[i := c] = take i cs @ c # drop (Suc i) cs" for c by (rule upd_conv_take_nth_drop [OF i])
  show ?thesis
  proof (cases r)
    case (Some rq)
    then have "cs ! i = Away" using a ms by (simp add: allowed_def split: entry_pc.splits)
    then show ?thesis
      using a ms Some up cs cores_step.call [of rq h lg "take i cs" "drop (Suc i) cs"]
      by (simp add: allowed_def split: option.splits)
  next
    case None
    obtain h' c' where e: "entry_step h (cs ! i) = (h', c')" by (cases "entry_step h (cs ! i)")
    show ?thesis
      using cores_step.moves [OF e, of lg "take i cs" "drop (Suc i) cs"] ms None e up cs by simp
  qed
qed

fun run_all :: "(nat \<times> entry_call option) list \<Rightarrow> cores_state \<Rightarrow> cores_state option" where
  "run_all [] s = Some s"
| "run_all (m # ms) s = (if allowed m s then run_all ms (run_bucket m s) else None)"

lemma run_all_running: "cores_running n h0 s \<Longrightarrow> run_all ms s = Some s' \<Longrightarrow> cores_running n h0 s'"
proof (induction ms arbitrary: s)
  case (Cons m ms)
  then have "allowed m s" "run_all ms (run_bucket m s) = Some s'" by (simp_all split: if_splits)
  then show ?case
    using Cons.IH [OF cores_running.intros(2) [OF Cons.prems(1) run_bucket_step]] by blast
qed simp

text \<open>Two cores enter the same host: both find the bucket free, one takes the lock, the other spins.\<close>

definition same_host :: entry_call where
  "same_host = \<lparr>call_addr = 5, call_pri = None, call_tsec = 7, call_ptr = 1\<rparr>"

definition same_host_race :: "(nat \<times> entry_call option) list" where
  "same_host_race = [(0, Some same_host), (1, Some (same_host\<lparr>call_ptr := 2\<rparr>)), (0, None), (1, None), (0, None), (1, None)] @
     replicate 10 (0, None) @ replicate 5 (1, None)"

lemma same_host_race_end:
  "case run_all same_host_race (zero_htbucket, [], [Away, Away]) of None \<Rightarrow> False | Some (h, lg, cs) \<Rightarrow>
     saddr h = [5, 0, 0, 0, 0, 0, 0, 0] \<and> map call_ptr lg = [1, 2] \<and> filter inside cs = []"
  by code_simp

text \<open>
  C9: However cores interleave in a bucket, at most one is between taking and releasing its lock, the lock
  bit tells exactly whether there is one, whenever there is none the bucket is what the calls give when
  they are made one after the other in the order they took the lock, and at no moment, also in the middle
  of an insertion, is a host in two lanes.
\<close>

theorem inserts_serialise:
  assumes "cores_running n h0 (h, lg, cs)" "bucket_ok h0"
  shows "length (filter inside cs) \<le> 1 \<and> (HTB_TEST_LOCK h \<longleftrightarrow> filter inside cs \<noteq> []) \<and>
    (filter inside cs = [] \<longrightarrow> h = fold serial_enter lg h0 \<and> bucket_ok h) \<and>
    (\<forall>i<8. \<forall>j<8. saddr h ! i = saddr h ! j \<longrightarrow> saddr h ! i \<noteq> 0 \<longrightarrow> i = j)"
proof -
  note inv = cores_running_inv [OF assms]
  note l = cores_inv_lock [OF inv]
  have "h = fold serial_enter lg h0 \<and> bucket_ok h" if "filter inside cs = []"
    using inv unfolding cores_inv_free [OF that] bucket_ok_keys by blast
  then show ?thesis using l unfolding keys_ok_def by blast
qed

theorem inserts_serialise_witness:
  "\<exists>h. saddr h = [5, 0, 0, 0, 0, 0, 0, 0] \<and> bucket_ok h \<and>
     (\<exists>lg. map call_ptr lg = [1, 2] \<and> h = fold serial_enter lg zero_htbucket)"
proof -
  obtain h lg cs where r: "run_all same_host_race (zero_htbucket, [], replicate 2 Away) = Some (h, lg, cs)"
    and e: "saddr h = [5, 0, 0, 0, 0, 0, 0, 0]" "map call_ptr lg = [1, 2]" "filter inside cs = []"
    using same_host_race_end by (auto simp: eval_nat_numeral split: option.splits)
  have z: "bucket_ok zero_htbucket"
    using table_okD [OF table_ok_init, of 0] by (simp add: gs_init_def)
  have "h = fold serial_enter lg zero_htbucket" "bucket_ok h"
    using inserts_serialise [OF run_all_running [OF cores_running.intros(1) r] z] e(3) by blast+
  with e show ?thesis by (intro exI [of _ h] conjI exI [of _ lg])
qed

text \<open>
  C10: The calls of that order are the ones of the host table: on the bucket they are given, a
  \<open>host_insert\<close> that returns has the effect of \<open>serial_enter\<close> with the pool index it was given, and so has
  a \<open>host_insert_authorized\<close>.
\<close>

theorem serial_enter_is_insert:
  assumes "bucket_ok (host_tbl g bi)"
  shows "(\<forall>r g'. host_insert e g bi a = Some (r, g') \<longrightarrow> (\<exists>p. host_tbl g' bi =
      serial_enter \<lparr>call_addr = a, call_pri = None, call_tsec = insert_tsec e g, call_ptr = p\<rparr> (host_tbl g bi))) \<and>
    (\<forall>r g' p. host_insert_authorized e g bi a pri = Some (r, g') \<longrightarrow> host_tbl g' bi =
      serial_enter \<lparr>call_addr = a, call_pri = Some pri, call_tsec = insert_tsec e g, call_ptr = p\<rparr> (host_tbl g bi))"
  using serial_host_insert [OF assms] serial_host_insert_authorized [OF assms] by blast

theorem serial_enter_is_insert_witness:
  "\<forall>e. \<exists>r g' p. host_insert_authorized e gs_init 3 5 HOST_PRI_DYNAUTH = Some (r, g') \<and> host_tbl g' 3 =
     serial_enter \<lparr>call_addr = 5, call_pri = Some HOST_PRI_DYNAUTH, call_tsec = insert_tsec e gs_init, call_ptr = p\<rparr>
       (host_tbl gs_init 3)"
proof
  fix e
  have ok: "bucket_ok (host_tbl gs_init 3)" by (rule table_okD [OF table_ok_init])
  have "lane (host_tbl gs_init 3) 0 = Some 0" "\<not> exhausted (host_tbl gs_init 3)" by code_simp+
  then obtain r g' where "host_insert_authorized e gs_init 3 5 HOST_PRI_DYNAUTH = Some (r, g')"
    using host_insert_authorized_free [OF ok] by blast
  then show "\<exists>r g' p. host_insert_authorized e gs_init 3 5 HOST_PRI_DYNAUTH = Some (r, g') \<and> host_tbl g' 3 =
     serial_enter \<lparr>call_addr = 5, call_pri = Some HOST_PRI_DYNAUTH, call_tsec = insert_tsec e gs_init, call_ptr = p\<rparr>
       (host_tbl gs_init 3)" using serial_enter_is_insert [OF ok] by blast
qed

text \<open>
  C11: A lookup without the lock never misses an authorised host: whatever other cores write into its
  bucket, at every moment of every insertion the host is found in its lane, with a priority no lower.
\<close>

theorem authorised_host_visible:
  assumes "cores_running n h0 (h, lg, cs)" "bucket_ok h0" "b \<noteq> 0"
    and "lane h0 b = Some k" "pri_at h0 k \<noteq> HOST_PRI_NONE"
  shows "probe_bucket h b = int k \<and> pri_at h0 k \<le> pri_at h k \<and> pri_at h k \<noteq> HOST_PRI_NONE"
proof -
  have k: "k < 8" "saddr h0 ! k = b" using assms(2-4) lane_Some_iff by blast+
  then have "seen_at b k (pri_at h0 k) h0" using bucket_okD(1,2) [OF assms(2)] by (simp add: seen_at_def)
  then have s: "seen_at b k (pri_at h0 k) h"
    using cores_running_keeps [OF assms(1,2) _ assms(3,5)] by (simp add: all_keep_def)
  have "keys_ok h" by (rule cores_inv_lock(2) [OF cores_running_inv [OF assms(1,2)]])
  then have "bucket_ok (unlocked h)" by (auto simp: bucket_ok_def keys_ok_def)
  then have "lane (unlocked h) b = Some k"
    using s lane_Some_iff [OF _ assms(3)] by (simp add: seen_at_def)
  then have "probe_bucket h b = int k" by (simp add: probe_lane(2))
  then show ?thesis using s assms(5) by (auto simp: seen_at_def HOST_PRI_NONE_def word_le_nat_alt unsigned_eq_0_iff)
qed

text \<open>An authorised host in the first lane, and another host half entered beside it.\<close>

definition guarded :: htbucket where
  "guarded = zero_htbucket\<lparr>saddr := [9, 0, 0, 0, 0, 0, 0, 0], ctrl := [set_pri HOST_PRI_DYNAUTH 0, 0, 0, 0, 0, 0, 0, 0]\<rparr>"

lemma guarded_ok: "bucket_ok guarded" "lane guarded 9 = Some 0" "pri_at guarded 0 \<noteq> HOST_PRI_NONE"
proof -
  show "lane guarded 9 = Some 0" "pri_at guarded 0 \<noteq> HOST_PRI_NONE" by code_simp+
  have "\<not> HTB_TEST_LOCK guarded" by code_simp
  then show "bucket_ok guarded" by (auto simp: bucket_ok_def guarded_def nth_Cons' split: if_splits)
qed

definition half_entered :: "cores_state option" where
  "half_entered = run_all [(0, Some same_host), (0, None), (0, None), (0, None), (0, None), (0, None)]
     (guarded, [], replicate 1 Away)"

lemma half_entered_end:
  "case half_entered of None \<Rightarrow> False | Some (h, lg, cs) \<Rightarrow> saddr h = [9, 5, 0, 0, 0, 0, 0, 0] \<and> HTB_TEST_LOCK h"
  by code_simp

theorem authorised_host_visible_witness:
  "\<exists>h. saddr h = [9, 5, 0, 0, 0, 0, 0, 0] \<and> HTB_TEST_LOCK h \<and> probe_bucket h 9 = 0 \<and> pri_at h 0 \<noteq> HOST_PRI_NONE"
proof -
  obtain h lg cs where r: "run_all [(0, Some same_host), (0, None), (0, None), (0, None), (0, None), (0, None)]
      (guarded, [], replicate 1 Away) = Some (h, lg, cs)"
    and e: "saddr h = [9, 5, 0, 0, 0, 0, 0, 0]" "HTB_TEST_LOCK h"
    using half_entered_end by (auto simp: half_entered_def split: option.splits)
  show ?thesis
    using authorised_host_visible [OF run_all_running [OF cores_running.intros(1) r] guarded_ok(1) _ guarded_ok(2,3)] e
    by auto
qed

section \<open>The pool with up to 33 cores\<close>

text \<open>A run by a schedule of core numbers, for the witnesses.\<close>

definition run_core :: "pool \<times> alloc_pc list \<Rightarrow> nat \<Rightarrow> pool \<times> alloc_pc list" where
  "run_core s i = (case s of (p, cs) \<Rightarrow> case alloc_step p (cs ! i) of (p', c') \<Rightarrow> (p', cs[i := c']))"

lemma run_core_step:
  assumes "i < length (snd s)" "pool_has_room (fst s)"
  shows "pool_step s (run_core s i)"
proof -
  obtain p cs where s: "s = (p, cs)" by (cases s)
  obtain p' c' where a: "alloc_step p (cs ! i) = (p', c')" by (cases "alloc_step p (cs ! i)")
  have "pool_step (p, take i cs @ cs ! i # drop (Suc i) cs) (p', take i cs @ c' # drop (Suc i) cs)"
    by (rule pool_step.intros [OF a]) (use assms s in simp)
  then show ?thesis
    using assms(1) by (simp add: s run_core_def a id_take_nth_drop [symmetric] upd_conv_take_nth_drop)
qed

lemma alloc_step_size: "alloc_step p c = (p', c') \<Longrightarrow> pool_size p' = pool_size p \<or> pool_size p' = pool_size p + 1"
  by (auto simp: alloc_step_def Let_def split: alloc_pc.splits if_splits)

lemma fold_running:
  assumes "pool_running n s" "length (snd s) = n" "\<forall>i\<in>set is. i < n"
    and "unat (pool_size (fst s)) + length is + 33 < 2097152"
  shows "pool_running n (fold (\<lambda>i s. run_core s i) is s)"
  using assms
proof (induction "is" arbitrary: s)
  case (Cons i "is")
  let ?s = "run_core s i"
  have st: "pool_step s ?s" using Cons.prems by (intro run_core_step) (simp_all add: pool_has_room_iff)
  have "pool_size (fst ?s) = pool_size (fst s) \<or> pool_size (fst ?s) = pool_size (fst s) + 1"
    using alloc_step_size by (auto simp: run_core_def split: prod.splits)
  then have "unat (pool_size (fst ?s)) + length is + 33 < 2097152"
    using Cons.prems(4) by (auto simp: unat_word_ariths)
  moreover have "length (snd ?s) = n" using Cons.prems(2) by (auto simp: run_core_def split: prod.splits)
  ultimately show ?case
    using Cons.IH [of ?s] Cons.prems(3) pool_running.intros(2) [OF Cons.prems(1) st] by simp
qed simp

text \<open>Two cores: the first has drawn the short straw, the second had to wait for its index.\<close>

definition pair :: "pool \<times> alloc_pc list" where
  "pair = fold (\<lambda>i s. run_core s i) (replicate 64 0 @ replicate 64 1) (pool_start, replicate 2 Outside)"

lemma pair_running: "pool_running 2 pair"
  unfolding pair_def by (rule fold_running [OF pool_running.intros(1)]) (auto simp: pool_start_def)

lemma pair_end:
  "snd pair = [Committing 32, Stalled 64] \<and> pool_true_sz (fst pair) = 64 \<and> length (handed (fst pair)) = 62 \<and>
   commits (fst pair) = [0]"
  by code_simp

lemma pair_state: "pool_running 2 (fst pair, [Committing 32, Stalled 64])"
  using pair_running pair_end by (metis prod.collapse)

text \<open>
  C12: With at most 33 cores allocating in any interleaving, no index is handed out twice, every index
  handed out is backed by committed memory, and no part of the pool is committed twice.
\<close>

theorem concurrent_pool_safe:
  assumes "pool_running n (p, cs)" "n \<le> 33"
  shows "distinct (handed p) \<and> distinct (commits p) \<and>
    (\<forall>idx\<in>set (handed p). 0 < idx \<and> idx < pool_true_sz p \<and>
      (\<exists>b\<in>set (commits p). b \<le> idx \<and> unat idx < unat b + unat HPOOL_GROW))"
proof -
  note inv = pool_running_inv [OF assms]
  have c: "mset (map unat (commits p)) =
      mset (map ((*) 64) [0..<unat (pool_true_sz p) div 64 + length (filter past_commit cs)])"
    and h: "\<forall>idx\<in>set (handed p). idx < pool_true_sz p"
    and t: "unat (pool_true_sz p) + 64 * growers cs = 64 * ((unat (pool_size p) + 32) div 64 + 1)"
    using inv by (simp_all add: pool_cores_inv_def)
  have "distinct (map unat (commits p))"
    unfolding mset_eq_imp_distinct_iff [OF c] by (simp add: distinct_map inj_on_def)
  then have d: "distinct (commits p)" by (simp add: distinct_map)
  have base: "\<exists>b\<in>set (commits p). b \<le> idx \<and> unat idx < unat b + 64" if i: "idx < pool_true_sz p" for idx
  proof -
    have "unat idx div 64 < unat (pool_true_sz p) div 64"
    proof -
      have "64 dvd unat (pool_true_sz p) + 64 * growers cs" unfolding t by simp
      then have "64 dvd unat (pool_true_sz p)" by (simp add: dvd_add_left_iff)
      then show ?thesis using i by (auto simp: word_less_nat_alt div_less_iff_less_mult)
    qed
    then have "64 * (unat idx div 64) \<in> set (map unat (commits p))"
      unfolding mset_eq_setD [OF c] by auto
    then obtain b where "b \<in> set (commits p)" "unat b = 64 * (unat idx div 64)" by auto
    then show ?thesis by (intro bexI [of _ b]) (auto simp: word_le_nat_alt)
  qed
  have "unat idx \<noteq> 0" if "idx \<in> set (handed p)" for idx
    using cores_distinct(3) [OF inv] that by force
  then show ?thesis using d cores_distinct(1) [OF inv] h base
    by (auto simp: HPOOL_GROW_def word_less_nat_alt)
qed

theorem concurrent_pool_safe_witness:
  "distinct (handed (fst pair)) \<and> length (handed (fst pair)) = 62 \<and> distinct (commits (fst pair))"
  using concurrent_pool_safe [OF pair_state] pair_end by simp

lemma div_mod_less: "m < 64 * ((m + 32) div 64 + 1)" for m :: nat
proof -
  have "m + 32 = 64 * ((m + 32) div 64) + (m + 32) mod 64" by (rule mult_div_mod_eq [symmetric])
  also have "\<dots> < 64 * ((m + 32) div 64) + 64" by (intro add_strict_left_mono mod_less_divisor) simp
  finally show ?thesis by simp
qed

text \<open>A core that grows the pool is done after at most four steps of its own.\<close>

lemma grower_finishes:
  assumes "j < length cs" "growing (cs ! j)" "core_ok p (cs ! j)"
  shows "\<exists>k p'. k \<le> 4 \<and> ((\<lambda>s. run_core s j) ^^ k) (p, cs) = (p', cs[j := Outside]) \<and>
    pool_true_sz p' = pool_true_sz p + HPOOL_GROW"
proof (cases "cs ! j")
  case (Drawn idx)
  then show ?thesis using assms
    by (intro exI [of _ 4]) (simp add: eval_nat_numeral run_core_def alloc_step_def)
next
  case (Committing idx)
  then show ?thesis using assms
    by (intro exI [of _ 3]) (simp add: eval_nat_numeral run_core_def alloc_step_def)
next
  case (Loading idx)
  then show ?thesis using assms
    by (intro exI [of _ 2]) (simp add: eval_nat_numeral run_core_def alloc_step_def)
next
  case (Storing idx t)
  then show ?thesis using assms
    by (intro exI [of _ 1]) (simp add: run_core_def alloc_step_def core_ok_def)
qed (use assms in simp_all)

text \<open>
  C13: With at most 33 cores, a core that has to wait for the pool waits for one other core that is
  growing it and never waits itself: after at most four steps of that core the waiting one leaves with
  its index.
\<close>

theorem stalled_core_proceeds:
  assumes "pool_running n (p, cs)" "n \<le> 33" "i < n" "cs ! i = Stalled idx" "pool_true_sz p \<le> idx"
  shows "\<exists>j k p' cs'. j < n \<and> j \<noteq> i \<and> k \<le> 4 \<and> ((\<lambda>s. run_core s j) ^^ k) (p, cs) = (p', cs') \<and>
    run_core (p', cs') i = (p'\<lparr>handed := idx # handed p'\<rparr>, cs'[i := Outside])"
proof -
  note inv = pool_running_inv [OF assms(1,2)]
  have len: "length cs = n" and g: "growers cs \<le> 1" and ok: "\<forall>c\<in>set cs. core_ok p c"
    and t: "unat (pool_true_sz p) + 64 * growers cs = 64 * ((unat (pool_size p) + 32) div 64 + 1)"
    and S: "unat (pool_size p) + 32 < 2097152"
    using inv by (simp_all add: pool_cores_inv_def)
  have "unat idx \<in> set (held (cs ! i))" using assms(4) by simp
  moreover have "cs ! i \<in> set cs" using assms(3) len by simp
  ultimately have "unat idx \<in> set (concat (map held cs))" by auto
  then have le: "unat idx \<le> unat (pool_size p)" using cores_distinct(3) [OF inv] by auto
  have above: "unat (pool_size p) < 64 * ((unat (pool_size p) + 32) div 64 + 1)"
    using div_mod_less [of "unat (pool_size p)"] .
  have "growers cs = 1"
  proof (rule ccontr)
    assume "growers cs \<noteq> 1"
    then have "growers cs = 0" using g by simp
    then show False using t above le assms(5) by (simp add: word_le_nat_alt)
  qed
  then obtain j where j: "j < n" "growing (cs ! j)"
    using growers_0 [of cs] len by (auto simp: in_set_conv_nth)
  with assms(4) have ne: "j \<noteq> i" by auto
  obtain k p' where k: "k \<le> 4" "((\<lambda>s. run_core s j) ^^ k) (p, cs) = (p', cs[j := Outside])"
    "pool_true_sz p' = pool_true_sz p + HPOOL_GROW"
    using grower_finishes [of j cs p] j ok len by auto
  have "unat (pool_true_sz p') = unat (pool_true_sz p) + 64"
    using t \<open>growers cs = 1\<close> S by (simp add: k(3) HPOOL_GROW_def unat_word_ariths)
  then have "\<not> pool_true_sz p' \<le> idx"
    using t \<open>growers cs = 1\<close> above le by (simp add: word_le_nat_alt)
  then have "run_core (p', cs[j := Outside]) i = (p'\<lparr>handed := idx # handed p'\<rparr>, (cs[j := Outside])[i := Outside])"
    using ne assms(4) by (simp add: run_core_def alloc_step_def)
  then show ?thesis using j(1) ne k(1,2) by blast
qed

theorem stalled_core_proceeds_witness:
  "\<exists>k p' cs'. k \<le> 4 \<and> ((\<lambda>s. run_core s 0) ^^ k) pair = (p', cs') \<and>
     run_core (p', cs') 1 = (p'\<lparr>handed := 64 # handed p'\<rparr>, cs'[1 := Outside])"
proof -
  have "(fst pair, [Committing 32, Stalled 64]) = pair" using pair_end by (metis prod.collapse)
  moreover have "\<exists>j k p' cs'. j < 2 \<and> j \<noteq> 1 \<and> k \<le> 4 \<and>
      ((\<lambda>s. run_core s j) ^^ k) (fst pair, [Committing 32, Stalled 64]) = (p', cs') \<and>
      run_core (p', cs') 1 = (p'\<lparr>handed := 64 # handed p'\<rparr>, cs'[1 := Outside])"
    by (rule stalled_core_proceeds [OF pair_state]) (use pair_end in simp_all)
  ultimately show ?thesis by (auto simp: less_2_cases_iff)
qed

section \<open>The pool with 34 cores\<close>

text \<open>
  The schedule: core 0 draws the 32nd index, commits the second part and stops before it adds it; core 1
  takes the indices up to 63; the others draw 64 to 95 and wait; core 1 draws 96, the next short straw,
  and commits the same part again. Once both have added their part, core 1 draws up to 128.
\<close>

definition crowded :: "nat list" where
  "crowded = replicate 65 0 @ replicate 62 1 @ concat (map (\<lambda>i. [i, i]) [2..<34]) @ [1, 1, 1, 0, 0, 1, 1] @
     replicate 64 1"

definition crowd :: "pool \<times> alloc_pc list" where
  "crowd = fold (\<lambda>i s. run_core s i) crowded (pool_start, replicate 34 Outside)"

lemma crowd_end:
  "hd (handed (fst crowd)) = 128 \<and> handed (fst crowd) \<noteq> [] \<and>
   pool_true_sz (fst crowd) = 192 \<and> commits (fst crowd) = [64, 64, 0]"
  by code_simp

lemma crowd_running: "pool_running 34 crowd"
  unfolding crowd_def
  by (rule fold_running [OF pool_running.intros(1)])
    (auto simp: crowded_def pool_start_def length_concat comp_def)

text \<open>
  With 34 cores two of them can grow the pool at once: the same part is committed twice, and an
  index is handed out that is below the committed size but in a part that was never committed.
\<close>

theorem crowded_pool_unbacked:
  "\<exists>p cs idx. pool_running 34 (p, cs) \<and> idx \<in> set (handed p) \<and> idx < pool_true_sz p \<and> \<not> distinct (commits p) \<and>
     (\<forall>b\<in>set (commits p). \<not> (b \<le> idx \<and> unat idx < unat b + unat HPOOL_GROW))"
proof -
  obtain p cs where c: "crowd = (p, cs)" by (cases crowd)
  have "128 \<in> set (handed p)" using crowd_end hd_in_set [of "handed p"] by (simp add: c)
  then show ?thesis using crowd_running crowd_end
    by (intro exI [of _ p] exI [of _ cs] exI [of _ 128]) (simp add: c HPOOL_GROW_def)
qed

end
