(* ===== verification/Core_Meter.thy ===== *)
theory Core_Meter
  imports Token_Bucket
begin

text \<open>
  \<open>host_charge_packet\<close> of \<open>ntfe/ntfe.cpp\<close> run by several cores on the meters of one host. A call is a
  sequence of steps: the interlocked test-and-set of \<open>spin_acquire\<close> and its wait, the reading of
  \<open>time_msec\<close>, the two charges, and the release, which is a load and a store. The time is the one that
  \<open>ntfe_rx_prepare\<close> or \<open>ntfe_tx_prepare\<close> last cached for the core, \<open>cpu->ts_msec\<close>: the clock itself does not
  run backwards, but a core may charge at a time before the one another core charged at. Eviction of
  the host by \<open>allocate\<close> clears its state, the lock included, without taking the lock; whether it happens
  is a parameter.
\<close>

section \<open>One core\<close>

record charge_call =
  charge_rule :: rule
  charge_bytes :: u16

text \<open>
  Where a core is: outside, about to test and set the lock, in the wait, about to read its cached time, about to
  charge the bytes, about to charge the packet, about to load the lock for its release, about to store it.
\<close>

datatype charge_pc =
    Resting
  | Locking charge_call
  | Waiting charge_call
  | Timing charge_call
  | Byte_charge charge_call nat
  | Packet_charge charge_call nat u8
  | Unlocking bool
  | Unlock_store u32 bool

text \<open>A charge that was made: the meter, the time, the cost, and whether it passed.\<close>

type_synonym charge_made = "nat \<times> nat \<times> u32 \<times> bool"

definition made :: "3 word \<Rightarrow> nat \<Rightarrow> u32 \<Rightarrow> u8 \<Rightarrow> charge_made list" where
  "made i t cost r = (if cost = 0 then [] else [(unat i, t, cost, r = 1)])"

text \<open>\<open>ts\<close>: the core's cached time, in milliseconds.\<close>

fun charge_step :: "tbucket_desc list \<Rightarrow> nat \<Rightarrow> host_state \<Rightarrow> charge_pc \<Rightarrow>
    (host_state \<times> charge_made list \<times> charge_pc) option" where
  "charge_step descs ts hs Resting = Some (hs, [], Resting)"
| "charge_step descs ts hs (Locking rq) =
     (case interlocked_bts (hs_lock hs) 0 of (old, w) \<Rightarrow>
        Some (hs\<lparr>hs_lock := w\<rparr>, [], if old then Waiting rq else Timing rq))"
| "charge_step descs ts hs (Waiting rq) =
     Some (hs, [], if bit (hs_lock hs) 0 then Waiting rq else Locking rq)"
| "charge_step descs ts hs (Timing rq) = Some (hs, [], Byte_charge rq ts)"
| "charge_step descs ts hs (Byte_charge rq t) = do {
     let rl = charge_rule rq;
     let cost = satmul32 (ucast (charge_bytes rq)) (ucast (in_byte_scale rl));
     (r1, tbs) \<leftarrow> charge_meter (hs_tb hs) descs (in_byte_tb rl) (of_nat t) cost;
     Some (hs\<lparr>hs_tb := tbs\<rparr>, made (in_byte_tb rl) t cost r1, Packet_charge rq t r1) }"
| "charge_step descs ts hs (Packet_charge rq t r1) = do {
     let rl = charge_rule rq;
     let cost = ucast (in_packet_scale rl);
     (r2, tbs) \<leftarrow> charge_meter (hs_tb hs) descs (in_packet_tb rl) (of_nat t) cost;
     Some (hs\<lparr>hs_tb := tbs\<rparr>, made (in_packet_tb rl) t cost r2, Unlocking ((2 :: u8) - r1 - r2 \<noteq> 0)) }"
| "charge_step descs ts hs (Unlocking res) = Some (hs, [], Unlock_store (spin_release (hs_lock hs) 0) res)"
| "charge_step descs ts hs (Unlock_store w res) = Some (hs\<lparr>hs_lock := w\<rparr>, [], Resting)"

section \<open>Several cores\<close>

text \<open>The host's state, the clock, the charges made, and the cores with their cached times.\<close>

type_synonym meter_state = "host_state \<times> nat \<times> charge_made list \<times> (nat \<times> charge_pc) list"

inductive meter_step :: "bool \<Rightarrow> tbucket_desc list \<Rightarrow> meter_state \<Rightarrow> meter_state \<Rightarrow> bool" for evictions descs where
  prepares: "meter_step evictions descs (hs, clk, lg, xs @ (ts, Resting) # ys) (hs, clk, lg, xs @ (clk, Resting) # ys)"
| calls: "meter_step evictions descs (hs, clk, lg, xs @ (ts, Resting) # ys) (hs, clk, lg, xs @ (ts, Locking rq) # ys)"
| moves: "charge_step descs ts hs c = Some (hs', l, c') \<Longrightarrow>
    meter_step evictions descs (hs, clk, lg, xs @ (ts, c) # ys) (hs', clk, lg @ l, xs @ (ts, c') # ys)"
| tick: "clk \<le> clk' \<Longrightarrow> meter_step evictions descs (hs, clk, lg, cs) (hs, clk', lg, cs)"
| evict: "evictions \<Longrightarrow> meter_step evictions descs (hs, clk, lg, cs) (zero_host_state, clk, lg, cs)"

text \<open>From the host \<open>h0\<close> at time \<open>c0\<close>, with the times \<open>ts0\<close> cached by the cores.\<close>

inductive metering :: "bool \<Rightarrow> tbucket_desc list \<Rightarrow> nat list \<Rightarrow> host_state \<Rightarrow> nat \<Rightarrow> meter_state \<Rightarrow> bool"
  for evictions descs ts0 h0 c0 where
  "metering evictions descs ts0 h0 c0 (h0, c0, [], map (\<lambda>ts. (ts, Resting)) ts0)"
| "metering evictions descs ts0 h0 c0 s \<Longrightarrow> meter_step evictions descs s s' \<Longrightarrow> metering evictions descs ts0 h0 c0 s'"

section \<open>The charges of one meter\<close>

definition meter_log :: "nat \<Rightarrow> charge_made list \<Rightarrow> (nat \<times> u32) list" where
  "meter_log i lg = map (\<lambda>(j, t, c, p). (t, c)) (filter (\<lambda>(j, t, c, p). j = i) lg)"

definition passed_cost :: "nat \<Rightarrow> charge_made list \<Rightarrow> nat" where
  "passed_cost i lg = (\<Sum>(j, t, c, p)\<leftarrow>lg. if j = i \<and> p then unat c else 0)"

definition run_charges :: "tbucket_desc \<Rightarrow> (nat \<times> u32) list \<Rightarrow> tbucket \<Rightarrow> tbucket" where
  "run_charges d xs tb = fold (\<lambda>(t, c) b. snd (bucket_charge d b t c)) xs tb"

lemma meter_log_append [simp]: "meter_log i (lg @ l) = meter_log i lg @ meter_log i l"
  by (simp add: meter_log_def)

lemma passed_cost_append [simp]: "passed_cost i (lg @ l) = passed_cost i lg + passed_cost i l"
  by (simp add: passed_cost_def)

lemma run_charges_append [simp]: "run_charges d (xs @ ys) tb = run_charges d ys (run_charges d xs tb)"
  by (simp add: run_charges_def)

lemma run_charges_1: "run_charges d [(t, c)] tb = snd (bucket_charge d tb t c)" "run_charges d [] tb = tb"
  by (simp_all add: run_charges_def)

lemma accepted_append:
  "accepted (bucket_charge d) unat tb (xs @ ys) =
     accepted (bucket_charge d) unat tb xs + accepted (bucket_charge d) unat (run_charges d xs tb) ys"
  by (induction xs arbitrary: tb) (auto simp: run_charges_def split: prod.splits)

text \<open>The state of the meters is what the charges made of it, and the passed costs are theirs.\<close>

definition meters_follow :: "tbucket_desc list \<Rightarrow> host_state \<Rightarrow> charge_made list \<Rightarrow> host_state \<Rightarrow> bool" where
  "meters_follow descs h0 lg hs \<longleftrightarrow> length (hs_tb hs) = MAX_METERS \<and>
     (\<forall>i<MAX_METERS. hs_tb hs ! i = run_charges (descs ! i) (meter_log i lg) (hs_tb h0 ! i) \<and>
       passed_cost i lg = accepted (bucket_charge (descs ! i)) unat (hs_tb h0 ! i) (meter_log i lg))"

lemma follow_lock [simp]: "meters_follow descs h0 lg (hs\<lparr>hs_lock := w\<rparr>) = meters_follow descs h0 lg hs"
  by (simp add: meters_follow_def)

lemma follow_charge:
  assumes f: "meters_follow descs h0 lg hs" and d: "length descs = MAX_METERS"
    and c: "charge_meter (hs_tb hs) descs i (of_nat t) cost = Some (r, tbs)"
  shows "meters_follow descs h0 (lg @ made i t cost r) (hs\<lparr>hs_tb := tbs\<rparr>)"
proof (cases "cost = 0")
  case True
  then show ?thesis using f c by (auto simp: charge_meter_def made_def meters_follow_def)
next
  case False
  have len: "length (hs_tb hs) = MAX_METERS" using f by (simp add: meters_follow_def)
  have ok: "unat i < MAX_METERS" and r: "r = of_bool (fst (bucket_charge (descs ! unat i) (hs_tb hs ! unat i) t cost))"
    and tbs: "tbs = (hs_tb hs)[unat i := snd (bucket_charge (descs ! unat i) (hs_tb hs ! unat i) t cost)]"
    using c False unfolding charge_meter_eq [OF len d]
    by (auto simp: meter_ok_def meter_pass_def meter_update_def bucket_charge_def split: if_splits)
  show ?thesis unfolding meters_follow_def
  proof (intro conjI allI impI)
    show "length (hs_tb (hs\<lparr>hs_tb := tbs\<rparr>)) = MAX_METERS" by (simp add: tbs len)
    fix k assume k: "k < MAX_METERS"
    have l: "meter_log k (made i t cost r) = (if k = unat i then [(t, cost)] else [])"
      using False by (auto simp: meter_log_def made_def)
    have p: "passed_cost k (made i t cost r) = (if k = unat i \<and> r = 1 then unat cost else 0)"
      using False by (auto simp: passed_cost_def made_def)
    have old: "hs_tb hs ! k = run_charges (descs ! k) (meter_log k lg) (hs_tb h0 ! k)"
      "passed_cost k lg = accepted (bucket_charge (descs ! k)) unat (hs_tb h0 ! k) (meter_log k lg)"
      using f k by (simp_all add: meters_follow_def)
    show "hs_tb (hs\<lparr>hs_tb := tbs\<rparr>) ! k =
        run_charges (descs ! k) (meter_log k (lg @ made i t cost r)) (hs_tb h0 ! k)"
      unfolding meter_log_append run_charges_append old(1) [symmetric] l using k len
      by (cases "k = unat i") (simp_all add: tbs run_charges_1)
    show "passed_cost k (lg @ made i t cost r) =
        accepted (bucket_charge (descs ! k)) unat (hs_tb h0 ! k) (meter_log k (lg @ made i t cost r))"
      unfolding meter_log_append accepted_append passed_cost_append old(2) l p
      using r by (auto simp flip: old(1) split: prod.splits)
  qed
qed

section \<open>The invariant without evictions\<close>

fun charging :: "charge_pc \<Rightarrow> bool" where
  "charging Resting = False"
| "charging (Locking rq) = False"
| "charging (Waiting rq) = False"
| "charging _ = True"

abbreviation inside :: "(nat \<times> charge_pc) list \<Rightarrow> (nat \<times> charge_pc) list" where
  "inside \<equiv> filter (\<lambda>(ts, c). charging c)"

text \<open>Every time that is cached, being charged at or was charged at lies between \<open>t0\<close> and the clock.\<close>

fun charge_pc_ok :: "nat \<Rightarrow> nat \<Rightarrow> charge_pc \<Rightarrow> bool" where
  "charge_pc_ok t0 clk (Byte_charge rq t) \<longleftrightarrow> t0 \<le> t \<and> t \<le> clk"
| "charge_pc_ok t0 clk (Packet_charge rq t r) \<longleftrightarrow> t0 \<le> t \<and> t \<le> clk"
| "charge_pc_ok t0 clk (Unlock_store w res) \<longleftrightarrow> \<not> bit w 0"
| "charge_pc_ok t0 clk _ \<longleftrightarrow> True"

definition times_ok :: "nat \<Rightarrow> nat \<Rightarrow> charge_made list \<Rightarrow> bool" where
  "times_ok t0 clk lg \<longleftrightarrow> t0 \<le> clk \<and> (\<forall>(j, t, c, p)\<in>set lg. t0 \<le> t \<and> t \<le> clk)"

definition core_ok :: "nat \<Rightarrow> nat \<Rightarrow> nat \<times> charge_pc \<Rightarrow> bool" where
  "core_ok t0 clk x \<longleftrightarrow> t0 \<le> fst x \<and> fst x \<le> clk \<and> charge_pc_ok t0 clk (snd x)"

definition meter_inv :: "tbucket_desc list \<Rightarrow> host_state \<Rightarrow> nat \<Rightarrow> meter_state \<Rightarrow> bool" where
  "meter_inv descs h0 t0 s \<longleftrightarrow> (case s of (hs, clk, lg, cs) \<Rightarrow>
     length (inside cs) = (if bit (hs_lock hs) 0 then 1 else 0) \<and>
     meters_follow descs h0 lg hs \<and> times_ok t0 clk lg \<and> (\<forall>x\<in>set cs. core_ok t0 clk x))"

lemma bit0_release: "\<not> bit (spin_release w 0) 0"
  by (simp add: bit_spin_release)

lemma bit0_acquire: "bit (w OR push_bit 0 1 :: u32) 0"
  by (simp add: bit_or_iff)

lemma times_made: "times_ok t0 clk lg \<Longrightarrow> t0 \<le> t \<Longrightarrow> t \<le> clk \<Longrightarrow> times_ok t0 clk (lg @ made i t cost r)"
  by (auto simp: times_ok_def made_def)

lemma move_inv:
  assumes "meter_inv descs h0 t0 (hs, clk, lg, xs @ (ts, c) # ys)"
    and "meters_follow descs h0 lg' hs'" "times_ok t0 clk lg'" "charge_pc_ok t0 clk c'"
    and "charging c \<Longrightarrow> bit (hs_lock hs) 0 \<Longrightarrow> bit (hs_lock hs') 0 \<longleftrightarrow> charging c'"
    and "\<not> charging c \<Longrightarrow> bit (hs_lock hs') 0 \<longleftrightarrow> bit (hs_lock hs) 0 \<or> charging c'"
    and "\<not> charging c \<Longrightarrow> charging c' \<Longrightarrow> \<not> bit (hs_lock hs) 0"
  shows "meter_inv descs h0 t0 (hs', clk, lg', xs @ (ts, c') # ys)"
  using assms by (cases "charging c"; cases "charging c'") (auto simp: meter_inv_def core_ok_def split: if_splits)

lemma charge_step_inv:
  assumes inv: "meter_inv descs h0 t0 (hs, clk, lg, xs @ (ts, c) # ys)" and d: "length descs = MAX_METERS"
    and s: "charge_step descs ts hs c = Some (hs', l, c')"
  shows "meter_inv descs h0 t0 (hs', clk, lg @ l, xs @ (ts, c') # ys)"
proof -
  note i = inv [unfolded meter_inv_def prod.case]
  have f: "meters_follow descs h0 lg hs" and tm: "times_ok t0 clk lg" and ts: "t0 \<le> ts" "ts \<le> clk"
    and pc: "charge_pc_ok t0 clk c" using i by (auto simp: core_ok_def)
  show ?thesis
  proof (rule move_inv [OF inv])
    show "meters_follow descs h0 (lg @ l) hs'"
      using s f d by (cases c) (auto simp: interlocked_bts_def Let_def bind_eq_Some_conv intro!: follow_charge)
    show "times_ok t0 clk (lg @ l)" "charge_pc_ok t0 clk c'"
      using s pc tm ts bit0_release [of "hs_lock hs"]
      by (cases c; auto simp: interlocked_bts_def Let_def bind_eq_Some_conv intro!: times_made)+
  qed (use s pc bit0_acquire [of "hs_lock hs"] in
      \<open>cases c; auto simp: interlocked_bts_def Let_def bind_eq_Some_conv split: if_splits\<close>)+
qed

lemma metering_inv:
  assumes "metering False descs ts0 h0 c0 s" "length descs = MAX_METERS" "length (hs_tb h0) = MAX_METERS"
    and "\<not> bit (hs_lock h0) 0" "t0 \<le> c0" "\<forall>ts\<in>set ts0. t0 \<le> ts \<and> ts \<le> c0"
  shows "meter_inv descs h0 t0 s"
  using assms(1)
proof induction
  case 1
  have "inside (map (\<lambda>ts. (ts, Resting)) ts0) = []" by (auto simp: filter_empty_conv)
  then show ?case using assms(3-6)
    by (auto simp: meter_inv_def meters_follow_def times_ok_def core_ok_def run_charges_def meter_log_def passed_cost_def)
next
  case (2 s s')
  from 2(2,3) show ?case
  proof (cases rule: meter_step.cases)
    case (moves ts hs c hs' l c' clk lg xs ys)
    then show ?thesis using charge_step_inv [OF _ assms(2) moves(3)] 2(3) by simp
  next
    case (tick clk clk' hs lg cs)
    have "charge_pc_ok t0 clk' c" if "charge_pc_ok t0 clk c" for c
      using that tick(3) by (cases c) auto
    then show ?thesis using 2(3) tick by (fastforce simp: meter_inv_def times_ok_def core_ok_def)
  qed (auto simp: meter_inv_def core_ok_def times_ok_def)
qed

end
