(* ===== verification/Meter_Props.thy ===== *)
theory Meter_Props
  imports Core_Meter
begin

text \<open>
  Properties of the meters of one host under several cores: exclusion and the bound on what passes, and
  how a core with an old cached time, or an eviction, spoils them.
\<close>

lemma times_meter_log:
  assumes "times_ok t0 clk lg"
  shows "\<forall>x\<in>set (meter_log i lg). t0 \<le> fst x \<and> fst x \<le> clk"
  using assms by (auto simp: times_ok_def meter_log_def)

text \<open>Runs by a schedule: time passes, or a core prepares, makes a call or moves.\<close>

datatype core_event = Time nat | Prepare nat | Call nat charge_call | Go nat

fun run_charge :: "tbucket_desc list \<Rightarrow> meter_state \<Rightarrow> core_event \<Rightarrow> meter_state option" where
  "run_charge descs (hs, clk, lg, cs) (Time n) = Some (hs, clk + n, lg, cs)"
| "run_charge descs (hs, clk, lg, cs) (Prepare i) =
     (if i < length cs \<and> snd (cs ! i) = Resting then Some (hs, clk, lg, cs[i := (clk, Resting)]) else None)"
| "run_charge descs (hs, clk, lg, cs) (Call i rq) =
     (if i < length cs \<and> snd (cs ! i) = Resting then Some (hs, clk, lg, cs[i := (fst (cs ! i), Locking rq)]) else None)"
| "run_charge descs (hs, clk, lg, cs) (Go i) =
     (if i < length cs
      then case charge_step descs (fst (cs ! i)) hs (snd (cs ! i)) of None \<Rightarrow> None
        | Some (hs', l, c') \<Rightarrow> Some (hs', clk, lg @ l, cs[i := (fst (cs ! i), c')])
      else None)"

lemma around: "i < length cs \<Longrightarrow> snd (cs ! i) = c \<Longrightarrow> take i cs @ (fst (cs ! i), c) # drop (Suc i) cs = cs"
  using id_take_nth_drop [of i cs] by (metis prod.collapse)

lemma run_charge_step: "run_charge descs s m = Some s' \<Longrightarrow> meter_step ev descs s s'"
proof -
  assume a: "run_charge descs s m = Some s'"
  obtain hs clk lg cs where s: "s = (hs, clk, lg, cs)" by (cases s) auto
  show ?thesis
  proof (cases m)
    case (Time n)
    then show ?thesis using a s by (auto intro: meter_step.tick)
  next
    case (Prepare i)
    then show ?thesis
      using a s meter_step.prepares [of ev descs hs clk lg "take i cs" "fst (cs ! i)" "drop (Suc i) cs"] around [of i cs Resting]
      by (auto simp: upd_conv_take_nth_drop split: if_splits)
  next
    case (Call i rq)
    then show ?thesis
      using a s meter_step.calls [of ev descs hs clk lg "take i cs" "fst (cs ! i)" "drop (Suc i) cs" rq] around [of i cs Resting]
      by (auto simp: upd_conv_take_nth_drop split: if_splits)
  next
    case (Go i)
    then obtain hs' l c' where "i < length cs" "charge_step descs (fst (cs ! i)) hs (snd (cs ! i)) = Some (hs', l, c')"
      "s' = (hs', clk, lg @ l, cs[i := (fst (cs ! i), c')])"
      using a s by (auto split: option.splits if_splits)
    then show ?thesis
      using meter_step.moves [of descs "fst (cs ! i)" hs "snd (cs ! i)" hs' l c' ev clk lg "take i cs" "drop (Suc i) cs"]
        around [of i cs "snd (cs ! i)"] s by (simp add: upd_conv_take_nth_drop)
  qed
qed

lemma run_charges_metering:
  assumes "metering ev descs ts0 h0 c0 s" "fold_opt (run_charge descs) s ms = Some s'"
  shows "metering ev descs ts0 h0 c0 s'"
  using assms
proof (induction ms arbitrary: s)
  case (Cons m ms)
  then obtain s1 where "run_charge descs s m = Some s1" "fold_opt (run_charge descs) s1 ms = Some s'"
    by (auto simp: bind_eq_Some_conv)
  then show ?case
    using Cons.IH metering.intros(2) [OF Cons.prems(1) run_charge_step] by blast
qed simp

text \<open>Two packets of 30 bytes for one host, at five milliseconds, on two cores.\<close>

definition slow_meter :: tbucket_desc where
  "slow_meter = \<lparr>rate = 10, capacity = 100, level = 0\<rparr>"

definition packet_of :: "u16 \<Rightarrow> charge_call" where
  "packet_of n = \<lparr>charge_rule = zero_rule\<lparr>in_byte_scale := 1\<rparr>, charge_bytes = n\<rparr>"

abbreviation small_packet :: charge_call where "small_packet \<equiv> packet_of 30"

definition contended :: "core_event list" where
  "contended = [Time 5, Prepare 0, Prepare 1, Call 0 small_packet, Call 1 small_packet, Go 0, Go 1, Go 0, Go 1] @
     replicate 4 (Go 0) @ replicate 7 (Go 1)"

lemma contended_end:
  "case fold_opt (run_charge (replicate 4 slow_meter)) (zero_host_state, 0, [], [(0, Resting), (0, Resting)]) contended of
     None \<Rightarrow> False
   | Some (hs, clk, lg, cs) \<Rightarrow> lg = [(0, 5, 30, True), (0, 5, 30, False)] \<and> clk = 5 \<and> inside cs = []"
  by code_simp

text \<open>
  C14: Whatever cores charge a host in whatever interleaving, each at the time it last cached, at most one
  is between taking and releasing the host's lock, and the costs that a meter let pass total at most its
  capacity plus its rate times the time that has elapsed, once and once more for every charge of that
  meter at an earlier time than the charge before it. While no core charges at an earlier time, one
  core's bound is that of all together. The host is not evicted meanwhile, and fewer than \<open>2^32\<close>
  milliseconds elapse.
\<close>

theorem concurrent_meter_bound:
  assumes "metering False descs ts0 h0 c0 (hs, clk, lg, cs)" "length descs = MAX_METERS"
    and "length (hs_tb h0) = MAX_METERS" "\<not> bit (hs_lock h0) 0" "i < MAX_METERS"
    and "t0 \<le> c0" "\<forall>ts\<in>set ts0. t0 \<le> ts \<and> ts \<le> c0"
    and "refilled_at (hs_tb h0 ! i) t0" "unat (tokens (hs_tb h0 ! i)) \<le> unat (capacity (descs ! i))"
    and "clk < t0 + 4294967296"
  shows "length (inside cs) \<le> 1 \<and>
    passed_cost i lg \<le> (1 + backsteps t0 (meter_log i lg)) *
      (unat (capacity (descs ! i)) + unat (rate (descs ! i)) * (clk - t0))"
proof -
  note inv = metering_inv [OF assms(1-4,6,7), unfolded meter_inv_def prod.case]
  then have t: "times_ok t0 clk lg" and f: "meters_follow descs h0 lg hs"
    and one: "length (inside cs) \<le> 1" by (simp_all split: if_splits)
  let ?K = "unat (capacity (descs ! i)) + unat (rate (descs ! i)) * (clk - t0)"
  have "passed_cost i lg = accepted (bucket_charge (descs ! i)) unat (hs_tb h0 ! i) (meter_log i lg)"
    using f assms(5) by (simp add: meters_follow_def)
  also have "\<dots> \<le> unat (tokens (hs_tb h0 ! i)) + unat (rate (descs ! i)) * (clk - t0) + backsteps t0 (meter_log i lg) * ?K"
    by (rule tb.accepted_backsteps [OF assms(10,8,9)]) (use t times_meter_log [OF t] in \<open>simp_all add: times_ok_def\<close>)
  also have "\<dots> \<le> (1 + backsteps t0 (meter_log i lg)) * ?K" using assms(9) by simp
  finally show ?thesis using one by blast
qed

theorem concurrent_meter_bound_witness:
  "\<exists>lg. lg = [(0, 5, 30, True), (0, 5, 30, False)] \<and> passed_cost 0 lg \<le> 100 + 10 * 5"
proof -
  let ?d = "replicate 4 slow_meter"
  have start: "metering False ?d [0, 0] zero_host_state 0 (zero_host_state, 0, [], [(0, Resting), (0, Resting)])"
    using metering.intros(1) [of False ?d "[0, 0]"] by simp
  obtain hs cs where r: "fold_opt (run_charge ?d) (zero_host_state, 0, [], [(0, Resting), (0, Resting)]) contended =
      Some (hs, 5, [(0, 5, 30, True), (0, 5, 30, False)], cs)"
    using contended_end by (auto split: option.splits)
  have "passed_cost 0 [(0, 5, 30, True), (0, 5, 30, False)] \<le>
      (1 + backsteps 0 (meter_log 0 [(0, 5, 30, True), (0, 5, 30, False)])) *
        (unat (capacity (?d ! 0)) + unat (rate (?d ! 0)) * (5 - 0))"
    using concurrent_meter_bound [OF run_charges_metering [OF start r], of 0]
    by (simp add: MAX_METERS_def zero_host_state_def zero_tbucket_def refilled_at_def)
  then show ?thesis by (simp add: slow_meter_def meter_log_def)
qed

text \<open>
  A core whose cached time is a millisecond older than the other's refills the meter whenever it charges
  after it: the elapsed time wraps around. In ten milliseconds the meter then passes 270 bytes, where its
  capacity and its rate allow 200.
\<close>

definition charge_of :: "nat \<Rightarrow> core_event list" where
  "charge_of i = Call i (packet_of 90) # replicate 6 (Go i)"

definition stale :: "core_event list" where
  "stale = [Time 9, Prepare 1, Time 1, Prepare 0] @ charge_of 0 @ charge_of 1 @ charge_of 0 @ charge_of 1"

lemma stale_end:
  "case fold_opt (run_charge (replicate 4 slow_meter)) (zero_host_state, 0, [], [(0, Resting), (0, Resting)]) stale of
     None \<Rightarrow> False
   | Some (hs, clk, lg, cs) \<Rightarrow> clk = 10 \<and>
       lg = [(0, 10, 90, True), (0, 9, 90, True), (0, 10, 90, False), (0, 9, 90, True)]"
  by code_simp

theorem stale_core_refills:
  "\<exists>hs lg cs. metering False (replicate 4 slow_meter) [0, 0] zero_host_state 0 (hs, 10, lg, cs) \<and>
     unat (capacity slow_meter) + unat (rate slow_meter) * 10 < passed_cost 0 lg"
proof -
  let ?d = "replicate 4 slow_meter" and ?lg = "[(0, 10, 90, True), (0, 9, 90, True), (0, 10, 90, False), (0, 9, 90, True)]"
  have start: "metering False ?d [0, 0] zero_host_state 0 (zero_host_state, 0, [], [(0, Resting), (0, Resting)])"
    using metering.intros(1) [of False ?d "[0, 0]"] by simp
  obtain hs cs where r: "fold_opt (run_charge ?d) (zero_host_state, 0, [], [(0, Resting), (0, Resting)]) stale =
      Some (hs, 10, ?lg, cs)"
    using stale_end by (auto split: option.splits)
  from run_charges_metering [OF start r] show ?thesis
    by (intro exI [of _ hs] exI [of _ ?lg] exI [of _ cs]) (simp add: slow_meter_def passed_cost_def)
qed

text \<open>
  When the host is evicted while a core charges it, its lock is cleared under that core, and a second core
  charges beside it.
\<close>

theorem eviction_opens_lock:
  "\<exists>hs clk lg cs. metering True (replicate 4 slow_meter) [0, 0] zero_host_state 0 (hs, clk, lg, cs) \<and>
     map snd (inside cs) = [Timing small_packet, Timing small_packet]"
proof -
  let ?d = "replicate 4 slow_meter"
  have start: "metering True ?d [0, 0] zero_host_state 0 (zero_host_state, 0, [], [(0, Resting), (0, Resting)])"
    using metering.intros(1) [of True ?d "[0, 0]"] by simp
  obtain hs lg where "fold_opt (run_charge ?d) (zero_host_state, 0, [], [(0, Resting), (0, Resting)])
      [Call 0 small_packet, Go 0] = Some (hs, 0, lg, [(0, Timing small_packet), (0, Resting)])"
    by (simp add: interlocked_bts_def zero_host_state_def)
  from run_charges_metering [OF start this]
  have m: "metering True ?d [0, 0] zero_host_state 0 (zero_host_state, 0, lg, [(0, Timing small_packet), (0, Resting)])"
    by (rule metering.intros(2)) (rule meter_step.evict, simp)
  obtain hs' lg' where "fold_opt (run_charge ?d) (zero_host_state, 0, lg, [(0, Timing small_packet), (0, Resting)])
      [Call 1 small_packet, Go 1] = Some (hs', 0, lg', [(0, Timing small_packet), (0, Timing small_packet)])"
    by (simp add: interlocked_bts_def zero_host_state_def)
  from run_charges_metering [OF m this] show ?thesis
    by (intro exI [of _ hs'] exI [of _ 0] exI [of _ lg'] exI [of _ "[(0, Timing small_packet), (0, Timing small_packet)]"]) simp
qed

end
