(* ===== verification/Pool_Limit.thy ===== *)
theory Pool_Limit
  imports Engine_Props
begin

text \<open>
  How long the pool lasts. \<open>host_insert\<close> takes a fresh index for every new host and \<open>allocate\<close> gives the
  index of an evicted host back to nobody, so that the pool is used up by the number of sources that
  were ever seen; and the index is cut to the 18 bits of \<open>ptr\<close>.
\<close>

section \<open>Entering a new host\<close>

text \<open>No host is authorised, and a bucket that is not marked exhausted has its last lane free.\<close>

definition open_table :: "gs \<Rightarrow> bool" where
  "open_table g \<longleftrightarrow> (\<forall>bi. \<forall>k<8. pri_at (host_tbl g bi) k = HOST_PRI_NONE) \<and>
     (\<forall>bi. \<not> exhausted (host_tbl g bi) \<longrightarrow> saddr (host_tbl g bi) ! 7 = 0)"

lemma exhausted_entry [simp]:
  assumes "length (ctrl h) = 8" "k < 8"
  shows "exhausted (init_entry k a t p h) = exhausted h" "exhausted (set_entry_ptr k x h) = exhausted h"
  using assms by (auto simp: exhausted_def init_entry_def set_entry_ptr_def nth_list_update)

lemma exhausted_set [simp]: "length (ctrl h) = 8 \<Longrightarrow> exhausted (set_exhausted True h)"
  by (simp add: exhausted_def set_exhausted_def bit_set_bits)

text \<open>What \<open>allocate\<close> gives on an open table: a lane, with the mark set when it was the last.\<close>

lemma allocate_open:
  assumes "table_ok g" "pool_inv g" "open_table g"
  obtains k g2 where "k < 8" "allocate (upd_bucket bi locked g) bi ts HOST_PRI_NONE = Some (int k, g2)"
    "pool_inv g2" "hp_size g2 = hp_size g" "hp_true_sz g2 = hp_true_sz g"
    "exhausted (host_tbl g2 bi) \<or> saddr (host_tbl g bi) ! 7 = 0 \<and> k \<noteq> 7"
    "\<And>j. ptr_at (host_tbl g2 bi) j = ptr_at (host_tbl g bi) j"
proof -
  let ?h = "host_tbl g bi" and ?g1 = "upd_bucket bi locked g"
  note h = bucket_okD(1-3) [OF table_okD [OF assms(1), of bi]]
  have inv: "pool_inv ?g1" using assms(2) by simp
  show ?thesis
  proof (cases "exhausted ?h")
    case False
    then have z: "saddr ?h ! 7 = 0" using assms(3) by (simp add: open_table_def)
    then have "0 \<in> set (saddr ?h)" using nth_mem [of 7 "saddr ?h"] h(1) by simp
    then obtain k where k: "lane ?h 0 = Some k" using lane_None [OF h(1)] by (cases "lane ?h 0") auto
    note kb = lane_SomeD [OF h(1) k]
    have al: "allocate ?g1 bi ts HOST_PRI_NONE =
        Some (int k, if k = 7 then upd_bucket bi (set_exhausted True) ?g1 else ?g1)"
      using False h k by (simp add: allocate_def probe_lane(2) Let_def)
    have inv2: "pool_inv (if k = 7 then upd_bucket bi (set_exhausted True) ?g1 else ?g1)"
      using inv h assms(2) by (auto intro!: pool_inv_upd simp: pool_invD)
    show ?thesis by (rule that [OF kb(1) al inv2]) (use h z in auto)
  next
    case True
    obtain k where k: "evict_victim ts (ctrl (locked ?h)) = Some k" "k < 8"
      using evict_victim_Some [of "ctrl (locked ?h)" ts] h(2) by (metis length_0_conv locked_frame(2) zero_neq_numeral)
    have pri: "ctrl_pri (ctrl (locked ?h) ! k) = HOST_PRI_NONE"
      using assms(3) k(2) locked_fields(1) [OF h(2), of k] by (simp add: open_table_def pri_at_def)
    obtain g2 where g2: "write_host ?g1 (ptr_at (host_tbl ?g1 bi) k) zero_host_state = Some g2" "pool_inv g2"
        "hp_size g2 = hp_size ?g1"
      using write_host_ok [OF inv pool_invD(5) [OF inv k(2)] host_state_ok_zero] by metis
    have al: "allocate ?g1 bi ts HOST_PRI_NONE = Some (int k, g2)"
      using True h k pri g2(1) by (simp add: allocate_def get_host_ptr_def ptr_at_def Let_def)
    show ?thesis
      by (rule that [OF k(2) al g2(2)]) (use True h g2(3) write_host_frame [OF g2(1)] in simp_all)
  qed
qed

definition host_ptr :: "gs \<Rightarrow> u32 \<Rightarrow> u32 option" where
  "host_ptr g a = (let h = host_tbl g (host_fetch_bucket a) in map_option (ptr_at h) (lane h a))"

lemma host_allocate_full:
  assumes "pool_size_ok g" "pool_room 0 g" "\<not> pool_room 1 g"
  shows "host_allocate e g = None"
proof -
  have n: "unat (hp_size g) = 2097119" using assms(2,3) by (simp add: pool_room_iff)
  then have idx: "unat (hp_size g + 1) = 2097120" by (simp add: unat_word_ariths)
  have "unat (hp_true_sz g) = 2097152" using assms(1) by (simp add: pool_size_ok_def n)
  then have "host_pool_grow (g\<lparr>hp_size := hp_size g + 1\<rparr>) = None" by (simp add: host_pool_grow_eq)
  moreover have "(hp_size g + 1 - HPOOL_GROW div 2) AND (HPOOL_GROW - 1) = 0"
    unfolding grow_test idx by simp
  ultimately show ?thesis by (simp add: host_allocate_def Let_def)
qed

text \<open>A new host takes the next index, or there is none left and the pool is grown beyond its region.\<close>

lemma insert_new_open:
  assumes "table_ok g" "pool_inv g" "open_table g" "lane (host_tbl g bi) a = None"
  shows "pool_room 0 g \<Longrightarrow> \<not> pool_room 1 g \<Longrightarrow> host_insert e g bi a = None"
    and "pool_room 1 g \<Longrightarrow> \<exists>k g'. k < 8 \<and> host_insert e g bi a = Some (int k, g') \<and> pool_inv g' \<and>
      open_table g' \<and> hp_size g' = hp_size g + 1 \<and> ptr_at (host_tbl g' bi) k = take_bit 18 (hp_size g + 1) \<and>
      (\<forall>j. j \<noteq> k \<longrightarrow> ptr_at (host_tbl g' bi) j = ptr_at (host_tbl g bi) j)"
proof -
  let ?h = "host_tbl g bi" and ?ts = "insert_tsec e (upd_bucket bi locked g)"
  note ok = table_okD [OF assms(1), of bi]
  note h = bucket_okD(1-3) [OF ok]
  have pr: "probe_bucket ?h a = - 1" using assms(4) by (simp add: probe_lane probe_neg)
  obtain k g2 where k: "k < 8" and al: "allocate (upd_bucket bi locked g) bi ?ts HOST_PRI_NONE = Some (int k, g2)"
    and g2: "pool_inv g2" "hp_size g2 = hp_size g" "hp_true_sz g2 = hp_true_sz g"
    and ex: "exhausted (host_tbl g2 bi) \<or> saddr ?h ! 7 = 0 \<and> k \<noteq> 7"
    and ptr: "\<And>j. ptr_at (host_tbl g2 bi) j = ptr_at ?h j"
    using allocate_open [OF assms(1-3)] by metis
  from allocate_locked [OF ok al]
  have h2: "saddr (host_tbl g2 bi) = saddr ?h" "length (ctrl (host_tbl g2 bi)) = 8"
    "\<And>j. pri_at (host_tbl g2 bi) j = pri_at ?h j" "\<And>bj. bj \<noteq> bi \<Longrightarrow> host_tbl g2 bj = host_tbl g bj"
    by auto
  let ?g3 = "upd_bucket bi (init_entry k a ?ts HOST_PRI_NONE) g2"
  have inv3: "pool_inv ?g3" by (rule pool_inv_init_entry [OF g2(1) k])
  have ins: "host_insert e g bi a = map_option (\<lambda>(p, g4). (int k, unlock_bucket bi
      (upd_bucket bi (set_entry_ptr k p) g4))) (host_allocate e ?g3)"
    using h(3) al by (cases "host_allocate e ?g3") (auto simp: host_insert_def lock_bucket_eq pr Let_def)
  { assume "pool_room 0 g" "\<not> pool_room 1 g"
    then have "host_allocate e ?g3 = None"
      using inv3 g2(2) by (intro host_allocate_full) (simp_all add: pool_inv_def pool_size_ok_def pool_room_iff)
    then show "host_insert e g bi a = None" by (simp add: ins) }
  assume room: "pool_room 1 g"
  obtain r g' where t: "host_insert e g bi a = Some (r, g')" "grown_by 1 g g'"
    using host_insert_total [OF assms(2) room h(3)] by metis
  then obtain p g4 where hal: "host_allocate e ?g3 = Some (p, g4)" and r: "r = int k"
    and g': "g' = unlock_bucket bi (upd_bucket bi (set_entry_ptr k p) g4)"
    by (auto simp: ins)
  note f = host_allocate_frame [OF hal]
  have tbl: "host_tbl g' bj = (if bj = bi then unlocked (set_entry_ptr k p
      (init_entry k a ?ts HOST_PRI_NONE (host_tbl g2 bi))) else host_tbl g bj)" for bj
    using h2(4) by (simp add: g' unlock_bucket_eq f(1))
  have "open_table g'"
    using assms(3) ex k h h2(1-3) unfolding open_table_def tbl
    by (auto simp: HOST_PRI_NONE_def)
  moreover have "ptr_at (host_tbl g' bi) k = take_bit 18 (hp_size g + 1)"
    using k h2(2) g2(2) by (simp add: tbl f(7))
  moreover have "ptr_at (host_tbl g' bi) j = ptr_at ?h j" if "j \<noteq> k" for j
    using k h2(2) ptr that by (simp add: tbl)
  moreover have "hp_size g' = hp_size g + 1" using g2(2) by (simp add: g' f(8))
  ultimately show "\<exists>k g'. k < 8 \<and> host_insert e g bi a = Some (int k, g') \<and> pool_inv g' \<and>
      open_table g' \<and> hp_size g' = hp_size g + 1 \<and> ptr_at (host_tbl g' bi) k = take_bit 18 (hp_size g + 1) \<and>
      (\<forall>j. j \<noteq> k \<longrightarrow> ptr_at (host_tbl g' bi) j = ptr_at (host_tbl g bi) j)"
    using t k r by (auto simp: grown_by_def)
qed

section \<open>Entering many sources\<close>

definition enter_source :: "env \<Rightarrow> gs \<Rightarrow> u32 \<Rightarrow> gs option" where
  "enter_source e g a = map_option snd (host_insert e g (host_fetch_bucket a) a)"

lemma host_pri_lane: "host_pri g a = None \<longleftrightarrow> lane (host_tbl g (host_fetch_bucket a)) a = None"
  by (simp add: host_pri_bucket bucket_pri_def)

lemma host_pri_ptr: "host_ptr g a = None \<longleftrightarrow> host_pri g a = None"
  by (simp add: host_pri_lane host_ptr_def Let_def)

text \<open>One source: it is entered while there is room, and the absent hosts stay absent.\<close>

lemma enter_source_open:
  assumes "table_ok g" "pool_inv g" "open_table g" "a \<noteq> 0" "host_pri g a = None"
  shows "pool_room 0 g \<Longrightarrow> \<not> pool_room 1 g \<Longrightarrow> enter_source e g a = None"
    and "pool_room 1 g \<Longrightarrow> \<exists>g'. enter_source e g a = Some g' \<and> table_ok g' \<and> pool_inv g' \<and> open_table g' \<and>
      hp_size g' = hp_size g + 1 \<and> host_ptr g' a = Some (take_bit 18 (hp_size g + 1)) \<and>
      (\<forall>b. b \<noteq> 0 \<longrightarrow> b \<noteq> a \<longrightarrow> host_ptr g' b = None \<or> host_ptr g' b = host_ptr g b)"
proof -
  let ?bi = "host_fetch_bucket a"
  have l: "lane (host_tbl g ?bi) a = None" using assms(5) by (simp add: host_pri_lane)
  note new = insert_new_open [OF assms(1-3) l, of e]
  show "pool_room 0 g \<Longrightarrow> \<not> pool_room 1 g \<Longrightarrow> enter_source e g a = None"
    using new(1) by (simp add: enter_source_def)
  assume "pool_room 1 g"
  then obtain k g' where k: "k < 8" and ins: "host_insert e g ?bi a = Some (int k, g')"
    and g': "pool_inv g'" "open_table g'" "hp_size g' = hp_size g + 1"
      "ptr_at (host_tbl g' ?bi) k = take_bit 18 (hp_size g + 1)"
    and ptr: "\<And>j. j \<noteq> k \<Longrightarrow> ptr_at (host_tbl g' ?bi) j = ptr_at (host_tbl g ?bi) j"
    using new(2) by blast
  from host_insert_entered [OF assms(1) ins] l
  have pl: "placed k a HOST_PRI_NONE (host_tbl g ?bi) (host_tbl g' ?bi)"
    and others: "\<And>bj. bj \<noteq> ?bi \<Longrightarrow> host_tbl g' bj = host_tbl g bj"
    by (auto simp: entered_def)
  note ok = table_okD [OF assms(1)]
  have ok': "bucket_ok (host_tbl g' ?bi)" by (rule placed_ok [OF ok k pl]) (simp add: l)
  have t: "table_ok g'" using ok ok' others by (auto simp: table_ok_def) (metis)
  have la: "lane (host_tbl g' ?bi) a = Some k"
    using pl k bucket_okD(1) [OF ok, of ?bi] unfolding lane_Some_iff [OF ok' assms(4)] by (simp add: placed_def)
  have "host_ptr g' b = None \<or> host_ptr g' b = host_ptr g b" if "b \<noteq> 0" "b \<noteq> a" for b
  proof (cases "host_fetch_bucket b = ?bi")
    case True
    have "lane (host_tbl g ?bi) b = Some j \<and> j \<noteq> k" if "lane (host_tbl g' ?bi) b = Some j" for j
      using that pl k bucket_okD(1) [OF ok, of ?bi] \<open>b \<noteq> a\<close>
      unfolding lane_Some_iff [OF ok' \<open>b \<noteq> 0\<close>] lane_Some_iff [OF ok \<open>b \<noteq> 0\<close>]
      by (auto simp: placed_def nth_list_update split: if_splits)
    then show ?thesis using True ptr
      by (cases "lane (host_tbl g' ?bi) b") (auto simp: host_ptr_def)
  qed (use others in \<open>simp add: host_ptr_def\<close>)
  then show "\<exists>g'. enter_source e g a = Some g' \<and> table_ok g' \<and> pool_inv g' \<and> open_table g' \<and>
      hp_size g' = hp_size g + 1 \<and> host_ptr g' a = Some (take_bit 18 (hp_size g + 1)) \<and>
      (\<forall>b. b \<noteq> 0 \<longrightarrow> b \<noteq> a \<longrightarrow> host_ptr g' b = None \<or> host_ptr g' b = host_ptr g b)"
    using ins t g' la by (auto simp: enter_source_def host_ptr_def Let_def)
qed

lemma enter_sources_open:
  assumes "table_ok g" "pool_inv g" "open_table g" "pool_room 0 g" "distinct as" "0 \<notin> set as"
    and "\<forall>a\<in>set as. host_pri g a = None"
  shows "case fold_opt (enter_source e) g as of None \<Rightarrow> \<not> pool_room (length as) g
    | Some g' \<Rightarrow> pool_room (length as) g \<and> unat (hp_size g') = unat (hp_size g) + length as"
  using assms
proof (induction as arbitrary: g)
  case (Cons a as)
  have a: "a \<noteq> 0" "host_pri g a = None" using Cons.prems by auto
  note step = enter_source_open [OF Cons.prems(1-3) a, of e]
  show ?case
  proof (cases "pool_room 1 g")
    case False
    then show ?thesis using step(1) [OF Cons.prems(4)] by (simp add: pool_room_iff)
  next
    case True
    then obtain g1 where g1: "enter_source e g a = Some g1" "table_ok g1" "pool_inv g1" "open_table g1"
        "hp_size g1 = hp_size g + 1"
        "\<forall>b. b \<noteq> 0 \<longrightarrow> b \<noteq> a \<longrightarrow> host_ptr g1 b = None \<or> host_ptr g1 b = host_ptr g b"
      using step(2) by blast
    have n: "unat (hp_size g1) = unat (hp_size g) + 1"
      using True g1(5) by (simp add: pool_room_iff unat_word_ariths)
    have absent: "host_pri g1 b = None" if "b \<in> set as" for b
    proof -
      have "b \<noteq> 0" "b \<noteq> a" "host_pri g b = None" using Cons.prems(5-7) that by auto
      then show ?thesis using g1(6) host_pri_ptr by metis
    qed
    have r: "pool_room 0 g1" "pool_room (length as) g1 \<longleftrightarrow> pool_room (length (a # as)) g"
      using True n by (simp_all add: pool_room_iff)
    show ?thesis using Cons.IH [OF g1(2-4) r(1)] Cons.prems(5,6) absent r(2) n g1(1)
      by (auto split: option.splits)
  qed
qed (simp add: pool_room_iff)

text \<open>An engine that has just started is open.\<close>

lemma ready_open: "table_ok ready_gs" "pool_inv ready_gs" "open_table ready_gs" "host_pri ready_gs a = None \<or> a = 0"
proof -
  show "table_ok ready_gs" "pool_inv ready_gs" using ready_inv by (simp_all add: control_inv_def)
  show "open_table ready_gs"
  proof -
    have "pri_at zero_htbucket k = 0" if "k < 8" for k using zero_bucket_fields(1) [of k] that by simp
    moreover have "saddr zero_htbucket ! 7 = 0" by (simp add: zero_htbucket_def HTBL_BKT_SZ_def)
    ultimately show ?thesis by (simp add: open_table_def ready_fields HOST_PRI_NONE_def)
  qed
  show "host_pri ready_gs a = None \<or> a = 0"
    by (auto simp: host_pri_lane ready_fields lane_eq zero_htbucket_def HTBL_BKT_SZ_def)
qed

text \<open>
  Every new source uses up an entry of the pool for good: with no host authorised, a list of distinct
  unknown sources is entered exactly as long as their number, with those before them, stays 32 below the
  2^21 entries of the pool, however many of them were evicted on the way; the next one makes the engine
  commit memory beyond its region.
\<close>

theorem sources_exhaust_pool:
  assumes "table_ok g" "pool_inv g" "open_table g" "pool_room 0 g"
    and "distinct as" "0 \<notin> set as" "\<forall>a\<in>set as. host_pri g a = None"
  shows "(fold_opt (enter_source e) g as = None \<longleftrightarrow> HPOOL_SIZE \<le> uint (hp_size g) + int (length as) + 32) \<and>
    (\<forall>g'. fold_opt (enter_source e) g as = Some g' \<longrightarrow> unat (hp_size g') = unat (hp_size g) + length as)"
  using enter_sources_open [OF assms, of e] by (auto simp: pool_room_def split: option.splits)

text \<open>Two million sources after the start.\<close>

definition spoofed :: "nat \<Rightarrow> u32 list" where
  "spoofed n = map of_nat [1..<n + 1]"

lemma spoofed_distinct: "n < 4294967296 \<Longrightarrow> distinct (spoofed n) \<and> 0 \<notin> set (spoofed n)"
  by (auto simp: spoofed_def distinct_map inj_on_def word_of_nat_eq_iff word_of_nat_eq_0_iff take_bit_nat_eq_self
      dest!: dvd_imp_le)

lemma spoofed_length: "length (spoofed n) = n"
  by (simp add: spoofed_def del: upt_Suc)

theorem sources_exhaust_pool_witness:
  "fold_opt (enter_source demo_env) ready_gs (spoofed 2097120) = None \<and> fold_opt (enter_source demo_env) ready_gs (spoofed 2097119) \<noteq> None"
proof -
  have r: "pool_room 0 ready_gs" by (simp add: pool_room_iff ready_fields)
  have "fold_opt (enter_source demo_env) ready_gs (spoofed n) = None \<longleftrightarrow> HPOOL_SIZE \<le> int n + 32" if "n < 4294967296" for n
    using sources_exhaust_pool [OF ready_open(1-3) r spoofed_distinct [OF that, THEN conjunct1]
        spoofed_distinct [OF that, THEN conjunct2], of demo_env] ready_open(4) spoofed_distinct [OF that]
    by (auto simp: ready_fields spoofed_length)
  then show ?thesis by (simp add: HPOOL_SIZE_lanes(2))
qed

text \<open>The index of a source, cut to 18 bits.\<close>

lemma enter_source_ptr:
  assumes "table_ok g" "pool_inv g" "open_table g" "pool_room 1 g" "a \<noteq> 0" "host_pri g a = None"
    and "enter_source e g a = Some g'"
  shows "host_ptr g' a = Some (of_nat ((unat (hp_size g) + 1) mod 2 ^ 18))"
proof -
  have "unat (hp_size g + 1) = unat (hp_size g) + 1"
    using assms(4) by (simp add: pool_room_iff unat_word_ariths)
  moreover have "unat (take_bit 18 (hp_size g + 1)) = take_bit 18 (unat (hp_size g + 1))"
    by (rule unsigned_take_bit_eq)
  ultimately have "unat (take_bit 18 (hp_size g + 1)) = (unat (hp_size g) + 1) mod 2 ^ 18"
    by (simp only: take_bit_eq_mod)
  then have "take_bit 18 (hp_size g + 1) = of_nat ((unat (hp_size g) + 1) mod 2 ^ 18)"
    by (metis of_nat_unat ucast_id)
  then show ?thesis using enter_source_open(2) [OF assms(1-3,5,6,4), of e] assms(7) by auto
qed

text \<open>Sources entered later either evict a host or leave it its entry.\<close>

lemma enter_sources_keep:
  assumes "table_ok g" "pool_inv g" "open_table g" "pool_room 0 g" "distinct as" "0 \<notin> set as"
    and "\<forall>a\<in>set as. host_pri g a = None" "fold_opt (enter_source e) g as = Some g'"
    and "b \<noteq> 0" "b \<notin> set as"
  shows "table_ok g' \<and> pool_inv g' \<and> open_table g' \<and> (host_ptr g' b = None \<or> host_ptr g' b = host_ptr g b)"
  using assms
proof (induction as arbitrary: g)
  case (Cons a as)
  have a: "a \<noteq> 0" "host_pri g a = None" using Cons.prems by auto
  note step = enter_source_open [OF Cons.prems(1-3) a, of e]
  have room: "pool_room 1 g" using step(1) [OF Cons.prems(4)] Cons.prems(8) by (cases "pool_room 1 g") auto
  then obtain g1 where g1: "enter_source e g a = Some g1" "table_ok g1" "pool_inv g1" "open_table g1"
      "hp_size g1 = hp_size g + 1"
      "\<And>b. b \<noteq> 0 \<Longrightarrow> b \<noteq> a \<Longrightarrow> host_ptr g1 b = None \<or> host_ptr g1 b = host_ptr g b"
    using step(2) by metis
  have r: "pool_room 0 g1" using room g1(5) by (simp add: pool_room_iff unat_word_ariths)
  have absent: "\<forall>c\<in>set as. host_pri g1 c = None"
  proof
    fix c assume "c \<in> set as"
    then have "c \<noteq> 0" "c \<noteq> a" "host_pri g c = None" using Cons.prems(5-7) by auto
    then show "host_pri g1 c = None" using g1(6) host_pri_ptr by metis
  qed
  have "fold_opt (enter_source e) g1 as = Some g'" using Cons.prems(8) g1(1) by simp
  from Cons.IH [OF g1(2-4) r _ _ absent this Cons.prems(9)] Cons.prems(5,6,9,10) g1(6) [of b]
  show ?case by auto
qed simp

text \<open>
  C16: The entry of a source is named by 18 bits of its index, an eighth of the pool: of two unauthorised
  sources entered with 2^18 - 1 others between them, the first has been evicted or the two share one entry,
  with its meters and its lock.
\<close>

theorem sources_share_state:
  assumes "table_ok g" "pool_inv g" "open_table g" "pool_room 0 g"
    and "distinct (a # as @ [b])" "0 \<notin> set (a # as @ [b])" "\<forall>c\<in>set (a # as @ [b]). host_pri g c = None"
    and "length as + 1 = 2 ^ 18" "fold_opt (enter_source e) g (a # as @ [b]) = Some g'"
  shows "host_ptr g' b \<noteq> None \<and> (host_ptr g' a = None \<or> host_ptr g' a = host_ptr g' b)"
proof -
  obtain g1 g2 where g1: "enter_source e g a = Some g1" "fold_opt (enter_source e) g1 as = Some g2"
    and g2: "enter_source e g2 b = Some g'"
    using assms(9) by (auto simp: fold_opt_append bind_eq_Some_conv)
  have a: "a \<noteq> 0" "host_pri g a = None" using assms(6,7) by auto
  note step = enter_source_open [OF assms(1-3) a, of e]
  have room: "pool_room 1 g" using step(1) [OF assms(4)] g1(1) by auto
  then have i1: "table_ok g1" "pool_inv g1" "open_table g1" "hp_size g1 = hp_size g + 1"
    and k1: "\<And>b. b \<noteq> 0 \<Longrightarrow> b \<noteq> a \<Longrightarrow> host_ptr g1 b = None \<or> host_ptr g1 b = host_ptr g b"
    using step(2) g1(1) by auto
  have n1: "unat (hp_size g1) = unat (hp_size g) + 1" and r1: "pool_room 0 g1"
    using room i1(4) by (simp_all add: pool_room_iff unat_word_ariths)
  have absent: "\<forall>c\<in>set (as @ [b]). host_pri g1 c = None"
  proof
    fix c assume "c \<in> set (as @ [b])"
    then have "c \<noteq> 0" "c \<noteq> a" "host_pri g c = None" using assms(5-7) by auto
    then show "host_pri g1 c = None" using k1 host_pri_ptr by metis
  qed
  have d: "distinct as" "0 \<notin> set as" "\<forall>c\<in>set as. host_pri g1 c = None" "b \<notin> set as" "b \<noteq> 0" "a \<notin> set as" "a \<noteq> b"
    using assms(5,6) absent by auto
  note keep = enter_sources_keep [OF i1(1-3) r1 d(1-3) g1(2)]
  have i2: "table_ok g2" "pool_inv g2" "open_table g2" and b2: "host_pri g2 b = None"
    using keep [OF d(5,4)] absent host_pri_ptr [of g2 b] host_pri_ptr [of g1 b] by auto
  have n2: "unat (hp_size g2) = unat (hp_size g) + 2 ^ 18" and r2: "pool_room 0 g2"
    using enter_sources_open [OF i1(1-3) r1 d(1-3), of e] g1(2) n1 assms(8) by (simp_all add: pool_room_iff)
  have room2: "pool_room 1 g2" using enter_source_open(1) [OF i2 d(5) b2 r2, of e] g2 by (cases "pool_room 1 g2") auto
  have "host_ptr g1 a = Some (of_nat ((unat (hp_size g) + 1) mod 2 ^ 18))"
    by (rule enter_source_ptr [OF assms(1-3) room a g1(1)])
  moreover have "host_ptr g' b = Some (of_nat ((unat (hp_size g) + 1) mod 2 ^ 18))"
    using enter_source_ptr [OF i2 room2 d(5) b2 g2] unfolding n2
    by (metis add.assoc add.commute mod_add_self2)
  moreover have "host_ptr g2 a = None \<or> host_ptr g2 a = host_ptr g1 a" using keep [OF a(1) d(6)] by blast
  moreover have "host_ptr g' a = None \<or> host_ptr g' a = host_ptr g2 a"
    using enter_source_open(2) [OF i2 d(5) b2 room2, of e] g2 a(1) d(7) by auto
  ultimately show ?thesis by auto
qed

theorem sources_share_state_witness:
  "\<exists>g'. fold_opt (enter_source demo_env) ready_gs (spoofed 262145) = Some g' \<and>
     (host_ptr g' 1 = None \<or> host_ptr g' 1 = host_ptr g' 262145)"
proof -
  have "[1..<n + 1] = 1 # [2..<n] @ [n]" if "2 \<le> n" for n :: nat
    using upt_conv_Cons [of 1 "n + 1"] upt_Suc_append [of 2 n] that by (simp add: numeral_2_eq_2)
  from this [of 262145] have "[1..<262145 + 1] = 1 # [2..<262145] @ [262145 :: nat]" by linarith
  then have "spoofed 262145 = 1 # map of_nat [2..<262145] @ [262145]"
    unfolding spoofed_def by (simp only: list.map map_append of_nat_1 of_nat_numeral)
  moreover have "length (map of_nat [2..<262145] :: u32 list) + 1 = 2 ^ 18"
    unfolding length_map length_upt by simp
  ultimately obtain as where s: "spoofed 262145 = 1 # as @ [262145]" and len: "length as + 1 = 2 ^ 18"
    by blast
  have r: "pool_room 0 ready_gs" by (simp add: pool_room_iff ready_fields)
  note d = spoofed_distinct [of 262145, simplified]
  have u: "\<forall>c\<in>set (spoofed 262145). host_pri ready_gs c = None" using ready_open(4) d by metis
  from enter_sources_open [OF ready_open(1-3) r d [THEN conjunct1] d [THEN conjunct2] u, of demo_env]
  obtain g' where g': "fold_opt (enter_source demo_env) ready_gs (spoofed 262145) = Some g'"
    by (auto simp: spoofed_length pool_room_iff ready_fields split: option.splits)
  show ?thesis
    using sources_share_state [OF ready_open(1-3) r d [THEN conjunct1, unfolded s] d [THEN conjunct2, unfolded s]
        u [unfolded s] len g' [unfolded s]] g' by blast
qed

end
