(* ===== verification/Rule_Dialog.thy ===== *)
theory Rule_Dialog
  imports Flow_Rules
begin

text \<open>
  The rule page of the configuration tool, \<open>ntfw/dlgrules.cpp\<close> with the number fields of
  \<open>ntfw/helper.cpp\<close>: protocol names, the rules kept behind a page of eight rows of controls, scrolling,
  and the two directions between the dialog and the rules of an image. A text is the list of its bytes
  without the final zero. An access outside the rules, or a number that does not fit an \<open>int\<close>, is \<open>None\<close>.
\<close>

section \<open>Constants and protocol names\<close>

definition RULE_PAGE_SZ :: nat where "RULE_PAGE_SZ = 8"
definition DLG_MAX_RULES :: nat where "DLG_MAX_RULES = 32"
definition MAX_PROTO_NAME :: nat where "MAX_PROTO_NAME = 16"

definition IP_P_ICMP :: u8 where "IP_P_ICMP = 0x01"
definition IP_P_IGMP :: u8 where "IP_P_IGMP = 0x02"
definition IP_P_IPIP :: u8 where "IP_P_IPIP = 0x04"
definition IP_P_EGP :: u8 where "IP_P_EGP = 0x08"
definition IP_P_PUP :: u8 where "IP_P_PUP = 0x0C"
definition IP_P_DCCP :: u8 where "IP_P_DCCP = 0x21"
definition IP_P_RSVP :: u8 where "IP_P_RSVP = 0x2E"
definition IP_P_SCTP :: u8 where "IP_P_SCTP = 0x84"

type_synonym cstr = "u8 list"

definition text_of :: "string \<Rightarrow> cstr" where
  "text_of s = map of_char s"

definition str_to_l4 :: "(cstr \<times> u8) list" where
  "str_to_l4 = [
     (text_of ''icmp'', IP_P_ICMP), (text_of ''igmp'', IP_P_IGMP), (text_of ''ipip'', IP_P_IPIP),
     (text_of ''tcp'', IP_P_TCP), (text_of ''egp'', IP_P_EGP), (text_of ''pup'', IP_P_PUP),
     (text_of ''udp'', IP_P_UDP), (text_of ''dccp'', IP_P_DCCP), (text_of ''rsvp'', IP_P_RSVP),
     (text_of ''sctp'', IP_P_SCTP), (text_of ''ldp'', IP_P_LDP)]"

definition l4_to_str :: "(u8 \<times> cstr) list" where
  "l4_to_str = [
     (IP_P_ICMP, text_of ''icmp''), (IP_P_IGMP, text_of ''igmp''), (IP_P_IPIP, text_of ''ipip''),
     (IP_P_TCP, text_of ''tcp''), (IP_P_EGP, text_of ''egp''), (IP_P_PUP, text_of ''pup''),
     (IP_P_UDP, text_of ''udp''), (IP_P_DCCP, text_of ''dccp''), (IP_P_RSVP, text_of ''rsvp''),
     (IP_P_SCTP, text_of ''sctp''), (IP_P_LDP, text_of ''ldp'')]"

definition str_to_l3 :: "(cstr \<times> u16) list" where
  "str_to_l3 = [
     (text_of ''ip'', ETH_P_IP), (text_of ''arp'', ETH_P_ARP), (text_of ''ip6'', ETH_P_IPV6),
     (text_of ''ipx'', ETH_P_IPX), (text_of ''802.1q'', ETH_P_8021Q), (text_of ''ptp'', ETH_P_PTP)]"

definition l3_to_str :: "(u16 \<times> cstr) list" where
  "l3_to_str = [
     (ETH_P_IP, text_of ''ip''), (ETH_P_ARP, text_of ''arp''), (ETH_P_IPV6, text_of ''ip6''),
     (ETH_P_IPX, text_of ''ipx''), (ETH_P_8021Q, text_of ''802.1q''), (ETH_P_PTP, text_of ''ptp'')]"

section \<open>Number fields\<close>

text \<open>\<open>itoa\<close> to base ten of the non-negative numbers the dialog writes, and \<open>atoi\<close>.\<close>

fun itoa :: "nat \<Rightarrow> cstr" where
  "itoa n = (if n < 10 then [of_nat (48 + n)] else itoa (n div 10) @ [of_nat (48 + n mod 10)])"

declare itoa.simps [simp del]

definition is_digit :: "u8 \<Rightarrow> bool" where "is_digit c \<longleftrightarrow> 48 \<le> c \<and> c \<le> 57"

definition is_space :: "u8 \<Rightarrow> bool" where "is_space c \<longleftrightarrow> c = 32 \<or> 9 \<le> c \<and> c \<le> 13"

definition digits_int :: "cstr \<Rightarrow> int" where
  "digits_int s = fold (\<lambda>c v. v * 10 + (uint c - 48)) (takeWhile is_digit s) 0"

definition atoi :: "cstr \<Rightarrow> int option" where
  "atoi s =
     (let t = dropWhile is_space s;
          v = (case t of [] \<Rightarrow> 0
               | c # cs \<Rightarrow> if c = 45 then - digits_int cs else if c = 43 then digits_int cs else digits_int t)
      in if - (2 ^ 31) \<le> v \<and> v < 2 ^ 31 then Some v else None)"

text \<open>A field's text is read through a buffer of 64 bytes.\<close>

definition Edit_GetTextInt :: "cstr \<Rightarrow> int option" where
  "Edit_GetTextInt t = atoi (take 63 t)"

definition Edit_SetTextInt :: "nat \<Rightarrow> cstr" where
  "Edit_SetTextInt v = itoa v"

section \<open>The page and the rules behind it\<close>

record Rule =
  Proto :: cstr
  Port :: u16
  ByteCost :: u16
  PacketCost :: u16
  SynCost :: u16
  ByteMeter :: "2 word"
  PacketMeter :: "2 word"
  SynMeter :: "2 word"

definition zero_Rule :: Rule where
  "zero_Rule = \<lparr>Proto = [], Port = 0, ByteCost = 0, PacketCost = 0, SynCost = 0, ByteMeter = 0,
     PacketMeter = 0, SynMeter = 0\<rparr>"

text \<open>One row of controls.\<close>

record row =
  CtlProto :: cstr
  CtlPort :: cstr
  CtlByte :: cstr
  CtlPacket :: cstr
  CtlSyn :: cstr
  CtlByteMeter :: cstr
  CtlPacketMeter :: cstr
  CtlSynMeter :: cstr

record dialog =
  Rules :: "Rule list"
  rows :: "row list"
  scroll_pos :: nat

text \<open>\<open>Synchronize\<close> with \<open>bDown\<close>: a row is stored in a rule; the name's buffer holds 16 bytes.\<close>

definition sync_down :: "row \<Rightarrow> Rule option" where
  "sync_down r = do {
     port \<leftarrow> Edit_GetTextInt (CtlPort r);
     bytes \<leftarrow> Edit_GetTextInt (CtlByte r);
     packets \<leftarrow> Edit_GetTextInt (CtlPacket r);
     syns \<leftarrow> Edit_GetTextInt (CtlSyn r);
     bm \<leftarrow> Edit_GetTextInt (CtlByteMeter r);
     pm \<leftarrow> Edit_GetTextInt (CtlPacketMeter r);
     sm \<leftarrow> Edit_GetTextInt (CtlSynMeter r);
     Some \<lparr>Proto = take (MAX_PROTO_NAME - 1) (CtlProto r), Port = of_int port, ByteCost = of_int bytes,
       PacketCost = of_int packets, SynCost = of_int syns, ByteMeter = ucast (of_int bm :: u16),
       PacketMeter = ucast (of_int pm :: u16), SynMeter = ucast (of_int sm :: u16)\<rparr> }"

definition sync_up :: "Rule \<Rightarrow> row" where
  "sync_up rl = \<lparr>CtlProto = Proto rl, CtlPort = Edit_SetTextInt (unat (Port rl)),
     CtlByte = Edit_SetTextInt (unat (ByteCost rl)), CtlPacket = Edit_SetTextInt (unat (PacketCost rl)),
     CtlSyn = Edit_SetTextInt (unat (SynCost rl)), CtlByteMeter = Edit_SetTextInt (unat (ByteMeter rl)),
     CtlPacketMeter = Edit_SetTextInt (unat (PacketMeter rl)), CtlSynMeter = Edit_SetTextInt (unat (SynMeter rl))\<rparr>"

text \<open>The loops over the page: the rows are saved to the rules from \<open>p\<close> on, or filled from them.\<close>

fun save_rows :: "Rule list \<Rightarrow> nat \<Rightarrow> row list \<Rightarrow> Rule list option" where
  "save_rows rs p [] = Some rs"
| "save_rows rs p (r # rws) = do {
     _ \<leftarrow> cell rs p;
     rl \<leftarrow> sync_down r;
     save_rows (rs[p := rl]) (p + 1) rws }"

fun fill_rows :: "Rule list \<Rightarrow> nat \<Rightarrow> nat \<Rightarrow> row list option" where
  "fill_rows rs p 0 = Some []"
| "fill_rows rs p (Suc n) = do {
     rl \<leftarrow> cell rs p;
     rws \<leftarrow> fill_rows rs (p + 1) n;
     Some (sync_up rl # rws) }"

definition Scroll :: "nat \<Rightarrow> int \<Rightarrow> dialog \<Rightarrow> dialog option" where
  "Scroll CurPos NewPos d = do {
     let NewPos = (if NewPos < 0 then 0 else NewPos);
     let NewPos = nat (min NewPos (int (DLG_MAX_RULES - RULE_PAGE_SZ)));
     rs \<leftarrow> save_rows (Rules d) CurPos (rows d);
     rws \<leftarrow> fill_rows rs NewPos RULE_PAGE_SZ;
     Some \<lparr>Rules = rs, rows = rws, scroll_pos = NewPos\<rparr> }"

text \<open>The scroll messages of \<open>OnRulesDlgMsg\<close>, \<open>SB_OTHER\<close> for the codes its switch does not name; the wheel moves a line for each 120 units.\<close>

datatype scroll_msg =
    SB_ENDSCROLL | SB_LINEDOWN | SB_LINEUP | SB_PAGEDOWN | SB_PAGEUP | SB_THUMB u16 | SB_OTHER |
    WM_MOUSEWHEEL u16

definition OnScroll :: "scroll_msg \<Rightarrow> dialog \<Rightarrow> dialog option" where
  "OnScroll msg d =
     (let CurPos = int (scroll_pos d) in
      case msg of
        SB_ENDSCROLL \<Rightarrow> Some d
      | SB_LINEDOWN \<Rightarrow> Scroll (scroll_pos d) (CurPos + 1) d
      | SB_LINEUP \<Rightarrow> Scroll (scroll_pos d) (CurPos - 1) d
      | SB_PAGEDOWN \<Rightarrow> Scroll (scroll_pos d) (CurPos + int RULE_PAGE_SZ) d
      | SB_PAGEUP \<Rightarrow> Scroll (scroll_pos d) (CurPos - int RULE_PAGE_SZ) d
      | SB_THUMB p \<Rightarrow> Scroll (scroll_pos d) (uint p) d
      | SB_OTHER \<Rightarrow> Scroll (scroll_pos d) CurPos d
      | WM_MOUSEWHEEL dt \<Rightarrow> Scroll (scroll_pos d) (CurPos - sgn (sint dt) * (\<bar>sint dt\<bar> div 120)) d)"

section \<open>From an image to the dialog\<close>

text \<open>\<open>%X\<close>: upper-case hexadecimal digits.\<close>

definition hex_char :: "nat \<Rightarrow> u8" where
  "hex_char n = (if n < 10 then of_nat (48 + n) else of_nat (55 + n))"

fun hex_text :: "nat \<Rightarrow> cstr" where
  "hex_text n = (if n < 16 then [hex_char n] else hex_text (n div 16) @ [hex_char (n mod 16)])"

declare hex_text.simps [simp del]

definition proto_text :: "cfg_rule \<Rightarrow> cstr" where
  "proto_text src =
     (if cr_ether src \<noteq> ETH_P_IP
      then case map_of l3_to_str (cr_ether src) of Some s \<Rightarrow> s | None \<Rightarrow> hex_text (unat (cr_ether src))
      else case map_of l4_to_str (cr_proto src) of Some s \<Rightarrow> s | None \<Rightarrow> hex_text (unat (cr_proto src)))"

definition upload_rule :: "cfg_rule \<Rightarrow> Rule" where
  "upload_rule src = \<lparr>Proto = proto_text src, Port = cr_dport src, ByteCost = cr_byte_scale src,
     PacketCost = cr_packet_scale src, SynCost = cr_syn_scale src, ByteMeter = ucast (cr_byte_tb src),
     PacketMeter = ucast (cr_packet_tb src), SynMeter = ucast (cr_syn_tb src)\<rparr>"

fun upload_rules :: "Rule list \<Rightarrow> nat \<Rightarrow> cfg_rule list \<Rightarrow> Rule list option" where
  "upload_rules rs i [] = Some rs"
| "upload_rules rs i (src # srcs) = do {
     _ \<leftarrow> cell rs i;
     upload_rules (rs[i := upload_rule src]) (i + 1) srcs }"

definition RulesUpload :: "cfg_rule list \<Rightarrow> dialog option" where
  "RulesUpload srcs = do {
     rs \<leftarrow> upload_rules (replicate DLG_MAX_RULES zero_Rule) 0 srcs;
     rws \<leftarrow> fill_rows rs 0 RULE_PAGE_SZ;
     Some \<lparr>Rules = rs, rows = rws, scroll_pos = 0\<rparr> }"

section \<open>From the dialog to an image\<close>

definition lower :: "cstr \<Rightarrow> cstr" where
  "lower s = map (\<lambda>c. c OR 0x20) s"

text \<open>The disjunction of the letters, whose upper bits are clear only for the empty text.\<close>

definition letters :: "cstr \<Rightarrow> u8" where
  "letters s = fold (\<lambda>c v. v OR c) s 0"

text \<open>The hexadecimal protocol number, with the count of the digits read before.\<close>

fun parse_hex :: "cstr \<Rightarrow> u8 \<Rightarrow> u16 \<Rightarrow> u16 option" where
  "parse_hex [] digits e = Some e"
| "parse_hex (c # cs) digits e =
     (if \<not> (48 \<le> c \<and> c \<le> 57 \<or> 97 \<le> c \<and> c \<le> 102) \<or> 4 < digits then None
      else parse_hex cs (digits + 1)
        (push_bit 4 e + ucast (if c AND 0x40 \<noteq> 0 then (c AND 0x0F) + 9 else c AND 0x0F)))"

text \<open>Ethertype, protocol and port of a rule whose name has been lowered.\<close>

definition parse_proto :: "cstr \<Rightarrow> u16 \<Rightarrow> (u16 \<times> u8 \<times> u16) option" where
  "parse_proto s port =
     (case map_of str_to_l4 s of
        Some p \<Rightarrow> Some (ETH_P_IP, p, port)
      | None \<Rightarrow> (case map_of str_to_l3 s of
          Some e \<Rightarrow> Some (e, 0, 0)
        | None \<Rightarrow> (case parse_hex s 0 0 of
            None \<Rightarrow> None
          | Some e \<Rightarrow> if e AND 0xFF00 = 0 then Some (ETH_P_IP, ucast e, 0) else Some (e, 0, 0))))"

text \<open>
  The loop over all rules: each is lowered in place; an empty one is skipped, a malformed one ends the
  loop with failure. The result has the rules written so far.
\<close>

fun download_rules :: "Rule list \<Rightarrow> bool \<times> cfg_rule list \<times> Rule list" where
  "download_rules [] = (True, [], [])"
| "download_rules (src # srcs) =
     (let src' = src\<lparr>Proto := lower (Proto src)\<rparr> in
      if letters (Proto src') AND 0xE0 = 0
      then (case download_rules srcs of (ok, dst, rs) \<Rightarrow> (ok, dst, src' # rs))
      else case parse_proto (Proto src') (Port src') of
        None \<Rightarrow> (False, [], src' # srcs)
      | Some (e, p, port) \<Rightarrow> (case download_rules srcs of (ok, dst, rs) \<Rightarrow>
          (ok, \<lparr>cr_ether = e, cr_dport = port, cr_byte_scale = ByteCost src', cr_packet_scale = PacketCost src',
             cr_syn_scale = SynCost src', cr_proto = p, cr_byte_tb = ucast (ByteMeter src'),
             cr_packet_tb = ucast (PacketMeter src'), cr_syn_tb = ucast (SynMeter src')\<rparr> # dst, src' # rs)))"

definition RulesDownload :: "dialog \<Rightarrow> (bool \<times> cfg_rule list \<times> dialog) option" where
  "RulesDownload d = do {
     rs \<leftarrow> save_rows (Rules d) (scroll_pos d) (rows d);
     let (ok, dst, rs') = download_rules rs;
     Some (ok, dst, d\<lparr>Rules := rs'\<rparr>) }"

end
