(* ===== verification/Dialog_Ok.thy ===== *)
theory Dialog_Ok
  imports Rule_Dialog
begin

text \<open>
  Lemmas on the rule dialog: numbers and names read back as they were written, a page saved after it was
  filled changes nothing, and a rule's protocol survives printing and parsing.
\<close>

section \<open>Numbers\<close>

lemma itoa_nonempty [simp]: "itoa n \<noteq> []"
  by (subst itoa.simps) simp

lemma uint_of_nat_u8: "m < 256 \<Longrightarrow> uint (of_nat m :: u8) = int m"
  by (simp add: unsigned_of_nat take_bit_nat_eq_self)

lemma digit_code: "n < 10 \<Longrightarrow> uint (of_nat (48 + n) :: u8) = 48 + int n"
  by (subst uint_of_nat_u8) simp_all

lemma is_digit_code: "n < 10 \<Longrightarrow> is_digit (of_nat (48 + n))"
  unfolding is_digit_def word_le_def by (subst (1 2) digit_code) simp_all

lemma itoa_digits: "\<forall>c\<in>set (itoa n). is_digit c"
proof (induction n rule: itoa.induct)
  case (1 n)
  then show ?case by (subst itoa.simps) (auto simp: is_digit_code simp del: of_nat_add)
qed

lemma fold_itoa: "fold (\<lambda>c v. v * 10 + (uint c - 48)) (itoa n) 0 = int n"
proof (induction n rule: itoa.induct)
  case (1 n)
  show ?case
  proof (cases "n < 10")
    case True
    then show ?thesis by (subst itoa.simps) (simp add: digit_code del: of_nat_add)
  next
    case False
    then have "fold (\<lambda>c v. v * 10 + (uint c - 48)) (itoa n) 0 = int (n div 10) * 10 + int (n mod 10)"
      using 1 by (subst itoa.simps) (simp add: digit_code del: of_nat_add)
    then show ?thesis by (simp add: zdiv_int zmod_int)
  qed
qed

lemma itoa_length: "n < 10 ^ Suc k \<Longrightarrow> length (itoa n) \<le> Suc k"
proof (induction k arbitrary: n)
  case 0
  then show ?case by (subst itoa.simps) simp
next
  case (Suc k)
  then have "n div 10 < 10 ^ Suc k" by (simp add: less_mult_imp_div_less mult.commute)
  then show ?case using Suc.IH [of "n div 10"] by (subst itoa.simps) simp
qed

lemma atoi_itoa: "n < 2 ^ 31 \<Longrightarrow> atoi (itoa n) = Some (int n)"
proof -
  assume n: "n < 2 ^ 31"
  obtain c cs where s: "itoa n = c # cs" by (cases "itoa n") auto
  have d: "\<forall>x\<in>set (c # cs). is_digit x" using itoa_digits [of n] by (simp add: s)
  then have c: "\<not> is_space c" "c \<noteq> 45" "c \<noteq> 43"
    by (auto simp: is_digit_def is_space_def word_le_def)
  have "digits_int (c # cs) = int n" using d fold_itoa [of n]
    by (simp add: digits_int_def s takeWhile_eq_all_conv [THEN iffD2])
  then show ?thesis using c n by (simp add: atoi_def s Let_def) 
qed

lemma number_round_trip: "n < 65536 \<Longrightarrow> Edit_GetTextInt (Edit_SetTextInt n) = Some (int n)"
  using itoa_length [of n 4] by (simp add: Edit_GetTextInt_def Edit_SetTextInt_def atoi_itoa)

section \<open>Pages\<close>

definition proto_fits :: "Rule \<Rightarrow> bool" where
  "proto_fits rl \<longleftrightarrow> length (Proto rl) < MAX_PROTO_NAME"

lemma unat_u2_less: "unat (x :: 2 word) < 4"
  using unsigned_less [of x, where ?'a = nat] by simp

lemma sync_round_trip: "proto_fits rl \<Longrightarrow> sync_down (sync_up rl) = Some rl"
proof -
  assume p: "proto_fits rl"
  have u: "Edit_GetTextInt (Edit_SetTextInt (unat x)) = Some (uint x)" for x :: u16
    using number_round_trip [OF unat_u16_less] by simp
  have m: "Edit_GetTextInt (Edit_SetTextInt (unat x)) = Some (uint x)" for x :: "2 word"
    using number_round_trip [of "unat x"] unat_u2_less [of x] by simp
  have b: "ucast (ucast x :: u16) = x" for x :: "2 word"
    by (rule bit_word_eqI) (auto simp: bit_simps)
  show ?thesis using p by (cases rl) (simp add: sync_down_def sync_up_def u m b proto_fits_def)
qed

lemma sync_down_fits: "sync_down r = Some rl \<Longrightarrow> proto_fits rl"
  by (auto simp: sync_down_def proto_fits_def MAX_PROTO_NAME_def split: bind_splits)

lemma fill_rows_eq:
  "p + n \<le> length rs \<Longrightarrow> fill_rows rs p n = Some (map (\<lambda>i. sync_up (rs ! (p + i))) [0..<n])"
proof (induction n arbitrary: p)
  case (Suc n)
  then show ?case by (simp add: cell_def map_upt_Suc del: upt_Suc)
qed simp

text \<open>The rules the rows stand for.\<close>

fun down_rows :: "row list \<Rightarrow> Rule list option" where
  "down_rows [] = Some []"
| "down_rows (r # rws) = do { rl \<leftarrow> sync_down r; rls \<leftarrow> down_rows rws; Some (rl # rls) }"

lemma down_rows_fits: "down_rows rws = Some rls \<Longrightarrow> length rls = length rws \<and> (\<forall>rl\<in>set rls. proto_fits rl)"
  by (induction rws arbitrary: rls) (auto split: bind_splits intro: sync_down_fits)

lemma save_rows_eq:
  assumes "p + length rws \<le> length rs" "down_rows rws = Some rls"
  shows "save_rows rs p rws = Some (take p rs @ rls @ drop (p + length rws) rs)"
  using assms
proof (induction rws arbitrary: rs p rls)
  case (Cons r rws)
  then obtain rl rls' where r: "sync_down r = Some rl" "down_rows rws = Some rls'" "rls = rl # rls'"
    by (auto split: bind_splits)
  have p: "p < length rs" using Cons.prems(1) by simp
  have "save_rows (rs[p := rl]) (p + 1) rws =
      Some (take (p + 1) (rs[p := rl]) @ rls' @ drop (p + 1 + length rws) (rs[p := rl]))"
    using Cons.prems(1) r(2) by (intro Cons.IH) simp_all
  then show ?case using p r by (simp add: cell_def take_Suc_conv_app_nth)
qed simp

lemma down_filled:
  assumes "p + n \<le> length rs" "\<forall>rl\<in>set rs. proto_fits rl"
  shows "down_rows (map (\<lambda>i. sync_up (rs ! (p + i))) [0..<n]) = Some (take n (drop p rs))"
  using assms(1)
proof (induction n arbitrary: p)
  case (Suc n)
  have "down_rows (map (\<lambda>i. sync_up (rs ! (Suc p + i))) [0..<n]) = Some (take n (drop (Suc p) rs))"
    using Suc.prems by (intro Suc.IH) simp
  moreover have "sync_down (sync_up (rs ! p)) = Some (rs ! p)"
    using Suc.prems assms(2) by (intro sync_round_trip) auto
  moreover have "drop p rs = rs ! p # drop (Suc p) rs"
    using Suc.prems by (simp add: Cons_nth_drop_Suc)
  ultimately show ?case by (simp add: map_upt_Suc del: upt_Suc)
qed simp

lemma save_filled:
  assumes "p + n \<le> length rs" "\<forall>rl\<in>set rs. proto_fits rl" "fill_rows rs p n = Some rws"
  shows "save_rows rs p rws = Some rs"
proof -
  have r: "rws = map (\<lambda>i. sync_up (rs ! (p + i))) [0..<n]" using assms(3) fill_rows_eq [OF assms(1)] by simp
  have "save_rows rs p rws = Some (take p rs @ take n (drop p rs) @ drop (p + length rws) rs)"
    using assms(1) down_filled [OF assms(1,2)] by (intro save_rows_eq) (simp_all add: r)
  then show ?thesis by (simp add: r) (metis add.commute append_take_drop_id drop_drop)
qed

section \<open>The dialog's state\<close>

text \<open>A dialog whose fields hold numbers, at a position where the page lies inside the rules.\<close>

definition dialog_ok :: "dialog \<Rightarrow> bool" where
  "dialog_ok d \<longleftrightarrow> length (Rules d) = DLG_MAX_RULES \<and> length (rows d) = RULE_PAGE_SZ \<and>
     scroll_pos d + RULE_PAGE_SZ \<le> DLG_MAX_RULES \<and> (\<forall>rl\<in>set (Rules d). proto_fits rl) \<and>
     down_rows (rows d) \<noteq> None"

text \<open>The rules as the user sees them: those behind the page are overlaid by the page.\<close>

definition user_rules :: "dialog \<Rightarrow> Rule list option" where
  "user_rules d = save_rows (Rules d) (scroll_pos d) (rows d)"

lemma user_rules_ok:
  assumes "dialog_ok d"
  shows "\<exists>rs. user_rules d = Some rs \<and> length rs = DLG_MAX_RULES \<and> (\<forall>rl\<in>set rs. proto_fits rl)"
proof -
  obtain rls where r: "down_rows (rows d) = Some rls" using assms by (auto simp: dialog_ok_def)
  note f = down_rows_fits [OF r]
  have "user_rules d = Some (take (scroll_pos d) (Rules d) @ rls @ drop (scroll_pos d + length (rows d)) (Rules d))"
    using assms r unfolding user_rules_def by (intro save_rows_eq) (auto simp: dialog_ok_def)
  moreover have "\<forall>rl\<in>set (take (scroll_pos d) (Rules d) @ rls @ drop (scroll_pos d + length (rows d)) (Rules d)). proto_fits rl"
    using assms f by (auto simp: dialog_ok_def dest: in_set_takeD in_set_dropD)
  moreover have "length (take (scroll_pos d) (Rules d) @ rls @ drop (scroll_pos d + length (rows d)) (Rules d)) = DLG_MAX_RULES"
    using assms f by (auto simp: dialog_ok_def)
  ultimately show ?thesis by blast
qed

lemma filled_ok:
  assumes "length rs = DLG_MAX_RULES" "\<forall>rl\<in>set rs. proto_fits rl" "p + RULE_PAGE_SZ \<le> DLG_MAX_RULES"
  shows "\<exists>rws. fill_rows rs p RULE_PAGE_SZ = Some rws \<and>
    dialog_ok \<lparr>Rules = rs, rows = rws, scroll_pos = p\<rparr> \<and>
    user_rules \<lparr>Rules = rs, rows = rws, scroll_pos = p\<rparr> = Some rs"
proof -
  let ?rws = "map (\<lambda>i. sync_up (rs ! (p + i))) [0..<RULE_PAGE_SZ]"
  have f: "fill_rows rs p RULE_PAGE_SZ = Some ?rws" using assms by (intro fill_rows_eq) simp
  have "dialog_ok \<lparr>Rules = rs, rows = ?rws, scroll_pos = p\<rparr>"
    using assms down_filled [of p RULE_PAGE_SZ rs] by (simp add: dialog_ok_def)
  moreover have "user_rules \<lparr>Rules = rs, rows = ?rws, scroll_pos = p\<rparr> = Some rs"
    using save_filled [OF _ assms(2) f] assms by (simp add: user_rules_def)
  ultimately show ?thesis using f by blast
qed

lemma Scroll_ok:
  assumes "dialog_ok d"
  shows "\<exists>d'. Scroll (scroll_pos d) NewPos d = Some d' \<and> dialog_ok d' \<and> user_rules d' = user_rules d \<and>
    int (scroll_pos d') = max 0 (min NewPos 24)"
proof -
  obtain rs where rs: "user_rules d = Some rs" "length rs = DLG_MAX_RULES" "\<forall>rl\<in>set rs. proto_fits rl"
    using user_rules_ok [OF assms] by blast
  define p where "p = nat (min (if NewPos < 0 then 0 else NewPos) (int (DLG_MAX_RULES - RULE_PAGE_SZ)))"
  have p: "p + RULE_PAGE_SZ \<le> DLG_MAX_RULES" "int p = max 0 (min NewPos 24)"
    by (auto simp: p_def DLG_MAX_RULES_def RULE_PAGE_SZ_def)
  obtain rws where "fill_rows rs p RULE_PAGE_SZ = Some rws" "dialog_ok \<lparr>Rules = rs, rows = rws, scroll_pos = p\<rparr>"
    "user_rules \<lparr>Rules = rs, rows = rws, scroll_pos = p\<rparr> = Some rs"
    using filled_ok [OF rs(2,3) p(1)] by blast
  then show ?thesis using rs(1) p(2)
    by (auto simp: Scroll_def p_def [symmetric] user_rules_def [symmetric] Let_def)
qed

end
