(* ===== verification/Dialog_Rules.thy ===== *)
theory Dialog_Rules
  imports Dialog_Ok Interfaces
begin

text \<open>
  Protocol names through the dialog: what is printed is parsed back, and the rules the dialog yields are
  exactly those it can show. From this the two directions between an image's rules and the dialog are
  inverse to each other.
\<close>

section \<open>Hexadecimal numbers\<close>

definition is_hex :: "u8 \<Rightarrow> bool" where
  "is_hex c \<longleftrightarrow> 48 \<le> c \<and> c \<le> 57 \<or> 97 \<le> c \<and> c \<le> 102"

lemma hex_char_table:
  "list_all (\<lambda>n. is_hex (hex_char n OR 0x20) \<and>
     ucast (if (hex_char n OR 0x20) AND 0x40 \<noteq> 0 then ((hex_char n OR 0x20) AND 0x0F) + 9
            else (hex_char n OR 0x20) AND 0x0F) = (of_nat n :: u16)) [0..<16]"
  by code_simp

lemma hex_char_ok:
  assumes "n < 16"
  shows "is_hex (hex_char n OR 0x20)"
    "parse_hex [hex_char n OR 0x20] d e = (if 4 < d then None else Some (push_bit 4 e + of_nat n))"
proof -
  have "n \<in> set [0..<16]" using assms by simp
  then have t: "is_hex (hex_char n OR 0x20) \<and>
     ucast (if (hex_char n OR 0x20) AND 0x40 \<noteq> 0 then ((hex_char n OR 0x20) AND 0x0F) + 9
            else (hex_char n OR 0x20) AND 0x0F) = (of_nat n :: u16)"
    using hex_char_table unfolding list_all_iff by (rule bspec [rotated])
  then show "is_hex (hex_char n OR 0x20)" by blast
  have "\<not> \<not> (48 \<le> hex_char n OR 0x20 \<and> hex_char n OR 0x20 \<le> 57 \<or> 97 \<le> hex_char n OR 0x20 \<and> hex_char n OR 0x20 \<le> 102)"
    using t unfolding is_hex_def by blast
  then show "parse_hex [hex_char n OR 0x20] d e = (if 4 < d then None else Some (push_bit 4 e + of_nat n))"
    using t by (simp only: parse_hex.simps) simp
qed

lemma parse_hex_append:
  "parse_hex (xs @ ys) d e = Option.bind (parse_hex xs d e) (parse_hex ys (d + of_nat (length xs)))"
  by (induction xs arbitrary: d e) (auto simp: add.assoc)

lemma hex_text_length: "n < 16 ^ Suc k \<Longrightarrow> length (hex_text n) \<le> Suc k"
proof (induction k arbitrary: n)
  case 0
  then show ?case by (subst hex_text.simps) simp
next
  case (Suc k)
  then have "n div 16 < 16 ^ Suc k" by (simp add: less_mult_imp_div_less mult.commute)
  then show ?case using Suc.IH [of "n div 16"] by (subst hex_text.simps) simp
qed

lemma hex_text_nonempty [simp]: "hex_text n \<noteq> []"
  by (subst hex_text.simps) simp

lemma lower_hex: "\<forall>c\<in>set (lower (hex_text n)). is_hex c"
proof (induction n rule: hex_text.induct)
  case (1 n)
  then show ?case by (subst hex_text.simps) (auto simp: lower_def hex_char_ok)
qed

lemma parse_hex_text: "n < 65536 \<Longrightarrow> parse_hex (lower (hex_text n)) 0 0 = Some (of_nat n)"
proof (induction n rule: hex_text.induct)
  case (1 n)
  show ?case
  proof (cases "n < 16")
    case True
    then show ?thesis by (subst hex_text.simps) (simp add: lower_def hex_char_ok del: parse_hex.simps)
  next
    case False
    let ?xs = "lower (hex_text (n div 16))"
    have "length (hex_text (n div 16)) \<le> 3"
      using 1(2) hex_text_length [of "n div 16" 2] by simp
    then have "of_nat (length ?xs) \<in> {0, 1, 2, 3 :: u8}"
      by (auto simp: lower_def le_Suc_eq numeral_3_eq_3)
    then have l: "\<not> (4 :: u8) < of_nat (length ?xs)" by auto
    have "hex_text n = hex_text (n div 16) @ [hex_char (n mod 16)]" using False by (subst hex_text.simps) simp
    then have "parse_hex (lower (hex_text n)) 0 0 = Some (push_bit 4 (of_nat (n div 16)) + of_nat (n mod 16))"
      using 1 False l by (simp add: lower_def parse_hex_append hex_char_ok(2) del: parse_hex.simps)
    also have "push_bit 4 (of_nat (n div 16)) + of_nat (n mod 16) = (of_nat (n div 16 * 16 + n mod 16) :: u16)"
      by (simp only: push_bit_eq_mult of_nat_add of_nat_mult) simp
    finally show ?thesis by simp
  qed
qed

section \<open>Names\<close>

lemma names_not_hex:
  "list_all (\<lambda>(s, _). \<not> list_all is_hex s) str_to_l4" "list_all (\<lambda>(s, _). \<not> list_all is_hex s) str_to_l3"
  by code_simp+

lemma hex_no_name:
  assumes "\<forall>c\<in>set s. is_hex c"
  shows "map_of str_to_l4 s = None" "map_of str_to_l3 s = None"
proof -
  have "list_all is_hex s" using assms by (simp add: list_all_iff)
  then show "map_of str_to_l4 s = None" "map_of str_to_l3 s = None"
    using names_not_hex unfolding map_of_eq_None_iff list_all_iff [of _ str_to_l4] list_all_iff [of _ str_to_l3]
    by fastforce+
qed

lemma names_back:
  "list_all (\<lambda>(p, s). map_of str_to_l4 (lower s) = Some p \<and> s \<noteq> [] \<and> length s < MAX_PROTO_NAME) l4_to_str"
  "list_all (\<lambda>(e, s). map_of str_to_l4 (lower s) = None \<and> map_of str_to_l3 (lower s) = Some e \<and> s \<noteq> [] \<and>
     length s < MAX_PROTO_NAME) l3_to_str"
  "list_all (\<lambda>(s, p). map_of l4_to_str p \<noteq> None) str_to_l4"
  "list_all (\<lambda>(s, e). 256 \<le> e \<and> (map_of l3_to_str e \<noteq> None)) str_to_l3"
  by code_simp+

lemma named_l4:
  assumes "map_of l4_to_str p = Some s"
  shows "map_of str_to_l4 (lower s) = Some p" "s \<noteq> []" "length s < MAX_PROTO_NAME"
  using names_back(1) map_of_SomeD [OF assms] unfolding list_all_iff by auto

lemma named_l3:
  assumes "map_of l3_to_str e = Some s"
  shows "map_of str_to_l4 (lower s) = None" "map_of str_to_l3 (lower s) = Some e" "s \<noteq> []"
    "length s < MAX_PROTO_NAME"
  using names_back(2) map_of_SomeD [OF assms] unfolding list_all_iff by auto

lemma high_byte: "(e AND 0xFF00 = 0) = (e < (256 :: u16))"
proof -
  have m: "(0xFF00 :: u16) = NOT (mask 8)" by (simp add: mask_eq_exp_minus_1)
  have "e AND NOT (mask 8) = 0 \<longleftrightarrow> take_bit 8 e = e"
  proof
    assume z: "e AND NOT (mask 8) = 0"
    have "bit e n \<longrightarrow> n < 8" for n
    proof -
      have "bit (e AND NOT (mask 8)) n \<longleftrightarrow> False" by (simp add: z)
      then show ?thesis by (auto simp: bit_simps dest: bit_imp_le_length)
    qed
    then show "take_bit 8 e = e" by (intro bit_word_eqI) (auto simp: bit_take_bit_iff)
  next
    assume "take_bit 8 e = e"
    then have "e AND NOT (mask 8) = take_bit 8 e AND NOT (mask 8)" by simp
    also have "\<dots> = 0" by (rule bit_word_eqI) (auto simp: bit_simps)
    finally show "e AND NOT (mask 8) = 0" .
  qed
  also have "\<dots> \<longleftrightarrow> e < 2 ^ 8" 
    by (simp add: word_less_nat_alt word_unat_eq_iff unsigned_take_bit_eq take_bit_nat_eq_self_iff)
  finally show ?thesis by (simp add: m)
qed

section \<open>The rules the dialog can show\<close>

text \<open>
  \<open>shown rl\<close>: an ethertype other than IPv4 is named or has at least three digits and goes with no protocol and no port, an IPv4
  protocol without a name goes with no port, and the meter numbers have two bits.
\<close>

definition shown :: "cfg_rule \<Rightarrow> bool" where
  "shown rl \<longleftrightarrow> cr_byte_tb rl < 4 \<and> cr_packet_tb rl < 4 \<and> cr_syn_tb rl < 4 \<and>
     (if cr_ether rl \<noteq> ETH_P_IP then 256 \<le> cr_ether rl \<and> cr_proto rl = 0 \<and> cr_dport rl = 0
      else map_of l4_to_str (cr_proto rl) \<noteq> None \<or> cr_dport rl = 0)"

text \<open>
  What the dialog makes of any rule: an ethertype below 256 is read as an IPv4 protocol, any other but IPv4
  loses its protocol and port, an IPv4 protocol without a name loses its port, and the meters keep
  their low two bits.
\<close>

definition shown_form :: "cfg_rule \<Rightarrow> cfg_rule" where
  "shown_form rl = rl
     \<lparr>cr_ether := (if cr_ether rl < 256 then ETH_P_IP else cr_ether rl),
      cr_proto := (if cr_ether rl = ETH_P_IP then cr_proto rl else if cr_ether rl < 256 then ucast (cr_ether rl) else 0),
      cr_dport := (if cr_ether rl = ETH_P_IP \<and> map_of l4_to_str (cr_proto rl) \<noteq> None then cr_dport rl else 0),
      cr_byte_tb := take_bit 2 (cr_byte_tb rl), cr_packet_tb := take_bit 2 (cr_packet_tb rl),
      cr_syn_tb := take_bit 2 (cr_syn_tb rl)\<rparr>"

lemma two_bits_iff: "take_bit 2 m = m \<longleftrightarrow> m < (4 :: u8)"
  by (simp add: word_less_nat_alt word_unat_eq_iff unsigned_take_bit_eq take_bit_nat_eq_self_iff)

lemma shown_form_iff: "shown_form rl = rl \<longleftrightarrow> shown rl"
proof (cases rl)
  case (fields e dp bs ps ss p bt pt st)
  have ip: "\<not> ETH_P_IP < 256" by (simp add: ETH_P_IP_def)
  show ?thesis unfolding fields shown_form_def shown_def using ip by (auto simp: two_bits_iff not_less)
qed

lemma proto_text_ok: "proto_text rl \<noteq> []" "length (proto_text rl) < MAX_PROTO_NAME"
proof -
  have h: "length (hex_text (unat x)) < 16" for x :: u16
    using hex_text_length [of "unat x" 3] unat_u16_less [of x] by simp
  have h': "length (hex_text (unat x)) < 16" for x :: u8
    using hex_text_length [of "unat x" 1] unsigned_less [of x, where ?'a = nat] by simp
  show "proto_text rl \<noteq> []" by (auto simp: proto_text_def named_l4 named_l3 split: option.splits)
  show "length (proto_text rl) < MAX_PROTO_NAME"
    using h h' by (auto simp: proto_text_def named_l4 named_l3 MAX_PROTO_NAME_def [symmetric] split: option.splits)
qed

lemma l3_codes: "map_of l3_to_str e = Some s \<Longrightarrow> 256 \<le> e"
proof -
  have "list_all (\<lambda>(e, s). 256 \<le> e) l3_to_str" by code_simp
  then show "map_of l3_to_str e = Some s \<Longrightarrow> 256 \<le> e" using map_of_SomeD unfolding list_all_iff by fastforce
qed

lemma proto_round_trip:
  "parse_proto (lower (proto_text rl)) (cr_dport rl) =
     Some (cr_ether (shown_form rl), cr_proto (shown_form rl), cr_dport (shown_form rl))"
proof (cases "cr_ether rl = ETH_P_IP")
  case True
  have ip: "\<not> ETH_P_IP < 256" by (simp add: ETH_P_IP_def)
  show ?thesis
  proof (cases "map_of l4_to_str (cr_proto rl)")
    case None
    then have t: "proto_text rl = hex_text (unat (cr_proto rl))" using True by (simp add: proto_text_def)
    have n: "unat (cr_proto rl) < 256" using unsigned_less [of "cr_proto rl", where ?'a = nat] by simp
    have "(ucast (cr_proto rl) :: u16) < 256"
      using n by (simp add: word_less_nat_alt unsigned_ucast_eq take_bit_nat_eq_self)
    then have z: "(ucast (cr_proto rl) :: u16) AND 0xFF00 = 0" using high_byte by blast
    have "ucast (ucast (cr_proto rl) :: u16) = cr_proto rl"
      by (rule bit_word_eqI) (simp add: bit_simps)
    then show ?thesis
      using None True t z n ip parse_hex_text [of "unat (cr_proto rl)"] hex_no_name [OF lower_hex]
      by (simp add: parse_proto_def shown_form_def)
  next
    case (Some s)
    then show ?thesis using True ip named_l4 [OF Some] by (simp add: parse_proto_def proto_text_def shown_form_def)
  qed
next
  case False
  show ?thesis
  proof (cases "map_of l3_to_str (cr_ether rl)")
    case None
    then have t: "proto_text rl = hex_text (unat (cr_ether rl))" using False by (simp add: proto_text_def)
    show ?thesis
      using t False parse_hex_text [OF unat_u16_less] hex_no_name [OF lower_hex] high_byte
      by (simp add: parse_proto_def shown_form_def)
  next
    case (Some n)
    then show ?thesis using False named_l3 [OF Some] l3_codes [OF Some]
      by (simp add: parse_proto_def proto_text_def shown_form_def not_less)
  qed
qed

lemma parse_proto_shown:
  assumes "parse_proto s port = Some (e, p, port')"
  shows "if e \<noteq> ETH_P_IP then 256 \<le> e \<and> p = 0 \<and> port' = 0 else map_of l4_to_str p \<noteq> None \<or> port' = 0"
proof -
  have l4: "map_of l4_to_str p \<noteq> None" if "map_of str_to_l4 s = Some p" for p
    using names_back(3) map_of_SomeD [OF that] unfolding list_all_iff by auto
  have l3: "256 \<le> e" if "map_of str_to_l3 s = Some e" for e
    using names_back(4) map_of_SomeD [OF that] unfolding list_all_iff by auto
  show ?thesis
    using assms l4 l3 high_byte
    by (auto simp: parse_proto_def not_less split: option.splits if_splits)
qed

section \<open>Between an image's rules and the dialog\<close>

lemma letters_fold: "bit (fold (\<lambda>c v. v OR c) s v) n \<longleftrightarrow> bit v n \<or> (\<exists>c\<in>set s. bit c n)"
  by (induction s arbitrary: v) (auto simp: bit_or_iff)

lemma letters_lower: "letters (lower s) AND 0xE0 = 0 \<longleftrightarrow> s = []"
proof
  assume z: "letters (lower s) AND 0xE0 = 0"
  show "s = []"
  proof (rule ccontr)
    assume "s \<noteq> []"
    then obtain c cs where s: "s = c # cs" by (cases s) auto
    have "bit (0x20 :: u8) 5" "bit (0xE0 :: u8) 5" by code_simp+
    then have "bit (letters (lower s) AND 0xE0) 5"
      by (simp add: letters_def letters_fold lower_def bit_and_iff bit_or_iff s)
    then show False using z by simp
  qed
qed (simp add: letters_def lower_def)

lemma upload_rules_eq:
  "i + length srcs \<le> length rs \<Longrightarrow>
   upload_rules rs i srcs = Some (take i rs @ map upload_rule srcs @ drop (i + length srcs) rs)"
proof (induction srcs arbitrary: rs i)
  case (Cons src srcs)
  then have i: "i < length rs" by simp
  have "upload_rules (rs[i := upload_rule src]) (i + 1) srcs =
    Some (take (i + 1) (rs[i := upload_rule src]) @ map upload_rule srcs @
      drop (i + 1 + length srcs) (rs[i := upload_rule src]))"
    using Cons.prems by (intro Cons.IH) simp
  then show ?case using i by (simp add: cell_def take_Suc_conv_app_nth)
qed simp

definition shown_rules :: "cfg_rule list \<Rightarrow> Rule list" where
  "shown_rules srcs = map upload_rule srcs @ replicate (DLG_MAX_RULES - length srcs) zero_Rule"

lemma upload_fields [simp]:
  "Proto (upload_rule rl) = proto_text rl" "Port (upload_rule rl) = cr_dport rl"
  "ByteCost (upload_rule rl) = cr_byte_scale rl" "PacketCost (upload_rule rl) = cr_packet_scale rl"
  "SynCost (upload_rule rl) = cr_syn_scale rl" "ByteMeter (upload_rule rl) = ucast (cr_byte_tb rl)"
  "PacketMeter (upload_rule rl) = ucast (cr_packet_tb rl)" "SynMeter (upload_rule rl) = ucast (cr_syn_tb rl)"
  by (simp_all add: upload_rule_def)

lemma uploaded_fits: "proto_fits (upload_rule rl)" "proto_fits zero_Rule"
  by (simp_all add: proto_fits_def upload_rule_def proto_text_ok) (simp add: zero_Rule_def MAX_PROTO_NAME_def)

lemma RulesUpload_ok:
  assumes "length srcs \<le> DLG_MAX_RULES"
  shows "\<exists>d. RulesUpload srcs = Some d \<and> dialog_ok d \<and> user_rules d = Some (shown_rules srcs)"
proof -
  let ?rs = "shown_rules srcs"
  have up: "upload_rules (replicate DLG_MAX_RULES zero_Rule) 0 srcs = Some ?rs"
    using assms by (simp add: upload_rules_eq shown_rules_def)
  have "length ?rs = DLG_MAX_RULES" using assms by (simp add: shown_rules_def)
  moreover have "\<forall>rl\<in>set ?rs. proto_fits rl"
    by (auto simp: shown_rules_def uploaded_fits)
  moreover have "0 + RULE_PAGE_SZ \<le> DLG_MAX_RULES" by (simp add: RULE_PAGE_SZ_def DLG_MAX_RULES_def)
  ultimately obtain rws where "fill_rows ?rs 0 RULE_PAGE_SZ = Some rws"
    "dialog_ok \<lparr>Rules = ?rs, rows = rws, scroll_pos = 0\<rparr>" "user_rules \<lparr>Rules = ?rs, rows = rws, scroll_pos = 0\<rparr> = Some ?rs"
    using filled_ok by blast
  then show ?thesis using up by (simp add: RulesUpload_def)
qed

lemma download_empty: "fst (snd (download_rules (replicate k zero_Rule))) = [] \<and> fst (download_rules (replicate k zero_Rule))"
  by (induction k) (simp_all add: zero_Rule_def lower_def letters_def Let_def split_def)

lemma meter_back: "ucast (ucast m :: 2 word) = take_bit 2 (m :: u8)"
  by (rule bit_word_eqI) (auto simp: bit_simps)

lemma download_any: "\<exists>rs. download_rules (map upload_rule srcs @ replicate k zero_Rule) = (True, map shown_form srcs, rs)"
proof (induction srcs)
  case Nil
  then show ?case using download_empty [of k] by (cases "download_rules (replicate k zero_Rule)") auto
next
  case (Cons src srcs)
  then obtain rs where rs: "download_rules (map upload_rule srcs @ replicate k zero_Rule) = (True, map shown_form srcs, rs)"
    by auto
  have "letters (lower (proto_text src)) AND 0xE0 \<noteq> 0" by (simp add: letters_lower proto_text_ok)
  then show ?case
    using rs proto_round_trip [of src]
    by (auto simp: Let_def meter_back intro!: cfg_rule.equality) (simp_all add: shown_form_def)
qed

lemma download_shown:
  "\<forall>rl\<in>set srcs. shown rl \<Longrightarrow> \<exists>rs. download_rules (map upload_rule srcs @ replicate k zero_Rule) = (True, srcs, rs)"
  using download_any [of srcs k] by (simp add: shown_form_iff map_idI)

text \<open>Whatever the dialog yields, it can show.\<close>

lemma meter_two_bits: "ucast (x :: 2 word) < (4 :: u8)"
  using unat_u2_less [of x] by (simp add: word_less_nat_alt unsigned_ucast_eq take_bit_nat_eq_self)

lemma download_yields_shown:
  "download_rules srcs = (ok, dst, rs) \<Longrightarrow> (\<forall>rl\<in>set dst. shown rl) \<and> length dst \<le> length srcs \<and> length rs = length srcs"
proof (induction srcs arbitrary: ok dst rs)
  case (Cons src srcs)
  obtain ok' dst' rs' where r: "download_rules srcs = (ok', dst', rs')" by (cases "download_rules srcs")
  note IH = Cons.IH [OF r]
  show ?case
  proof (cases "letters (lower (Proto src)) AND 0xE0 = 0")
    case True
    then show ?thesis using Cons.prems r IH by (auto simp: Let_def)
  next
    case False
    show ?thesis
    proof (cases "parse_proto (lower (Proto src)) (Port src)")
      case None
      then show ?thesis using Cons.prems False by (auto simp: Let_def)
    next
      case (Some x)
      obtain e p port where x: "x = (e, p, port)" by (cases x)
      note sh = parse_proto_shown [OF Some [unfolded x]]
      have "shown \<lparr>cr_ether = e, cr_dport = port, cr_byte_scale = ByteCost src, cr_packet_scale = PacketCost src,
             cr_syn_scale = SynCost src, cr_proto = p, cr_byte_tb = ucast (ByteMeter src),
             cr_packet_tb = ucast (PacketMeter src), cr_syn_tb = ucast (SynMeter src)\<rparr>"
        using sh by (auto simp: shown_def meter_two_bits split: if_splits)
      then show ?thesis using Cons.prems False Some x r IH by (auto simp: Let_def)
    qed
  qed
qed simp

lemma RulesDownload_eq:
  assumes "user_rules d = Some rs"
  shows "RulesDownload d = (case download_rules rs of (ok, dst, rs') \<Rightarrow> Some (ok, dst, d\<lparr>Rules := rs'\<rparr>))"
  using assms by (simp add: RulesDownload_def user_rules_def split_def Let_def)

section \<open>Scrolling\<close>

lemma OnScroll_ok:
  assumes "dialog_ok d"
  shows "\<exists>d'. OnScroll msg d = Some d' \<and> dialog_ok d' \<and> user_rules d' = user_rules d"
  using Scroll_ok [OF assms] assms by (cases msg) (auto simp: OnScroll_def Let_def)

definition scroll_one :: "dialog \<Rightarrow> scroll_msg \<Rightarrow> dialog option" where
  "scroll_one d msg = OnScroll msg d"

lemma scrolls_ok:
  "dialog_ok d \<Longrightarrow> \<exists>d'. fold_opt scroll_one d msgs = Some d' \<and> dialog_ok d' \<and> user_rules d' = user_rules d"
proof (induction msgs arbitrary: d)
  case (Cons msg msgs)
  obtain d1 where d1: "OnScroll msg d = Some d1" "dialog_ok d1" "user_rules d1 = user_rules d"
    using OnScroll_ok [OF Cons.prems, of msg] by blast
  then show ?case using Cons.IH [OF d1(2)] by (simp add: scroll_one_def)
qed simp

end
