(* ===== verification/Config_Tool.thy ===== *)
theory Config_Tool
  imports Dialog_Rules Config_Load
begin

text \<open>
  \<open>SaveNtfeConfiguration\<close> and \<open>LoadNtfeConfiguration\<close> of \<open>ntfw/ntfw.cpp\<close>: the rules of the dialog become
  an image on disk and back. The search for a seed, the user's answers and the file are arguments. The
  lemmas read an image back field by field.
\<close>

section \<open>Writing an image\<close>

definition le16_bytes :: "u16 \<Rightarrow> u8 list" where
  "le16_bytes x = [ucast x, ucast (drop_bit 8 x)]"

definition le32_bytes :: "u32 \<Rightarrow> u8 list" where
  "le32_bytes x = le16_bytes (ucast x) @ le16_bytes (ucast (drop_bit 16 x))"

text \<open>The fields of \<open>ntfe_rule\<close> and of \<open>ntfe_config\<close> in memory; everything else is zero.\<close>

definition rule_bytes :: "cfg_rule \<Rightarrow> u8 list" where
  "rule_bytes rl = le16_bytes (cr_ether rl) @ le16_bytes (cr_dport rl) @ le16_bytes (cr_byte_scale rl) @
     le16_bytes (cr_packet_scale rl) @ le16_bytes (cr_syn_scale rl) @
     [cr_proto rl, cr_byte_tb rl, cr_packet_tb rl, cr_syn_tb rl] @ replicate 12 0"

definition config_image :: "cfg_rule list \<Rightarrow> u32 \<Rightarrow> u32 \<Rightarrow> u8 list" where
  "config_image rules seed hashsz =
     le32_bytes 0 @ le16_bytes NTFE_CFG_VERSION @
     le16_bytes (of_nat sizeof_ntfe_config + of_nat (length rules) * of_nat sizeof_ntfe_rule) @
     replicate 72 0 @ le32_bytes seed @ le32_bytes hashsz @ le32_bytes (of_nat (length rules)) @
     le32_bytes 0 @ le32_bytes 0 @ concat (map rule_bytes rules)"

text \<open>
  \<open>SaveNtfeConfiguration\<close>. \<open>find_magic\<close> is the search; the two answers are to the warnings about no rules
  and about ARP; \<open>write_file\<close> gives, for the file's old content and the data, whether the write
  succeeded and the new content. What \<open>RulesDownload\<close> returns is not looked at.
\<close>

definition SaveNtfeConfiguration ::
  "(cfg_rule list \<Rightarrow> (u32 \<times> u32) option) \<Rightarrow> bool \<Rightarrow> bool \<Rightarrow> (u8 list \<Rightarrow> u8 list \<Rightarrow> bool \<times> u8 list) \<Rightarrow>
     dialog \<Rightarrow> u8 list \<Rightarrow> (bool \<times> u8 list \<times> dialog) option" where
  "SaveNtfeConfiguration find_magic no_rules_ok no_arp_ok write_file d file = do {
     (_, rules, d1) \<leftarrow> RulesDownload d;
     if rules = [] \<and> \<not> no_rules_ok then Some (False, file, d1)
     else case (if rules = [] then Some (0, 0) else find_magic rules) of
       None \<Rightarrow> Some (False, file, d1)
     | Some (seed, hashsz) \<Rightarrow>
         if \<not> (\<exists>rl\<in>set rules. cr_ether rl = ETH_P_ARP) \<and> \<not> no_arp_ok then Some (False, file, d1)
         else (case write_file file (config_image rules seed hashsz) of
                (ok, file') \<Rightarrow> Some (ok, file', d1)) }"

section \<open>Reading an image\<close>

definition MAX_CFG_BUFFER :: nat where "MAX_CFG_BUFFER = 0x4000"

fun read_rules :: "u8 list \<Rightarrow> nat \<Rightarrow> nat \<Rightarrow> cfg_rule list option" where
  "read_rules m p 0 = Some []"
| "read_rules m p (Suc n) = do {
     rl \<leftarrow> rule_at m p;
     rls \<leftarrow> read_rules m (p + sizeof_ntfe_rule) n;
     Some (rl # rls) }"

text \<open>\<open>LoadNtfeConfiguration\<close>: the file is read into a zeroed buffer and taken as it is.\<close>

definition LoadNtfeConfiguration :: "u8 list \<Rightarrow> dialog option" where
  "LoadNtfeConfiguration file = do {
     let data = take MAX_CFG_BUFFER file @ replicate (MAX_CFG_BUFFER - length file) 0;
     n \<leftarrow> cfg_rule_count data;
     rules \<leftarrow> read_rules data sizeof_ntfe_config (unat n);
     RulesUpload rules }"

section \<open>Fields read back\<close>

lemma le16_length [simp]: "length (le16_bytes x) = 2" by (simp add: le16_bytes_def)
lemma le32_length [simp]: "length (le32_bytes x) = 4" by (simp add: le32_bytes_def)
lemma rule_length [simp]: "length (rule_bytes rl) = 26" by (simp add: rule_bytes_def)

lemma rules_length [simp]: "length (concat (map rule_bytes rls)) = 26 * length rls"
  by (induction rls) simp_all

lemma rd8_prefix: "length pre = p \<Longrightarrow> rd8 (pre @ x # post) p = Some x"
  by (auto simp: rd8_def)

lemma rd16_prefix: "length pre = p \<Longrightarrow> rd16 (pre @ le16_bytes x @ post) p = Some x"
proof -
  assume p: "length pre = p"
  have "rd8 (pre @ le16_bytes x @ post) p = Some (ucast x)"
    using p by (simp add: le16_bytes_def rd8_prefix)
  moreover have "rd8 ((pre @ [ucast x]) @ ucast (drop_bit 8 x) # post) (p + 1) = Some (ucast (drop_bit 8 x))"
    using p by (intro rd8_prefix) simp
  then have "rd8 (pre @ le16_bytes x @ post) (p + 1) = Some (ucast (drop_bit 8 x))"
    by (simp add: le16_bytes_def)
  moreover have "ucast (ucast x :: u8) OR push_bit 8 (ucast (ucast (drop_bit 8 x) :: u8)) = x"
    by (rule bit_word_eqI) (auto simp: bit_simps)
  ultimately show ?thesis by (simp add: rd16_def)
qed

lemma rd32_prefix: "length pre = p \<Longrightarrow> rd32 (pre @ le32_bytes x @ post) p = Some x"
proof -
  assume p: "length pre = p"
  have "rd16 (pre @ le32_bytes x @ post) p = Some (ucast x)"
    using rd16_prefix [OF p, of "ucast x" "le16_bytes (ucast (drop_bit 16 x)) @ post"] by (simp add: le32_bytes_def)
  moreover have "rd16 (pre @ le32_bytes x @ post) (p + 2) = Some (ucast (drop_bit 16 x))"
    using p rd16_prefix [of "pre @ le16_bytes (ucast x)" "p + 2" "ucast (drop_bit 16 x)" post]
    by (simp add: le32_bytes_def)
  moreover have "ucast (ucast x :: u16) OR push_bit 16 (ucast (ucast (drop_bit 16 x) :: u16)) = x"
    by (rule bit_word_eqI) (auto simp: bit_simps)
  ultimately show ?thesis by (simp add: rd32_def)
qed

text \<open>A field at a known distance behind a prefix.\<close>

lemma rd16_behind: "m = pre @ le16_bytes x @ post \<Longrightarrow> length pre = p \<Longrightarrow> rd16 m p = Some x"
  by (simp add: rd16_prefix)

lemma rd32_behind: "m = pre @ le32_bytes x @ post \<Longrightarrow> length pre = p \<Longrightarrow> rd32 m p = Some x"
  by (simp add: rd32_prefix)

lemma rd8_behind: "m = pre @ x # post \<Longrightarrow> length pre = p \<Longrightarrow> rd8 m p = Some x"
  by (simp add: rd8_prefix)

lemma rule_at_prefix:
  assumes "length pre = p"
  shows "rule_at (pre @ rule_bytes rl @ post) p = Some rl"
proof -
  let ?m = "pre @ rule_bytes rl @ post"
  let ?e = "le16_bytes (cr_ether rl)" and ?d = "le16_bytes (cr_dport rl)" and ?b = "le16_bytes (cr_byte_scale rl)"
    and ?k = "le16_bytes (cr_packet_scale rl)" and ?s = "le16_bytes (cr_syn_scale rl)"
  have "rd16 ?m p = Some (cr_ether rl)"
    by (rule rd16_behind [where pre = pre]) (simp_all add: assms rule_bytes_def)
  moreover have "rd16 ?m (p + 2) = Some (cr_dport rl)"
    by (rule rd16_behind [where pre = "pre @ ?e"]) (simp_all add: assms rule_bytes_def)
  moreover have "rd16 ?m (p + 4) = Some (cr_byte_scale rl)"
    by (rule rd16_behind [where pre = "pre @ ?e @ ?d"]) (simp_all add: assms rule_bytes_def)
  moreover have "rd16 ?m (p + 6) = Some (cr_packet_scale rl)"
    by (rule rd16_behind [where pre = "pre @ ?e @ ?d @ ?b"]) (simp_all add: assms rule_bytes_def)
  moreover have "rd16 ?m (p + 8) = Some (cr_syn_scale rl)"
    by (rule rd16_behind [where pre = "pre @ ?e @ ?d @ ?b @ ?k"]) (simp_all add: assms rule_bytes_def)
  moreover have "rd8 ?m (p + 10) = Some (cr_proto rl)"
    by (rule rd8_behind [where pre = "pre @ ?e @ ?d @ ?b @ ?k @ ?s"]) (simp_all add: assms rule_bytes_def)
  moreover have "rd8 ?m (p + 11) = Some (cr_byte_tb rl)"
    by (rule rd8_behind [where pre = "pre @ ?e @ ?d @ ?b @ ?k @ ?s @ [cr_proto rl]"]) (simp_all add: assms rule_bytes_def)
  moreover have "rd8 ?m (p + 12) = Some (cr_packet_tb rl)"
    by (rule rd8_behind [where pre = "pre @ ?e @ ?d @ ?b @ ?k @ ?s @ [cr_proto rl, cr_byte_tb rl]"])
      (simp_all add: assms rule_bytes_def)
  moreover have "rd8 ?m (p + 13) = Some (cr_syn_tb rl)"
    by (rule rd8_behind [where pre = "pre @ ?e @ ?d @ ?b @ ?k @ ?s @ [cr_proto rl, cr_byte_tb rl, cr_packet_tb rl]"])
      (simp_all add: assms rule_bytes_def)
  ultimately show ?thesis by (simp add: rule_at_def)
qed

lemma rules_at_image:
  "length pre = p \<Longrightarrow> rules_at (pre @ concat (map rule_bytes rls) @ post) p (length rls) = rls \<and>
     read_rules (pre @ concat (map rule_bytes rls) @ post) p (length rls) = Some rls"
proof (induction rls arbitrary: pre p)
  case (Cons rl rls)
  have "rule_at (pre @ rule_bytes rl @ concat (map rule_bytes rls) @ post) p = Some rl"
    by (rule rule_at_prefix [OF Cons.prems])
  moreover have "length (pre @ rule_bytes rl) = p + 26" using Cons.prems by simp
  note Cons.IH [OF this]
  ultimately show ?case by (simp add: sizeof_ntfe_rule_def)
qed simp

lemma image_length [simp]: "length (config_image rls seed hashsz) = 100 + 26 * length rls"
  by (simp add: config_image_def)

text \<open>Every field of a written image, whatever follows it in the file.\<close>

lemma image_fields:
  assumes "length rls \<le> DLG_MAX_RULES" "m = config_image rls seed hashsz @ post"
  shows "cfg_reserved m = Some 0" "cfg_version m = Some NTFE_CFG_VERSION"
    "cfg_length m = Some (of_nat (100 + 26 * length rls))" "cfg_rule_seed m = Some seed"
    "cfg_rule_hashsz m = Some hashsz" "cfg_rule_count m = Some (of_nat (length rls))"
    "cfg_meter_count m = Some 0" "cfg_host_count m = Some 0"
proof -
  let ?len = "of_nat sizeof_ntfe_config + of_nat (length rls) * of_nat sizeof_ntfe_rule :: u16"
  let ?h1 = "le32_bytes 0" and ?h2 = "le32_bytes 0 @ le16_bytes NTFE_CFG_VERSION"
    and ?h3 = "le32_bytes 0 @ le16_bytes NTFE_CFG_VERSION @ le16_bytes ?len @ replicate 72 0"
  note d = config_image_def assms(2)
  show "cfg_reserved m = Some 0" unfolding cfg_reserved_def
    by (rule rd32_behind [where pre = "[]"]) (simp_all add: d)
  show "cfg_version m = Some NTFE_CFG_VERSION" unfolding cfg_version_def
    by (rule rd16_behind [where pre = ?h1]) (simp_all add: d)
  have "?len = of_nat (100 + 26 * length rls)" by (simp add: cfg_size_defs)
  moreover have "cfg_length m = Some ?len" unfolding cfg_length_def
    by (rule rd16_behind [where pre = ?h2]) (simp_all add: d)
  ultimately show "cfg_length m = Some (of_nat (100 + 26 * length rls))" by simp
  show "cfg_rule_seed m = Some seed" unfolding cfg_rule_seed_def
    by (rule rd32_behind [where pre = ?h3]) (simp_all add: d)
  show "cfg_rule_hashsz m = Some hashsz" unfolding cfg_rule_hashsz_def
    by (rule rd32_behind [where pre = "?h3 @ le32_bytes seed"]) (simp_all add: d)
  show "cfg_rule_count m = Some (of_nat (length rls))" unfolding cfg_rule_count_def
    by (rule rd32_behind [where pre = "?h3 @ le32_bytes seed @ le32_bytes hashsz"]) (simp_all add: d)
  show "cfg_meter_count m = Some 0" unfolding cfg_meter_count_def
    by (rule rd32_behind [where pre = "?h3 @ le32_bytes seed @ le32_bytes hashsz @ le32_bytes (of_nat (length rls))"])
      (simp_all add: d)
  show "cfg_host_count m = Some 0" unfolding cfg_host_count_def
    by (rule rd32_behind [where pre = "?h3 @ le32_bytes seed @ le32_bytes hashsz @ le32_bytes (of_nat (length rls)) @ le32_bytes 0"])
      (simp_all add: d)
qed

lemma image_summary:
  assumes "length rls \<le> DLG_MAX_RULES" "m = config_image rls seed hashsz @ post"
  shows "image_of m = \<lparr>im_seed = seed, im_hashsz = hashsz, im_rules = length rls, im_meters = 0, im_hosts = 0\<rparr>"
    "img_rules m = rls" "unat (the (cfg_length m)) = 100 + 26 * length rls"
    "read_rules m 100 (length rls) = Some rls"
proof -
  note f = image_fields [OF assms]
  have n: "unat (of_nat (length rls) :: u32) = length rls"
    using assms(1) by (simp add: unat_of_nat DLG_MAX_RULES_def)
  show i: "image_of m = \<lparr>im_seed = seed, im_hashsz = hashsz, im_rules = length rls, im_meters = 0, im_hosts = 0\<rparr>"
    by (simp add: image_of_def f n)
  let ?pre = "take 100 (config_image rls seed hashsz)"
  have "m = ?pre @ concat (map rule_bytes rls) @ post" "length ?pre = 100"
    by (simp_all add: assms(2) config_image_def)
  then have r: "rules_at m 100 (length rls) = rls" "read_rules m 100 (length rls) = Some rls"
    using rules_at_image by metis+
  show "img_rules m = rls" by (simp add: img_rules_def i r sizeof_ntfe_config_def)
  show "read_rules m 100 (length rls) = Some rls" by (rule r(2))
  have "100 + 26 * length rls < 65536" using assms(1) by (simp add: DLG_MAX_RULES_def)
  then show "unat (the (cfg_length m)) = 100 + 26 * length rls"
    by (simp only: f option.sel unat_of_nat) simp
qed

end
