(* ===== verification/Pool_Frames.thy ===== *)
theory Pool_Frames
  imports Pool_Limit Config_Tool
begin

text \<open>
  The end of the pool as a remote host can bring it about: frames of a flow that a rule polices, from
  sources the engine does not know.
\<close>

section \<open>One frame\<close>

lemma open_table_same: "host_tbl g' = host_tbl g \<Longrightarrow> open_table g' = open_table g"
  by (simp add: open_table_def)

lemma host_lookup_absent: "host_pri g a = None \<Longrightarrow> host_lookup g (host_fetch_bucket a) a = - 1"
  by (simp add: host_lookup_def host_pri_lane probe_lane probe_neg)

text \<open>A frame of a policed flow from an unknown source enters it, and faults when there is no room.\<close>

lemma rx_new_source:
  assumes "engine_inv g" "open_table g" "42 \<le> length f" "rx_classify f = Some (Flow sa sig)"
    and "live_rule g sig \<noteq> None" "host_pri g sa = None"
  shows "pool_room 0 g \<Longrightarrow> \<not> pool_room 1 g \<Longrightarrow> ntfe_rx e g f len = None"
    and "pool_room 1 g \<Longrightarrow> \<exists>v g'. ntfe_rx e g f len = Some (v, g') \<and> engine_inv g' \<and> open_table g' \<and>
      same_config g g' \<and> unat (hp_size g') = unat (hp_size g) + 1 \<and>
      (\<forall>b. b \<noteq> 0 \<longrightarrow> b \<noteq> sa \<longrightarrow> host_pri g b = None \<longrightarrow> host_pri g' b = None)"
proof -
  note inv = engine_invD [OF assms(1)]
  let ?bi = "host_fetch_bucket sa"
  obtain rl where rl: "live_rule g sig = Some rl" using assms(5) by auto
  have sa: "sa \<noteq> 0" using rx_classify_ok [OF assms(3)] assms(4) by (metis option.inject)
  have l: "lane (host_tbl g ?bi) sa = None" using assms(6) by (simp add: host_pri_lane)
  have look: "host_lookup g ?bi sa = - 1" by (rule host_lookup_absent [OF assms(6)])
  have auth: "\<not> auth_pri g sa" using assms(6) by (simp add: auth_pri_def)
  have run: "ntfe_rx e g f len = rx_police e g ?bi (- 1) sa rl len"
    using ntfe_rx_class [OF assms(3), of e g len] rl auth look
    by (simp add: assms(4) rule_lookup_ok [OF inv(3)] live_rule_def)
  have pool: "hpool g \<noteq> None" using pool_invD(1) [OF inv(2)] by auto
  note new = insert_new_open [OF inv(1,2) assms(2) l, of e]
  { assume "pool_room 0 g" "\<not> pool_room 1 g"
    then show "ntfe_rx e g f len = None" using new(1) pool by (simp add: run rx_police_def) }
  assume room: "pool_room 1 g"
  then obtain k g1 where k: "k < 8" and ins: "host_insert e g ?bi sa = Some (int k, g1)"
    and g1: "pool_inv g1" "open_table g1" "hp_size g1 = hp_size g + 1"
    using new(2) by blast
  obtain g1' where src: "enter_source e g sa = Some g1'" "table_ok g1'"
    and keep: "\<forall>b. b \<noteq> 0 \<longrightarrow> b \<noteq> sa \<longrightarrow> host_ptr g1' b = None \<or> host_ptr g1' b = host_ptr g b"
    using enter_source_open(2) [OF inv(1,2) assms(2) sa assms(6) room, of e] by blast
  have [simp]: "g1' = g1" using src(1) ins by (simp add: enter_source_def)
  have lck: "\<not> HTB_TEST_LOCK (host_tbl g ?bi)" by (rule bucket_okD(3) [OF table_okD [OF inv(1)]])
  have same1: "same_config g g1"
    using host_insert_total [OF inv(2) room lck, of e sa] ins grown_byD(2) by (metis option.inject prod.inject)
  have inv1: "engine_inv g1"
    using src(2) g1(1) inv(3) config_ok_same [OF same1] by (simp add: engine_inv_def)
  obtain v g2 where g2: "rx_police e g1 ?bi (int k) sa rl len = Some (v, g2)" "engine_inv g2" "same_config g1 g2"
      "hp_size g2 = hp_size g1" "host_tbl g2 = host_tbl g1"
    using police_ok [OF inv1 live_rule_meters [OF inv(3) rl] k] by metis
  have pool1: "hpool g1 \<noteq> None" using pool_invD(1) [OF g1(1)] by auto
  have "ntfe_rx e g f len = Some (v, g2)"
    unfolding run using rx_police_insert [OF pool _ ins pool1, of "- 1" rl len] g2(1) by simp
  moreover have "open_table g2" using g1(2) open_table_same [OF g2(5)] by simp
  moreover have "unat (hp_size g2) = unat (hp_size g) + 1"
    using room g1(3) g2(4) by (simp add: pool_room_iff unat_word_ariths)
  moreover have "host_pri g2 b = None" if "b \<noteq> 0" "b \<noteq> sa" "host_pri g b = None" for b
    using keep that host_pri_ptr [of g b] host_pri_ptr [of g1 b] host_tbl_same(2) [OF g2(5)] by auto
  ultimately show "\<exists>v g'. ntfe_rx e g f len = Some (v, g') \<and> engine_inv g' \<and> open_table g' \<and>
      same_config g g' \<and> unat (hp_size g') = unat (hp_size g) + 1 \<and>
      (\<forall>b. b \<noteq> 0 \<longrightarrow> b \<noteq> sa \<longrightarrow> host_pri g b = None \<longrightarrow> host_pri g' b = None)"
    using g2(2,3) same_config_trans [OF same1] by blast
qed

section \<open>Many frames\<close>

text \<open>The source of a frame of a flow, zero for another frame.\<close>

definition flow_source :: "u8 list \<Rightarrow> u32" where
  "flow_source f = (case rx_classify f of Some (Flow sa sig) \<Rightarrow> sa | _ \<Rightarrow> 0)"

text \<open>A frame of a flow that a rule polices, from a source that the engine does not know.\<close>

definition new_policed :: "gs \<Rightarrow> u8 list \<Rightarrow> bool" where
  "new_policed g f \<longleftrightarrow> 42 \<le> length f \<and> (case rx_classify f of
     Some (Flow sa sig) \<Rightarrow> live_rule g sig \<noteq> None \<and> host_pri g sa = None | _ \<Rightarrow> False)"

definition receive :: "env \<Rightarrow> gs \<Rightarrow> u8 list \<times> u16 \<Rightarrow> gs option" where
  "receive e g x = map_option snd (ntfe_rx e g (fst x) (snd x))"

lemma receive_frames:
  assumes "engine_inv g" "open_table g" "pool_room 0 g" "\<forall>x\<in>set xs. new_policed g (fst x)"
    and "distinct (map (flow_source \<circ> fst) xs)"
  shows "case fold_opt (receive e) g xs of None \<Rightarrow> \<not> pool_room (length xs) g
    | Some g' \<Rightarrow> pool_room (length xs) g \<and> unat (hp_size g') = unat (hp_size g) + length xs"
  using assms
proof (induction xs arbitrary: g)
  case (Cons x xs)
  obtain sa sig where f: "42 \<le> length (fst x)" "rx_classify (fst x) = Some (Flow sa sig)"
    "live_rule g sig \<noteq> None" "host_pri g sa = None"
    using Cons.prems(4) by (auto simp: new_policed_def split: option.splits rx_class.splits)
  note step = rx_new_source [OF Cons.prems(1,2) f, of e "snd x"]
  show ?case
  proof (cases "pool_room 1 g")
    case False
    then show ?thesis using step(1) [OF Cons.prems(3)] by (simp add: receive_def pool_room_iff)
  next
    case True
    then obtain v g1 where g1: "ntfe_rx e g (fst x) (snd x) = Some (v, g1)" "engine_inv g1" "open_table g1"
        "same_config g g1" "unat (hp_size g1) = unat (hp_size g) + 1"
        "\<forall>b. b \<noteq> 0 \<longrightarrow> b \<noteq> sa \<longrightarrow> host_pri g b = None \<longrightarrow> host_pri g1 b = None"
      using step(2) by blast
    have later: "new_policed g1 (fst y)" if "y \<in> set xs" for y
    proof -
      obtain sb sig' where y: "42 \<le> length (fst y)" "rx_classify (fst y) = Some (Flow sb sig')"
        "live_rule g sig' \<noteq> None" "host_pri g sb = None"
      proof -
        have "new_policed g (fst y)" using Cons.prems(4) \<open>y \<in> set xs\<close> by simp
        then show ?thesis using that by (auto simp: new_policed_def split: option.splits rx_class.splits)
      qed
      have "flow_source (fst x) \<noteq> flow_source (fst y)" using Cons.prems(5) \<open>y \<in> set xs\<close> by (auto simp: image_iff)
      then have "sb \<noteq> sa" using f(2) y(2) by (simp add: flow_source_def)
      moreover have "sb \<noteq> 0" using rx_classify_ok [OF y(1)] y(2) by (metis option.inject)
      ultimately show ?thesis using y g1(6) live_rule_same [OF g1(4)] by (simp add: new_policed_def)
    qed
    have r: "pool_room 0 g1" "pool_room (length xs) g1 \<longleftrightarrow> pool_room (length (x # xs)) g"
      using True g1(5) by (simp_all add: pool_room_iff)
    show ?thesis using Cons.IH [OF g1(2,3) r(1)] later Cons.prems(5) r(2) g1(1,5)
      by (auto simp: receive_def split: option.splits)
  qed
qed (simp add: pool_room_iff)

text \<open>
  C15: Frames alone bring the engine down: with no host authorised, frames of policed flows from distinct
  unknown sources are received exactly as long as their number, with the hosts entered before, stays 32 below
  the 2^21 entries of the pool, accepted or not and however many sources are evicted on the way; the next
  one makes the engine commit memory beyond its region. The source addresses may be spoofed.
\<close>

theorem spoofed_frames_exhaust_pool:
  assumes "engine_inv g" "open_table g" "pool_room 0 g" "\<forall>x\<in>set xs. new_policed g (fst x)"
    and "distinct (map (flow_source \<circ> fst) xs)"
  shows "(fold_opt (receive e) g xs = None \<longleftrightarrow> HPOOL_SIZE \<le> uint (hp_size g) + int (length xs) + 32) \<and>
    (\<forall>g'. fold_opt (receive e) g xs = Some g' \<longrightarrow> unat (hp_size g') = unat (hp_size g) + length xs)"
  using receive_frames [OF assms, of e] by (auto simp: pool_room_def split: option.splits)

text \<open>A DNS request from any source.\<close>

definition spoofed_frame :: "u32 \<Rightarrow> u8 list" where
  "spoofed_frame a = demo_frame (le32_bytes a) [10, 0, 0, 2] [0, 53]"

lemma spoofed_fields:
  "length (spoofed_frame a) = 64" "eth_proto (spoofed_frame a) = Some 8" "ip_proto (spoofed_frame a) = Some 17"
  "l4_dport (spoofed_frame a) = Some 0x3500" "ip_ihl (spoofed_frame a) = Some 5"
  "ip_frag_off (spoofed_frame a) = Some 0" "ip_saddr (spoofed_frame a) = Some a"
proof -
  have "spoofed_frame a = (replicate 12 0 @ [8, 0] @ [0x45, 0, 0, 50, 0, 0, 0, 0, 64, 17, 0, 0]) @ le32_bytes a @
      ([10, 0, 0, 2] @ [0x30, 0x39] @ [0, 53] @ [0, 30, 0, 0] @ replicate 22 0)"
    by (simp add: spoofed_frame_def demo_frame_def)
  then show "ip_saddr (spoofed_frame a) = Some a"
    unfolding ip_saddr_def by (rule rd32_behind) (simp add: ip_at_def sizeof_eth_hdr_def)
qed (simp_all add: spoofed_frame_def demo_frame_def le32_bytes_def le16_bytes_def eth_proto_def ip_proto_def
    l4_dport_def ip_ihl_def ip_frag_off_def l4_at_def ip_at_def sizeof_eth_hdr_def sizeof_ip_hdr_def rd16_def
    rd8_def nth_append)

lemma spoofed_class: "a \<noteq> 0 \<Longrightarrow> rx_classify (spoofed_frame a) = Some (Flow a (cfg_sig demo_rule))"
proof -
  assume a: "a \<noteq> 0"
  have "rx_classify dns_frame = Some (Flow 0x0100000A (cfg_sig demo_rule))" by (rule demo_classes)
  then have "\<exists>sig. sig = cfg_sig demo_rule \<and> rx_classify dns_frame = Some (Flow 0x0100000A sig)" by blast
  with a show ?thesis by (auto simp: rx_classify_def spoofed_fields demo_frames split: if_splits)
qed

theorem spoofed_frames_exhaust_pool_witness:
  "fold_opt (receive demo_env) demo_gs (map (\<lambda>a. (spoofed_frame a, 64)) (spoofed 2097120)) = None \<and>
   fold_opt (receive demo_env) demo_gs (map (\<lambda>a. (spoofed_frame a, 64)) (spoofed 2097119)) \<noteq> None"
proof -
  let ?xs = "\<lambda>n. map (\<lambda>a. (spoofed_frame a, 64 :: u16)) (spoofed n)"
  have r: "pool_room 0 demo_gs" by (simp add: pool_room_iff demo_gs_fields)
  have "host_tbl demo_gs = host_tbl ready_gs" by (simp add: demo_gs_fields ready_fields)
  then have o: "open_table demo_gs" "host_pri demo_gs a = None \<or> a = 0" for a
    using ready_open(3,4) open_table_same host_tbl_same(2) by metis+
  have "fold_opt (receive demo_env) demo_gs (?xs n) = None \<longleftrightarrow> HPOOL_SIZE \<le> int n + 32" if "n < 4294967296" for n
  proof -
    note d = spoofed_distinct [OF that]
    have src: "flow_source (spoofed_frame a) = a" if "a \<in> set (spoofed n)" for a
    proof -
      have "a \<noteq> 0" using d that by auto
      then show ?thesis by (simp add: flow_source_def spoofed_class)
    qed
    then have "map (flow_source \<circ> fst) (?xs n) = spoofed n" by (simp add: map_idI)
    then have "distinct (map (flow_source \<circ> fst) (?xs n))" using d by simp
    moreover have "new_policed demo_gs (spoofed_frame a)" if "a \<in> set (spoofed n)" for a
    proof -
      have "a \<noteq> 0" using d that by auto
      then show ?thesis using o(2) [of a] by (simp add: new_policed_def spoofed_fields spoofed_class demo_live)
    qed
    then have "\<forall>x\<in>set (?xs n). new_policed demo_gs (fst x)" by auto
    ultimately show ?thesis
      using spoofed_frames_exhaust_pool [OF demo_inv o(1) r, of "?xs n" demo_env]
      by (simp add: demo_gs_fields spoofed_length)
  qed
  then show ?thesis by (simp add: HPOOL_SIZE_lanes(2))
qed

end
