(* ===== verification/Kernel_Region.thy ===== *)
theory Kernel_Region
  imports Engine_State
begin

text \<open>
  The region of \<open>ntfwkm/eal.cpp\<close> that holds the engine's pool: \<open>RegionAllocate\<close>, \<open>RegionCommit\<close> and
  \<open>RegionFree\<close>, on what the memory manager keeps of it. Sizes are in pages; one growth of the pool is a page.
\<close>

section \<open>State and operations\<close>

text \<open>
  Whether the address space is reserved, the physical page behind each page of it, the physical pages that
  were allocated and not freed, and the descriptors that exist.
\<close>

record region =
  reserved :: bool
  ptes :: "nat \<Rightarrow> nat option"
  frames :: "nat list"
  mdls :: nat

definition no_region :: region where
  "no_region = \<lparr>reserved = False, ptes = (\<lambda>_. None), frames = [], mdls = 0\<rparr>"

definition RegionAllocate :: "bool \<Rightarrow> region \<Rightarrow> bool \<times> region" where
  "RegionAllocate space r = (if space then (True, r\<lparr>reserved := True\<rparr>) else (False, r))"

definition map_pages :: "nat \<Rightarrow> nat list \<Rightarrow> (nat \<Rightarrow> nat option) \<Rightarrow> nat \<Rightarrow> nat option" where
  "map_pages base fs m = (\<lambda>p. if base \<le> p \<and> p < base + length fs then Some (fs ! (p - base)) else m p)"

text \<open>
  \<open>alloc\<close>: what \<open>MmAllocatePagesForMdlEx\<close> gives, NULL or a descriptor of physical pages. Its result is
  mapped, and the descriptor freed with \<open>ExFreePool\<close>, which leaves the pages allocated.
\<close>

definition RegionCommit :: "nat \<Rightarrow> nat list option \<Rightarrow> region \<Rightarrow> bool \<times> region" where
  "RegionCommit base alloc r = (case alloc of
     None \<Rightarrow> (False, r)
   | Some fs \<Rightarrow>
       let r1 = r\<lparr>frames := fs @ frames r, mdls := mdls r + 1\<rparr>;
           r2 = r1\<lparr>ptes := map_pages base fs (ptes r1)\<rparr>
       in (True, r2\<lparr>mdls := mdls r2 - 1\<rparr>))"

text \<open>\<open>mdl\<close>: whether \<open>IoAllocateMdl\<close> succeeds. Unmapping clears the translations of the pages described.\<close>

definition RegionFree :: "nat \<Rightarrow> nat \<Rightarrow> bool \<Rightarrow> region \<Rightarrow> bool \<times> region" where
  "RegionFree base pages mdl r =
     (if 0 < pages then
        if \<not> mdl then (False, r)
        else let r1 = r\<lparr>mdls := mdls r + 1\<rparr>;
                 r2 = r1\<lparr>ptes := (\<lambda>p. if base \<le> p \<and> p < base + pages then None else ptes r1 p)\<rparr>;
                 r3 = r2\<lparr>mdls := mdls r2 - 1\<rparr>
             in (True, r3\<lparr>reserved := False\<rparr>)
      else (True, r\<lparr>reserved := False\<rparr>))"

section \<open>The life of a region\<close>

text \<open>Commits of one page each, from page \<open>k\<close> on.\<close>

fun commit_pages :: "nat \<Rightarrow> nat list \<Rightarrow> region \<Rightarrow> region" where
  "commit_pages k [] r = r"
| "commit_pages k (f # fs) r = commit_pages (k + 1) fs (snd (RegionCommit k (Some [f]) r))"

lemma map_no_pages [simp]: "map_pages k [] m = m"
  by (auto simp: map_pages_def fun_eq_iff)

lemma commit_pages_eq:
  "commit_pages k fs r = r\<lparr>ptes := map_pages k fs (ptes r), frames := rev fs @ frames r\<rparr>"
proof (induction fs arbitrary: k r)
  case (Cons f fs)
  have "map_pages (k + 1) fs (map_pages k [f] m) = map_pages k (f # fs) m" for m
    by (auto simp: map_pages_def fun_eq_iff nth_Cons')
  then show ?case by (simp add: Cons.IH RegionCommit_def Let_def)
qed simp

text \<open>
  Commits that succeed back the pages of the region one after the other; releasing the region leaves no
  translation, no reservation and no descriptor, but every physical page stays allocated.
\<close>

theorem region_life:
  assumes "r = commit_pages 0 fs (snd (RegionAllocate True no_region))" "RegionFree 0 (length fs) True r = (ok, r')"
  shows "(\<forall>p. ptes r p = (if p < length fs then Some (fs ! p) else None)) \<and> mdls r = 0 \<and>
    ok \<and> r' = no_region\<lparr>frames := rev fs\<rparr>"
  using assms(2)
  by (auto simp: assms(1) commit_pages_eq RegionAllocate_def RegionFree_def no_region_def map_pages_def Let_def
      fun_eq_iff split: if_splits)

theorem region_life_witness:
  "RegionFree 0 2 True (commit_pages 0 [70, 71] (snd (RegionAllocate True no_region))) =
     (True, no_region\<lparr>frames := [71, 70]\<rparr>)"
proof -
  obtain ok r' where f: "RegionFree 0 (length [70, 71 :: nat]) True
      (commit_pages 0 [70, 71] (snd (RegionAllocate True no_region))) = (ok, r')"
    by (metis prod.exhaust)
  from region_life [OF refl this] f show ?thesis by (simp add: numeral_2_eq_2)
qed

text \<open>A commit that gets fewer pages than it asked for reports success and leaves the rest without memory.\<close>

theorem short_commit_succeeds:
  "\<exists>r'. RegionCommit base (Some fs) r = (True, r') \<and> (\<forall>p. base + length fs \<le> p \<longrightarrow> ptes r' p = ptes r p)"
  by (simp add: RegionCommit_def map_pages_def Let_def)

end
