(* ===== verification/Ed_Int.thy ===== *)
theory Ed_Int
  imports Ntfw_Prelude
begin

text \<open>
  The machine integers of \<open>ntfe/ed25519\<close>: \<open>int32_t\<close> and \<open>int64_t\<close> as words, read with \<open>sint\<close>, their
  casts and shifts, and the facts that let a chain of such operations be read as arithmetic on
  integers when no intermediate result leaves the range of its type.
\<close>

type_synonym i32 = "32 word"
type_synonym i64 = "64 word"

text \<open>\<open>(int64_t) x\<close>, \<open>(int32_t) x\<close>, and the arithmetic right shift.\<close>

definition sx :: "i32 \<Rightarrow> i64" where "sx x = scast x"
definition lo32 :: "i64 \<Rightarrow> i32" where "lo32 x = ucast x"
definition sar :: "'a::len word \<Rightarrow> nat \<Rightarrow> 'a word" where "sar x n = signed_drop_bit n x"

declare sx_def [ntfw_eval] lo32_def [ntfw_eval] sar_def [ntfw_eval]

text \<open>The values of the two types.\<close>

definition in32 :: "int \<Rightarrow> bool" where "in32 v \<longleftrightarrow> - (2 ^ 31) \<le> v \<and> v < 2 ^ 31"
definition in64 :: "int \<Rightarrow> bool" where "in64 v \<longleftrightarrow> - (2 ^ 63) \<le> v \<and> v < 2 ^ 63"

lemma sint_of_int32: "in32 v \<Longrightarrow> sint (of_int v :: i32) = v"
  by (simp add: in32_def sint_sbintrunc' signed_take_bit_int_eq_self)

lemma sint_of_int64: "in64 v \<Longrightarrow> sint (of_int v :: i64) = v"
  by (simp add: in64_def sint_sbintrunc' signed_take_bit_int_eq_self)

lemma of_int_sint32 [simp]: "(of_int (sint (x :: i32)) :: i32) = x"
  by simp

lemma sx_eq: "sx x = of_int (sint x)"
  by (simp add: sx_def)

lemma sx_of_int: "in32 v \<Longrightarrow> sx (of_int v) = of_int v"
  by (simp only: sx_eq sint_of_int32)

lemma lo32_of_int: "lo32 (of_int v) = of_int v"
  unfolding lo32_def by (rule bit_word_eqI) (auto simp: bit_simps)

lemma sint_sar: "sint (sar x n) = sint x div 2 ^ n"
  by (simp add: sar_def sint_signed_drop_bit_eq drop_bit_eq_div)

lemma word_sint: "(x :: 'a::len word) = of_int v" if "sint x = v"
  using that by auto

lemma sar_of_int64: "in64 v \<Longrightarrow> sar (of_int v :: i64) n = of_int (v div 2 ^ n)"
  by (rule word_sint) (simp only: sint_sar sint_of_int64)

lemma sar_of_int32: "in32 v \<Longrightarrow> sar (of_int v :: i32) n = of_int (v div 2 ^ n)"
  by (rule word_sint) (simp only: sint_sar sint_of_int32)

lemma shl_of_int: "push_bit n (of_int v :: 'a::len word) = of_int (v * 2 ^ n)"
  by (simp add: push_bit_eq_mult)

text \<open>Sizes of products and sums.\<close>

lemma abs_prod_le: "\<bar>a :: int\<bar> \<le> A \<Longrightarrow> \<bar>b\<bar> \<le> B \<Longrightarrow> \<bar>a * b\<bar> \<le> A * B"
  by (simp add: abs_mult mult_mono')

lemma in64_abs: "\<bar>v\<bar> < 2 ^ 63 \<Longrightarrow> in64 v"
  by (auto simp: in64_def)

lemma in32_abs: "\<bar>v\<bar> < 2 ^ 31 \<Longrightarrow> in32 v"
  by (auto simp: in32_def)

lemma abs_div_le:
  fixes x b k :: int
  assumes "\<bar>x\<bar> \<le> b * k" "0 < k"
  shows "\<bar>x div k\<bar> \<le> b"
proof -
  have x: "- b * k \<le> x" "x \<le> b * k" using assms(1) by auto
  show ?thesis
    using zdiv_mono1 [OF x(1) assms(2)] zdiv_mono1 [OF x(2) assms(2)] assms(2)
    by (simp del: minus_mult_left mult_minus_left)
qed

text \<open>Sizes of the quotient and the rest of a carry that rounds, and of one that does not.\<close>

lemma round_quotient:
  fixes x b h :: int
  assumes "\<bar>x\<bar> \<le> b" "0 < h"
  shows "\<bar>(x + h) div (2 * h)\<bar> \<le> b div (2 * h) + 1" "\<bar>x - (x + h) div (2 * h) * (2 * h)\<bar> \<le> h"
proof -
  have x: "x \<le> b" "- b \<le> x" using assms(1) by auto
  show "\<bar>x - (x + h) div (2 * h) * (2 * h)\<bar> \<le> h"
    using pos_mod_bound [of "2 * h" "x + h"] pos_mod_sign [of "2 * h" "x + h"] assms(2)
      div_mult_mod_eq [of "x + h" "2 * h"] by linarith
  have "(x + h) div (2 * h) \<le> (b + 2 * h) div (2 * h)"
    using x assms(2) by (intro zdiv_mono1) auto
  moreover have "(b + 2 * h) div (2 * h) = b div (2 * h) + 1"
    using div_add_self2 [of "2 * h" b] assms(2) by simp
  moreover have "- (b div (2 * h) + 1) \<le> (x + h) div (2 * h)"
  proof -
    have "b < (b div (2 * h) + 1) * (2 * h)"
      using pos_mod_bound [of "2 * h" b] assms(2) div_mult_mod_eq [of b "2 * h"]
      unfolding distrib_right by linarith
    then have "- (b div (2 * h) + 1) * (2 * h) \<le> x + h"
      using x assms(2) by (simp add: algebra_simps)
    then have "- (b div (2 * h) + 1) * (2 * h) div (2 * h) \<le> (x + h) div (2 * h)"
      using assms(2) by (intro zdiv_mono1) auto
    then show ?thesis using assms(2) by simp
  qed
  ultimately show "\<bar>(x + h) div (2 * h)\<bar> \<le> b div (2 * h) + 1" by (simp add: abs_le_iff)
qed

lemma carry_quotient:
  fixes x b :: int
  assumes "\<bar>x\<bar> \<le> b" "0 < k"
  shows "\<bar>(x + 2 ^ (k - 1)) div 2 ^ k\<bar> \<le> b div 2 ^ k + 1"
    "\<bar>x - (x + 2 ^ (k - 1)) div 2 ^ k * 2 ^ k\<bar> \<le> 2 ^ (k - 1)"
proof -
  have "(2 :: int) ^ k = 2 * 2 ^ (k - 1)" using assms(2) by (simp flip: power_Suc)
  with round_quotient [OF assms(1), of "2 ^ (k - 1)"]
  show "\<bar>(x + 2 ^ (k - 1)) div 2 ^ k\<bar> \<le> b div 2 ^ k + 1"
    "\<bar>x - (x + 2 ^ (k - 1)) div 2 ^ k * 2 ^ k\<bar> \<le> 2 ^ (k - 1)" by simp_all
qed

lemma floor_quotient:
  fixes x b k :: int
  assumes "\<bar>x\<bar> \<le> b" "0 < k"
  shows "\<bar>x div k\<bar> \<le> b div k + 1"
proof (rule abs_div_le [OF _ assms(2)])
  have "b < (b div k + 1) * k"
    using pos_mod_bound [OF assms(2), of b] div_mult_mod_eq [of b k] unfolding distrib_right by linarith
  then show "\<bar>x\<bar> \<le> (b div k + 1) * k" using assms(1) by simp
qed

end
