(* ===== verification/Field_Limbs.thy ===== *)
theory Field_Limbs
  imports Ed_Int
begin

text \<open>
  Field elements modulo \<open>2^255 - 19\<close> in ten limbs of alternately 26 and 25 bits, the representation
  of \<open>ntfe/ed25519/fe.c\<close>, and the rounding carries that its products, squares and conversions end
  with. A carry is three statements of the code; \<open>carries\<close> performs a list of them in order. The
  same carries on integers are exact, and a bound for each limb is carried along to show that the
  64-bit words never overflow.
\<close>

definition fe_p :: int where "fe_p = 2 ^ 255 - 19"

definition limb_bits :: "nat \<Rightarrow> nat" where "limb_bits i = (if even i then 26 else 25)"
definition limb_exp :: "nat \<Rightarrow> nat" where "limb_exp i = 25 * i + (i + 1) div 2"

definition carry_step :: "i64 list \<Rightarrow> nat \<Rightarrow> i64 list" where
  "carry_step h i =
     (let c = sar (h ! i + push_bit (limb_bits i - 1) 1) (limb_bits i);
          h1 = (if i = 9 then h[0 := h ! 0 + c * 19] else h[i + 1 := h ! (i + 1) + c])
      in h1[i := h1 ! i - push_bit (limb_bits i) c])"

definition carries :: "nat list \<Rightarrow> i64 list \<Rightarrow> i64 list" where
  "carries is h = foldl carry_step h is"

definition carry_int :: "int list \<Rightarrow> nat \<Rightarrow> int list" where
  "carry_int h i =
     (let c = (h ! i + 2 ^ (limb_bits i - 1)) div 2 ^ limb_bits i;
          h1 = (if i = 9 then h[0 := h ! 0 + c * 19] else h[i + 1 := h ! (i + 1) + c])
      in h1[i := h1 ! i - c * 2 ^ limb_bits i])"

definition carry_bnd :: "int list \<Rightarrow> nat \<Rightarrow> int list" where
  "carry_bnd b i =
     (let c = b ! i div 2 ^ limb_bits i + 1;
          b1 = (if i = 9 then b[0 := b ! 0 + c * 19] else b[i + 1 := b ! (i + 1) + c])
      in b1[i := 2 ^ (limb_bits i - 1)])"

definition fval :: "int list \<Rightarrow> int" where
  "fval h = (\<Sum>i<10. h ! i * 2 ^ limb_exp i)"

definition bounded :: "int list \<Rightarrow> int list \<Rightarrow> bool" where
  "bounded b h \<longleftrightarrow> length h = length b \<and> (\<forall>i < length b. \<bar>h ! i\<bar> \<le> b ! i)"

declare limb_bits_def [ntfw_eval] limb_exp_def [ntfw_eval] carry_step_def [ntfw_eval]
  carries_def [ntfw_eval]

lemma length10:
  assumes "length xs = 10"
  obtains a b c d e f g h i j where "xs = [a, b, c, d, e, f, g, h, i, j]"
  using assms that by (auto simp: length_Suc_conv eval_nat_numeral)

lemma less10: "i < 10 \<longleftrightarrow> i = 0 \<or> i = 1 \<or> i = 2 \<or> i = 3 \<or> i = 4 \<or> i = 5 \<or> i = 6 \<or> i = 7 \<or> i = 8 \<or> i = (9 :: nat)"
  by auto

lemma fval_list:
  "fval [a, b, c, d, e, f, g, h, i, j] =
     a + b * 2 ^ 26 + c * 2 ^ 51 + d * 2 ^ 77 + e * 2 ^ 102 + f * 2 ^ 128 + g * 2 ^ 153 + h * 2 ^ 179 +
     i * 2 ^ 204 + j * 2 ^ 230"
proof -
  have sum10: "(\<Sum>i<10. F i) = F 0 + F 1 + F 2 + F 3 + F 4 + F 5 + F 6 + F 7 + F 8 + F 9"
    for F :: "nat \<Rightarrow> int" by (simp add: eval_nat_numeral lessThan_Suc)
  show ?thesis unfolding fval_def sum10 by (simp add: limb_exp_def)
qed

lemma length_carry [simp]: "length (carry_int h i) = length h" "length (carry_bnd b i) = length b"
  by (simp_all add: carry_int_def carry_bnd_def Let_def)

text \<open>A carry moves a multiple of the limb's size to the next limb, or 19 times it around.\<close>

lemma fval_carry:
  assumes "length h = 10" "i < 10"
  shows "fval (carry_int h i) =
    fval h - (if i = 9 then (h ! 9 + 2 ^ 24) div 2 ^ 25 * fe_p else 0)"
proof -
  obtain a b c d e f g h' i' j where h: "h = [a, b, c, d, e, f, g, h', i', j]" by (rule length10 [OF assms(1)])
  show ?thesis using assms(2) unfolding less10 h
    by (elim disjE) (simp_all add: carry_int_def Let_def limb_bits_def fval_list fe_p_def algebra_simps)
qed

lemma limb_bits_pos: "0 < limb_bits i" "limb_bits i \<le> 26"
  by (simp_all add: limb_bits_def)

lemma bounded_carry:
  assumes "bounded b h" "length b = 10" "i < 10"
  shows "bounded (carry_bnd b i) (carry_int h i)"
proof -
  have len: "length h = 10" using assms by (simp add: bounded_def)
  let ?c = "(h ! i + 2 ^ (limb_bits i - 1)) div 2 ^ limb_bits i"
  have q: "\<bar>?c\<bar> \<le> b ! i div 2 ^ limb_bits i + 1"
    "\<bar>h ! i - ?c * 2 ^ limb_bits i\<bar> \<le> 2 ^ (limb_bits i - 1)"
    using carry_quotient [of "h ! i" "b ! i" "limb_bits i"] limb_bits_pos(1) assms
    by (simp_all add: bounded_def)
  have b: "\<bar>h ! j\<bar> \<le> b ! j" if "j < 10" for j using assms that by (simp add: bounded_def)
  have tri: "\<bar>x + y\<bar> \<le> A + B" if "\<bar>x\<bar> \<le> A" "\<bar>y\<bar> \<le> B" for x y A B :: int
    using that by linarith
  have q19: "\<bar>?c * 19\<bar> \<le> (b ! i div 2 ^ limb_bits i + 1) * 19"
    using q(1) by (simp add: abs_mult)
  show ?thesis
  proof (cases "i = 9")
    case True
    then show ?thesis using len assms(2) q tri [OF b q19] b
      by (auto simp: bounded_def carry_int_def carry_bnd_def Let_def nth_list_update)
  next
    case False
    then show ?thesis using len assms(2,3) q tri [OF b q(1)] b
      by (auto simp: bounded_def carry_int_def carry_bnd_def Let_def nth_list_update)
  qed
qed

text \<open>When the words hold the integers, and a carry cannot overflow.\<close>

definition carry_fits :: "int list \<Rightarrow> nat \<Rightarrow> bool" where
  "carry_fits b i \<longleftrightarrow> b ! i + 2 ^ 26 < 2 ^ 63"

lemma carry_step_of_int:
  assumes "bounded b h" "length b = 10" "i < 10" "carry_fits b i"
  shows "carry_step (map of_int h) i = map of_int (carry_int h i)"
proof -
  have len: "length h = 10" using assms by (simp add: bounded_def)
  let ?k = "limb_bits i"
  have "(2 :: int) ^ (?k - 1) \<le> 2 ^ 26"
    using limb_bits_pos(2) [of i] by (intro power_increasing) auto
  moreover have "\<bar>h ! i\<bar> \<le> b ! i" using assms by (simp add: bounded_def)
  ultimately have fit: "in64 (h ! i + 2 ^ (?k - 1))"
    using assms(4) zero_le_power [of "2 :: int" "?k - 1"]
    unfolding in64_def carry_fits_def by (simp only: abs_le_iff) linarith
  have c: "sar ((of_int (h ! i) :: i64) + push_bit (?k - 1) 1) ?k
      = of_int ((h ! i + 2 ^ (?k - 1)) div 2 ^ ?k)"
    using sar_of_int64 [OF fit, of ?k] by simp
  show ?thesis
    using len assms(3) c
    by (intro nth_equalityI)
      (auto simp: carry_step_def carry_int_def Let_def nth_list_update push_bit_eq_mult)
qed

text \<open>A sequence of carries: exact, congruent modulo the field's prime, within the bounds.\<close>

definition carries_int :: "nat list \<Rightarrow> int list \<Rightarrow> int list" where
  "carries_int is h = foldl carry_int h is"

definition carries_bnd :: "nat list \<Rightarrow> int list \<Rightarrow> int list" where
  "carries_bnd is b = foldl carry_bnd b is"

fun carries_fit :: "nat list \<Rightarrow> int list \<Rightarrow> bool" where
  "carries_fit [] b = True"
| "carries_fit (i # is) b = (i < 10 \<and> carry_fits b i \<and> carries_fit is (carry_bnd b i))"

lemma carries_exact:
  "bounded b h \<Longrightarrow> length b = 10 \<Longrightarrow> carries_fit is b \<Longrightarrow>
    carries is (map of_int h) = map of_int (carries_int is h) \<and>
    bounded (carries_bnd is b) (carries_int is h) \<and>
    fval (carries_int is h) mod fe_p = fval h mod fe_p"
proof (induction "is" arbitrary: b h)
  case (Cons i "is")
  have i: "i < 10" "carry_fits b i" "carries_fit is (carry_bnd b i)" using Cons.prems(3) by auto
  have len: "length h = 10" using Cons.prems by (simp add: bounded_def)
  have "fval (carry_int h i) mod fe_p = fval h mod fe_p"
    by (simp add: fval_carry [OF len i(1)] mod_diff_right_eq [symmetric])
  with Cons.IH [OF bounded_carry [OF Cons.prems(1,2) i(1)] _ i(3)] Cons.prems(2)
  show ?case
    by (simp add: carries_def carries_int_def carries_bnd_def
        carry_step_of_int [OF Cons.prems(1,2) i(1,2)])
qed (simp add: carries_def carries_int_def carries_bnd_def)

end
