(* ===== verification/Field_Element.thy ===== *)
theory Field_Element
  imports Field_Limbs
begin

text \<open>
  \<open>fe.c\<close>: arithmetic on field elements. An element is the array of ten \<open>int32_t\<close> limbs; every statement
  of the routines is kept at its width, the 64-bit products and sums included. The squares \<open>fe_sq\<close> and
  \<open>fe_sq2\<close> share their products in the source word for word. \<open>fe_ok\<close> are the sizes of limbs that the
  routines' comments ask for and promise, and the lemmas show that with operands of the sizes asked for
  nothing overflows and the result is the product, sum or square modulo \<open>2^255 - 19\<close>.
\<close>

type_synonym fe = "i32 list"

definition fe_0 :: fe where "fe_0 = [0, 0, 0, 0, 0, 0, 0, 0, 0, 0]"
definition fe_1 :: fe where "fe_1 = [1, 0, 0, 0, 0, 0, 0, 0, 0, 0]"

definition fe_copy :: "fe \<Rightarrow> fe" where "fe_copy f = map (\<lambda>i. f ! i) [0..<10]"
definition fe_add :: "fe \<Rightarrow> fe \<Rightarrow> fe" where "fe_add f g = map (\<lambda>i. f ! i + g ! i) [0..<10]"
definition fe_sub :: "fe \<Rightarrow> fe \<Rightarrow> fe" where "fe_sub f g = map (\<lambda>i. f ! i - g ! i) [0..<10]"
definition fe_neg :: "fe \<Rightarrow> fe" where "fe_neg f = map (\<lambda>i. - (f ! i)) [0..<10]"

text \<open>The conditional move and swap, with the mask \<open>- b\<close> of the source.\<close>

definition fe_cmov :: "fe \<Rightarrow> fe \<Rightarrow> i32 \<Rightarrow> fe" where
  "fe_cmov f g b = map (\<lambda>i. f ! i XOR ((f ! i XOR g ! i) AND (- b))) [0..<10]"

definition fe_cswap :: "fe \<Rightarrow> fe \<Rightarrow> i32 \<Rightarrow> fe \<times> fe" where
  "fe_cswap f g b =
     (let x = map (\<lambda>i. (f ! i XOR g ! i) AND (- b)) [0..<10]
      in (map (\<lambda>i. f ! i XOR x ! i) [0..<10], map (\<lambda>i. g ! i XOR x ! i) [0..<10]))"

text \<open>The order of the carries of the products, and of the conversions.\<close>

definition mul_carries :: "nat list" where "mul_carries = [0, 4, 1, 5, 2, 6, 3, 7, 4, 8, 9, 0]"
definition conv_carries :: "nat list" where "conv_carries = [9, 1, 3, 5, 7, 0, 2, 4, 6, 8]"

text \<open>The stores \<open>h[i] = (int32_t) hi\<close> that end a routine.\<close>

definition store_limbs :: "i64 list \<Rightarrow> fe" where "store_limbs h = map lo32 h"

definition fe_mul_products :: "fe \<Rightarrow> fe \<Rightarrow> i64 list" where
  "fe_mul_products f g =
     (let f0 = f ! 0; f1 = f ! 1; f2 = f ! 2; f3 = f ! 3; f4 = f ! 4; f5 = f ! 5; f6 = f ! 6; f7 = f ! 7;
          f8 = f ! 8; f9 = f ! 9; g0 = g ! 0; g1 = g ! 1; g2 = g ! 2; g3 = g ! 3; g4 = g ! 4; g5 = g ! 5;
          g6 = g ! 6; g7 = g ! 7; g8 = g ! 8; g9 = g ! 9; g1_19 = 19 * g1; g2_19 = 19 * g2;
          g3_19 = 19 * g3; g4_19 = 19 * g4; g5_19 = 19 * g5; g6_19 = 19 * g6; g7_19 = 19 * g7;
          g8_19 = 19 * g8; g9_19 = 19 * g9; f1_2 = 2 * f1; f3_2 = 2 * f3; f5_2 = 2 * f5; f7_2 = 2 * f7;
          f9_2 = 2 * f9; f0g0 = sx f0 * sx g0; f0g1 = sx f0 * sx g1; f0g2 = sx f0 * sx g2;
          f0g3 = sx f0 * sx g3; f0g4 = sx f0 * sx g4; f0g5 = sx f0 * sx g5; f0g6 = sx f0 * sx g6;
          f0g7 = sx f0 * sx g7; f0g8 = sx f0 * sx g8; f0g9 = sx f0 * sx g9; f1g0 = sx f1 * sx g0;
          f1g1_2 = sx f1_2 * sx g1; f1g2 = sx f1 * sx g2; f1g3_2 = sx f1_2 * sx g3; f1g4 = sx f1 * sx g4;
          f1g5_2 = sx f1_2 * sx g5; f1g6 = sx f1 * sx g6; f1g7_2 = sx f1_2 * sx g7; f1g8 = sx f1 * sx g8;
          f1g9_38 = sx f1_2 * sx g9_19; f2g0 = sx f2 * sx g0; f2g1 = sx f2 * sx g1; f2g2 = sx f2 * sx g2;
          f2g3 = sx f2 * sx g3; f2g4 = sx f2 * sx g4; f2g5 = sx f2 * sx g5; f2g6 = sx f2 * sx g6;
          f2g7 = sx f2 * sx g7; f2g8_19 = sx f2 * sx g8_19; f2g9_19 = sx f2 * sx g9_19;
          f3g0 = sx f3 * sx g0; f3g1_2 = sx f3_2 * sx g1; f3g2 = sx f3 * sx g2; f3g3_2 = sx f3_2 * sx g3;
          f3g4 = sx f3 * sx g4; f3g5_2 = sx f3_2 * sx g5; f3g6 = sx f3 * sx g6;
          f3g7_38 = sx f3_2 * sx g7_19; f3g8_19 = sx f3 * sx g8_19; f3g9_38 = sx f3_2 * sx g9_19;
          f4g0 = sx f4 * sx g0; f4g1 = sx f4 * sx g1; f4g2 = sx f4 * sx g2; f4g3 = sx f4 * sx g3;
          f4g4 = sx f4 * sx g4; f4g5 = sx f4 * sx g5; f4g6_19 = sx f4 * sx g6_19;
          f4g7_19 = sx f4 * sx g7_19; f4g8_19 = sx f4 * sx g8_19; f4g9_19 = sx f4 * sx g9_19;
          f5g0 = sx f5 * sx g0; f5g1_2 = sx f5_2 * sx g1; f5g2 = sx f5 * sx g2; f5g3_2 = sx f5_2 * sx g3;
          f5g4 = sx f5 * sx g4; f5g5_38 = sx f5_2 * sx g5_19; f5g6_19 = sx f5 * sx g6_19;
          f5g7_38 = sx f5_2 * sx g7_19; f5g8_19 = sx f5 * sx g8_19; f5g9_38 = sx f5_2 * sx g9_19;
          f6g0 = sx f6 * sx g0; f6g1 = sx f6 * sx g1; f6g2 = sx f6 * sx g2; f6g3 = sx f6 * sx g3;
          f6g4_19 = sx f6 * sx g4_19; f6g5_19 = sx f6 * sx g5_19; f6g6_19 = sx f6 * sx g6_19;
          f6g7_19 = sx f6 * sx g7_19; f6g8_19 = sx f6 * sx g8_19; f6g9_19 = sx f6 * sx g9_19;
          f7g0 = sx f7 * sx g0; f7g1_2 = sx f7_2 * sx g1; f7g2 = sx f7 * sx g2;
          f7g3_38 = sx f7_2 * sx g3_19; f7g4_19 = sx f7 * sx g4_19; f7g5_38 = sx f7_2 * sx g5_19;
          f7g6_19 = sx f7 * sx g6_19; f7g7_38 = sx f7_2 * sx g7_19; f7g8_19 = sx f7 * sx g8_19;
          f7g9_38 = sx f7_2 * sx g9_19; f8g0 = sx f8 * sx g0; f8g1 = sx f8 * sx g1;
          f8g2_19 = sx f8 * sx g2_19; f8g3_19 = sx f8 * sx g3_19; f8g4_19 = sx f8 * sx g4_19;
          f8g5_19 = sx f8 * sx g5_19; f8g6_19 = sx f8 * sx g6_19; f8g7_19 = sx f8 * sx g7_19;
          f8g8_19 = sx f8 * sx g8_19; f8g9_19 = sx f8 * sx g9_19; f9g0 = sx f9 * sx g0;
          f9g1_38 = sx f9_2 * sx g1_19; f9g2_19 = sx f9 * sx g2_19; f9g3_38 = sx f9_2 * sx g3_19;
          f9g4_19 = sx f9 * sx g4_19; f9g5_38 = sx f9_2 * sx g5_19; f9g6_19 = sx f9 * sx g6_19;
          f9g7_38 = sx f9_2 * sx g7_19; f9g8_19 = sx f9 * sx g8_19; f9g9_38 = sx f9_2 * sx g9_19;
          h0 = f0g0 + f1g9_38 + f2g8_19 + f3g7_38 + f4g6_19 + f5g5_38 + f6g4_19 + f7g3_38 + f8g2_19 + f9g1_38;
          h1 = f0g1 + f1g0 + f2g9_19 + f3g8_19 + f4g7_19 + f5g6_19 + f6g5_19 + f7g4_19 + f8g3_19 + f9g2_19;
          h2 = f0g2 + f1g1_2 + f2g0 + f3g9_38 + f4g8_19 + f5g7_38 + f6g6_19 + f7g5_38 + f8g4_19 + f9g3_38;
          h3 = f0g3 + f1g2 + f2g1 + f3g0 + f4g9_19 + f5g8_19 + f6g7_19 + f7g6_19 + f8g5_19 + f9g4_19;
          h4 = f0g4 + f1g3_2 + f2g2 + f3g1_2 + f4g0 + f5g9_38 + f6g8_19 + f7g7_38 + f8g6_19 + f9g5_38;
          h5 = f0g5 + f1g4 + f2g3 + f3g2 + f4g1 + f5g0 + f6g9_19 + f7g8_19 + f8g7_19 + f9g6_19;
          h6 = f0g6 + f1g5_2 + f2g4 + f3g3_2 + f4g2 + f5g1_2 + f6g0 + f7g9_38 + f8g8_19 + f9g7_38;
          h7 = f0g7 + f1g6 + f2g5 + f3g4 + f4g3 + f5g2 + f6g1 + f7g0 + f8g9_19 + f9g8_19;
          h8 = f0g8 + f1g7_2 + f2g6 + f3g5_2 + f4g4 + f5g3_2 + f6g2 + f7g1_2 + f8g0 + f9g9_38;
          h9 = f0g9 + f1g8 + f2g7 + f3g6 + f4g5 + f5g4 + f6g3 + f7g2 + f8g1 + f9g0
      in [h0, h1, h2, h3, h4, h5, h6, h7, h8, h9])"

definition fe_sq_products :: "fe \<Rightarrow> i64 list" where
  "fe_sq_products f =
     (let f0 = f ! 0; f1 = f ! 1; f2 = f ! 2; f3 = f ! 3; f4 = f ! 4; f5 = f ! 5; f6 = f ! 6; f7 = f ! 7;
          f8 = f ! 8; f9 = f ! 9; f0_2 = 2 * f0; f1_2 = 2 * f1; f2_2 = 2 * f2; f3_2 = 2 * f3;
          f4_2 = 2 * f4; f5_2 = 2 * f5; f6_2 = 2 * f6; f7_2 = 2 * f7; f5_38 = 38 * f5; f6_19 = 19 * f6;
          f7_38 = 38 * f7; f8_19 = 19 * f8; f9_38 = 38 * f9; f0f0 = sx f0 * sx f0;
          f0f1_2 = sx f0_2 * sx f1; f0f2_2 = sx f0_2 * sx f2; f0f3_2 = sx f0_2 * sx f3;
          f0f4_2 = sx f0_2 * sx f4; f0f5_2 = sx f0_2 * sx f5; f0f6_2 = sx f0_2 * sx f6;
          f0f7_2 = sx f0_2 * sx f7; f0f8_2 = sx f0_2 * sx f8; f0f9_2 = sx f0_2 * sx f9;
          f1f1_2 = sx f1_2 * sx f1; f1f2_2 = sx f1_2 * sx f2; f1f3_4 = sx f1_2 * sx f3_2;
          f1f4_2 = sx f1_2 * sx f4; f1f5_4 = sx f1_2 * sx f5_2; f1f6_2 = sx f1_2 * sx f6;
          f1f7_4 = sx f1_2 * sx f7_2; f1f8_2 = sx f1_2 * sx f8; f1f9_76 = sx f1_2 * sx f9_38;
          f2f2 = sx f2 * sx f2; f2f3_2 = sx f2_2 * sx f3; f2f4_2 = sx f2_2 * sx f4;
          f2f5_2 = sx f2_2 * sx f5; f2f6_2 = sx f2_2 * sx f6; f2f7_2 = sx f2_2 * sx f7;
          f2f8_38 = sx f2_2 * sx f8_19; f2f9_38 = sx f2 * sx f9_38; f3f3_2 = sx f3_2 * sx f3;
          f3f4_2 = sx f3_2 * sx f4; f3f5_4 = sx f3_2 * sx f5_2; f3f6_2 = sx f3_2 * sx f6;
          f3f7_76 = sx f3_2 * sx f7_38; f3f8_38 = sx f3_2 * sx f8_19; f3f9_76 = sx f3_2 * sx f9_38;
          f4f4 = sx f4 * sx f4; f4f5_2 = sx f4_2 * sx f5; f4f6_38 = sx f4_2 * sx f6_19;
          f4f7_38 = sx f4 * sx f7_38; f4f8_38 = sx f4_2 * sx f8_19; f4f9_38 = sx f4 * sx f9_38;
          f5f5_38 = sx f5 * sx f5_38; f5f6_38 = sx f5_2 * sx f6_19; f5f7_76 = sx f5_2 * sx f7_38;
          f5f8_38 = sx f5_2 * sx f8_19; f5f9_76 = sx f5_2 * sx f9_38; f6f6_19 = sx f6 * sx f6_19;
          f6f7_38 = sx f6 * sx f7_38; f6f8_38 = sx f6_2 * sx f8_19; f6f9_38 = sx f6 * sx f9_38;
          f7f7_38 = sx f7 * sx f7_38; f7f8_38 = sx f7_2 * sx f8_19; f7f9_76 = sx f7_2 * sx f9_38;
          f8f8_19 = sx f8 * sx f8_19; f8f9_38 = sx f8 * sx f9_38; f9f9_38 = sx f9 * sx f9_38;
          h0 = f0f0 + f1f9_76 + f2f8_38 + f3f7_76 + f4f6_38 + f5f5_38;
          h1 = f0f1_2 + f2f9_38 + f3f8_38 + f4f7_38 + f5f6_38;
          h2 = f0f2_2 + f1f1_2 + f3f9_76 + f4f8_38 + f5f7_76 + f6f6_19;
          h3 = f0f3_2 + f1f2_2 + f4f9_38 + f5f8_38 + f6f7_38;
          h4 = f0f4_2 + f1f3_4 + f2f2 + f5f9_76 + f6f8_38 + f7f7_38;
          h5 = f0f5_2 + f1f4_2 + f2f3_2 + f6f9_38 + f7f8_38;
          h6 = f0f6_2 + f1f5_4 + f2f4_2 + f3f3_2 + f7f9_76 + f8f8_19;
          h7 = f0f7_2 + f1f6_2 + f2f5_2 + f3f4_2 + f8f9_38;
          h8 = f0f8_2 + f1f7_4 + f2f6_2 + f3f5_4 + f4f4 + f9f9_38;
          h9 = f0f9_2 + f1f8_2 + f2f7_2 + f3f6_2 + f4f5_2
      in [h0, h1, h2, h3, h4, h5, h6, h7, h8, h9])"

definition fe_mul :: "fe \<Rightarrow> fe \<Rightarrow> fe" where
  "fe_mul f g = store_limbs (carries mul_carries (fe_mul_products f g))"

definition fe_sq :: "fe \<Rightarrow> fe" where
  "fe_sq f = store_limbs (carries mul_carries (fe_sq_products f))"

definition fe_sq2 :: "fe \<Rightarrow> fe" where
  "fe_sq2 f = store_limbs (carries mul_carries (map (\<lambda>h. h + h) (fe_sq_products f)))"

definition fe_mul121666 :: "fe \<Rightarrow> fe" where
  "fe_mul121666 f = store_limbs (carries conv_carries (map (\<lambda>i. sx (f ! i) * 121666) [0..<10]))"

text \<open>The integers of the limbs, their value, and the sizes of limbs.\<close>

definition fe_ints :: "fe \<Rightarrow> int list" where "fe_ints f = map sint f"
definition fe_val :: "fe \<Rightarrow> int" where "fe_val f = fval (fe_ints f)"

definition limb_sizes :: "int \<Rightarrow> int list" where
  "limb_sizes n = concat (replicate 5 [2 * n, n])"

definition fe_loose :: "int list" where "fe_loose = limb_sizes 55364812"
definition fe_wide :: "int list" where "fe_wide = limb_sizes 36909875"
definition fe_tight :: "int list" where "fe_tight = limb_sizes 16945479"

definition fe_ok :: "int list \<Rightarrow> fe \<Rightarrow> bool" where "fe_ok b f \<longleftrightarrow> bounded b (fe_ints f)"

end
