(* ===== verification/Field_Mul.thy ===== *)
theory Field_Mul
  imports Field_Element
begin

text \<open>
  The products of \<open>fe.c\<close> are the products of the field: with limbs of the sizes the comments ask for,
  no 32-bit or 64-bit operation overflows, the limbs of the result are again small, and its value is
  the product of the values modulo \<open>2^255 - 19\<close>.
\<close>

text \<open>The schoolbook product with the reduction of \<open>2^255\<close> to 19, limb by limb, on integers.\<close>

definition mul_coeff :: "nat \<Rightarrow> nat \<Rightarrow> int" where
  "mul_coeff i j = (if i < j then 19 else 1) * (if odd j \<and> odd (i + 10 - j) then 2 else 1)"

definition mul_ints :: "int list \<Rightarrow> int list \<Rightarrow> int list" where
  "mul_ints f g =
     map (\<lambda>i. \<Sum>j<10. mul_coeff i j * f ! j * g ! ((i + 10 - j) mod 10)) [0..<10]"

lemma sum10: "(\<Sum>i<10. F i) = F 0 + F 1 + F 2 + F 3 + F 4 + F 5 + F 6 + F 7 + F 8 + F (9 :: nat)"
  for F :: "nat \<Rightarrow> int"
  by (simp add: eval_nat_numeral lessThan_Suc)

lemma upt10: "[0..<10] = [0, 1, 2, 3, 4, 5, 6, 7, 8, 9 :: nat]"
  by (simp add: upt_rec)

lemma mul_ints_list:
  "mul_ints [a0, a1, a2, a3, a4, a5, a6, a7, a8, a9] [b0, b1, b2, b3, b4, b5, b6, b7, b8, b9] =
    [a0 * b0 + 2 * a1 * (19 * b9) + a2 * (19 * b8) + 2 * a3 * (19 * b7) + a4 * (19 * b6) +
       2 * a5 * (19 * b5) + a6 * (19 * b4) + 2 * a7 * (19 * b3) + a8 * (19 * b2) + 2 * a9 * (19 * b1),
     a0 * b1 + a1 * b0 + a2 * (19 * b9) + a3 * (19 * b8) + a4 * (19 * b7) + a5 * (19 * b6) +
       a6 * (19 * b5) + a7 * (19 * b4) + a8 * (19 * b3) + a9 * (19 * b2),
     a0 * b2 + 2 * a1 * b1 + a2 * b0 + 2 * a3 * (19 * b9) + a4 * (19 * b8) + 2 * a5 * (19 * b7) +
       a6 * (19 * b6) + 2 * a7 * (19 * b5) + a8 * (19 * b4) + 2 * a9 * (19 * b3),
     a0 * b3 + a1 * b2 + a2 * b1 + a3 * b0 + a4 * (19 * b9) + a5 * (19 * b8) + a6 * (19 * b7) +
       a7 * (19 * b6) + a8 * (19 * b5) + a9 * (19 * b4),
     a0 * b4 + 2 * a1 * b3 + a2 * b2 + 2 * a3 * b1 + a4 * b0 + 2 * a5 * (19 * b9) + a6 * (19 * b8) +
       2 * a7 * (19 * b7) + a8 * (19 * b6) + 2 * a9 * (19 * b5),
     a0 * b5 + a1 * b4 + a2 * b3 + a3 * b2 + a4 * b1 + a5 * b0 + a6 * (19 * b9) + a7 * (19 * b8) +
       a8 * (19 * b7) + a9 * (19 * b6),
     a0 * b6 + 2 * a1 * b5 + a2 * b4 + 2 * a3 * b3 + a4 * b2 + 2 * a5 * b1 + a6 * b0 +
       2 * a7 * (19 * b9) + a8 * (19 * b8) + 2 * a9 * (19 * b7),
     a0 * b7 + a1 * b6 + a2 * b5 + a3 * b4 + a4 * b3 + a5 * b2 + a6 * b1 + a7 * b0 + a8 * (19 * b9) +
       a9 * (19 * b8),
     a0 * b8 + 2 * a1 * b7 + a2 * b6 + 2 * a3 * b5 + a4 * b4 + 2 * a5 * b3 + a6 * b2 + 2 * a7 * b1 +
       a8 * b0 + 2 * a9 * (19 * b9),
     a0 * b9 + a1 * b8 + a2 * b7 + a3 * b6 + a4 * b5 + a5 * b4 + a6 * b3 + a7 * b2 + a8 * b1 + a9 * b0]"
  unfolding mul_ints_def upt10 sum10 by (simp add: mul_coeff_def)

lemma fval_shift:
  assumes "length g = 10" "i < 10"
  shows "fval (map (\<lambda>k. mul_coeff k i * g ! ((k + 10 - i) mod 10)) [0..<10]) mod fe_p =
    2 ^ limb_exp i * fval g mod fe_p"
proof -
  obtain b0 b1 b2 b3 b4 b5 b6 b7 b8 b9 where g: "g = [b0, b1, b2, b3, b4, b5, b6, b7, b8, b9]"
    by (rule length10 [OF assms(1)])
  let ?d = "\<lambda>k. if k < i then (if odd i \<and> odd (k + 10 - i) then 2 else 1) * g ! ((k + 10 - i) mod 10) else 0"
  have "2 ^ limb_exp i * fval g =
      fval (map (\<lambda>k. mul_coeff k i * g ! ((k + 10 - i) mod 10)) [0..<10]) + fe_p * fval (map ?d [0..<10])"
    using assms(2) unfolding less10 g upt10
    by (elim disjE; hypsubst; simp add: mul_coeff_def fval_list fe_p_def limb_exp_def algebra_simps)
  then show ?thesis by simp
qed

lemma mod_sum_cong:
  "(\<And>x. x \<in> A \<Longrightarrow> f x mod m = g x mod m) \<Longrightarrow> sum f A mod m = sum g A mod m" for m :: int
  by (metis (mono_tags, lifting) mod_sum_eq sum.cong)

lemma fval_mul_ints:
  assumes "length f = 10" "length g = 10"
  shows "fval (mul_ints f g) mod fe_p = fval f * fval g mod fe_p"
proof -
  let ?s = "\<lambda>j. fval (map (\<lambda>k. mul_coeff k j * g ! ((k + 10 - j) mod 10)) [0..<10])"
  have "fval (mul_ints f g) = (\<Sum>j<10. f ! j * ?s j)"
    by (simp add: fval_def mul_ints_def sum_distrib_left sum_distrib_right mult_ac)
      (rule sum.swap)
  also have "\<dots> mod fe_p = (\<Sum>j<10. f ! j * (2 ^ limb_exp j * fval g)) mod fe_p"
    by (intro mod_sum_cong mod_mult_cong refl fval_shift [OF assms(2)]) simp
  also have "(\<Sum>j<10. f ! j * (2 ^ limb_exp j * fval g)) = fval f * fval g"
    unfolding fval_def [of f] sum_distrib_right by (simp add: mult_ac)
  finally show ?thesis .
qed

lemma bounded_mul_ints:
  assumes "bounded b f" "bounded c g" "length b = 10" "length c = 10"
  shows "bounded (mul_ints b c) (mul_ints f g)"
proof -
  have le: "\<bar>\<Sum>j<10. mul_coeff i j * f ! j * g ! ((i + 10 - j) mod 10)\<bar>
      \<le> (\<Sum>j<10. mul_coeff i j * b ! j * c ! ((i + 10 - j) mod 10))" for i
  proof (rule order_trans [OF sum_abs], rule sum_mono)
    fix j :: nat assume "j \<in> {..<10}"
    then have fb: "\<bar>f ! j\<bar> \<le> b ! j" using assms by (auto simp: bounded_def)
    have gc: "\<bar>g ! ((i + 10 - j) mod 10)\<bar> \<le> c ! ((i + 10 - j) mod 10)"
      using assms by (auto simp: bounded_def)
    have "\<bar>mul_coeff i j * f ! j\<bar> \<le> mul_coeff i j * b ! j"
      using fb by (auto simp: mul_coeff_def abs_mult)
    then show "\<bar>mul_coeff i j * f ! j * g ! ((i + 10 - j) mod 10)\<bar>
        \<le> mul_coeff i j * b ! j * c ! ((i + 10 - j) mod 10)"
      using gc by (rule abs_prod_le)
  qed
  show ?thesis using le by (simp add: bounded_def mul_ints_def)
qed


text \<open>The words hold these integers.\<close>

lemma sx_scaled:
  assumes "\<bar>k * sint (x :: i32)\<bar> < 2 ^ 31"
  shows "sx (of_int k * x) = of_int k * of_int (sint x)"
proof -
  have "of_int k * x = of_int (k * sint x)" by simp
  then show ?thesis using sx_of_int [OF in32_abs [OF assms]] by simp
qed

lemma sx_times:
  assumes "\<bar>sint (x :: i32)\<bar> \<le> b"
  shows "2 * b < 2 ^ 31 \<Longrightarrow> sx (2 * x) = 2 * of_int (sint x)"
    "19 * b < 2 ^ 31 \<Longrightarrow> sx (19 * x) = 19 * of_int (sint x)"
    "38 * b < 2 ^ 31 \<Longrightarrow> sx (38 * x) = 38 * of_int (sint x)"
  using sx_scaled [of 2 x] sx_scaled [of 19 x] sx_scaled [of 38 x] assms by auto

lemma limb_sizes_list: "limb_sizes n = [2 * n, n, 2 * n, n, 2 * n, n, 2 * n, n, 2 * n, n]"
  by (simp add: limb_sizes_def eval_nat_numeral)

lemma length_sizes [simp]:
  "length (limb_sizes n) = 10" "length fe_loose = 10" "length fe_wide = 10" "length fe_tight = 10"
  by (simp_all add: limb_sizes_list fe_loose_def fe_wide_def fe_tight_def)

lemma limb_sizes_nth: "i < 10 \<Longrightarrow> limb_sizes n ! i = (if even i then 2 * n else n)"
  unfolding less10 by (elim disjE) (simp_all add: limb_sizes_list)

lemma fe_ok_sizes:
  "fe_ok (limb_sizes n) f \<longleftrightarrow>
    length f = 10 \<and> (\<forall>i < 10. \<bar>sint (f ! i)\<bar> \<le> (if even i then 2 * n else n))"
proof -
  have "(\<forall>i < 10. \<bar>map sint f ! i\<bar> \<le> limb_sizes n ! i) \<longleftrightarrow>
      (\<forall>i < 10. \<bar>sint (f ! i)\<bar> \<le> (if even i then 2 * n else n))" if "length f = 10"
    using that by (simp only: limb_sizes_nth nth_map cong: imp_cong)
  then show ?thesis unfolding fe_ok_def bounded_def fe_ints_def length_sizes length_map by blast
qed

lemma sx_loose:
  assumes "fe_ok fe_loose f" "i < 10"
  shows "sx (f ! i) = of_int (sint (f ! i))" "sx (2 * f ! i) = 2 * of_int (sint (f ! i))"
    "sx (19 * f ! i) = 19 * of_int (sint (f ! i))"
    "odd i \<Longrightarrow> sx (38 * f ! i) = 38 * of_int (sint (f ! i))"
proof -
  have b: "\<bar>sint (f ! i)\<bar> \<le> (if even i then 110729624 else 55364812)"
    using assms unfolding fe_loose_def fe_ok_sizes by auto
  show "sx (f ! i) = of_int (sint (f ! i))" by (rule sx_eq)
  show "sx (2 * f ! i) = 2 * of_int (sint (f ! i))"
    "sx (19 * f ! i) = 19 * of_int (sint (f ! i))"
    "odd i \<Longrightarrow> sx (38 * f ! i) = 38 * of_int (sint (f ! i))"
    using sx_times [OF b] by auto
qed

lemma fe_mul_products_ints:
  assumes "fe_ok fe_loose f" "fe_ok fe_loose g"
  shows "fe_mul_products f g = map of_int (mul_ints (fe_ints f) (fe_ints g))"
proof -
  have "length f = 10" "length g = 10" using assms by (simp_all add: fe_loose_def fe_ok_sizes)
  then have f: "fe_ints f = [sint (f ! 0), sint (f ! 1), sint (f ! 2), sint (f ! 3), sint (f ! 4),
      sint (f ! 5), sint (f ! 6), sint (f ! 7), sint (f ! 8), sint (f ! 9)]"
    and g: "fe_ints g = [sint (g ! 0), sint (g ! 1), sint (g ! 2), sint (g ! 3), sint (g ! 4),
      sint (g ! 5), sint (g ! 6), sint (g ! 7), sint (g ! 8), sint (g ! 9)]"
    by (auto simp: fe_ints_def elim!: length10)
  show ?thesis
    unfolding f g mul_ints_list fe_mul_products_def Let_def
    by (simp only: sx_loose [OF assms(1)] sx_loose [OF assms(2)] list.map of_int_add of_int_mult of_int_numeral
        rel_simps)
qed

text \<open>The squares use the symmetry of the product to save half of it.\<close>

lemma fe_sq_products_ints:
  assumes "fe_ok fe_loose f"
  shows "fe_sq_products f = map of_int (mul_ints (fe_ints f) (fe_ints f))"
proof -
  have "length f = 10" using assms by (simp_all add: fe_loose_def fe_ok_sizes)
  then have f: "fe_ints f = [sint (f ! 0), sint (f ! 1), sint (f ! 2), sint (f ! 3), sint (f ! 4),
      sint (f ! 5), sint (f ! 6), sint (f ! 7), sint (f ! 8), sint (f ! 9)]"
    by (auto simp: fe_ints_def elim!: length10)
  have odd: "odd (1 :: nat)" "odd (3 :: nat)" "odd (5 :: nat)" "odd (7 :: nat)" "odd (9 :: nat)" by simp_all
  show ?thesis
    unfolding f mul_ints_list fe_sq_products_def Let_def
    by (simp only: sx_loose [OF assms] list.map of_int_add of_int_mult of_int_numeral rel_simps odd simp_thms list.inject)
      (simp add: algebra_simps)
qed

text \<open>From the products to the stored limbs.\<close>

lemma bounded_mono: "bounded b h \<Longrightarrow> list_all2 (\<le>) b c \<Longrightarrow> bounded c h"
  by (auto simp: bounded_def list_all2_conv_all_nth intro: order_trans)

lemma fe_ints_of_int: "\<forall>x \<in> set xs. in32 x \<Longrightarrow> fe_ints (store_limbs (map of_int xs)) = xs"
  by (simp add: fe_ints_def store_limbs_def lo32_of_int sint_of_int32 o_def map_idI)

lemma bounded_in32:
  assumes "bounded b h" "\<forall>x \<in> set b. x < 2 ^ 31"
  shows "\<forall>x \<in> set h. in32 x"
proof
  fix x assume "x \<in> set h"
  then obtain i where "i < length h" "x = h ! i" by (auto simp: in_set_conv_nth)
  then show "in32 x" using assms by (intro in32_abs) (auto simp: bounded_def intro: le_less_trans)
qed

definition carried :: "nat list \<Rightarrow> int list \<Rightarrow> int list \<Rightarrow> bool" where
  "carried is b c \<longleftrightarrow> length b = 10 \<and> carries_fit is b \<and> list_all2 (\<le>) (carries_bnd is b) c \<and>
    (\<forall>x \<in> set c. x < 2 ^ 31)"

lemma carried_limbs:
  assumes "bounded b h" "carried is b c" "v mod fe_p = fval h mod fe_p"
  shows "fe_ok c (store_limbs (carries is (map of_int h)))"
    "fe_val (store_limbs (carries is (map of_int h))) mod fe_p = v mod fe_p"
proof -
  note ex = carries_exact [OF assms(1), of "is"]
  have c: "bounded c (carries_int is h)"
    using ex assms(2) by (auto simp: carried_def intro: bounded_mono)
  have "fe_ints (store_limbs (carries is (map of_int h))) = carries_int is h"
    using ex assms(2) bounded_in32 [OF c] by (simp add: carried_def fe_ints_of_int)
  then show "fe_ok c (store_limbs (carries is (map of_int h)))"
    "fe_val (store_limbs (carries is (map of_int h))) mod fe_p = v mod fe_p"
    using ex c assms(2,3) by (simp_all add: fe_ok_def fe_val_def carried_def)
qed

lemma carried_mul: "carried mul_carries (mul_ints fe_loose fe_loose) fe_tight"
  by code_simp

lemma carried_sq2: "carried mul_carries (map (\<lambda>x. x + x) (mul_ints fe_loose fe_loose)) fe_tight"
  by code_simp

lemma carried_121666: "carried conv_carries (map (\<lambda>x. x * 121666) fe_wide) fe_tight"
  by code_simp

lemma fe_ok_bounded: "fe_ok b f \<Longrightarrow> bounded b (fe_ints f)"
  by (simp add: fe_ok_def)

lemma fe_ok_length: "fe_ok b f \<Longrightarrow> length b = 10 \<Longrightarrow> length f = 10"
  by (simp add: fe_ok_def bounded_def fe_ints_def)

lemma fe_ok_mono: "fe_ok (limb_sizes m) f \<Longrightarrow> m \<le> n \<Longrightarrow> fe_ok (limb_sizes n) f"
  unfolding fe_ok_sizes by (auto intro: order_trans)

lemma fe_ok_tight: "fe_ok fe_tight f \<Longrightarrow> fe_ok fe_loose f" "fe_ok fe_tight f \<Longrightarrow> fe_ok fe_wide f"
  unfolding fe_tight_def fe_loose_def fe_wide_def by (auto elim: fe_ok_mono)

lemma fe_mul_ok:
  assumes "fe_ok fe_loose f" "fe_ok fe_loose g"
  shows "fe_ok fe_tight (fe_mul f g)" "fe_val (fe_mul f g) mod fe_p = fe_val f * fe_val g mod fe_p"
proof -
  have len: "length (fe_ints f) = 10" "length (fe_ints g) = 10"
    using assms by (simp_all add: fe_ok_def bounded_def)
  note b = bounded_mul_ints [OF fe_ok_bounded [OF assms(1)] fe_ok_bounded [OF assms(2)] length_sizes(2,2)]
  show "fe_ok fe_tight (fe_mul f g)" "fe_val (fe_mul f g) mod fe_p = fe_val f * fe_val g mod fe_p"
    unfolding fe_mul_def fe_mul_products_ints [OF assms]
    using carried_limbs [OF b carried_mul fval_mul_ints [OF len, symmetric]]
    by (simp_all add: fe_val_def)
qed

lemma fe_sq_mul: "fe_ok fe_loose f \<Longrightarrow> fe_sq f = fe_mul f f"
  by (simp add: fe_sq_def fe_mul_def fe_sq_products_ints fe_mul_products_ints)

lemma fe_sq2_ok:
  assumes "fe_ok fe_loose f"
  shows "fe_ok fe_tight (fe_sq2 f)" "fe_val (fe_sq2 f) mod fe_p = 2 * (fe_val f * fe_val f) mod fe_p"
proof -
  let ?h = "mul_ints (fe_ints f) (fe_ints f)" and ?d = "map (\<lambda>x. x + x)"
  have len: "length (fe_ints f) = 10" using assms by (simp add: fe_ok_def bounded_def)
  then have "length ?h = 10" by (simp add: mul_ints_def)
  have b: "bounded (?d (mul_ints fe_loose fe_loose)) (?d ?h)"
    using bounded_mul_ints [OF fe_ok_bounded [OF assms] fe_ok_bounded [OF assms]]
    by (auto simp: bounded_def)
  have "fval (?d ?h) = 2 * fval ?h" using \<open>length ?h = 10\<close>
    by (auto simp: fval_def sum_distrib_left intro!: sum.cong)
  then have v: "2 * (fe_val f * fe_val f) mod fe_p = fval (?d ?h) mod fe_p"
    using fval_mul_ints [OF len len] by (metis fe_val_def mod_mult_right_eq)
  have eq: "?d (map of_int ?h :: i64 list) = map of_int (?d ?h)" by simp
  show "fe_ok fe_tight (fe_sq2 f)"
    unfolding fe_sq2_def fe_sq_products_ints [OF assms] eq by (rule carried_limbs(1) [OF b carried_sq2 v])
  show "fe_val (fe_sq2 f) mod fe_p = 2 * (fe_val f * fe_val f) mod fe_p"
    unfolding fe_sq2_def fe_sq_products_ints [OF assms] eq by (rule carried_limbs(2) [OF b carried_sq2 v])
qed

lemma fe_mul121666_ok:
  assumes "fe_ok fe_wide f"
  shows "fe_ok fe_tight (fe_mul121666 f)" "fe_val (fe_mul121666 f) mod fe_p = fe_val f * 121666 mod fe_p"
proof -
  let ?m = "map (\<lambda>x. x * 121666)"
  have len: "length f = 10" using fe_ok_length [OF assms] by simp
  have b: "bounded (?m fe_wide) (?m (fe_ints f))"
    using fe_ok_bounded [OF assms] by (auto simp: bounded_def abs_mult)
  have v: "fe_val f * 121666 mod fe_p = fval (?m (fe_ints f)) mod fe_p"
    unfolding fe_val_def fval_def sum_distrib_right using len
    by (intro arg_cong [where f = "\<lambda>x. x mod fe_p"] sum.cong) (auto simp: fe_ints_def)
  have "map (\<lambda>i. sx (f ! i) * 121666) [0..<10] = map of_int (?m (fe_ints f))"
    using len by (intro nth_equalityI) (auto simp: sx_eq fe_ints_def)
  then show "fe_ok fe_tight (fe_mul121666 f)" "fe_val (fe_mul121666 f) mod fe_p = fe_val f * 121666 mod fe_p"
    using carried_limbs [OF b carried_121666 v] by (simp_all add: fe_mul121666_def)
qed

text \<open>Sums and differences do not carry: their limbs grow.\<close>

lemma fe_limbwise:
  assumes "\<And>i. i < 10 \<Longrightarrow> sint (r ! i) = a * sint (f ! i) + b * sint (g ! i)"
    "length r = 10" "length f = 10" "length g = 10"
  shows "fe_val r = a * fe_val f + b * fe_val g"
  unfolding fe_val_def fval_def sum_distrib_left sum.distrib [symmetric] using assms
  by (intro sum.cong) (auto simp: fe_ints_def algebra_simps)

lemma sint_add_sub:
  fixes x y :: i32
  assumes "\<bar>sint x\<bar> + \<bar>sint y\<bar> < 2 ^ 31"
  shows "sint (x + y) = sint x + sint y" "sint (x - y) = sint x - sint y" "sint (- x) = - sint x"
proof -
  have "in32 (sint x + sint y)" "in32 (sint x - sint y)" "in32 (- sint x)"
    using assms by (auto intro!: in32_abs)
  from this [THEN sint_of_int32]
  show "sint (x + y) = sint x + sint y" "sint (x - y) = sint x - sint y" "sint (- x) = - sint x"
    by (simp_all only: of_int_add of_int_diff of_int_minus of_int_sint32)
qed

lemma fe_add_sub:
  assumes "fe_ok (limb_sizes m) f" "fe_ok (limb_sizes n) g" "m + n < 2 ^ 30"
  shows "fe_ok (limb_sizes (m + n)) (fe_add f g)" "fe_val (fe_add f g) = fe_val f + fe_val g"
    "fe_ok (limb_sizes (m + n)) (fe_sub f g)" "fe_val (fe_sub f g) = fe_val f - fe_val g"
proof -
  have len: "length f = 10" "length g = 10" using assms by (simp_all add: fe_ok_sizes)
  have sz: "\<bar>sint (f ! i)\<bar> \<le> (if even i then 2 * m else m)" "\<bar>sint (g ! i)\<bar> \<le> (if even i then 2 * n else n)"
    if "i < 10" for i using assms that by (simp_all only: fe_ok_sizes)
  have mn: "0 \<le> m" "0 \<le> n" using sz [of 1] by simp_all
  have fit: "\<bar>sint (f ! i)\<bar> + \<bar>sint (g ! i)\<bar> < 2 ^ 31" if "i < 10" for i
    using sz [OF that] mn assms(3) by (auto split: if_splits)
  note s = sint_add_sub [OF fit]
  have tri: "\<bar>sint (f ! i) + sint (g ! i)\<bar> \<le> (if even i then 2 * (m + n) else m + n)"
    "\<bar>sint (f ! i) - sint (g ! i)\<bar> \<le> (if even i then 2 * (m + n) else m + n)" if "i < 10" for i
    using sz [OF that] by (auto split: if_splits)
  show "fe_ok (limb_sizes (m + n)) (fe_add f g)" "fe_ok (limb_sizes (m + n)) (fe_sub f g)"
    unfolding fe_ok_sizes using tri by (auto simp: fe_add_def fe_sub_def s)
  show "fe_val (fe_add f g) = fe_val f + fe_val g" "fe_val (fe_sub f g) = fe_val f - fe_val g"
    using fe_limbwise [of "fe_add f g" 1 f 1 g] fe_limbwise [of "fe_sub f g" 1 f "- 1" g] len
    by (simp_all add: fe_add_def fe_sub_def s)
qed

lemma fe_0_1:
  "fe_ok fe_tight fe_0" "fe_val fe_0 = 0" "fe_ok fe_tight fe_1" "fe_val fe_1 = 1"
  by (simp_all add: fe_ok_def bounded_def fe_ints_def fe_0_def fe_1_def fe_val_def fval_list
      fe_tight_def limb_sizes_list less10 disj_imp) (code_simp)+

end
