(* ===== verification/Ed_Bytes.thy ===== *)
theory Ed_Bytes
  imports Ed_Int
begin

text \<open>
  Little-endian bytes: the integer that an array of bytes stands for, the loads of three and four bytes
  that \<open>fe.c\<close> and \<open>sc.c\<close> both define, and the byte-wise stores of a limb's bits.
\<close>

unbundle bit_operations_syntax

primrec le_int :: "u8 list \<Rightarrow> int" where
  "le_int [] = 0"
| "le_int (b # bs) = uint b + 256 * le_int bs"

text \<open>\<open>load_3(in + k)\<close> and \<open>load_4(in + k)\<close>.\<close>

definition load_3 :: "u8 list \<Rightarrow> nat \<Rightarrow> u64" where
  "load_3 s k = (ucast (s ! k) OR push_bit 8 (ucast (s ! (k + 1)))) OR push_bit 16 (ucast (s ! (k + 2)))"

definition load_4 :: "u8 list \<Rightarrow> nat \<Rightarrow> u64" where
  "load_4 s k = ((ucast (s ! k) OR push_bit 8 (ucast (s ! (k + 1)))) OR push_bit 16 (ucast (s ! (k + 2))))
     OR push_bit 24 (ucast (s ! (k + 3)))"

text \<open>Bytes as an integer.\<close>

lemma le_int_bounds: "0 \<le> le_int bs" "le_int bs < 256 ^ length bs"
proof (induction bs)
  case (Cons b bs)
  have "uint b < 256" "0 \<le> uint b" using uint_bounded [of b] by simp_all
  then show "0 \<le> le_int (b # bs)" "le_int (b # bs) < 256 ^ length (b # bs)"
    using Cons by (simp_all only: le_int.simps list.size power_add power_Suc power_0 add_0_right)
qed simp_all

lemma digit_256:
  fixes a b m n :: int
  assumes "a < 256" "0 \<le> a" "b < 256" "0 \<le> b" "a + 256 * m = b + 256 * n"
  shows "a = b \<and> m = n"
proof -
  have "a = (a + 256 * m) mod 256" "b = (b + 256 * n) mod 256" using assms(1-4) by simp_all
  then show ?thesis using assms(5) by simp
qed

lemma le_int_inject:
  "length xs = length ys \<Longrightarrow> le_int xs = le_int ys \<Longrightarrow> xs = ys"
proof (induction xs ys rule: list_induct2)
  case (Cons x xs y ys)
  have b: "uint x < 256" "0 \<le> uint x" "uint y < 256" "0 \<le> uint y"
    using uint_bounded [of x] uint_bounded [of y] by simp_all
  have "uint x + 256 * le_int xs = uint y + 256 * le_int ys" using Cons.prems by simp
  then have "uint x = uint y \<and> le_int xs = le_int ys" by (rule digit_256 [OF b])
  then show ?case using Cons.IH by (simp add: word_uint_eq_iff)
qed simp

lemma or_shift:
  fixes a b :: int
  assumes "0 \<le> a" "a < 2 ^ m"
  shows "a OR push_bit m b = a + push_bit m b"
proof (rule disjunctive_add [symmetric])
  fix n
  have "\<not> bit a n" if "m \<le> n"
  proof -
    have "take_bit m a = a" using assms by (simp add: take_bit_int_eq_self)
    then show ?thesis using that by (metis bit_take_bit_iff leD)
  qed
  then show "\<not> bit a n \<or> \<not> bit (push_bit m b) n" by (auto simp: bit_push_bit_iff_int not_le)
qed

lemma uint_or_shift:
  fixes a b :: "'a::len word"
  assumes "uint a < 2 ^ m" "uint a + uint b * 2 ^ m < 2 ^ LENGTH('a)"
  shows "uint (a OR push_bit m b) = uint a + uint b * 2 ^ m"
proof -
  have "uint (a OR push_bit m b) = take_bit LENGTH('a) (uint a OR push_bit m (uint b))"
    by (simp add: unsigned_or_eq unsigned_push_bit_eq take_bit_or bintr_uint)
  also have "\<dots> = take_bit LENGTH('a) (uint a + uint b * 2 ^ m)"
    using or_shift [of "uint a" m "uint b"] assms(1) by (simp add: push_bit_eq_mult)
  finally show ?thesis using assms(2) by (simp add: take_bit_int_eq_self)
qed

lemma uint_bytes:
  "uint (b :: u8) < 256" "0 \<le> uint b"
  using uint_bounded [of b] by simp_all

lemma uint_ucast8: "uint (ucast (b :: u8) :: u64) = uint b"
  by (rule uint_up_ucast) (simp add: is_up)

lemma uint_load:
  "uint (load_3 s k) = uint (s ! k) + 256 * uint (s ! (k + 1)) + 65536 * uint (s ! (k + 2))"
  "uint (load_4 s k) = uint (s ! k) + 256 * uint (s ! (k + 1)) + 65536 * uint (s ! (k + 2))
     + 16777216 * uint (s ! (k + 3))"
proof -
  note b = uint_bytes [of "s ! k"] uint_bytes [of "s ! (k + 1)"] uint_bytes [of "s ! (k + 2)"]
    uint_bytes [of "s ! (k + 3)"]
  let ?u = "\<lambda>k. ucast (s ! k) :: u64"
  have 2: "uint (?u k OR push_bit 8 (?u (k + 1))) = uint (s ! k) + 256 * uint (s ! (k + 1))"
    using uint_or_shift [of "?u k" 8 "?u (k + 1)"] b by (simp add: uint_ucast8)
  have 3: "uint ((?u k OR push_bit 8 (?u (k + 1))) OR push_bit 16 (?u (k + 2)))
      = uint (s ! k) + 256 * uint (s ! (k + 1)) + 65536 * uint (s ! (k + 2))"
    using uint_or_shift [of "?u k OR push_bit 8 (?u (k + 1))" 16 "?u (k + 2)"] 2 b by (simp add: uint_ucast8)
  then show "uint (load_3 s k) = uint (s ! k) + 256 * uint (s ! (k + 1)) + 65536 * uint (s ! (k + 2))"
    by (simp add: load_3_def)
  show "uint (load_4 s k) = uint (s ! k) + 256 * uint (s ! (k + 1)) + 65536 * uint (s ! (k + 2))
     + 16777216 * uint (s ! (k + 3))"
    using uint_or_shift [of "(?u k OR push_bit 8 (?u (k + 1))) OR push_bit 16 (?u (k + 2))" 24 "?u (k + 3)"] 3 b
    by (simp add: load_4_def uint_ucast8)
qed

lemma le_int_append: "le_int (xs @ ys) = le_int xs + 256 ^ length xs * le_int ys"
  by (induction xs) (simp_all add: algebra_simps)

lemma mod_split: "(a + b * k) mod (m * k) = a + b mod m * k"
  if "0 \<le> a" "a < k" "0 < m" for a b k m :: int
proof -
  have "(a + b * k) div k = b" using that by simp
  then have "(a + b * k) mod (k * m) = k * (b mod m) + a mod k"
    using zmod_zmult2_eq [of m "a + b * k" k] that by simp
  then show ?thesis using that by (simp add: mult.commute)
qed

lemma le_int_zero: "le_int bs = 0 \<longleftrightarrow> (\<forall>b \<in> set bs. b = 0)"
proof (induction bs)
  case (Cons b bs)
  have "uint b + 256 * le_int bs = 0 \<longleftrightarrow> uint b = 0 \<and> le_int bs = 0"
    using le_int_bounds(1) [of bs] uint_bytes(2) [of b] by linarith
  with Cons show ?case by (simp add: unsigned_eq_0_iff)
qed simp

lemma uint_byte:
  fixes w :: "'a::len word"
  assumes "8 \<le> LENGTH('a)"
  shows "uint (ucast w :: u8) = sint w mod 256"
proof -
  have "uint (ucast w :: u8) = take_bit 8 (uint w)" by (simp add: unsigned_ucast_eq)
  also have "\<dots> = take_bit 8 (take_bit LENGTH('a) (sint w))" by (simp add: uint_sint)
  also have "\<dots> = take_bit 8 (sint w)" using assms by (simp add: min_def)
  finally show ?thesis by (simp add: take_bit_eq_mod)
qed

lemma uint_nonneg: "0 \<le> sint (w :: 'a::len word) \<Longrightarrow> uint w = sint w"
proof -
  assume "0 \<le> sint w"
  moreover have "sint w < 2 ^ LENGTH('a)"
    by (rule less_le_trans [OF sint_lt power_increasing]) simp_all
  ultimately show "uint w = sint w" by (simp add: uint_sint take_bit_int_eq_self)
qed

lemma byte_of_two:
  fixes a b :: "'a::len word"
  assumes "8 \<le> LENGTH('a)" "0 \<le> sint a" "sint a < 2 ^ m" "0 \<le> sint b" "m \<le> 8"
  shows "uint (ucast (a OR push_bit m b) :: u8) = sint a + 2 ^ m * (sint b mod 2 ^ (8 - m))"
proof -
  have "uint (ucast (a OR push_bit m b) :: u8) = take_bit 8 (uint a OR push_bit m (uint b))"
  proof -
    have "uint (ucast w :: u8) = take_bit 8 (uint w)" for w :: "'a word" by (simp add: unsigned_ucast_eq)
    then have "uint (ucast (a OR push_bit m b) :: u8) = take_bit 8 (uint (a OR push_bit m b))" .
    also have "\<dots> = take_bit 8 (uint a OR push_bit m (uint b))"
      by (simp only: unsigned_or_eq unsigned_push_bit_eq take_bit_or take_bit_take_bit)
        (simp add: assms(1) min_def)
    finally show ?thesis .
  qed
  also have "\<dots> = (sint a + sint b * 2 ^ m) mod (2 ^ (8 - m) * 2 ^ m)"
    using or_shift [of "sint a" m "sint b"] assms
    by (simp add: uint_nonneg push_bit_eq_mult take_bit_eq_mod flip: power_add)
  also have "\<dots> = sint a + sint b mod 2 ^ (8 - m) * 2 ^ m"
    by (rule mod_split) (use assms in simp_all)
  finally show ?thesis by (simp add: mult.commute)
qed

lemma div_less:
  fixes x b k :: int
  assumes "x < b * k" "0 < k"
  shows "x div k < b"
proof (rule ccontr)
  assume "\<not> x div k < b"
  then have "b * k \<le> x div k * k" using assms(2) by simp
  also have "\<dots> \<le> x" using div_mult_mod_eq [of x k] pos_mod_sign [OF assms(2), of x] by linarith
  finally show False using assms(1) by simp
qed

lemma split_bytes:
  fixes x :: int
  shows "x = x mod 2 ^ m + 2 ^ m * (x div 2 ^ m mod 256) + 2 ^ (m + 8) * (x div 2 ^ (m + 8) mod 256) +
    2 ^ (m + 16) * (x div 2 ^ (m + 16))"
proof -
  have d: "x div 2 ^ (m + 8) = x div 2 ^ m div 256" "x div 2 ^ (m + 16) = x div 2 ^ m div 256 div 256"
    using zdiv_zmult2_eq [of 256 x "2 ^ m"] zdiv_zmult2_eq [of 65536 x "2 ^ m"]
      zdiv_zmult2_eq [of 256 "x div 2 ^ m" 256] by (simp_all add: power_add)
  let ?u = "x div 2 ^ m"
  have "x mod 2 ^ m + 2 ^ m * (?u mod 256) + 2 ^ (m + 8) * (?u div 256 mod 256) + 2 ^ (m + 16) * (?u div 256 div 256)
    = x mod 2 ^ m + 2 ^ m * (?u mod 256 + 256 * (?u div 256 mod 256 + 256 * (?u div 256 div 256)))"
    by (simp only: power_add distrib_left) simp
  also have "\<dots> = x" by simp
  finally show ?thesis unfolding d by (rule sym)
qed

text \<open>A byte cut from one limb, and a byte that joins the top of one limb to the bottom of the next.\<close>

lemma sar_top:
  fixes x :: "'a::len word"
  assumes "0 \<le> sint x" "sint x < 2 ^ (n + m)"
  shows "0 \<le> sint (sar x n)" "sint (sar x n) < 2 ^ m"
  unfolding sint_sar using assms div_less [of "sint x" "2 ^ m" "2 ^ n"]
  by (simp_all add: pos_imp_zdiv_nonneg_iff power_add mult.commute)

lemma one_limb_byte:
  fixes x :: "'a::len word"
  assumes "8 \<le> LENGTH('a)"
  shows "uint (ucast (sar x n) :: u8) = sint x div 2 ^ n mod 256"
  using uint_byte [OF assms] by (simp add: sint_sar)

lemma two_limb_byte:
  fixes x y :: "'a::len word"
  assumes "0 \<le> sint x" "sint x < 2 ^ (n + m)" "0 \<le> sint y" "m + l = 8" "8 \<le> LENGTH('a)"
  shows "uint (ucast (sar x n OR push_bit m y) :: u8) = sint x div 2 ^ n + 2 ^ m * (sint y mod 2 ^ l)"
proof -
  have "m \<le> 8" "8 - m = l" using assms(4) by simp_all
  then show ?thesis
    using byte_of_two [OF assms(5) sar_top [OF assms(1,2)] assms(3)] by (simp add: sint_sar)
qed

end
