(* ===== verification/Field_Bytes.thy ===== *)
theory Field_Bytes
  imports Field_Mul Ed_Bytes
begin

unbundle bit_operations_syntax

text \<open>
  \<open>fe_frombytes\<close> and \<open>fe_tobytes\<close>: 32 bytes, little endian, to ten limbs and back. Reading takes the
  low 255 bits; writing finds the quotient by the prime from the top limb alone, reduces with carries
  that round down, and writes the unique representative below \<open>2^255 - 19\<close>.
\<close>

definition fe_frombytes :: "u8 list \<Rightarrow> fe" where
  "fe_frombytes s =
     store_limbs (carries conv_carries
       [load_4 s 0, push_bit 6 (load_3 s 4), push_bit 5 (load_3 s 7), push_bit 3 (load_3 s 10),
        push_bit 2 (load_3 s 13), load_4 s 16, push_bit 7 (load_3 s 20), push_bit 5 (load_3 s 23),
        push_bit 4 (load_3 s 26), push_bit 2 (load_3 s 29 AND 8388607)])"

text \<open>The quotient, the reduced limbs, and the 32 stores of \<open>fe_tobytes\<close>.\<close>

definition tobytes_q :: "fe \<Rightarrow> i32" where
  "tobytes_q h =
     (let h0 = h ! 0; h1 = h ! 1; h2 = h ! 2; h3 = h ! 3; h4 = h ! 4; h5 = h ! 5; h6 = h ! 6; h7 = h ! 7;
          h8 = h ! 8; h9 = h ! 9; q = sar (19 * h9 + push_bit 24 1) 25; q = sar (h0 + q) 26;
          q = sar (h1 + q) 25; q = sar (h2 + q) 26; q = sar (h3 + q) 25; q = sar (h4 + q) 26;
          q = sar (h5 + q) 25; q = sar (h6 + q) 26; q = sar (h7 + q) 25; q = sar (h8 + q) 26;
          q = sar (h9 + q) 25
      in q)"

definition tobytes_limbs :: "i32 \<Rightarrow> fe \<Rightarrow> fe" where
  "tobytes_limbs q h =
     (let h0 = h ! 0; h1 = h ! 1; h2 = h ! 2; h3 = h ! 3; h4 = h ! 4; h5 = h ! 5; h6 = h ! 6; h7 = h ! 7;
          h8 = h ! 8; h9 = h ! 9; h0 = h0 + 19 * q; carry0 = sar h0 26; h1 = h1 + carry0;
          h0 = h0 - push_bit 26 carry0; carry1 = sar h1 25; h2 = h2 + carry1; h1 = h1 - push_bit 25 carry1;
          carry2 = sar h2 26; h3 = h3 + carry2; h2 = h2 - push_bit 26 carry2; carry3 = sar h3 25;
          h4 = h4 + carry3; h3 = h3 - push_bit 25 carry3; carry4 = sar h4 26; h5 = h5 + carry4;
          h4 = h4 - push_bit 26 carry4; carry5 = sar h5 25; h6 = h6 + carry5; h5 = h5 - push_bit 25 carry5;
          carry6 = sar h6 26; h7 = h7 + carry6; h6 = h6 - push_bit 26 carry6; carry7 = sar h7 25;
          h8 = h8 + carry7; h7 = h7 - push_bit 25 carry7; carry8 = sar h8 26; h9 = h9 + carry8;
          h8 = h8 - push_bit 26 carry8; carry9 = sar h9 25; h9 = h9 - push_bit 25 carry9
      in [h0, h1, h2, h3, h4, h5, h6, h7, h8, h9])"

definition tobytes_store :: "fe \<Rightarrow> u8 list" where
  "tobytes_store h =
     (let h0 = h ! 0; h1 = h ! 1; h2 = h ! 2; h3 = h ! 3; h4 = h ! 4; h5 = h ! 5; h6 = h ! 6; h7 = h ! 7;
          h8 = h ! 8; h9 = h ! 9
      in [ucast (sar h0 0), ucast (sar h0 8), ucast (sar h0 16), ucast (sar h0 24 OR push_bit 2 h1),
          ucast (sar h1 6), ucast (sar h1 14), ucast (sar h1 22 OR push_bit 3 h2), ucast (sar h2 5),
          ucast (sar h2 13), ucast (sar h2 21 OR push_bit 5 h3), ucast (sar h3 3), ucast (sar h3 11),
          ucast (sar h3 19 OR push_bit 6 h4), ucast (sar h4 2), ucast (sar h4 10), ucast (sar h4 18),
          ucast (sar h5 0), ucast (sar h5 8), ucast (sar h5 16), ucast (sar h5 24 OR push_bit 1 h6),
          ucast (sar h6 7), ucast (sar h6 15), ucast (sar h6 23 OR push_bit 3 h7), ucast (sar h7 5),
          ucast (sar h7 13), ucast (sar h7 21 OR push_bit 4 h8), ucast (sar h8 4), ucast (sar h8 12),
          ucast (sar h8 20 OR push_bit 6 h9), ucast (sar h9 2), ucast (sar h9 10), ucast (sar h9 18)])"

definition fe_tobytes :: "fe \<Rightarrow> u8 list" where
  "fe_tobytes h = tobytes_store (tobytes_limbs (tobytes_q h) h)"

definition fe_isnegative :: "fe \<Rightarrow> i32" where
  "fe_isnegative f = ucast (fe_tobytes f ! 0) AND 1"

definition fe_isnonzero :: "fe \<Rightarrow> bool" where
  "fe_isnonzero f = (let s = fe_tobytes f in foldl (\<lambda>r i. r OR s ! i) (s ! 0) [1..<32] \<noteq> 0)"

text \<open>Reading: the low 255 bits, congruent modulo the prime, in small limbs.\<close>

definition frombytes_sizes :: "int list" where
  "frombytes_sizes = [2 ^ 32, 2 ^ 30, 2 ^ 29, 2 ^ 27, 2 ^ 26, 2 ^ 32, 2 ^ 31, 2 ^ 29, 2 ^ 28, 2 ^ 25]"

lemma carried_frombytes: "carried conv_carries frombytes_sizes fe_tight"
  by code_simp

lemma bounded_Cons: "bounded (b # bs) (x # xs) \<longleftrightarrow> \<bar>x\<bar> \<le> b \<and> bounded bs xs" "bounded [] []"
  by (auto simp: bounded_def less_Suc_eq_0_disj nth_Cons')

lemma le_int_load:
  "le_int (map ((!) s) [k, k + 1, k + 2]) = uint (load_3 s k)"
  "le_int (map ((!) s) [k, k + 1, k + 2, k + 3]) = uint (load_4 s k)"
  unfolding uint_load by simp_all

lemma upt32: "[0..<32] = ([0, 0 + 1, 0 + 2, 0 + 3] @ [4, 4 + 1, 4 + 2] @ [7, 7 + 1, 7 + 2] @ [10, 10 + 1, 10 + 2] @
    [13, 13 + 1, 13 + 2] @ [16, 16 + 1, 16 + 2, 16 + 3] @ [20, 20 + 1, 20 + 2] @ [23, 23 + 1, 23 + 2] @
    [26, 26 + 1, 26 + 2]) @ [29, 29 + 1, 29 + 2 :: nat]"
  by code_simp

text \<open>The loads cut the 32 bytes into ten runs.\<close>

lemma le_int_loads:
  assumes "length s = 32"
  obtains l where "le_int s = l + uint (load_3 s 29) * 2 ^ 232" "0 \<le> l" "l < 2 ^ 232"
    "l = uint (load_4 s 0) + 2 ^ 32 * (uint (load_3 s 4) + 2 ^ 24 * (uint (load_3 s 7) + 2 ^ 24 *
      (uint (load_3 s 10) + 2 ^ 24 * (uint (load_3 s 13) + 2 ^ 24 * (uint (load_4 s 16) + 2 ^ 32 *
      (uint (load_3 s 20) + 2 ^ 24 * (uint (load_3 s 23) + 2 ^ 24 * uint (load_3 s 26))))))))"
proof -
  let ?is = "[0, 0 + 1, 0 + 2, 0 + 3] @ [4, 4 + 1, 4 + 2] @ [7, 7 + 1, 7 + 2] @ [10, 10 + 1, 10 + 2] @
    [13, 13 + 1, 13 + 2] @ [16, 16 + 1, 16 + 2, 16 + 3] @ [20, 20 + 1, 20 + 2] @ [23, 23 + 1, 23 + 2] @
    [26, 26 + 1, 26 + 2 :: nat]"
  have "s = map ((!) s) (?is @ [29, 29 + 1, 29 + 2])"
    using map_nth [of s] unfolding assms upt32 by (rule sym)
  then have "le_int s = le_int (map ((!) s) (?is @ [29, 29 + 1, 29 + 2]))" by (rule arg_cong)
  also have "\<dots> = le_int (map ((!) s) ?is) + uint (load_3 s 29) * 2 ^ 232"
    unfolding map_append le_int_append le_int_load by simp
  finally show thesis
  proof (rule that)
    show "0 \<le> le_int (map ((!) s) ?is)" "le_int (map ((!) s) ?is) < 2 ^ 232"
      using le_int_bounds [of "map ((!) s) ?is"] by simp_all
    show "le_int (map ((!) s) ?is) = uint (load_4 s 0) + 2 ^ 32 * (uint (load_3 s 4) + 2 ^ 24 * (uint (load_3 s 7) + 2 ^ 24 *
      (uint (load_3 s 10) + 2 ^ 24 * (uint (load_3 s 13) + 2 ^ 24 * (uint (load_4 s 16) + 2 ^ 32 *
      (uint (load_3 s 20) + 2 ^ 24 * (uint (load_3 s 23) + 2 ^ 24 * uint (load_3 s 26))))))))"
      unfolding map_append le_int_append le_int_load by simp
  qed
qed

lemma frombytes_value:
  assumes "length s = 32"
  shows "fval [uint (load_4 s 0), uint (load_3 s 4) * 2 ^ 6, uint (load_3 s 7) * 2 ^ 5,
     uint (load_3 s 10) * 2 ^ 3, uint (load_3 s 13) * 2 ^ 2, uint (load_4 s 16),
     uint (load_3 s 20) * 2 ^ 7, uint (load_3 s 23) * 2 ^ 5, uint (load_3 s 26) * 2 ^ 4,
     uint (load_3 s 29) mod 2 ^ 23 * 2 ^ 2] = le_int s mod 2 ^ 255"
proof -
  obtain l where l: "le_int s = l + uint (load_3 s 29) * 2 ^ 232" "0 \<le> l" "l < 2 ^ 232"
    and loads: "l = uint (load_4 s 0) + 2 ^ 32 * (uint (load_3 s 4) + 2 ^ 24 * (uint (load_3 s 7) + 2 ^ 24 *
      (uint (load_3 s 10) + 2 ^ 24 * (uint (load_3 s 13) + 2 ^ 24 * (uint (load_4 s 16) + 2 ^ 32 *
      (uint (load_3 s 20) + 2 ^ 24 * (uint (load_3 s 23) + 2 ^ 24 * uint (load_3 s 26))))))))"
    by (rule le_int_loads [OF assms])
  have "le_int s mod 2 ^ 255 = l + uint (load_3 s 29) mod 2 ^ 23 * 2 ^ 232"
    using mod_split [OF l(2,3), of "2 ^ 23" "uint (load_3 s 29)"] l(1) by simp
  then show ?thesis unfolding fval_list loads by simp
qed

lemma fe_frombytes_ok:
  assumes "length s = 32"
  shows "fe_ok fe_tight (fe_frombytes s)" "fe_val (fe_frombytes s) mod fe_p = le_int s mod 2 ^ 255 mod fe_p"
proof -
  let ?h = "[uint (load_4 s 0), uint (load_3 s 4) * 2 ^ 6, uint (load_3 s 7) * 2 ^ 5,
     uint (load_3 s 10) * 2 ^ 3, uint (load_3 s 13) * 2 ^ 2, uint (load_4 s 16),
     uint (load_3 s 20) * 2 ^ 7, uint (load_3 s 23) * 2 ^ 5, uint (load_3 s 26) * 2 ^ 4,
     uint (load_3 s 29) mod 2 ^ 23 * 2 ^ 2]"
  have l: "uint (load_3 s k) < 2 ^ 24 \<and> 0 \<le> uint (load_3 s k)"
    "uint (load_4 s k) < 2 ^ 32 \<and> 0 \<le> uint (load_4 s k)" for k
    unfolding uint_load using uint_bytes [of "s ! k"] uint_bytes [of "s ! (k + 1)"]
      uint_bytes [of "s ! (k + 2)"] uint_bytes [of "s ! (k + 3)"] by simp_all
  have b: "bounded frombytes_sizes ?h"
    unfolding frombytes_sizes_def using l [of 0] l [of 4] l [of 7] l [of 10] l [of 13] l [of 16]
      l [of 20] l [of 23] l [of 26] pos_mod_bound [of "2 ^ 23" "uint (load_3 s 29)"]
    by (simp add: bounded_Cons)
  have words: "[load_4 s 0, push_bit 6 (load_3 s 4), push_bit 5 (load_3 s 7), push_bit 3 (load_3 s 10),
        push_bit 2 (load_3 s 13), load_4 s 16, push_bit 7 (load_3 s 20), push_bit 5 (load_3 s 23),
        push_bit 4 (load_3 s 26), push_bit 2 (load_3 s 29 AND 8388607)] = map of_int ?h"
  proof -
    have m: "load_3 s 29 AND 8388607 = of_int (uint (load_3 s 29) mod 2 ^ 23)"
    proof -
      have "load_3 s 29 AND 8388607 = take_bit 23 (load_3 s 29)"
        by (simp add: take_bit_eq_mask mask_eq_exp_minus_1)
      then show ?thesis by (simp add: take_bit_eq_mod word_uint_eq_iff uint_mod uint_word_of_int)
    qed
    show ?thesis unfolding m by (simp add: push_bit_eq_mult)
  qed
  show "fe_ok fe_tight (fe_frombytes s)"
    "fe_val (fe_frombytes s) mod fe_p = le_int s mod 2 ^ 255 mod fe_p"
    unfolding fe_frombytes_def words
    using carried_limbs [OF b carried_frombytes, of "le_int s mod 2 ^ 255"] frombytes_value [OF assms]
    by simp_all
qed

end
