(* ===== verification/Field_Tobytes.thy ===== *)
theory Field_Tobytes
  imports Field_Bytes
begin

text \<open>
  The proof that \<open>fe_tobytes\<close> writes the least non-negative residue: the quotient read off the limbs is
  the quotient of the value by the prime, the reduced limbs are its digits in the mixed radix, and the
  32 stores are their bits.
\<close>

lemma sint_sar_add:
  fixes x y :: i32
  assumes "\<bar>sint x\<bar> \<le> 2 ^ 27" "\<bar>sint y\<bar> \<le> 64"
  shows "sint (sar (x + y) n) = (sint x + sint y) div 2 ^ n"
  using sint_add_sub(1) [of x y] assms by (simp add: sint_sar)

lemma quotient_small:
  fixes x y :: int
  assumes "\<bar>x\<bar> \<le> 2 ^ 27" "\<bar>y\<bar> \<le> 64" "25 \<le> n"
  shows "\<bar>(x + y) div 2 ^ n\<bar> \<le> 64"
proof -
  have p: "(2 ^ 25 :: int) \<le> 2 ^ n" using assms(3) by (intro power_increasing) auto
  then have "64 * 2 ^ n \<ge> (2 ^ 31 :: int)" by simp
  then have "\<bar>x + y\<bar> \<le> 64 * 2 ^ n" using assms(1,2) by auto
  then show ?thesis by (rule abs_div_le) simp
qed

text \<open>One step of the quotient, and how the steps nest.\<close>

lemma quotient_step:
  fixes x y :: i32
  assumes "\<bar>sint x\<bar> \<le> 2 ^ 27" "\<bar>sint y\<bar> \<le> 64" "25 \<le> n"
  shows "sint (sar (x + y) n) = (sint x + sint y) div 2 ^ n" "\<bar>sint (sar (x + y) n)\<bar> \<le> 64"
  using sint_sar_add [OF assms(1,2)] quotient_small [OF assms] by simp_all

lemma div_nest: "(x + (y div a)) div b = (y + a * x) div (a * b)" if "0 < a" "0 \<le> b" for x y a b :: int
proof -
  have "(y + a * x) div a = x + y div a" using that by (simp add: add.commute)
  then show ?thesis using zdiv_zmult2_eq [of b "y + a * x" a] that by simp
qed

lemma quotient_chain:
  fixes x y :: i32
  assumes "sint (sar (x + y) n) = (sint x + sint y) div 2 ^ n" "sint y = w div 2 ^ m"
  shows "sint (sar (x + y) n) = (w + 2 ^ m * sint x) div 2 ^ (m + n)"
  using div_nest [of "2 ^ m" "2 ^ n" "sint x" w] by (simp add: assms power_add)

lemma wide_limbs:
  assumes "fe_ok fe_wide h"
  shows "length h = 10" "i < 10 \<Longrightarrow> \<bar>sint (h ! i)\<bar> \<le> 73819750" "odd i \<Longrightarrow> i < 10 \<Longrightarrow> \<bar>sint (h ! i)\<bar> \<le> 36909875"
  using assms unfolding fe_wide_def fe_ok_sizes by (auto split: if_splits intro: order_trans)

lemma fe_val_list:
  assumes "length h = 10"
  shows "fe_val h = sint (h ! 0) + sint (h ! 1) * 2 ^ 26 + sint (h ! 2) * 2 ^ 51 + sint (h ! 3) * 2 ^ 77 +
    sint (h ! 4) * 2 ^ 102 + sint (h ! 5) * 2 ^ 128 + sint (h ! 6) * 2 ^ 153 + sint (h ! 7) * 2 ^ 179 +
    sint (h ! 8) * 2 ^ 204 + sint (h ! 9) * 2 ^ 230"
  using assms unfolding fe_val_def fe_ints_def
  by (auto simp: fval_list elim!: length10)

lemma fe_val_of_list:
  "fe_val [a, b, c, d, e, f, g, h, i, j] = sint a + sint b * 2 ^ 26 + sint c * 2 ^ 51 + sint d * 2 ^ 77 +
    sint e * 2 ^ 102 + sint f * 2 ^ 128 + sint g * 2 ^ 153 + sint h * 2 ^ 179 + sint i * 2 ^ 204 + sint j * 2 ^ 230"
  by (simp add: fe_val_def fe_ints_def fval_list)

lemma first_quotient:
  assumes "\<bar>sint (h9 :: i32)\<bar> \<le> 36909875"
  shows "sint (sar (19 * h9 + push_bit 24 1) 25) = (19 * sint h9 + 2 ^ 24) div 2 ^ 25"
    "\<bar>(19 * sint h9 + 2 ^ 24) div 2 ^ 25\<bar> \<le> 64"
proof -
  have "19 * h9 + push_bit 24 1 = of_int (19 * sint h9 + 2 ^ 24)" by (simp add: push_bit_eq_mult)
  moreover have "in32 (19 * sint h9 + 2 ^ 24)" using assms by (intro in32_abs) auto
  ultimately show "sint (sar (19 * h9 + push_bit 24 1) 25) = (19 * sint h9 + 2 ^ 24) div 2 ^ 25"
    by (simp only: sint_sar sint_of_int32)
  show "\<bar>(19 * sint h9 + 2 ^ 24) div 2 ^ 25\<bar> \<le> 64"
    using assms by (intro abs_div_le) simp_all
qed

lemma tobytes_q_div:
  assumes "fe_ok fe_wide h"
  shows "sint (tobytes_q h) = (fe_val h + (19 * sint (h ! 9) + 2 ^ 24) div 2 ^ 25) div 2 ^ 255"
    "\<bar>sint (tobytes_q h)\<bar> \<le> 64"
proof -
  let ?H = "\<lambda>i. sint (h ! i)"
  have w: "\<bar>?H i\<bar> \<le> 2 ^ 27" if "i < 10" for i using wide_limbs(2) [OF assms that] by simp
  have w9: "\<bar>?H 9\<bar> \<le> 36909875" using wide_limbs(3) [OF assms, of 9] by simp
  let ?q = "sar (19 * h ! 9 + push_bit 24 1) 25"
  have q: "\<bar>sint ?q\<bar> \<le> 64" using first_quotient [OF w9] by simp
  have wl: "\<bar>?H 0\<bar> \<le> 2 ^ 27" "\<bar>?H 1\<bar> \<le> 2 ^ 27" "\<bar>?H 2\<bar> \<le> 2 ^ 27" "\<bar>?H 3\<bar> \<le> 2 ^ 27"
    "\<bar>?H 4\<bar> \<le> 2 ^ 27" "\<bar>?H 5\<bar> \<le> 2 ^ 27" "\<bar>?H 6\<bar> \<le> 2 ^ 27" "\<bar>?H 7\<bar> \<le> 2 ^ 27"
    "\<bar>?H 8\<bar> \<le> 2 ^ 27" "\<bar>?H 9\<bar> \<le> 2 ^ 27" by (rule w; simp)+
  have n25: "25 \<le> (25 :: nat)" and n26: "25 \<le> (26 :: nat)" by simp_all
  note s0 = quotient_step [OF wl(1) q n26]
  note s1 = quotient_step [OF wl(2) s0(2) n25]
  note s2 = quotient_step [OF wl(3) s1(2) n26]
  note s3 = quotient_step [OF wl(4) s2(2) n25]
  note s4 = quotient_step [OF wl(5) s3(2) n26]
  note s5 = quotient_step [OF wl(6) s4(2) n25]
  note s6 = quotient_step [OF wl(7) s5(2) n26]
  note s7 = quotient_step [OF wl(8) s6(2) n25]
  note s8 = quotient_step [OF wl(9) s7(2) n26]
  note s9 = quotient_step [OF wl(10) s8(2) n25]
  have v: "sint ?q = sint ?q div 2 ^ 0" by simp
  note v0 = quotient_chain [OF s0(1) v]
  note v1 = quotient_chain [OF s1(1) v0]
  note v2 = quotient_chain [OF s2(1) v1]
  note v3 = quotient_chain [OF s3(1) v2]
  note v4 = quotient_chain [OF s4(1) v3]
  note v5 = quotient_chain [OF s5(1) v4]
  note v6 = quotient_chain [OF s6(1) v5]
  note v7 = quotient_chain [OF s7(1) v6]
  note v8 = quotient_chain [OF s8(1) v7]
  note v9 = quotient_chain [OF s9(1) v8]
  have "sint (tobytes_q h) = (fe_val h + sint ?q) div 2 ^ 255"
    unfolding tobytes_q_def Let_def v9
    by (rule arg_cong2 [where f = "(div)"]) (simp_all add: fe_val_list [OF wide_limbs(1) [OF assms]])
  then show "sint (tobytes_q h) = (fe_val h + (19 * sint (h ! 9) + 2 ^ 24) div 2 ^ 25) div 2 ^ 255"
    by (simp only: first_quotient [OF w9])
  show "\<bar>sint (tobytes_q h)\<bar> \<le> 64" unfolding tobytes_q_def Let_def using s9(2) by simp
qed

text \<open>The quotient by \<open>2^255\<close> after the correction from the top limb is the quotient by the prime.\<close>

lemma corrected_quotient:
  fixes V q r h q0 :: int
  assumes V: "V = fe_p * q + r" "0 \<le> r" "r < fe_p"
    and top: "\<bar>V - h * 2 ^ 230\<bar> < 2 ^ 232"
    and q0: "2 ^ 25 * q0 \<le> 19 * h + 2 ^ 24" "19 * h + 2 ^ 24 < 2 ^ 25 * (q0 + 1)"
    and q: "\<bar>q\<bar> \<le> 16"
  shows "(V + q0) div 2 ^ 255 = q"
proof -
  have "0 \<le> r - 19 * q + q0"
    using assms unfolding fe_p_def by (simp add: abs_less_iff abs_le_iff)
  moreover have "r - 19 * q + q0 < 2 ^ 255"
    using assms unfolding fe_p_def by (simp add: abs_less_iff abs_le_iff)
  moreover have "V + q0 = (r - 19 * q + q0) + q * 2 ^ 255"
    using V(1) by (simp add: fe_p_def)
  ultimately show ?thesis by simp
qed

lemma tobytes_q_exact:
  assumes "fe_ok fe_wide h"
  shows "sint (tobytes_q h) = fe_val h div fe_p"
proof -
  let ?H = "\<lambda>i. sint (h ! i)"
  have w: "\<bar>?H i\<bar> \<le> 73819750" if "i < 10" for i using wide_limbs(2) [OF assms that] .
  have w9: "\<bar>?H 9\<bar> \<le> 36909875" using wide_limbs(3) [OF assms, of 9] by simp
  have V: "fe_val h = ?H 0 + ?H 1 * 2 ^ 26 + ?H 2 * 2 ^ 51 + ?H 3 * 2 ^ 77 + ?H 4 * 2 ^ 102 + ?H 5 * 2 ^ 128 +
    ?H 6 * 2 ^ 153 + ?H 7 * 2 ^ 179 + ?H 8 * 2 ^ 204 + ?H 9 * 2 ^ 230"
    by (rule fe_val_list [OF wide_limbs(1) [OF assms]])
  have top: "\<bar>fe_val h - ?H 9 * 2 ^ 230\<bar> < 2 ^ 232"
    unfolding V using w [of 0] w [of 1] w [of 2] w [of 3] w [of 4] w [of 5] w [of 6] w [of 7] w [of 8]
    by (simp add: abs_less_iff abs_le_iff)
  have d: "2 ^ 25 * ((19 * ?H 9 + 2 ^ 24) div 2 ^ 25) \<le> 19 * ?H 9 + 2 ^ 24"
    "19 * ?H 9 + 2 ^ 24 < 2 ^ 25 * ((19 * ?H 9 + 2 ^ 24) div 2 ^ 25 + 1)"
    by (simp_all add: div_mult_mod_eq)
  have "\<bar>fe_val h div fe_p\<bar> \<le> 16"
    using top w9 by (intro abs_div_le) (simp_all add: abs_less_iff abs_le_iff fe_p_def)
  from corrected_quotient [OF _ _ _ top d this, of "fe_val h mod fe_p"]
  show ?thesis unfolding tobytes_q_div(1) [OF assms] by (simp add: fe_p_def)
qed

lemma tobytes_q_small:
  assumes "fe_ok fe_wide h"
  shows "\<bar>sint (tobytes_q h)\<bar> \<le> 3"
proof -
  let ?H = "\<lambda>i. sint (h ! i)"
  have w: "\<bar>?H i\<bar> \<le> 73819750" if "i < 10" for i using wide_limbs(2) [OF assms that] .
  have "\<bar>?H 9\<bar> \<le> 36909875" using wide_limbs(3) [OF assms, of 9] by simp
  then have "\<bar>fe_val h\<bar> \<le> 3 * fe_p"
    unfolding fe_val_list [OF wide_limbs(1) [OF assms]] fe_p_def
    using w [of 0] w [of 1] w [of 2] w [of 3] w [of 4] w [of 5] w [of 6] w [of 7] w [of 8]
    by (simp add: abs_le_iff)
  then show ?thesis unfolding tobytes_q_exact [OF assms] by (rule abs_div_le) (simp add: fe_p_def)
qed

text \<open>The carries that round down leave the digits of the mixed radix.\<close>

definition reduced :: "fe \<Rightarrow> bool" where
  "reduced f \<longleftrightarrow> length f = 10 \<and> (\<forall>i < 10. 0 \<le> sint (f ! i) \<and> sint (f ! i) < 2 ^ limb_bits i)"

lemma sint_low_bits:
  fixes z :: i32
  assumes "n < 31"
  shows "sint (z - push_bit n (sar z n)) = sint z mod 2 ^ n"
proof -
  have "z - push_bit n (sar z n) = of_int (sint z - sint z div 2 ^ n * 2 ^ n)"
    by (simp add: push_bit_eq_mult sint_sar [symmetric] del: sint_sar)
  also have "sint z - sint z div 2 ^ n * 2 ^ n = sint z mod 2 ^ n"
    by (rule minus_div_mult_eq_mod)
  finally have z: "z - push_bit n (sar z n) = of_int (sint z mod 2 ^ n)" .
  have "(2 :: int) ^ n < 2 ^ 31" using assms by (intro power_strict_increasing) auto
  moreover have "sint z mod 2 ^ n < 2 ^ n" "0 \<le> sint z mod 2 ^ n" by simp_all
  ultimately have "in32 (sint z mod 2 ^ n)" by (intro in32_abs) linarith
  then show ?thesis unfolding z by (rule sint_of_int32)
qed

lemma digit_step:
  fixes x y :: i32
  assumes "\<bar>sint x\<bar> \<le> 2 ^ 27" "\<bar>sint y\<bar> \<le> 64" "25 \<le> n" "n < 31"
  shows "sint (x + y - push_bit n (sar (x + y) n)) = sint x + sint y - sint (sar (x + y) n) * 2 ^ n"
    "0 \<le> sint (x + y - push_bit n (sar (x + y) n))" "sint (x + y - push_bit n (sar (x + y) n)) < 2 ^ n"
    "\<bar>sint (sar (x + y) n)\<bar> \<le> 64"
proof -
  have s: "sint (x + y) = sint x + sint y" using sint_add_sub(1) [of x y] assms by simp
  show "sint (x + y - push_bit n (sar (x + y) n)) = sint x + sint y - sint (sar (x + y) n) * 2 ^ n"
    unfolding sint_low_bits [OF assms(4)] quotient_step(1) [OF assms(1-3)] s
    by (rule minus_div_mult_eq_mod [symmetric])
  show "0 \<le> sint (x + y - push_bit n (sar (x + y) n))" "sint (x + y - push_bit n (sar (x + y) n)) < 2 ^ n"
    unfolding sint_low_bits [OF assms(4)] by simp_all
  show "\<bar>sint (sar (x + y) n)\<bar> \<le> 64" by (rule quotient_step(2) [OF assms(1-3)])
qed

lemma reduced_list:
  "reduced [a, b, c, d, e, f, g, h, i, j] \<longleftrightarrow>
    (0 \<le> sint a \<and> sint a < 2 ^ 26) \<and> (0 \<le> sint b \<and> sint b < 2 ^ 25) \<and> (0 \<le> sint c \<and> sint c < 2 ^ 26) \<and>
    (0 \<le> sint d \<and> sint d < 2 ^ 25) \<and> (0 \<le> sint e \<and> sint e < 2 ^ 26) \<and> (0 \<le> sint f \<and> sint f < 2 ^ 25) \<and>
    (0 \<le> sint g \<and> sint g < 2 ^ 26) \<and> (0 \<le> sint h \<and> sint h < 2 ^ 25) \<and> (0 \<le> sint i \<and> sint i < 2 ^ 26) \<and>
    (0 \<le> sint j \<and> sint j < 2 ^ 25)"
  unfolding reduced_def less10 by (simp add: limb_bits_def imp_disjL all_conj_distrib)

lemma reduced_bounds:
  assumes "reduced f"
  shows "0 \<le> fe_val f" "fe_val f < 2 ^ 255"
proof -
  obtain a b c d e g h i j k where f: "f = [a, b, c, d, e, g, h, i, j, k]"
    using assms by (auto simp: reduced_def elim!: length10)
  show "0 \<le> fe_val f" "fe_val f < 2 ^ 255"
    using assms unfolding f reduced_list fe_val_of_list by simp_all
qed

lemma tobytes_limbs_ok:
  assumes "fe_ok fe_wide h" "\<bar>sint q\<bar> \<le> 3"
  shows "reduced (tobytes_limbs q h)" "fe_val (tobytes_limbs q h) = (fe_val h + 19 * sint q) mod 2 ^ 255"
proof -
  let ?H = "\<lambda>i. sint (h ! i)"
  have w: "\<bar>?H i\<bar> \<le> 2 ^ 27" if "i < 10" for i using wide_limbs(2) [OF assms(1) that] by simp
  have wl: "\<bar>?H 0\<bar> \<le> 2 ^ 27" "\<bar>?H 1\<bar> \<le> 2 ^ 27" "\<bar>?H 2\<bar> \<le> 2 ^ 27" "\<bar>?H 3\<bar> \<le> 2 ^ 27"
    "\<bar>?H 4\<bar> \<le> 2 ^ 27" "\<bar>?H 5\<bar> \<le> 2 ^ 27" "\<bar>?H 6\<bar> \<le> 2 ^ 27" "\<bar>?H 7\<bar> \<le> 2 ^ 27"
    "\<bar>?H 8\<bar> \<le> 2 ^ 27" "\<bar>?H 9\<bar> \<le> 2 ^ 27" by (rule w; simp)+
  have n: "25 \<le> (25 :: nat)" "25 < (31 :: nat)" "25 \<le> (26 :: nat)" "26 < (31 :: nat)" by simp_all
  have q: "sint (19 * q) = 19 * sint q"
    using sint_of_int32 [of "19 * sint q"] assms(2) by (simp add: in32_abs)
  then have q19: "\<bar>sint (19 * q)\<bar> \<le> 64" using assms(2) by simp
  note s0 = digit_step [OF wl(1) q19 n(3,4)]
  note s1 = digit_step [OF wl(2) s0(4) n(1,2)]
  note s2 = digit_step [OF wl(3) s1(4) n(3,4)]
  note s3 = digit_step [OF wl(4) s2(4) n(1,2)]
  note s4 = digit_step [OF wl(5) s3(4) n(3,4)]
  note s5 = digit_step [OF wl(6) s4(4) n(1,2)]
  note s6 = digit_step [OF wl(7) s5(4) n(3,4)]
  note s7 = digit_step [OF wl(8) s6(4) n(1,2)]
  note s8 = digit_step [OF wl(9) s7(4) n(3,4)]
  note s9 = digit_step [OF wl(10) s8(4) n(1,2)]
  show red: "reduced (tobytes_limbs q h)"
    unfolding tobytes_limbs_def Let_def reduced_list
    by (intro conjI) (fact s0 s1 s2 s3 s4 s5 s6 s7 s8 s9)+
  let ?c0 = "sar (h ! 0 + 19 * q) 26"
  let ?c1 = "sar (h ! 1 + ?c0) 25"
  let ?c2 = "sar (h ! 2 + ?c1) 26"
  let ?c3 = "sar (h ! 3 + ?c2) 25"
  let ?c4 = "sar (h ! 4 + ?c3) 26"
  let ?c5 = "sar (h ! 5 + ?c4) 25"
  let ?c6 = "sar (h ! 6 + ?c5) 26"
  let ?c7 = "sar (h ! 7 + ?c6) 25"
  let ?c8 = "sar (h ! 8 + ?c7) 26"
  let ?c9 = "sar (h ! 9 + ?c8) 25"
  have c: "fe_val (tobytes_limbs q h) = fe_val h + 19 * sint q - 2 ^ 255 * sint ?c9"
    unfolding tobytes_limbs_def Let_def fe_val_of_list fe_val_list [OF wide_limbs(1) [OF assms(1)]]
      s0(1) s1(1) s2(1) s3(1) s4(1) s5(1) s6(1) s7(1) s8(1) s9(1) q
    by (simp add: algebra_simps)
  have "fe_val (tobytes_limbs q h) = fe_val (tobytes_limbs q h) mod 2 ^ 255"
    using reduced_bounds [OF red] by simp
  also have "\<dots> = (fe_val h + 19 * sint q) mod 2 ^ 255" unfolding c by (simp add: mod_diff_right_eq [symmetric])
  finally show "fe_val (tobytes_limbs q h) = (fe_val h + 19 * sint q) mod 2 ^ 255" .
qed

text \<open>The stores.\<close>

lemma assemble_bytes:
  fixes a b c d e g h i j k :: int
  assumes "a = a0 + 2 ^ 8 * a1 + 2 ^ 16 * a2 + 2 ^ 24 * a3"
    "b = b0 + 2 ^ 6 * b1 + 2 ^ 14 * b2 + 2 ^ 22 * b3"
    "c = c0 + 2 ^ 5 * c1 + 2 ^ 13 * c2 + 2 ^ 21 * c3"
    "d = d0 + 2 ^ 3 * d1 + 2 ^ 11 * d2 + 2 ^ 19 * d3"
    "e = e0 + 2 ^ 2 * e1 + 2 ^ 10 * e2 + 2 ^ 18 * e3"
    "g = g0 + 2 ^ 8 * g1 + 2 ^ 16 * g2 + 2 ^ 24 * g3"
    "h = h0 + 2 ^ 7 * h1 + 2 ^ 15 * h2 + 2 ^ 23 * h3"
    "i = i0 + 2 ^ 5 * i1 + 2 ^ 13 * i2 + 2 ^ 21 * i3"
    "j = j0 + 2 ^ 4 * j1 + 2 ^ 12 * j2 + 2 ^ 20 * j3"
    "k = k0 + 2 ^ 2 * k1 + 2 ^ 10 * k2 + 2 ^ 18 * k3"
  shows "a0 + 256 * (a1 + 256 * (a2 + 256 * (a3 + 2 ^ 2 * b0 + 256 * (b1 + 256 * (b2 + 256 * (b3 + 2 ^ 3 * c0
    + 256 * (c1 + 256 * (c2 + 256 * (c3 + 2 ^ 5 * d0 + 256 * (d1 + 256 * (d2 + 256 * (d3 + 2 ^ 6 * e0 +
    256 * (e1 + 256 * (e2 + 256 * (e3 + 256 * (g0 + 256 * (g1 + 256 * (g2 + 256 * (g3 + 2 ^ 1 * h0 + 256
    * (h1 + 256 * (h2 + 256 * (h3 + 2 ^ 3 * i0 + 256 * (i1 + 256 * (i2 + 256 * (i3 + 2 ^ 4 * j0 + 256 *
    (j1 + 256 * (j2 + 256 * (j3 + 2 ^ 6 * k0 + 256 * (k1 + 256 * (k2 + 256 * (k3 + 256 *
    (0))))))))))))))))))))))))))))))))
    = a + b * 2 ^ 26 + c * 2 ^ 51 + d * 2 ^ 77 + e * 2 ^ 102 + g * 2 ^ 128 + h * 2 ^ 153 + i * 2 ^ 179 + j * 2 ^ 204 + k * 2 ^ 230"
  unfolding assms by (simp add: algebra_simps)

lemma tobytes_store_ok:
  assumes "reduced f"
  shows "le_int (tobytes_store f) = fe_val f" "length (tobytes_store f) = 32"
proof -
  obtain a b c d e g h i j k where f: "f = [a, b, c, d, e, g, h, i, j, k]"
    using assms by (auto simp: reduced_def elim!: length10)
  note r = assms [unfolded f reduced_list]
  have one: "uint (ucast (sar x n) :: u8) = sint x div 2 ^ n mod 256" for x :: i32 and n
    by (rule one_limb_byte) simp
  have top: "x div 2 ^ 18 mod 256 = x div 2 ^ 18" if "0 \<le> x" "x < 2 ^ 26" for x :: int
    using div_less [of x 256 "2 ^ 18"] that by (simp add: pos_imp_zdiv_nonneg_iff)
  note sp = split_bytes [of "sint a" 8, unfolded numeral_plus_numeral add_num_simps]
    split_bytes [of "sint b" 6, unfolded numeral_plus_numeral add_num_simps]
    split_bytes [of "sint c" 5, unfolded numeral_plus_numeral add_num_simps]
    split_bytes [of "sint d" 3, unfolded numeral_plus_numeral add_num_simps]
    split_bytes [of "sint e" 2, unfolded numeral_plus_numeral add_num_simps]
    split_bytes [of "sint g" 8, unfolded numeral_plus_numeral add_num_simps]
    split_bytes [of "sint h" 7, unfolded numeral_plus_numeral add_num_simps]
    split_bytes [of "sint i" 5, unfolded numeral_plus_numeral add_num_simps]
    split_bytes [of "sint j" 4, unfolded numeral_plus_numeral add_num_simps]
    split_bytes [of "sint k" 2, unfolded numeral_plus_numeral add_num_simps]
  have nth: "[a, b, c, d, e, g, h, i, j, k] ! 0 = a" "[a, b, c, d, e, g, h, i, j, k] ! 1 = b"
     "[a, b, c, d, e, g, h, i, j, k] ! 2 = c" "[a, b, c, d, e, g, h, i, j, k] ! 3 = d"
     "[a, b, c, d, e, g, h, i, j, k] ! 4 = e" "[a, b, c, d, e, g, h, i, j, k] ! 5 = g"
     "[a, b, c, d, e, g, h, i, j, k] ! 6 = h" "[a, b, c, d, e, g, h, i, j, k] ! 7 = i"
     "[a, b, c, d, e, g, h, i, j, k] ! 8 = j" "[a, b, c, d, e, g, h, i, j, k] ! 9 = k"
    by simp_all
  have tw: "uint (ucast (sar a 24 OR push_bit 2 b) :: u8) = sint a div 2 ^ 24 + 2 ^ 2 * (sint b mod 2 ^ 6)"
    "uint (ucast (sar b 22 OR push_bit 3 c) :: u8) = sint b div 2 ^ 22 + 2 ^ 3 * (sint c mod 2 ^ 5)"
    "uint (ucast (sar c 21 OR push_bit 5 d) :: u8) = sint c div 2 ^ 21 + 2 ^ 5 * (sint d mod 2 ^ 3)"
    "uint (ucast (sar d 19 OR push_bit 6 e) :: u8) = sint d div 2 ^ 19 + 2 ^ 6 * (sint e mod 2 ^ 2)"
    "uint (ucast (sar g 24 OR push_bit 1 h) :: u8) = sint g div 2 ^ 24 + 2 ^ 1 * (sint h mod 2 ^ 7)"
    "uint (ucast (sar h 23 OR push_bit 3 i) :: u8) = sint h div 2 ^ 23 + 2 ^ 3 * (sint i mod 2 ^ 5)"
    "uint (ucast (sar i 21 OR push_bit 4 j) :: u8) = sint i div 2 ^ 21 + 2 ^ 4 * (sint j mod 2 ^ 4)"
    "uint (ucast (sar j 20 OR push_bit 6 k) :: u8) = sint j div 2 ^ 20 + 2 ^ 6 * (sint k mod 2 ^ 2)"
    by (rule two_limb_byte; use r in simp)+
  have tp: "sint e div 2 ^ 18 mod 256 = sint e div 2 ^ 18" "sint k div 2 ^ 18 mod 256 = sint k div 2 ^ 18"
    using top [of "sint e"] top [of "sint k"] r by simp_all
  have z: "sint a mod 2 ^ 8 = sint a div 2 ^ 0 mod 256" "sint g mod 2 ^ 8 = sint g div 2 ^ 0 mod 256" by simp_all
  show "le_int (tobytes_store f) = fe_val f"
    unfolding tobytes_store_def Let_def f fe_val_of_list le_int.simps
    by (rule trans [OF _ assemble_bytes [OF sp]]) (simp only: nth tw one tp z)
  show "length (tobytes_store f) = 32" by (simp add: tobytes_store_def Let_def)
qed

text \<open>The bytes written are the least residue.\<close>

lemma residue_255: "x = q * fe_p + r \<Longrightarrow> x + 19 * q = r + q * 2 ^ 255"
  by (simp add: fe_p_def algebra_simps)

lemma fe_tobytes_ok:
  assumes "fe_ok fe_wide h"
  shows "le_int (fe_tobytes h) = fe_val h mod fe_p" "length (fe_tobytes h) = 32"
proof -
  note lim = tobytes_limbs_ok [OF assms tobytes_q_small [OF assms]]
  have p: "(0 :: int) < fe_p" "fe_p < 2 ^ 255" by (simp_all add: fe_p_def)
  have "fe_val h + 19 * (fe_val h div fe_p) = fe_val h mod fe_p + fe_val h div fe_p * 2 ^ 255"
    by (rule residue_255) (simp only: div_mult_mod_eq)
  then have "(fe_val h + 19 * sint (tobytes_q h)) mod 2 ^ 255 = fe_val h mod fe_p mod 2 ^ 255"
    unfolding tobytes_q_exact [OF assms] by (simp only: mod_mult_self1)
  also have "\<dots> = fe_val h mod fe_p"
    by (rule mod_pos_pos_trivial) (use p pos_mod_bound [OF p(1), of "fe_val h"] pos_mod_sign [OF p(1), of "fe_val h"] in linarith)+
  finally show "le_int (fe_tobytes h) = fe_val h mod fe_p"
    unfolding fe_tobytes_def tobytes_store_ok(1) [OF lim(1)] lim(2) .
  show "length (fe_tobytes h) = 32"
    unfolding fe_tobytes_def by (rule tobytes_store_ok(2) [OF lim(1)])
qed

lemma fe_tobytes_cong:
  assumes "fe_ok fe_wide f" "fe_ok fe_wide g"
  shows "fe_tobytes f = fe_tobytes g \<longleftrightarrow> fe_val f mod fe_p = fe_val g mod fe_p"
  using fe_tobytes_ok [OF assms(1)] fe_tobytes_ok [OF assms(2)] le_int_inject [of "fe_tobytes f" "fe_tobytes g"]
  by auto

lemma fe_isnegative_ok:
  assumes "fe_ok fe_wide f"
  shows "fe_isnegative f = of_int (fe_val f mod fe_p mod 2)"
proof -
  obtain b bs where bs: "fe_tobytes f = b # bs" using fe_tobytes_ok(2) [OF assms] by (cases "fe_tobytes f") auto
  have "fe_val f mod fe_p mod 2 = uint b mod 2"
    unfolding fe_tobytes_ok(1) [OF assms, symmetric] bs by simp presburger
  moreover have "(ucast b AND 1 :: i32) = of_int (uint b mod 2)"
  proof -
    have "uint b mod 2 mod 2 ^ 32 = uint b mod 2" by (rule mod_pos_pos_trivial) (auto intro: less_trans [of _ 2])
    then show ?thesis
      by (simp add: and_one_eq word_uint_eq_iff uint_mod uint_up_ucast is_up uint_word_of_int)
  qed
  ultimately show ?thesis by (simp add: fe_isnegative_def bs)
qed

lemma all_less_first: "0 < n \<Longrightarrow> (\<forall>i < n. P i) \<longleftrightarrow> P 0 \<and> (\<forall>i \<in> set [1..<n]. P i)"
  by (auto simp: Suc_le_eq)

lemma or_bytes_zero: "foldl (\<lambda>r i. r OR s ! i) a is = (0 :: u8) \<longleftrightarrow> a = 0 \<and> (\<forall>i \<in> set is. s ! i = 0)"
  by (induction "is" arbitrary: a) (auto simp: or_eq_0_iff)

lemma fe_isnonzero_ok:
  assumes "fe_ok fe_wide f"
  shows "fe_isnonzero f \<longleftrightarrow> fe_val f mod fe_p \<noteq> 0"
proof -
  have "(\<forall>b \<in> set (fe_tobytes f). b = 0) \<longleftrightarrow> fe_tobytes f ! 0 = 0 \<and> (\<forall>i \<in> set [1..<32]. fe_tobytes f ! i = 0)"
    unfolding all_set_conv_all_nth [of "fe_tobytes f"] fe_tobytes_ok(2) [OF assms]
    by (rule all_less_first) simp
  then show ?thesis
    by (simp only: fe_isnonzero_def Let_def or_bytes_zero fe_tobytes_ok(1) [OF assms, symmetric] le_int_zero
        not_not simp_thms)
qed

end
