(* ===== verification/Field_Power.thy ===== *)
theory Field_Power
  imports Field_Tobytes
begin

text \<open>
  The addition chains of \<open>fe_invert\<close> and \<open>fe_pow22523\<close>: they compute the powers with exponents
  \<open>p - 2\<close> and \<open>(p - 5) / 8\<close>. The loop \<open>for (i = 1; i < n; ++i) fe_sq(t, t)\<close> is \<open>sq_loop n t\<close>.
\<close>

definition sq_loop :: "nat \<Rightarrow> fe \<Rightarrow> fe" where "sq_loop n t = (fe_sq ^^ (n - 1)) t"

definition fe_invert :: "fe \<Rightarrow> fe" where
  "fe_invert z =
     (let t0 = fe_sq z; t0 = sq_loop 1 t0;
          t1 = fe_sq t0; t1 = sq_loop 2 t1;
          t1 = fe_mul z t1;
          t0 = fe_mul t0 t1;
          t2 = fe_sq t0; t2 = sq_loop 1 t2;
          t1 = fe_mul t1 t2;
          t2 = fe_sq t1; t2 = sq_loop 5 t2;
          t1 = fe_mul t2 t1;
          t2 = fe_sq t1; t2 = sq_loop 10 t2;
          t2 = fe_mul t2 t1;
          t3 = fe_sq t2; t3 = sq_loop 20 t3;
          t2 = fe_mul t3 t2;
          t2 = fe_sq t2; t2 = sq_loop 10 t2;
          t1 = fe_mul t2 t1;
          t2 = fe_sq t1; t2 = sq_loop 50 t2;
          t2 = fe_mul t2 t1;
          t3 = fe_sq t2; t3 = sq_loop 100 t3;
          t2 = fe_mul t3 t2;
          t2 = fe_sq t2; t2 = sq_loop 50 t2;
          t1 = fe_mul t2 t1;
          t1 = fe_sq t1; t1 = sq_loop 5 t1
      in fe_mul t1 t0)"

definition fe_pow22523 :: "fe \<Rightarrow> fe" where
  "fe_pow22523 z =
     (let t0 = fe_sq z; t0 = sq_loop 1 t0;
          t1 = fe_sq t0; t1 = sq_loop 2 t1;
          t1 = fe_mul z t1;
          t0 = fe_mul t0 t1;
          t0 = fe_sq t0; t0 = sq_loop 1 t0;
          t0 = fe_mul t1 t0;
          t1 = fe_sq t0; t1 = sq_loop 5 t1;
          t0 = fe_mul t1 t0;
          t1 = fe_sq t0; t1 = sq_loop 10 t1;
          t1 = fe_mul t1 t0;
          t2 = fe_sq t1; t2 = sq_loop 20 t2;
          t1 = fe_mul t2 t1;
          t1 = fe_sq t1; t1 = sq_loop 10 t1;
          t0 = fe_mul t1 t0;
          t1 = fe_sq t0; t1 = sq_loop 50 t1;
          t1 = fe_mul t1 t0;
          t2 = fe_sq t1; t2 = sq_loop 100 t2;
          t1 = fe_mul t2 t1;
          t1 = fe_sq t1; t1 = sq_loop 50 t1;
          t0 = fe_mul t1 t0;
          t0 = fe_sq t0; t0 = sq_loop 2 t0
      in fe_mul t0 z)"

text \<open>\<open>f\<close> holds the power of \<open>z\<close> with exponent \<open>k\<close>.\<close>

definition pow_of :: "fe \<Rightarrow> nat \<Rightarrow> fe \<Rightarrow> bool" where
  "pow_of z k f \<longleftrightarrow> fe_ok fe_loose f \<and> fe_val f mod fe_p = fe_val z ^ k mod fe_p"

lemma pow_of_self: "fe_ok fe_loose z \<Longrightarrow> pow_of z 1 z"
  by (simp add: pow_of_def)

lemma pow_of_mul: "pow_of z k f \<Longrightarrow> pow_of z l g \<Longrightarrow> pow_of z (k + l) (fe_mul f g)"
  unfolding pow_of_def power_add
  using fe_mul_ok [of f g] fe_ok_tight(1) mod_mult_cong by metis

lemma pow_of_sq: "pow_of z k f \<Longrightarrow> pow_of z (k + k) (fe_sq f)"
  using pow_of_mul [of z k f k f] fe_sq_mul [of f] by (simp add: pow_of_def)

lemma pow_of_loop: "pow_of z k f \<Longrightarrow> pow_of z (k * 2 ^ (n - 1)) (sq_loop n f)"
proof -
  assume f: "pow_of z k f"
  have "pow_of z (k * 2 ^ i) ((fe_sq ^^ i) f)" for i
    by (induction i) (auto simp: f mult_2 distrib_left dest: pow_of_sq)
  then show ?thesis by (simp add: sq_loop_def)
qed

lemma pow_of_exp: "pow_of z k f \<Longrightarrow> k = l \<Longrightarrow> pow_of z l f"
  by simp

lemmas pow_of_chain = pow_of_mul pow_of_sq pow_of_loop

lemma fe_invert_ok:
  assumes "fe_ok fe_loose z"
  shows "fe_ok fe_tight (fe_invert z)" "fe_val (fe_invert z) mod fe_p = fe_val z ^ (2 ^ 255 - 21) mod fe_p"
proof -
  note z = pow_of_self [OF assms]
  have "pow_of z (2 ^ 255 - 21) (fe_invert z)"
    unfolding fe_invert_def Let_def
    by (rule pow_of_exp) ((rule z pow_of_chain)+, simp)
  then show "fe_val (fe_invert z) mod fe_p = fe_val z ^ (2 ^ 255 - 21) mod fe_p"
    by (simp add: pow_of_def)
  show "fe_ok fe_tight (fe_invert z)"
    unfolding fe_invert_def Let_def
    by (rule fe_mul_ok(1)) (rule pow_of_def [THEN iffD1, THEN conjunct1], (rule z pow_of_chain)+)+
qed

lemma fe_pow22523_ok:
  assumes "fe_ok fe_loose z"
  shows "fe_ok fe_tight (fe_pow22523 z)" "fe_val (fe_pow22523 z) mod fe_p = fe_val z ^ (2 ^ 252 - 3) mod fe_p"
proof -
  note z = pow_of_self [OF assms]
  have "pow_of z (2 ^ 252 - 3) (fe_pow22523 z)"
    unfolding fe_pow22523_def Let_def
    by (rule pow_of_exp) ((rule z pow_of_chain)+, simp)
  then show "fe_val (fe_pow22523 z) mod fe_p = fe_val z ^ (2 ^ 252 - 3) mod fe_p"
    by (simp add: pow_of_def)
  show "fe_ok fe_tight (fe_pow22523 z)"
    unfolding fe_pow22523_def Let_def
    by (rule fe_mul_ok(1)) (rule pow_of_def [THEN iffD1, THEN conjunct1], (rule z pow_of_chain)+)+
qed

end
