(* ===== verification/Scalar_Limbs.thy ===== *)
theory Scalar_Limbs
  imports Ed_Bytes
begin

text \<open>
  The reduction of \<open>sc.c\<close> modulo the group order \<open>l = 2^252 + 27742317777372353535851937790883648493\<close>.
  A number is held in 24 signed limbs of 21 bits. \<open>sc_reduce\<close> and \<open>sc_muladd\<close> are straight-line
  sequences of three kinds of groups of statements, which \<open>sc_step\<close> performs: \<open>Fold i\<close> adds limb \<open>i\<close>, times the
  digits of \<open>2^252 mod l\<close>, to six lower limbs and clears it; \<open>Round i\<close> and \<open>Floor i\<close> carry limb \<open>i\<close> into the
  next one, rounding to nearest or down. The same steps on integers are exact while the bound computed
  for each limb stays inside 64 bits, and they keep the value modulo \<open>l\<close>.
\<close>

datatype sc_op = Fold nat | Round nat | Floor nat

definition bump :: "'a::plus list \<Rightarrow> nat \<Rightarrow> 'a \<Rightarrow> 'a list" where
  "bump s j v = s[j := s ! j + v]"

definition fold_limb :: "'a::comm_ring_1 list \<Rightarrow> nat \<Rightarrow> 'a list" where
  "fold_limb s i =
     (let x = s ! i;
          s = bump s (i - 12) (x * 666643);
          s = bump s (i - 11) (x * 470296);
          s = bump s (i - 10) (x * 654183);
          s = bump s (i - 9) (- (x * 997805));
          s = bump s (i - 8) (x * 136657);
          s = bump s (i - 7) (- (x * 683901))
      in s[i := 0])"

definition carry_limb :: "i64 list \<Rightarrow> nat \<Rightarrow> i64 \<Rightarrow> i64 list" where
  "carry_limb s i c = (bump s (i + 1) c)[i := s ! i - push_bit 21 c]"

fun sc_step :: "i64 list \<Rightarrow> sc_op \<Rightarrow> i64 list" where
  "sc_step s (Fold i) = fold_limb s i"
| "sc_step s (Round i) = carry_limb s i (sar (s ! i + push_bit 20 1) 21)"
| "sc_step s (Floor i) = carry_limb s i (sar (s ! i) 21)"

definition sc_run :: "sc_op list \<Rightarrow> i64 list \<Rightarrow> i64 list" where "sc_run ops s = foldl sc_step s ops"

text \<open>The same steps on integers, and on bounds of absolute values.\<close>

definition carry_limb_int :: "int list \<Rightarrow> nat \<Rightarrow> int \<Rightarrow> int list" where
  "carry_limb_int s i c = (bump s (i + 1) c)[i := s ! i - c * 2 ^ 21]"

fun sc_step_int :: "int list \<Rightarrow> sc_op \<Rightarrow> int list" where
  "sc_step_int s (Fold i) = fold_limb s i"
| "sc_step_int s (Round i) = carry_limb_int s i ((s ! i + 2 ^ 20) div 2 ^ 21)"
| "sc_step_int s (Floor i) = carry_limb_int s i (s ! i div 2 ^ 21)"

definition sc_run_int :: "sc_op list \<Rightarrow> int list \<Rightarrow> int list" where
  "sc_run_int ops s = foldl sc_step_int s ops"

definition fold_bound :: "int list \<Rightarrow> nat \<Rightarrow> int list" where
  "fold_bound b i =
     (let x = b ! i;
          b = bump b (i - 12) (x * 666643);
          b = bump b (i - 11) (x * 470296);
          b = bump b (i - 10) (x * 654183);
          b = bump b (i - 9) (x * 997805);
          b = bump b (i - 8) (x * 136657);
          b = bump b (i - 7) (x * 683901)
      in b[i := 0])"

fun sc_bound :: "int list \<Rightarrow> sc_op \<Rightarrow> int list" where
  "sc_bound b (Fold i) = fold_bound b i"
| "sc_bound b (Round i) = (bump b (i + 1) (b ! i div 2 ^ 21 + 1))[i := 2 ^ 20]"
| "sc_bound b (Floor i) = (bump b (i + 1) (b ! i div 2 ^ 21 + 1))[i := 2 ^ 21 - 1]"

definition sc_bounds :: "sc_op list \<Rightarrow> int list \<Rightarrow> int list" where
  "sc_bounds ops b = foldl sc_bound b ops"

fun op_ok :: "nat \<Rightarrow> sc_op \<Rightarrow> bool" where
  "op_ok n (Fold i) = (12 \<le> i \<and> i < n)"
| "op_ok n (Round i) = (i + 1 < n)"
| "op_ok n (Floor i) = (i + 1 < n)"

fun sc_fits :: "sc_op list \<Rightarrow> int list \<Rightarrow> bool" where
  "sc_fits [] b = (\<forall>x \<in> set b. x + 2 ^ 20 < 2 ^ 63)"
| "sc_fits (p # ps) b =
    ((\<forall>x \<in> set b. x + 2 ^ 20 < 2 ^ 63) \<and> op_ok (length b) p \<and> sc_fits ps (sc_bound b p))"

text \<open>Absolute bounds, limb by limb.\<close>

definition within :: "int list \<Rightarrow> int list \<Rightarrow> bool" where
  "within b h \<longleftrightarrow> list_all2 (\<lambda>m x. \<bar>x\<bar> \<le> m) b h"

lemma within_length: "within b h \<Longrightarrow> length h = length b"
  by (simp add: within_def list_all2_lengthD)

lemma within_nth: "within b h \<Longrightarrow> i < length b \<Longrightarrow> \<bar>h ! i\<bar> \<le> b ! i"
  by (auto simp: within_def dest: list_all2_nthD)

lemma within_bump: "within b h \<Longrightarrow> j < length b \<Longrightarrow> \<bar>v\<bar> \<le> w \<Longrightarrow> within (bump b j w) (bump h j v)"
  unfolding bump_def within_def
  by (rule list_all2_update_cong) (auto dest: list_all2_nthD intro: order_trans [OF abs_triangle_ineq add_mono])

lemma within_update: "within b h \<Longrightarrow> \<bar>v\<bar> \<le> w \<Longrightarrow> within (b[j := w]) (h[j := v])"
  unfolding within_def by (rule list_all2_update_cong)

lemma length_bump [simp]: "length (bump s j v) = length s"
  by (simp add: bump_def)

lemma within_fold:
  assumes "within b h" "12 \<le> i" "i < length b"
  shows "within (fold_bound b i) (fold_limb h i)"
proof -
  have x: "\<bar>h ! i * c\<bar> \<le> b ! i * c" "\<bar>- (h ! i * c)\<bar> \<le> b ! i * c" if "0 \<le> c" for c :: int
    using within_nth [OF assms(1,3)] that by (simp_all add: abs_mult mult_right_mono)
  show ?thesis
    unfolding fold_bound_def fold_limb_def Let_def
    by (intro within_update within_bump x) (use assms in simp_all)
qed

lemma within_carry:
  assumes "within b h" "i + 1 < length b" "\<bar>c\<bar> \<le> m" "\<bar>h ! i - c * 2 ^ 21\<bar> \<le> r"
  shows "within ((bump b (i + 1) m)[i := r]) (carry_limb_int h i c)"
  unfolding carry_limb_int_def by (intro within_update within_bump) (use assms in simp_all)

lemma within_step:
  assumes "within b h" "op_ok (length b) p"
  shows "within (sc_bound b p) (sc_step_int h p)"
proof (cases p)
  case (Fold i)
  then show ?thesis using assms by (simp add: within_fold)
next
  case (Round i)
  then have i: "i + 1 < length b" using assms by simp
  then have "\<bar>h ! i\<bar> \<le> b ! i" using within_nth [OF assms(1), of i] by simp
  then have "\<bar>(h ! i + 2 ^ 20) div 2 ^ 21\<bar> \<le> b ! i div 2 ^ 21 + 1"
    "\<bar>h ! i - (h ! i + 2 ^ 20) div 2 ^ 21 * 2 ^ 21\<bar> \<le> 2 ^ 20"
    using carry_quotient [of "h ! i" "b ! i" 21] by simp_all
  then show ?thesis unfolding Round sc_bound.simps sc_step_int.simps by (rule within_carry [OF assms(1) i])
next
  case (Floor i)
  then have i: "i + 1 < length b" using assms by simp
  then have "\<bar>h ! i\<bar> \<le> b ! i" using within_nth [OF assms(1), of i] by simp
  then have "\<bar>h ! i div 2 ^ 21\<bar> \<le> b ! i div 2 ^ 21 + 1" by (rule floor_quotient) simp
  moreover have "\<bar>h ! i - h ! i div 2 ^ 21 * 2 ^ 21\<bar> \<le> 2 ^ 21 - 1"
    unfolding minus_div_mult_eq_mod using pos_mod_bound [of "2 ^ 21" "h ! i"] by simp
  ultimately show ?thesis unfolding Floor sc_bound.simps sc_step_int.simps by (rule within_carry [OF assms(1) i])
qed

text \<open>The words hold the integers.\<close>

lemma bump_of_int: "j < length h \<Longrightarrow> bump (map of_int h) j (of_int v) = map of_int (bump h j v)"
  by (simp add: bump_def map_update)

lemma fold_of_int:
  assumes "12 \<le> i" "i < length h"
  shows "fold_limb (map of_int h) i = (map of_int (fold_limb h i) :: i64 list)"
proof -
  have x: "(map of_int h ! i :: i64) = of_int (h ! i)" using assms by simp
  have c: "(of_int v * 666643 :: i64) = of_int (v * 666643)" "(of_int v * 470296 :: i64) = of_int (v * 470296)"
    "(of_int v * 654183 :: i64) = of_int (v * 654183)" "(- (of_int v * 997805) :: i64) = of_int (- (v * 997805))"
    "(of_int v * 136657 :: i64) = of_int (v * 136657)" "(- (of_int v * 683901) :: i64) = of_int (- (v * 683901))"
    for v :: int by simp_all
  show ?thesis
    unfolding fold_limb_def Let_def x c using assms by (simp only: bump_of_int length_bump map_update of_int_0) 
qed

lemma carry_of_int:
  assumes "i + 1 < length h"
  shows "carry_limb (map of_int h) i (of_int c) = map of_int (carry_limb_int h i c)"
  using assms unfolding carry_limb_def carry_limb_int_def
  by (simp add: bump_of_int [unfolded One_nat_def] map_update push_bit_eq_mult)

lemma step_of_int:
  assumes "within b h" "op_ok (length b) p" "\<forall>x \<in> set b. x + 2 ^ 20 < 2 ^ 63"
  shows "sc_step (map of_int h) p = map of_int (sc_step_int h p)"
proof -
  have fit: "in64 (h ! i)" "in64 (h ! i + 2 ^ 20)" if "i + 1 < length b" for i
  proof -
    have "\<bar>h ! i\<bar> \<le> b ! i" "b ! i + 2 ^ 20 < 2 ^ 63" using within_nth [OF assms(1), of i] assms(3) that by auto
    then show "in64 (h ! i)" "in64 (h ! i + 2 ^ 20)" by (auto intro!: in64_abs)
  qed
  note len = within_length [OF assms(1)]
  show ?thesis
  proof (cases p)
    case (Fold i)
    then show ?thesis using assms len by (simp add: fold_of_int)
  next
    case (Round i)
    then have i: "i + 1 < length b" using assms by simp
    then have "(map of_int h ! i + push_bit 20 1 :: i64) = of_int (h ! i + 2 ^ 20)"
      using len by (simp add: push_bit_eq_mult)
    then have "sar (map of_int h ! i + push_bit 20 1 :: i64) 21 = of_int ((h ! i + 2 ^ 20) div 2 ^ 21)"
      by (simp only: sar_of_int64 [OF fit(2) [OF i]])
    then show ?thesis unfolding Round sc_step.simps sc_step_int.simps
      by (simp only:) (rule carry_of_int, use i len in simp)
  next
    case (Floor i)
    then have i: "i + 1 < length b" using assms by simp
    then have "(map of_int h ! i :: i64) = of_int (h ! i)" using len by simp
    then have "sar (map of_int h ! i :: i64) 21 = of_int (h ! i div 2 ^ 21)"
      by (simp only: sar_of_int64 [OF fit(1) [OF i]])
    then show ?thesis unfolding Floor sc_step.simps sc_step_int.simps
      by (simp only:) (rule carry_of_int, use i len in simp)
  qed
qed

lemma length_step [simp]:
  "length (fold_bound b i) = length b" "length (fold_limb h i) = length h"
  "length (sc_bound b p) = length b" "length (sc_step_int h p) = length h"
  by (cases p; simp add: fold_bound_def fold_limb_def carry_limb_int_def Let_def)+

lemma run_of_int:
  "within b h \<Longrightarrow> sc_fits ps b \<Longrightarrow>
    sc_run ps (map of_int h) = map of_int (sc_run_int ps h) \<and> within (sc_bounds ps b) (sc_run_int ps h)"
proof (induction ps arbitrary: b h)
  case (Cons p ps)
  then show ?case using step_of_int [of b h p] within_step [of b h p]
    by (simp add: sc_run_def sc_run_int_def sc_bounds_def)
qed (simp add: sc_run_def sc_run_int_def sc_bounds_def)

text \<open>The value of the limbs.\<close>

primrec radix :: "int \<Rightarrow> int list \<Rightarrow> int" where
  "radix b [] = 0"
| "radix b (x # xs) = x + b * radix b xs"

definition sc_l :: int where "sc_l = 2 ^ 252 + 27742317777372353535851937790883648493"

definition sval :: "int list \<Rightarrow> int" where "sval h = radix (2 ^ 21) h"

lemma radix_bump: "j < length h \<Longrightarrow> radix b (bump h j v) = radix b h + v * b ^ j"
  unfolding bump_def
proof (induction h arbitrary: j)
  case (Cons x xs)
  then show ?case by (cases j) (simp_all add: algebra_simps)
qed simp

lemma radix_update: "j < length h \<Longrightarrow> radix b (h[j := v]) = radix b h + (v - h ! j) * b ^ j"
  using radix_bump [of j h b "v - h ! j"] by (simp add: bump_def)

lemma nth_bump: "j \<noteq> i \<Longrightarrow> bump s j v ! i = s ! i"
  by (simp add: bump_def)

lemma sval_fold:
  assumes "12 \<le> i" "i < length h"
  shows "sval (fold_limb h i) mod sc_l = sval h mod sc_l"
proof -
  obtain k where k: "i = k + 12" using assms(1) by (metis le_add_diff_inverse2)
  have idx: "i - 12 = k" "i - 11 = k + 1" "i - 10 = k + 2" "i - 9 = k + 3" "i - 8 = k + 4" "i - 7 = k + 5"
    using k by simp_all
  have "sval (fold_limb h i) = sval h - h ! i * (2 ^ 21) ^ k * sc_l"
    unfolding sval_def fold_limb_def Let_def idx using assms(2) k
    by (simp add: radix_update radix_bump nth_bump sc_l_def power_add algebra_simps)
  then show ?thesis by (simp add: mod_diff_right_eq [symmetric])
qed

lemma sval_carry: "i + 1 < length h \<Longrightarrow> sval (carry_limb_int h i c) = sval h"
  unfolding sval_def carry_limb_int_def
  by (simp add: radix_update radix_bump [unfolded One_nat_def] bump_def power_add algebra_simps)

lemma sval_step: "op_ok (length h) p \<Longrightarrow> sval (sc_step_int h p) mod sc_l = sval h mod sc_l"
  by (cases p) (simp_all add: sval_fold sval_carry del: One_nat_def)

lemma sval_run: "\<forall>p \<in> set ps. op_ok (length h) p \<Longrightarrow> sval (sc_run_int ps h) mod sc_l = sval h mod sc_l"
  by (induction ps arbitrary: h) (simp_all add: sc_run_int_def sval_step)

end
