(* ===== verification/Scalar.thy ===== *)
theory Scalar
  imports Scalar_Limbs
begin

text \<open>
  \<open>sc_reduce\<close> and \<open>sc_muladd\<close> of \<open>sc.c\<close>: the 21-bit limbs are cut from the bytes by overlapping loads,
  \<open>sc_muladd\<close> forms the limb products, both reduce, and twelve limbs are stored as 32 bytes. The second
  half of the reduction is the same sequence of statements in both routines. They compute the least
  residue modulo the group order for every input.
\<close>

unbundle bit_operations_syntax

definition sc_load24 :: "u8 list \<Rightarrow> i64 list" where
  "sc_load24 s =
     [2097151 AND load_3 s 0, 2097151 AND drop_bit 5 (load_4 s 2), 2097151 AND drop_bit 2 (load_3 s 5),
      2097151 AND drop_bit 7 (load_4 s 7), 2097151 AND drop_bit 4 (load_4 s 10),
      2097151 AND drop_bit 1 (load_3 s 13), 2097151 AND drop_bit 6 (load_4 s 15),
      2097151 AND drop_bit 3 (load_3 s 18), 2097151 AND load_3 s 21, 2097151 AND drop_bit 5 (load_4 s 23),
      2097151 AND drop_bit 2 (load_3 s 26), 2097151 AND drop_bit 7 (load_4 s 28),
      2097151 AND drop_bit 4 (load_4 s 31), 2097151 AND drop_bit 1 (load_3 s 34),
      2097151 AND drop_bit 6 (load_4 s 36), 2097151 AND drop_bit 3 (load_3 s 39), 2097151 AND load_3 s 42,
      2097151 AND drop_bit 5 (load_4 s 44), 2097151 AND drop_bit 2 (load_3 s 47),
      2097151 AND drop_bit 7 (load_4 s 49), 2097151 AND drop_bit 4 (load_4 s 52),
      2097151 AND drop_bit 1 (load_3 s 55), 2097151 AND drop_bit 6 (load_4 s 57), drop_bit 3 (load_4 s 60)]"

definition sc_load12 :: "u8 list \<Rightarrow> i64 list" where
  "sc_load12 s =
     [2097151 AND load_3 s 0, 2097151 AND drop_bit 5 (load_4 s 2), 2097151 AND drop_bit 2 (load_3 s 5),
      2097151 AND drop_bit 7 (load_4 s 7), 2097151 AND drop_bit 4 (load_4 s 10),
      2097151 AND drop_bit 1 (load_3 s 13), 2097151 AND drop_bit 6 (load_4 s 15),
      2097151 AND drop_bit 3 (load_3 s 18), 2097151 AND load_3 s 21, 2097151 AND drop_bit 5 (load_4 s 23),
      2097151 AND drop_bit 2 (load_3 s 26), drop_bit 7 (load_4 s 28)]"

definition sc_products :: "i64 list \<Rightarrow> i64 list \<Rightarrow> i64 list \<Rightarrow> i64 list" where
  "sc_products a b c =
     [c ! 0 + a ! 0 * b ! 0, c ! 1 + a ! 0 * b ! 1 + a ! 1 * b ! 0,
      c ! 2 + a ! 0 * b ! 2 + a ! 1 * b ! 1 + a ! 2 * b ! 0,
      c ! 3 + a ! 0 * b ! 3 + a ! 1 * b ! 2 + a ! 2 * b ! 1 + a ! 3 * b ! 0,
      c ! 4 + a ! 0 * b ! 4 + a ! 1 * b ! 3 + a ! 2 * b ! 2 + a ! 3 * b ! 1 + a ! 4 * b ! 0,
      c ! 5 + a ! 0 * b ! 5 + a ! 1 * b ! 4 + a ! 2 * b ! 3 + a ! 3 * b ! 2 + a ! 4 * b ! 1 + a ! 5 * b ! 0,
      c ! 6 + a ! 0 * b ! 6 + a ! 1 * b ! 5 + a ! 2 * b ! 4 + a ! 3 * b ! 3 + a ! 4 * b ! 2 + a ! 5 * b ! 1 + a ! 6 * b ! 0,
      c ! 7 + a ! 0 * b ! 7 + a ! 1 * b ! 6 + a ! 2 * b ! 5 + a ! 3 * b ! 4 + a ! 4 * b ! 3 + a ! 5 * b ! 2 + a ! 6 * b ! 1 + a ! 7 * b ! 0,
      c ! 8 + a ! 0 * b ! 8 + a ! 1 * b ! 7 + a ! 2 * b ! 6 + a ! 3 * b ! 5 + a ! 4 * b ! 4 + a ! 5 * b ! 3 + a ! 6 * b ! 2 + a ! 7 * b ! 1 + a ! 8 * b ! 0,
      c ! 9 + a ! 0 * b ! 9 + a ! 1 * b ! 8 + a ! 2 * b ! 7 + a ! 3 * b ! 6 + a ! 4 * b ! 5 + a ! 5 * b ! 4 + a ! 6 * b ! 3 + a ! 7 * b ! 2 + a ! 8 * b ! 1 + a ! 9 * b ! 0,
      c ! 10 + a ! 0 * b ! 10 + a ! 1 * b ! 9 + a ! 2 * b ! 8 + a ! 3 * b ! 7 + a ! 4 * b ! 6 + a ! 5 * b ! 5 + a ! 6 * b ! 4 + a ! 7 * b ! 3 + a ! 8 * b ! 2 + a ! 9 * b ! 1 + a ! 10 * b ! 0,
      c ! 11 + a ! 0 * b ! 11 + a ! 1 * b ! 10 + a ! 2 * b ! 9 + a ! 3 * b ! 8 + a ! 4 * b ! 7 + a ! 5 * b ! 6 + a ! 6 * b ! 5 + a ! 7 * b ! 4 + a ! 8 * b ! 3 + a ! 9 * b ! 2 + a ! 10 * b ! 1 + a ! 11 * b ! 0,
      a ! 1 * b ! 11 + a ! 2 * b ! 10 + a ! 3 * b ! 9 + a ! 4 * b ! 8 + a ! 5 * b ! 7 + a ! 6 * b ! 6 + a ! 7 * b ! 5 + a ! 8 * b ! 4 + a ! 9 * b ! 3 + a ! 10 * b ! 2 + a ! 11 * b ! 1,
      a ! 2 * b ! 11 + a ! 3 * b ! 10 + a ! 4 * b ! 9 + a ! 5 * b ! 8 + a ! 6 * b ! 7 + a ! 7 * b ! 6 + a ! 8 * b ! 5 + a ! 9 * b ! 4 + a ! 10 * b ! 3 + a ! 11 * b ! 2,
      a ! 3 * b ! 11 + a ! 4 * b ! 10 + a ! 5 * b ! 9 + a ! 6 * b ! 8 + a ! 7 * b ! 7 + a ! 8 * b ! 6 + a ! 9 * b ! 5 + a ! 10 * b ! 4 + a ! 11 * b ! 3,
      a ! 4 * b ! 11 + a ! 5 * b ! 10 + a ! 6 * b ! 9 + a ! 7 * b ! 8 + a ! 8 * b ! 7 + a ! 9 * b ! 6 + a ! 10 * b ! 5 + a ! 11 * b ! 4,
      a ! 5 * b ! 11 + a ! 6 * b ! 10 + a ! 7 * b ! 9 + a ! 8 * b ! 8 + a ! 9 * b ! 7 + a ! 10 * b ! 6 + a ! 11 * b ! 5,
      a ! 6 * b ! 11 + a ! 7 * b ! 10 + a ! 8 * b ! 9 + a ! 9 * b ! 8 + a ! 10 * b ! 7 + a ! 11 * b ! 6,
      a ! 7 * b ! 11 + a ! 8 * b ! 10 + a ! 9 * b ! 9 + a ! 10 * b ! 8 + a ! 11 * b ! 7,
      a ! 8 * b ! 11 + a ! 9 * b ! 10 + a ! 10 * b ! 9 + a ! 11 * b ! 8,
      a ! 9 * b ! 11 + a ! 10 * b ! 10 + a ! 11 * b ! 9, a ! 10 * b ! 11 + a ! 11 * b ! 10, a ! 11 * b ! 11, 0]"

definition sc_round_all :: "sc_op list" where
  "sc_round_all =
     [Round 0, Round 2, Round 4, Round 6, Round 8, Round 10, Round 12, Round 14, Round 16, Round 18, Round 20,
      Round 22, Round 1, Round 3, Round 5, Round 7, Round 9, Round 11, Round 13, Round 15, Round 17, Round 19,
      Round 21]"

definition sc_fold_high :: "sc_op list" where
  "sc_fold_high = [Fold 23, Fold 22, Fold 21, Fold 20, Fold 19, Fold 18]"

definition sc_round_mid :: "sc_op list" where
  "sc_round_mid =
     [Round 6, Round 8, Round 10, Round 12, Round 14, Round 16, Round 7, Round 9, Round 11, Round 13, Round 15]"

definition sc_fold_low :: "sc_op list" where
  "sc_fold_low = [Fold 17, Fold 16, Fold 15, Fold 14, Fold 13, Fold 12]"

definition sc_round_low :: "sc_op list" where
  "sc_round_low =
     [Round 0, Round 2, Round 4, Round 6, Round 8, Round 10, Round 1, Round 3, Round 5, Round 7, Round 9,
      Round 11]"

definition sc_finish :: "sc_op list" where
  "sc_finish =
     [Fold 12, Floor 0, Floor 1, Floor 2, Floor 3, Floor 4, Floor 5, Floor 6, Floor 7, Floor 8, Floor 9,
      Floor 10, Floor 11, Fold 12, Floor 0, Floor 1, Floor 2, Floor 3, Floor 4, Floor 5, Floor 6, Floor 7,
      Floor 8, Floor 9, Floor 10]"

definition sc_store :: "i64 list \<Rightarrow> u8 list" where
  "sc_store s =
     [ucast (sar (s ! 0) 0), ucast (sar (s ! 0) 8), ucast (sar (s ! 0) 16 OR push_bit 5 (s ! 1)),
      ucast (sar (s ! 1) 3), ucast (sar (s ! 1) 11), ucast (sar (s ! 1) 19 OR push_bit 2 (s ! 2)),
      ucast (sar (s ! 2) 6), ucast (sar (s ! 2) 14 OR push_bit 7 (s ! 3)), ucast (sar (s ! 3) 1),
      ucast (sar (s ! 3) 9), ucast (sar (s ! 3) 17 OR push_bit 4 (s ! 4)), ucast (sar (s ! 4) 4),
      ucast (sar (s ! 4) 12), ucast (sar (s ! 4) 20 OR push_bit 1 (s ! 5)), ucast (sar (s ! 5) 7),
      ucast (sar (s ! 5) 15 OR push_bit 6 (s ! 6)), ucast (sar (s ! 6) 2), ucast (sar (s ! 6) 10),
      ucast (sar (s ! 6) 18 OR push_bit 3 (s ! 7)), ucast (sar (s ! 7) 5), ucast (sar (s ! 7) 13),
      ucast (sar (s ! 8) 0), ucast (sar (s ! 8) 8), ucast (sar (s ! 8) 16 OR push_bit 5 (s ! 9)),
      ucast (sar (s ! 9) 3), ucast (sar (s ! 9) 11), ucast (sar (s ! 9) 19 OR push_bit 2 (s ! 10)),
      ucast (sar (s ! 10) 6), ucast (sar (s ! 10) 14 OR push_bit 7 (s ! 11)), ucast (sar (s ! 11) 1),
      ucast (sar (s ! 11) 9), ucast (sar (s ! 11) 17)]"

definition sc_reduce :: "u8 list \<Rightarrow> u8 list" where
  "sc_reduce s =
     sc_store (sc_run (sc_fold_high @ sc_round_mid @ sc_fold_low @ sc_round_low @ sc_finish) (sc_load24 s))"

definition sc_muladd :: "u8 list \<Rightarrow> u8 list \<Rightarrow> u8 list \<Rightarrow> u8 list" where
  "sc_muladd a b c =
     sc_store (sc_run (sc_round_all @ sc_fold_high @ sc_round_mid @ sc_fold_low @ sc_round_low @ sc_finish)
       (sc_products (sc_load12 a) (sc_load12 b) (sc_load12 c)))"

end
