(* ===== verification/Scalar_Ok.thy ===== *)
theory Scalar_Ok
  imports Scalar
begin

text \<open>
  The proof that \<open>sc_reduce\<close> and \<open>sc_muladd\<close> compute the least residue modulo the group order: the loads
  cut the input into its 21-bit digits, no step overflows, and the two rounds of \<open>Fold 12\<close> and \<open>Floor\<close>
  leave the digits of the residue.
\<close>

text \<open>Digits of a number in a radix.\<close>

lemma radix_append: "radix b (xs @ ys) = radix b xs + b ^ length xs * radix b ys"
  by (induction xs) (simp_all add: algebra_simps)

lemma radix_digits: "0 < b \<Longrightarrow> radix b (map (\<lambda>i. m div b ^ i mod b) [0..<n]) = m mod b ^ n"
proof (induction n)
  case (Suc n)
  then show ?case using zmod_zmult2_eq [of b m "b ^ n"] by (simp add: radix_append mult_ac)
qed simp

lemma radix_bounds:
  assumes "\<forall>x \<in> set xs. 0 \<le> x \<and> x < b"
  shows "0 \<le> radix b xs" "radix b xs < b ^ length xs"
proof -
  have "0 \<le> radix b xs \<and> radix b xs \<le> b ^ length xs - 1" using assms
  proof (induction xs)
    case (Cons x xs)
    then have ih: "0 \<le> radix b xs" "radix b xs \<le> b ^ length xs - 1" and x: "0 \<le> x" "x \<le> b - 1" by auto
    have "b * radix b xs \<le> b * (b ^ length xs - 1)" using ih(2) x by (intro mult_left_mono) auto
    moreover have "0 \<le> b * radix b xs" using ih(1) x by simp
    ultimately show ?case using x by (simp add: right_diff_distrib)
  qed simp
  then show "0 \<le> radix b xs" "radix b xs < b ^ length xs" by auto
qed

lemma radix_abs: "list_all2 (\<lambda>m x. \<bar>x\<bar> \<le> m) b h \<Longrightarrow> 0 \<le> r \<Longrightarrow> \<bar>radix r h\<bar> \<le> radix r b"
proof (induction rule: list_all2_induct)
  case (Cons m ms x xs)
  then have "\<bar>r * radix r xs\<bar> \<le> r * radix r ms" by (simp add: abs_mult mult_left_mono)
  then show ?case using Cons.hyps(1) by simp
qed simp

lemma sval_within: "within b h \<Longrightarrow> \<bar>sval h\<bar> \<le> sval b"
  unfolding within_def sval_def by (rule radix_abs) simp_all

text \<open>The loads are digits.\<close>

lemma le_int_drop:
  "k < length s \<Longrightarrow> le_int (drop k s) = uint (s ! k) + 256 * le_int (drop (Suc k) s)"
  by (simp flip: Cons_nth_drop_Suc)

lemma le_int_split: "k \<le> length s \<Longrightarrow> le_int s = le_int (take k s) + 2 ^ (8 * k) * le_int (drop k s)"
  using le_int_append [of "take k s" "drop k s"] by (simp add: power_mult)

lemma le_int_shift: "k \<le> length s \<Longrightarrow> drop_bit (8 * k) (le_int s) = le_int (drop k s)"
  using le_int_split [of k s] le_int_bounds [of "take k s"]
  by (simp add: drop_bit_eq_div power_mult div_pos_pos_trivial)

lemma load_bits:
  "k + 3 \<le> length s \<Longrightarrow> uint (load_3 s k) = take_bit 24 (drop_bit (8 * k) (le_int s))"
  "k + 4 \<le> length s \<Longrightarrow> uint (load_4 s k) = take_bit 32 (drop_bit (8 * k) (le_int s))"
proof -
  note b = uint_bytes [of "s ! k"] uint_bytes [of "s ! (k + 1)"] uint_bytes [of "s ! (k + 2)"]
    uint_bytes [of "s ! (k + 3)"]
  show "uint (load_3 s k) = take_bit 24 (drop_bit (8 * k) (le_int s))" if "k + 3 \<le> length s"
  proof -
    have "le_int (drop k s) = uint (load_3 s k) + le_int (drop (k + 3) s) * 2 ^ 24"
      unfolding uint_load using that by (simp add: le_int_drop eval_nat_numeral)
    moreover have "0 \<le> uint (load_3 s k)" "uint (load_3 s k) < 2 ^ 24"
      unfolding uint_load using b by simp_all
    ultimately show ?thesis using that by (simp add: le_int_shift take_bit_eq_mod)
  qed
  show "uint (load_4 s k) = take_bit 32 (drop_bit (8 * k) (le_int s))" if "k + 4 \<le> length s"
  proof -
    have "le_int (drop k s) = uint (load_4 s k) + le_int (drop (k + 4) s) * 2 ^ 32"
      unfolding uint_load using that by (simp add: le_int_drop eval_nat_numeral)
    moreover have "0 \<le> uint (load_4 s k)" "uint (load_4 s k) < 2 ^ 32"
      unfolding uint_load using b by simp_all
    ultimately show ?thesis using that by (simp add: le_int_shift take_bit_eq_mod)
  qed
qed

lemma uint_drop_bit: "uint (drop_bit r w) = drop_bit r (uint w)"
  by (simp only: unsigned_drop_bit_eq bintr_uint order_refl)

lemma load_digit:
  fixes w :: u64
  assumes "uint w = take_bit m (drop_bit (8 * k) n)" "8 * k + r = 21 * i" "21 + r \<le> m"
  shows "2097151 AND drop_bit r w = of_int (n div (2 ^ 21) ^ i mod 2 ^ 21)"
proof -
  have "2097151 AND drop_bit r w = take_bit 21 (drop_bit r w)"
    by (simp add: take_bit_eq_mask mask_eq_exp_minus_1 and.commute)
  then have "uint (2097151 AND drop_bit r w) = take_bit 21 (drop_bit r (take_bit m (drop_bit (8 * k) n)))"
    by (simp only: unsigned_take_bit_eq uint_drop_bit assms(1))
  also have "\<dots> = take_bit 21 (drop_bit (8 * k + r) n)"
  proof -
    have "21 \<le> m - r" using assms(3) by simp
    then show ?thesis by (simp add: drop_bit_take_bit add.commute min_def)
  qed
  also have "\<dots> = n div (2 ^ 21) ^ i mod 2 ^ 21"
    unfolding assms(2) by (simp add: take_bit_eq_mod drop_bit_eq_div power_mult)
  finally show ?thesis by (metis word_of_int_uint)
qed

lemma load_top:
  fixes w :: u64
  assumes "uint w = take_bit m (drop_bit (8 * k) n)" "8 * k + r = 21 * i" "0 \<le> n" "n < 2 ^ (8 * k + m)"
  shows "drop_bit r w = of_int (n div (2 ^ 21) ^ i)"
proof -
  have "take_bit m (drop_bit (8 * k) n) = drop_bit (8 * k) n"
    using div_less [of n "2 ^ m" "2 ^ (8 * k)"] assms(3,4)
    by (simp add: take_bit_int_eq_self_iff drop_bit_eq_div pos_imp_zdiv_nonneg_iff power_add mult.commute)
  then have "uint (drop_bit r w) = drop_bit (8 * k + r) n"
    by (simp add: uint_drop_bit assms(1) add.commute)
  also have "\<dots> = n div (2 ^ 21) ^ i" unfolding assms(2) by (simp add: drop_bit_eq_div power_mult)
  finally show ?thesis by (metis word_of_int_uint)
qed

definition digits :: "nat \<Rightarrow> int \<Rightarrow> int list" where
  "digits n m = map (\<lambda>i. m div (2 ^ 21) ^ i mod 2 ^ 21) [0..<n] @ [m div (2 ^ 21) ^ n]"

lemma sval_digits: "sval (digits n m) = m"
  unfolding sval_def digits_def radix_append by (simp add: radix_digits)

lemma upt11: "[0..<11] = [0, 1, 2, 3, 4, 5, 6, 7, 8, 9, 10 :: nat]"
  by code_simp

lemma upt23: "[0..<23] = [0, 1, 2, 3, 4, 5, 6, 7, 8, 9, 10, 11, 12, 13, 14, 15, 16, 17, 18, 19, 20, 21, 22 :: nat]"
  by code_simp

lemma load_limbs:
  "k + 3 \<le> length s \<Longrightarrow> 8 * k + r = 21 * i \<Longrightarrow> r \<le> 3 \<Longrightarrow>
    2097151 AND drop_bit r (load_3 s k) = of_int (le_int s div (2 ^ 21) ^ i mod 2 ^ 21)"
  "k + 4 \<le> length s \<Longrightarrow> 8 * k + r = 21 * i \<Longrightarrow> r \<le> 11 \<Longrightarrow>
    2097151 AND drop_bit r (load_4 s k) = of_int (le_int s div (2 ^ 21) ^ i mod 2 ^ 21)"
  "k + 3 \<le> length s \<Longrightarrow> 8 * k = 21 * i \<Longrightarrow>
    2097151 AND load_3 s k = of_int (le_int s div (2 ^ 21) ^ i mod 2 ^ 21)"
  "k + 4 = length s \<Longrightarrow> 8 * k + r = 21 * i \<Longrightarrow> drop_bit r (load_4 s k) = of_int (le_int s div (2 ^ 21) ^ i)"
proof -
  show "k + 3 \<le> length s \<Longrightarrow> 8 * k + r = 21 * i \<Longrightarrow> r \<le> 3 \<Longrightarrow>
    2097151 AND drop_bit r (load_3 s k) = of_int (le_int s div (2 ^ 21) ^ i mod 2 ^ 21)"
    by (rule load_digit [OF load_bits(1)]) simp_all
  show "k + 4 \<le> length s \<Longrightarrow> 8 * k + r = 21 * i \<Longrightarrow> r \<le> 11 \<Longrightarrow>
    2097151 AND drop_bit r (load_4 s k) = of_int (le_int s div (2 ^ 21) ^ i mod 2 ^ 21)"
    by (rule load_digit [OF load_bits(2)]) simp_all
  show "k + 3 \<le> length s \<Longrightarrow> 8 * k = 21 * i \<Longrightarrow>
    2097151 AND load_3 s k = of_int (le_int s div (2 ^ 21) ^ i mod 2 ^ 21)"
    using load_digit [OF load_bits(1), of k s 0 i] by simp
  assume k: "k + 4 = length s" and r: "8 * k + r = 21 * i"
  have "(256 :: int) ^ length s = 2 ^ (8 * k + 32)" unfolding k [symmetric] by (simp add: power_add power_mult)
  then show "drop_bit r (load_4 s k) = of_int (le_int s div (2 ^ 21) ^ i)"
    using le_int_bounds [of s] k by (intro load_top [OF load_bits(2) r]) simp_all
qed

lemma load12_digits:
  assumes "length s = 32"
  shows "sc_load12 s = map of_int (digits 11 (le_int s))"
  unfolding sc_load12_def digits_def upt11 list.map map_append append.simps list.inject
  by (intro conjI refl; rule load_limbs; simp add: assms)

lemma load24_digits:
  assumes "length s = 64"
  shows "sc_load24 s = map of_int (digits 23 (le_int s))"
  unfolding sc_load24_def digits_def upt23 list.map map_append append.simps list.inject
  by (intro conjI refl; rule load_limbs; simp add: assms)

lemma within_digits:
  assumes "0 \<le> m" "m < 2 ^ t * (2 ^ 21) ^ n"
  shows "within (replicate n (2 ^ 21) @ [2 ^ t]) (digits n m)"
proof -
  have top: "m div (2 ^ 21) ^ n \<le> 2 ^ t" "0 \<le> m div (2 ^ 21) ^ n"
    using div_less [of m "2 ^ t" "(2 ^ 21) ^ n"] assms
    by (simp_all add: pos_imp_zdiv_nonneg_iff)
  have low: "\<bar>m div (2 ^ 21) ^ i mod 2 ^ 21\<bar> \<le> 2 ^ 21" for i
    using pos_mod_bound [of "2 ^ 21" "m div (2 ^ 21) ^ i"] by simp
  show ?thesis unfolding within_def digits_def
    by (rule list_all2_appendI) (use top low in \<open>auto simp: list_all2_conv_all_nth\<close>)
qed

text \<open>The last phase.\<close>

lemma run_append: "sc_run_int (ps @ qs) h = sc_run_int qs (sc_run_int ps h)"
  by (simp add: sc_run_int_def)

lemma length_run [simp]: "length (sc_run_int ps h) = length h"
  by (induction ps arbitrary: h) (simp_all add: sc_run_int_def)

lemma floors:
  assumes "n < length h"
  shows "\<forall>i < n. 0 \<le> sc_run_int (map Floor [0..<n]) h ! i \<and> sc_run_int (map Floor [0..<n]) h ! i < 2 ^ 21"
    "\<forall>i. n < i \<and> i < length h \<longrightarrow> sc_run_int (map Floor [0..<n]) h ! i = h ! i"
    "sval (sc_run_int (map Floor [0..<n]) h) = sval h"
proof -
  have "(\<forall>i < n. 0 \<le> sc_run_int (map Floor [0..<n]) h ! i \<and> sc_run_int (map Floor [0..<n]) h ! i < 2 ^ 21) \<and>
    (\<forall>i. n < i \<and> i < length h \<longrightarrow> sc_run_int (map Floor [0..<n]) h ! i = h ! i) \<and>
    sval (sc_run_int (map Floor [0..<n]) h) = sval h" using assms
  proof (induction n)
    case (Suc n)
    let ?r = "sc_run_int (map Floor [0..<n]) h"
    have step: "sc_run_int (map Floor [0..<Suc n]) h = carry_limb_int ?r n (?r ! n div 2 ^ 21)"
      by (simp add: sc_run_int_def)
    have len: "length ?r = length h" by simp
    have "?r ! n - ?r ! n div 2 ^ 21 * 2 ^ 21 = ?r ! n mod 2 ^ 21" by (rule minus_div_mult_eq_mod)
    moreover have "sval (carry_limb_int ?r n (?r ! n div 2 ^ 21)) = sval h"
      using sval_carry [of n ?r] Suc len by simp
    moreover have "(carry_limb_int ?r n c) ! i = (if i = n then ?r ! n - c * 2 ^ 21
        else if i = Suc n then ?r ! i + c else ?r ! i)" if "i < length h" for i c
      using that Suc.prems by (simp add: carry_limb_int_def bump_def nth_list_update)
    ultimately show ?case unfolding step using Suc by (auto simp: less_Suc_eq)
  qed (simp add: sc_run_int_def)
  then show "\<forall>i < n. 0 \<le> sc_run_int (map Floor [0..<n]) h ! i \<and> sc_run_int (map Floor [0..<n]) h ! i < 2 ^ 21"
    "\<forall>i. n < i \<and> i < length h \<longrightarrow> sc_run_int (map Floor [0..<n]) h ! i = h ! i"
    "sval (sc_run_int (map Floor [0..<n]) h) = sval h" by blast+
qed

text \<open>Limbs whose upper ones are zero.\<close>

definition upper_zero :: "nat \<Rightarrow> int list \<Rightarrow> bool" where
  "upper_zero n h \<longleftrightarrow> (\<forall>i. n \<le> i \<and> i < length h \<longrightarrow> h ! i = 0)"

lemma radix_zero: "\<forall>x \<in> set xs. x = 0 \<Longrightarrow> radix b xs = 0"
  by (induction xs) auto

lemma sval_upper_zero:
  assumes "upper_zero (Suc n) h" "n < length h"
  shows "sval h = radix (2 ^ 21) (take n h) + h ! n * (2 ^ 21) ^ n"
proof -
  have h: "h = take n h @ h ! n # drop (Suc n) h" by (rule id_take_nth_drop [OF assms(2)])
  have "radix (2 ^ 21) (drop (Suc n) h) = 0"
    using assms by (intro radix_zero) (auto simp: upper_zero_def in_set_conv_nth)
  then show ?thesis unfolding sval_def using assms(2) by (subst h) (simp add: radix_append)
qed

definition finish_int :: "int list \<Rightarrow> int list" where
  "finish_int h = sc_run_int (map Floor [0..<11]) (fold_limb (sc_run_int (map Floor [0..<12]) h) 12)"

lemma fold12_sval:
  assumes "12 < length h"
  shows "sval (fold_limb h 12) = sval h - h ! 12 * sc_l"
proof -
  have "h \<noteq> []" using assms by auto
  with assms show ?thesis
    unfolding sval_def fold_limb_def Let_def
    by (simp add: radix_update radix_bump nth_bump sc_l_def algebra_simps)
qed

lemma fold12_upper:
  assumes "upper_zero 13 h" "12 < length h"
  shows "upper_zero 12 (fold_limb h 12)"
  unfolding upper_zero_def
proof (intro allI impI)
  fix i assume i: "12 \<le> i \<and> i < length (fold_limb h 12)"
  show "fold_limb h 12 ! i = 0"
  proof (cases "i = 12")
    case False
    then show ?thesis using i assms by (simp add: fold_limb_def Let_def nth_bump upper_zero_def)
  qed (use assms in \<open>simp add: fold_limb_def Let_def\<close>)
qed

lemma finish_ok:
  assumes "upper_zero 12 h" "length h = 24" "\<bar>sval h\<bar> < 2 ^ 252"
  shows "sval (finish_int h) = sval h mod sc_l" "upper_zero 12 (finish_int h)" "length (finish_int h) = 24"
    "\<forall>i < 11. 0 \<le> finish_int h ! i \<and> finish_int h ! i < 2 ^ 21"
    "0 \<le> finish_int h ! 11" "finish_int h ! 11 \<le> 2 ^ 21"
proof -
  let ?a = "sc_run_int (map Floor [0..<12]) h"
  let ?b = "fold_limb ?a 12"
  have fa: "\<forall>i < 12. 0 \<le> ?a ! i \<and> ?a ! i < 2 ^ 21" "\<forall>i. 12 < i \<and> i < length h \<longrightarrow> ?a ! i = h ! i" "sval ?a = sval h"
    using floors [of 12 h] assms(2) by simp_all
  have za: "upper_zero 13 ?a" using fa(2) assms(1) by (simp add: upper_zero_def)
  have low: "0 \<le> radix (2 ^ 21) (take 12 ?a)" "radix (2 ^ 21) (take 12 ?a) < 2 ^ 252"
  proof -
    have dg: "\<forall>x \<in> set (take 12 ?a). 0 \<le> x \<and> x < 2 ^ 21"
      using fa(1) assms(2) by (auto simp: in_set_conv_nth)
    show "0 \<le> radix (2 ^ 21) (take 12 ?a)" "radix (2 ^ 21) (take 12 ?a) < 2 ^ 252"
      using radix_bounds [OF dg] assms(2) by simp_all
  qed
  have va: "sval h = radix (2 ^ 21) (take 12 ?a) + ?a ! 12 * 2 ^ 252"
    using sval_upper_zero [of 12 ?a] za assms(2) fa(3) by simp
  have "?a ! 12 = 0 \<or> ?a ! 12 = - 1" using va low assms(3) by (simp add: abs_less_iff) arith
  moreover have vb: "sval ?b = sval h - ?a ! 12 * sc_l" using fold12_sval [of ?a] assms(2) fa(3) by simp
  ultimately have rb: "0 \<le> sval ?b" "sval ?b < sc_l" using va low by (auto simp: sc_l_def)
  have "sval ?b = sval ?b mod sc_l" using rb by simp
  also have "\<dots> = sval h mod sc_l" unfolding vb by (simp add: mod_diff_right_eq [symmetric])
  finally have mb: "sval ?b = sval h mod sc_l" .
  have fb: "\<forall>i < 11. 0 \<le> finish_int h ! i \<and> finish_int h ! i < 2 ^ 21"
    "\<forall>i. 11 < i \<and> i < length h \<longrightarrow> finish_int h ! i = ?b ! i" "sval (finish_int h) = sval ?b"
    using floors [of 11 ?b] assms(2) by (simp_all add: finish_int_def)
  have zb: "upper_zero 12 ?b" by (rule fold12_upper [OF za]) (simp add: assms(2))
  show len: "length (finish_int h) = 24" using assms(2) by (simp add: finish_int_def)
  show zf: "upper_zero 12 (finish_int h)" using zb fb(2) len assms(2) by (simp add: upper_zero_def)
  show "sval (finish_int h) = sval h mod sc_l" using fb(3) mb by simp
  show "\<forall>i < 11. 0 \<le> finish_int h ! i \<and> finish_int h ! i < 2 ^ 21" by (rule fb(1))
  have dg: "\<forall>x \<in> set (take 11 (finish_int h)). 0 \<le> x \<and> x < 2 ^ 21"
    using fb(1) len by (auto simp: in_set_conv_nth)
  have vf: "sval ?b = radix (2 ^ 21) (take 11 (finish_int h)) + finish_int h ! 11 * 2 ^ 231"
    using sval_upper_zero [of 11 "finish_int h"] zf len fb(3) by simp
  show "0 \<le> finish_int h ! 11" "finish_int h ! 11 \<le> 2 ^ 21"
    using vf rb radix_bounds [OF dg] len by (simp_all add: sc_l_def)
qed

end
