(* ===== verification/Scalar_Reduce.thy ===== *)
theory Scalar_Reduce
  imports Scalar_Ok
begin

text \<open>The correctness of the two routines: the bounds of their steps, the stores, and the results.\<close>

definition sc_common :: "sc_op list" where
  "sc_common = sc_fold_high @ sc_round_mid @ sc_fold_low @ sc_round_low @ [Fold 12]"

definition sc_tail :: "sc_op list" where
  "sc_tail = map Floor [0..<12] @ [Fold 12] @ map Floor [0..<11]"

lemma sc_finish_tail: "sc_finish = Fold 12 # sc_tail"
  by code_simp

lemma run_tail: "sc_run_int sc_tail h = finish_int h"
  by (simp only: sc_tail_def run_append finish_int_def) (simp add: sc_run_int_def)

definition reducible :: "sc_op list \<Rightarrow> int list \<Rightarrow> bool" where
  "reducible ps b \<longleftrightarrow> length b = 24 \<and> sc_fits (ps @ sc_tail) b \<and> list_all (op_ok 24) ps \<and>
    list_all (\<lambda>x. x = 0) (drop 12 (sc_bounds ps b)) \<and> sval (sc_bounds ps b) < 2 ^ 252"

lemma reducible_load24: "reducible sc_common (replicate 23 (2 ^ 21) @ [2 ^ 29])"
  by code_simp

lemma sc_fits_append: "sc_fits (ps @ qs) b \<Longrightarrow> sc_fits ps b"
  by (induction ps arbitrary: b) (cases qs; auto)+

lemma reducible_run:
  assumes "reducible ps b" "within b h"
  shows "\<exists>r. sc_run (ps @ sc_tail) (map of_int h) = map of_int r \<and> length r = 24 \<and> sval r = sval h mod sc_l \<and>
    upper_zero 12 r \<and> (\<forall>i < 11. 0 \<le> r ! i \<and> r ! i < 2 ^ 21) \<and> 0 \<le> r ! 11 \<and> r ! 11 \<le> 2 ^ 21"
proof -
  let ?m = "sc_run_int ps h"
  have len: "length h = 24" using assms within_length by (auto simp: reducible_def)
  have fits: "sc_fits (ps @ sc_tail) b" using assms(1) by (simp add: reducible_def)
  have m: "within (sc_bounds ps b) ?m"
    using run_of_int [OF assms(2) sc_fits_append [OF fits]] by simp
  have "upper_zero 12 ?m"
    unfolding upper_zero_def
  proof (intro allI impI)
    fix i assume i: "12 \<le> i \<and> i < length ?m"
    then have "i < length (sc_bounds ps b)" using within_length [OF m] by simp
    moreover from this i have "sc_bounds ps b ! i = 0"
      using assms(1) by (auto simp: reducible_def list_all_length dest: spec [of _ "i - 12"])
    ultimately show "?m ! i = 0" using within_nth [OF m, of i] by simp
  qed
  moreover have "\<bar>sval ?m\<bar> < 2 ^ 252" using sval_within [OF m] assms(1) by (simp add: reducible_def)
  moreover have "sval ?m mod sc_l = sval h mod sc_l"
    using assms(1) len by (intro sval_run) (simp add: reducible_def list_all_iff)
  ultimately show ?thesis
    using finish_ok [of ?m] len run_of_int [OF assms(2) fits]
    by (intro exI [of _ "finish_int ?m"]) (simp add: run_append run_tail)
qed

lemma split_bytes2:
  fixes x :: int
  shows "x = x mod 2 ^ m + 2 ^ m * (x div 2 ^ m mod 256) + 2 ^ (m + 8) * (x div 2 ^ (m + 8))"
proof -
  have d: "x div 2 ^ (m + 8) = x div 2 ^ m div 256"
    using zdiv_zmult2_eq [of 256 x "2 ^ m"] by (simp add: power_add)
  have "x mod 2 ^ m + 2 ^ m * (x div 2 ^ m mod 256) + 2 ^ (m + 8) * (x div 2 ^ m div 256)
    = x mod 2 ^ m + 2 ^ m * (x div 2 ^ m mod 256 + 256 * (x div 2 ^ m div 256))"
    by (simp only: power_add distrib_left) simp
  also have "\<dots> = x" by simp
  finally show ?thesis unfolding d by (rule sym)
qed

lemma assemble_limbs:
  fixes x0 x1 x2 x3 x4 x5 x6 x7 x8 x9 x10 x11 :: int
  assumes "x0 = a0 + 2 ^ 8 * b0 + 2 ^ 16 * d0"
    "x1 = a1 + 2 ^ 3 * b1 + 2 ^ 11 * c1 + 2 ^ 19 * d1"
    "x2 = a2 + 2 ^ 6 * b2 + 2 ^ 14 * d2"
    "x3 = a3 + 2 ^ 1 * b3 + 2 ^ 9 * c3 + 2 ^ 17 * d3"
    "x4 = a4 + 2 ^ 4 * b4 + 2 ^ 12 * c4 + 2 ^ 20 * d4"
    "x5 = a5 + 2 ^ 7 * b5 + 2 ^ 15 * d5"
    "x6 = a6 + 2 ^ 2 * b6 + 2 ^ 10 * c6 + 2 ^ 18 * d6"
    "x7 = a7 + 2 ^ 5 * b7 + 2 ^ 13 * d7"
    "x8 = a8 + 2 ^ 8 * b8 + 2 ^ 16 * d8"
    "x9 = a9 + 2 ^ 3 * b9 + 2 ^ 11 * c9 + 2 ^ 19 * d9"
    "x10 = a10 + 2 ^ 6 * b10 + 2 ^ 14 * d10"
    "x11 = a11 + 2 ^ 1 * b11 + 2 ^ 9 * c11 + 2 ^ 17 * d11"
  shows "a0 + 256 * (b0 + 256 * (d0 + 2 ^ 5 * a1 + 256 * (b1 + 256 * (c1 + 256 * (d1 + 2 ^ 2 * a2 + 256 * (b2
    + 256 * (d2 + 2 ^ 7 * a3 + 256 * (b3 + 256 * (c3 + 256 * (d3 + 2 ^ 4 * a4 + 256 * (b4 + 256 * (c4 +
    256 * (d4 + 2 ^ 1 * a5 + 256 * (b5 + 256 * (d5 + 2 ^ 6 * a6 + 256 * (b6 + 256 * (c6 + 256 * (d6 + 2
    ^ 3 * a7 + 256 * (b7 + 256 * (d7 + 256 * (a8 + 256 * (b8 + 256 * (d8 + 2 ^ 5 * a9 + 256 * (b9 + 256
    * (c9 + 256 * (d9 + 2 ^ 2 * a10 + 256 * (b10 + 256 * (d10 + 2 ^ 7 * a11 + 256 * (b11 + 256 * (c11 +
    256 * (d11 + 256 * (0))))))))))))))))))))))))))))))))
    = radix (2 ^ 21) [x0, x1, x2, x3, x4, x5, x6, x7, x8, x9, x10, x11]"
  unfolding assms by (simp add: algebra_simps)

lemma sc_store_limbs:
  fixes x0 x1 x2 x3 x4 x5 x6 x7 x8 x9 x10 x11 :: i64
  assumes r: "0 \<le> sint x0" "sint x0 < 2 ^ 21" "0 \<le> sint x1" "sint x1 < 2 ^ 21" "0 \<le> sint x2" "sint x2 < 2 ^ 21"
     "0 \<le> sint x3" "sint x3 < 2 ^ 21" "0 \<le> sint x4" "sint x4 < 2 ^ 21" "0 \<le> sint x5" "sint x5 < 2 ^ 21"
     "0 \<le> sint x6" "sint x6 < 2 ^ 21" "0 \<le> sint x7" "sint x7 < 2 ^ 21" "0 \<le> sint x8" "sint x8 < 2 ^ 21"
     "0 \<le> sint x9" "sint x9 < 2 ^ 21" "0 \<le> sint x10" "sint x10 < 2 ^ 21" "0 \<le> sint x11" "sint x11 < 2 ^ 25"
  shows "le_int (sc_store [x0, x1, x2, x3, x4, x5, x6, x7, x8, x9, x10, x11]) = radix (2 ^ 21) (map sint [x0, x1, x2, x3, x4, x5, x6, x7, x8, x9, x10, x11])"
proof -
  let ?s = "[x0, x1, x2, x3, x4, x5, x6, x7, x8, x9, x10, x11]"
  have nth: "?s ! 0 = x0" "?s ! 1 = x1" "?s ! 2 = x2" "?s ! 3 = x3" "?s ! 4 = x4" "?s ! 5 = x5" "?s ! 6 = x6" "?s ! 7 = x7" "?s ! 8 = x8" "?s ! 9 = x9" "?s ! 10 = x10" "?s ! 11 = x11"
    by simp_all
  have one: "uint (ucast (sar x n) :: u8) = sint x div 2 ^ n mod 256" for x :: i64 and n
    by (rule one_limb_byte) simp
  note sp = split_bytes2 [of "sint x0" 8, unfolded numeral_plus_numeral one_plus_numeral add_num_simps]
    split_bytes [of "sint x1" 3, unfolded numeral_plus_numeral one_plus_numeral add_num_simps]
    split_bytes2 [of "sint x2" 6, unfolded numeral_plus_numeral one_plus_numeral add_num_simps]
    split_bytes [of "sint x3" 1, unfolded numeral_plus_numeral one_plus_numeral add_num_simps]
    split_bytes [of "sint x4" 4, unfolded numeral_plus_numeral one_plus_numeral add_num_simps]
    split_bytes2 [of "sint x5" 7, unfolded numeral_plus_numeral one_plus_numeral add_num_simps]
    split_bytes [of "sint x6" 2, unfolded numeral_plus_numeral one_plus_numeral add_num_simps]
    split_bytes2 [of "sint x7" 5, unfolded numeral_plus_numeral one_plus_numeral add_num_simps]
    split_bytes2 [of "sint x8" 8, unfolded numeral_plus_numeral one_plus_numeral add_num_simps]
    split_bytes [of "sint x9" 3, unfolded numeral_plus_numeral one_plus_numeral add_num_simps]
    split_bytes2 [of "sint x10" 6, unfolded numeral_plus_numeral one_plus_numeral add_num_simps]
    split_bytes [of "sint x11" 1, unfolded numeral_plus_numeral one_plus_numeral add_num_simps]
  have tw: "uint (ucast (sar x0 16 OR push_bit 5 x1) :: u8) = sint x0 div 2 ^ 16 + 2 ^ 5 * (sint x1 mod 2 ^ 3)"
    "uint (ucast (sar x1 19 OR push_bit 2 x2) :: u8) = sint x1 div 2 ^ 19 + 2 ^ 2 * (sint x2 mod 2 ^ 6)"
    "uint (ucast (sar x2 14 OR push_bit 7 x3) :: u8) = sint x2 div 2 ^ 14 + 2 ^ 7 * (sint x3 mod 2 ^ 1)"
    "uint (ucast (sar x3 17 OR push_bit 4 x4) :: u8) = sint x3 div 2 ^ 17 + 2 ^ 4 * (sint x4 mod 2 ^ 4)"
    "uint (ucast (sar x4 20 OR push_bit 1 x5) :: u8) = sint x4 div 2 ^ 20 + 2 ^ 1 * (sint x5 mod 2 ^ 7)"
    "uint (ucast (sar x5 15 OR push_bit 6 x6) :: u8) = sint x5 div 2 ^ 15 + 2 ^ 6 * (sint x6 mod 2 ^ 2)"
    "uint (ucast (sar x6 18 OR push_bit 3 x7) :: u8) = sint x6 div 2 ^ 18 + 2 ^ 3 * (sint x7 mod 2 ^ 5)"
    "uint (ucast (sar x8 16 OR push_bit 5 x9) :: u8) = sint x8 div 2 ^ 16 + 2 ^ 5 * (sint x9 mod 2 ^ 3)"
    "uint (ucast (sar x9 19 OR push_bit 2 x10) :: u8) = sint x9 div 2 ^ 19 + 2 ^ 2 * (sint x10 mod 2 ^ 6)"
    "uint (ucast (sar x10 14 OR push_bit 7 x11) :: u8) = sint x10 div 2 ^ 14 + 2 ^ 7 * (sint x11 mod 2 ^ 1)"
    by (rule two_limb_byte; use r in simp)+
  have top: "sint x7 div 2 ^ 13 mod 256 = sint x7 div 2 ^ 13" "sint x11 div 2 ^ 17 mod 256 = sint x11 div 2 ^ 17"
    using div_less [of "sint x7" 256 "2 ^ 13"] div_less [of "sint x11" 256 "2 ^ 17"] r
    by (simp_all add: pos_imp_zdiv_nonneg_iff)
  have z: "sint x0 mod 2 ^ 8 = sint x0 div 2 ^ 0 mod 256" "sint x8 mod 2 ^ 8 = sint x8 div 2 ^ 0 mod 256"
    by simp_all
  show ?thesis
    unfolding sc_store_def le_int.simps list.map
    by (rule trans [OF _ assemble_limbs [OF sp]]) (simp only: nth tw one top z)
qed

lemma sc_store_take: "sc_store s = sc_store [s ! 0, s ! 1, s ! 2, s ! 3, s ! 4, s ! 5, s ! 6, s ! 7, s ! 8, s ! 9, s ! 10, s ! 11]"
  unfolding sc_store_def by simp

lemma upt12: "[0..<12] = [0, 1, 2, 3, 4, 5, 6, 7, 8, 9, 10, 11 :: nat]"
  by code_simp

lemma take12:
  assumes "length r = 24"
  shows "take 12 r = [r ! 0, r ! 1, r ! 2, r ! 3, r ! 4, r ! 5, r ! 6, r ! 7, r ! 8, r ! 9, r ! 10, r ! 11]"
proof -
  have "take 12 r = map ((!) r) [0..<12]" using assms by (intro nth_equalityI) simp_all
  then show ?thesis unfolding upt12 by simp
qed

lemma sc_store_ok:
  assumes "length r = 24" "upper_zero 12 r" "\<forall>i < 11. 0 \<le> r ! i \<and> r ! i < 2 ^ 21" "0 \<le> r ! 11" "r ! 11 \<le> 2 ^ 21"
  shows "le_int (sc_store (map of_int r)) = sval r"
proof -
  let ?s = "map of_int r :: i64 list"
  have sz: "0 \<le> r ! i" "r ! i < 2 ^ 25" if "i < 12" for i
  proof -
    have "i < 11 \<or> i = 11" using that by auto
    then show "0 \<le> r ! i" "r ! i < 2 ^ 25" using assms(3-5) by auto
  qed
  have si: "sint (?s ! i) = r ! i" if "i < 12" for i
    using sz [OF that] that assms(1) sint_of_int64 [of "r ! i"] by (simp add: in64_def)
  have lim: "0 \<le> sint (?s ! i)" "sint (?s ! i) < 2 ^ 21" if "i < 11" for i
    using assms(3) si [of i] that by simp_all
  have top: "0 \<le> sint (?s ! 11)" "sint (?s ! 11) < 2 ^ 25" using sz [of 11] si [of 11] by simp_all
  have "le_int (sc_store ?s) = radix (2 ^ 21) (map sint [?s ! 0, ?s ! 1, ?s ! 2, ?s ! 3, ?s ! 4, ?s ! 5, ?s ! 6, ?s ! 7, ?s ! 8, ?s ! 9, ?s ! 10, ?s ! 11])"
    unfolding sc_store_take [of ?s] by (rule sc_store_limbs) (rule top | (rule lim, simp))+
  also have "\<dots> = radix (2 ^ 21) (take 12 r)"
    unfolding take12 [OF assms(1)] list.map by (simp only: si rel_simps)
  also have "\<dots> = sval r"
  proof -
    have "r = take 12 r @ drop 12 r" by simp
    moreover have "radix (2 ^ 21) (drop 12 r) = 0"
      using assms(2) by (intro radix_zero) (auto simp: upper_zero_def in_set_conv_nth)
    ultimately show ?thesis unfolding sval_def using radix_append by (metis add.right_neutral mult_zero_right)
  qed
  finally show ?thesis .
qed

lemma length_sc_store: "length (sc_store s) = 32"
  by (simp add: sc_store_def)

lemma store_run:
  assumes "reducible ps b" "within b h"
  shows "le_int (sc_store (sc_run (ps @ sc_tail) (map of_int h))) = sval h mod sc_l"
  using reducible_run [OF assms] sc_store_ok by metis

lemma common_tail: "sc_fold_high @ sc_round_mid @ sc_fold_low @ sc_round_low @ sc_finish = sc_common @ sc_tail"
  by (simp add: sc_common_def sc_finish_tail)

lemma sc_reduce_ok:
  assumes "length s = 64"
  shows "le_int (sc_reduce s) = le_int s mod sc_l" "length (sc_reduce s) = 32"
proof -
  have "within (replicate 23 (2 ^ 21) @ [2 ^ 29]) (digits 23 (le_int s))"
    using le_int_bounds [of s] assms by (intro within_digits) simp_all
  from store_run [OF reducible_load24 this]
  show "le_int (sc_reduce s) = le_int s mod sc_l"
    unfolding sc_reduce_def common_tail load24_digits [OF assms] sval_digits .
  show "length (sc_reduce s) = 32" by (simp add: sc_reduce_def length_sc_store)
qed

text \<open>The limb products are the product of polynomials.\<close>

primrec padd :: "'a::comm_ring_1 list \<Rightarrow> 'a list \<Rightarrow> 'a list" where
  "padd [] ys = ys"
| "padd (x # xs) ys = (case ys of [] \<Rightarrow> x # xs | y # zs \<Rightarrow> (x + y) # padd xs zs)"

primrec pmul :: "'a::comm_ring_1 list \<Rightarrow> 'a list \<Rightarrow> 'a list" where
  "pmul [] ys = []"
| "pmul (x # xs) ys = padd (map ((*) x) ys) (0 # pmul xs ys)"

lemma radix_padd: "radix b (padd xs ys) = radix b xs + radix b ys"
  by (induction xs arbitrary: ys) (simp_all add: algebra_simps split: list.split)

lemma radix_scale: "radix b (map ((*) x) ys) = x * radix b ys"
  by (induction ys) (simp_all add: algebra_simps)

lemma radix_pmul: "radix b (pmul xs ys) = radix b xs * radix b ys"
  by (induction xs) (simp_all add: radix_padd radix_scale algebra_simps)

lemma padd_of_int:
  "padd (map of_int xs) (map of_int ys) = (map of_int (padd xs ys) :: 'a::comm_ring_1 list)"
  by (induction xs arbitrary: ys) (auto split: list.split)

lemma pmul_of_int:
  "pmul (map of_int xs) (map of_int ys) = (map of_int (pmul xs ys) :: 'a::comm_ring_1 list)"
proof (induction xs)
  case (Cons x xs)
  have eq: "map ((*) (of_int x)) (map of_int ys) = (map of_int (map ((*) x) ys) :: 'a list)" by simp
  have "padd (map of_int (map ((*) x) ys)) (map of_int (0 # pmul xs ys)) =
      (map of_int (padd (map ((*) x) ys) (0 # pmul xs ys)) :: 'a list)" by (rule padd_of_int)
  then show ?case by (simp only: pmul.simps list.map eq Cons of_int_0)
qed simp

lemma within_padd: "within b xs \<Longrightarrow> within c ys \<Longrightarrow> within (padd b c) (padd xs ys)"
  unfolding within_def
proof (induction b arbitrary: xs c ys)
  case (Cons m ms)
  then obtain x xs' where xs: "xs = x # xs'" "\<bar>x\<bar> \<le> m" "list_all2 (\<lambda>m x. \<bar>x\<bar> \<le> m) ms xs'"
    by (auto simp: list_all2_Cons1)
  then show ?case using Cons.prems(2) Cons.IH [OF xs(3)]
    by (cases c; cases ys) (auto intro: order_trans [OF abs_triangle_ineq add_mono])
qed auto

lemma within_scale: "within c ys \<Longrightarrow> \<bar>x\<bar> \<le> m \<Longrightarrow> within (map ((*) m) c) (map ((*) x) ys)"
  unfolding within_def list_all2_map1 list_all2_map2
  by (erule list_all2_mono) (auto simp: abs_mult intro!: mult_mono)

lemma within_pmul: "within b xs \<Longrightarrow> within c ys \<Longrightarrow> within (pmul b c) (pmul xs ys)"
proof (induction b arbitrary: xs)
  case (Cons m ms)
  then obtain x xs' where xs: "xs = x # xs'" "\<bar>x\<bar> \<le> m" "within ms xs'"
    by (auto simp: within_def list_all2_Cons1)
  have "within (0 # pmul ms c) (0 # pmul xs' ys)"
    using Cons.IH [OF xs(3) Cons.prems(2)] by (simp add: within_def)
  then show ?case unfolding xs(1) pmul.simps
    by (intro within_padd within_scale Cons.prems(2) xs(2))
qed (simp add: within_def)

lemma list12: "length a = 12 \<Longrightarrow> a = [a ! 0, a ! 1, a ! 2, a ! 3, a ! 4, a ! 5, a ! 6, a ! 7, a ! 8, a ! 9, a ! 10, a ! 11]" 
proof -
  assume "length a = 12"
  then have "a = map ((!) a) [0..<12]" using map_nth [of a] by simp
  from this [unfolded upt12 list.map] show ?thesis .
qed

lemma sc_products_poly:
  assumes "length a = 12" "length b = 12" "length c = 12"
  shows "sc_products a b c = padd c (pmul a b) @ [0]"
proof -
  have "sc_products a b c = padd [c ! 0, c ! 1, c ! 2, c ! 3, c ! 4, c ! 5, c ! 6, c ! 7, c ! 8, c ! 9, c ! 10, c ! 11]
      (pmul [a ! 0, a ! 1, a ! 2, a ! 3, a ! 4, a ! 5, a ! 6, a ! 7, a ! 8, a ! 9, a ! 10, a ! 11]
        [b ! 0, b ! 1, b ! 2, b ! 3, b ! 4, b ! 5, b ! 6, b ! 7, b ! 8, b ! 9, b ! 10, b ! 11]) @ [0]"
    unfolding sc_products_def by (simp add: add.assoc)
  then show ?thesis using list12 [OF assms(1)] list12 [OF assms(2)] list12 [OF assms(3)] by argo
qed

definition limb12_sizes :: "int list" where "limb12_sizes = replicate 11 (2 ^ 21) @ [2 ^ 25]"

lemma reducible_muladd:
  "reducible (sc_round_all @ sc_common) (padd limb12_sizes (pmul limb12_sizes limb12_sizes) @ [0])"
  by code_simp

lemma within_limbs12: "length s = 32 \<Longrightarrow> within limb12_sizes (digits 11 (le_int s))"
  unfolding limb12_sizes_def using le_int_bounds [of s] by (intro within_digits) simp_all

lemma length_digits [simp]: "length (digits n m) = Suc n"
  by (simp add: digits_def)

lemma sc_muladd_ok:
  assumes "length a = 32" "length b = 32" "length c = 32"
  shows "le_int (sc_muladd a b c) = (le_int a * le_int b + le_int c) mod sc_l" "length (sc_muladd a b c) = 32"
proof -
  let ?d = "\<lambda>s. digits 11 (le_int s)"
  let ?p = "padd (?d c) (pmul (?d a) (?d b)) @ [0]"
  have words: "sc_products (sc_load12 a) (sc_load12 b) (sc_load12 c) = map of_int ?p"
    unfolding load12_digits [OF assms(1)] load12_digits [OF assms(2)] load12_digits [OF assms(3)]
    by (subst sc_products_poly) (simp_all add: padd_of_int pmul_of_int)
  have "within (padd limb12_sizes (pmul limb12_sizes limb12_sizes) @ [0]) ?p"
    using within_padd [OF within_limbs12 [OF assms(3)] within_pmul [OF within_limbs12 [OF assms(1)] within_limbs12 [OF assms(2)]]]
    by (simp add: within_def list_all2_appendI)
  moreover have val: "sval ?p = le_int a * le_int b + le_int c"
    unfolding sval_def radix_append radix_padd radix_pmul sval_digits [unfolded sval_def] by simp
  ultimately show "le_int (sc_muladd a b c) = (le_int a * le_int b + le_int c) mod sc_l"
    using store_run [OF reducible_muladd] by (simp only: sc_muladd_def words common_tail val append_assoc)
  show "length (sc_muladd a b c) = 32" by (simp add: sc_muladd_def length_sc_store)
qed

end
