(* ===== verification/Sha512.thy ===== *)
theory Sha512
  imports Ed_Bytes
begin

text \<open>
  \<open>sha512.c\<close>: the compression function and the context with its partial block. Pointers that the code
  compares with \<open>NULL\<close> are options, and a call that returns 1 yields \<open>None\<close>; the input of
  \<open>sha512_update\<close> is the list of its \<open>inlen\<close> bytes. The eight working variables stay in their array
  \<open>S\<close>: round \<open>i\<close> names them with a rotation by \<open>i\<close>.
\<close>

unbundle bit_operations_syntax

definition K :: "u64 list" where
  "K =
     [0x428a2f98d728ae22, 0x7137449123ef65cd, 0xb5c0fbcfec4d3b2f, 0xe9b5dba58189dbbc,
      0x3956c25bf348b538, 0x59f111f1b605d019, 0x923f82a4af194f9b, 0xab1c5ed5da6d8118,
      0xd807aa98a3030242, 0x12835b0145706fbe, 0x243185be4ee4b28c, 0x550c7dc3d5ffb4e2,
      0x72be5d74f27b896f, 0x80deb1fe3b1696b1, 0x9bdc06a725c71235, 0xc19bf174cf692694,
      0xe49b69c19ef14ad2, 0xefbe4786384f25e3, 0x0fc19dc68b8cd5b5, 0x240ca1cc77ac9c65,
      0x2de92c6f592b0275, 0x4a7484aa6ea6e483, 0x5cb0a9dcbd41fbd4, 0x76f988da831153b5,
      0x983e5152ee66dfab, 0xa831c66d2db43210, 0xb00327c898fb213f, 0xbf597fc7beef0ee4,
      0xc6e00bf33da88fc2, 0xd5a79147930aa725, 0x06ca6351e003826f, 0x142929670a0e6e70,
      0x27b70a8546d22ffc, 0x2e1b21385c26c926, 0x4d2c6dfc5ac42aed, 0x53380d139d95b3df,
      0x650a73548baf63de, 0x766a0abb3c77b2a8, 0x81c2c92e47edaee6, 0x92722c851482353b,
      0xa2bfe8a14cf10364, 0xa81a664bbc423001, 0xc24b8b70d0f89791, 0xc76c51a30654be30,
      0xd192e819d6ef5218, 0xd69906245565a910, 0xf40e35855771202a, 0x106aa07032bbd1b8,
      0x19a4c116b8d2d0c8, 0x1e376c085141ab53, 0x2748774cdf8eeb99, 0x34b0bcb5e19b48a8,
      0x391c0cb3c5c95a63, 0x4ed8aa4ae3418acb, 0x5b9cca4f7763e373, 0x682e6ff3d6b2b8a3,
      0x748f82ee5defb2fc, 0x78a5636f43172f60, 0x84c87814a1f0ab72, 0x8cc702081a6439ec,
      0x90befffa23631e28, 0xa4506cebde82bde9, 0xbef9a3f7b2c67915, 0xc67178f2e372532b,
      0xca273eceea26619c, 0xd186b8c721c0c207, 0xeada7dd6cde0eb1e, 0xf57d4f7fee6ed178,
      0x06f067aa72176fba, 0x0a637dc5a2c898a6, 0x113f9804bef90dae, 0x1b710b35131c471b,
      0x28db77f523047d84, 0x32caab7b40c72493, 0x3c9ebe0a15c9bebc, 0x431d67c49c100d4c,
      0x4cc5d4becb3e42b6, 0x597f299cfc657e2a, 0x5fcb6fab3ad6faec, 0x6c44198c4a475817]"

definition ROR64c :: "u64 \<Rightarrow> nat \<Rightarrow> u64" where
  "ROR64c x y = drop_bit y x OR push_bit (64 - y) x"

definition STORE64H :: "u64 \<Rightarrow> u8 list" where
  "STORE64H x =
     [ucast (drop_bit 56 x AND 255), ucast (drop_bit 48 x AND 255), ucast (drop_bit 40 x AND 255),
      ucast (drop_bit 32 x AND 255), ucast (drop_bit 24 x AND 255), ucast (drop_bit 16 x AND 255),
      ucast (drop_bit 8 x AND 255), ucast (x AND 255)]"

definition LOAD64H :: "u8 list \<Rightarrow> nat \<Rightarrow> u64" where
  "LOAD64H y k =
     push_bit 56 (ucast (y ! k)) OR push_bit 48 (ucast (y ! (k + 1))) OR
     push_bit 40 (ucast (y ! (k + 2))) OR push_bit 32 (ucast (y ! (k + 3))) OR
     push_bit 24 (ucast (y ! (k + 4))) OR push_bit 16 (ucast (y ! (k + 5))) OR
     push_bit 8 (ucast (y ! (k + 6))) OR ucast (y ! (k + 7))"

definition Ch :: "u64 \<Rightarrow> u64 \<Rightarrow> u64 \<Rightarrow> u64" where "Ch x y z = z XOR (x AND (y XOR z))"
definition Maj :: "u64 \<Rightarrow> u64 \<Rightarrow> u64 \<Rightarrow> u64" where "Maj x y z = ((x OR y) AND z) OR (x AND y)"
definition Sigma0 :: "u64 \<Rightarrow> u64" where "Sigma0 x = ROR64c x 28 XOR ROR64c x 34 XOR ROR64c x 39"
definition Sigma1 :: "u64 \<Rightarrow> u64" where "Sigma1 x = ROR64c x 14 XOR ROR64c x 18 XOR ROR64c x 41"
definition Gamma0 :: "u64 \<Rightarrow> u64" where "Gamma0 x = ROR64c x 1 XOR ROR64c x 8 XOR drop_bit 7 x"
definition Gamma1 :: "u64 \<Rightarrow> u64" where "Gamma1 x = ROR64c x 19 XOR ROR64c x 61 XOR drop_bit 6 x"

record sha512_context =
  length64 :: u64
  state :: "u64 list"
  curlen :: nat
  buf :: "u8 list"

text \<open>The message schedule: \<open>W[0..15]\<close> is loaded, \<open>W[16..79]\<close> is filled in order.\<close>

definition fill_W :: "u64 list \<Rightarrow> nat \<Rightarrow> u64 list" where
  "fill_W W i = W @ [Gamma1 (W ! (i - 2)) + W ! (i - 7) + Gamma0 (W ! (i - 15)) + W ! (i - 16)]"

definition schedule :: "u8 list \<Rightarrow> u64 list" where
  "schedule b = foldl fill_W (map (\<lambda>i. LOAD64H b (8 * i)) [0..<16]) [16..<80]"

text \<open>\<open>RND(S[..], .., i)\<close>: the variable \<open>k\<close> of round \<open>i\<close> is the array element \<open>k - i\<close> modulo 8.\<close>

definition reg :: "nat \<Rightarrow> nat \<Rightarrow> nat" where "reg i k = (k + 8 - i mod 8) mod 8"

definition RND :: "u64 list \<Rightarrow> u64 list \<Rightarrow> nat \<Rightarrow> u64 list" where
  "RND W S i =
     (let t0 = S ! reg i 7 + Sigma1 (S ! reg i 4) + Ch (S ! reg i 4) (S ! reg i 5) (S ! reg i 6) + K ! i + W ! i;
          t1 = Sigma0 (S ! reg i 0) + Maj (S ! reg i 0) (S ! reg i 1) (S ! reg i 2);
          S = S[reg i 3 := S ! reg i 3 + t0]
      in S[reg i 7 := t0 + t1])"

definition sha512_compress :: "sha512_context \<Rightarrow> u8 list \<Rightarrow> sha512_context" where
  "sha512_compress md b =
     (let S = foldl (RND (schedule b)) (state md) [0..<80]
      in md\<lparr>state := map (\<lambda>i. state md ! i + S ! i) [0..<8]\<rparr>)"

definition sha512_init :: "sha512_context option \<Rightarrow> sha512_context option" where
  "sha512_init md =
     (case md of None \<Rightarrow> None
      | Some md \<Rightarrow> Some (md\<lparr>curlen := 0, length64 := 0,
          state :=
     [0x6a09e667f3bcc908, 0xbb67ae8584caa73b, 0x3c6ef372fe94f82b, 0xa54ff53a5f1d36f1,
      0x510e527fade682d1, 0x9b05688c2b3e6c1f, 0x1f83d9abfb41bd6b, 0x5be0cd19137e2179]\<rparr>))"

text \<open>
  The loop of \<open>sha512_update\<close>. With \<open>curlen\<close> above 128 the copy would run past the buffer; the guard
  before the loop and the loop itself exclude it.
\<close>

function update_loop :: "sha512_context \<Rightarrow> u8 list \<Rightarrow> sha512_context option" where
  "update_loop md inp =
     (if inp = [] then Some md
      else if curlen md = 0 \<and> 128 \<le> length inp then
        update_loop ((sha512_compress md (take 128 inp))\<lparr>length64 := length64 md + 128 * 8\<rparr>) (drop 128 inp)
      else if 128 < curlen md then None
      else
        let n = min (length inp) (128 - curlen md);
            md = md\<lparr>buf := take (curlen md) (buf md) @ take n inp @ drop (curlen md + n) (buf md),
                    curlen := curlen md + n\<rparr>;
            md = (if curlen md = 128
                  then (sha512_compress md (buf md))\<lparr>length64 := length64 md + 8 * 128, curlen := 0\<rparr>
                  else md)
        in update_loop md (drop n inp))"
  by pat_completeness auto

definition sha512_update :: "sha512_context option \<Rightarrow> u8 list option \<Rightarrow> sha512_context option" where
  "sha512_update md inp =
     (case (md, inp) of
        (Some md, Some inp) \<Rightarrow> if 128 < curlen md then None else update_loop md inp
      | _ \<Rightarrow> None)"

definition put_byte :: "sha512_context \<Rightarrow> u8 \<Rightarrow> sha512_context" where
  "put_byte md b = md\<lparr>buf := (buf md)[curlen md := b], curlen := curlen md + 1\<rparr>"

text \<open>\<open>while (md->curlen < n) md->buf[md->curlen++] = 0\<close>.\<close>

function zero_to :: "nat \<Rightarrow> sha512_context \<Rightarrow> sha512_context" where
  "zero_to n md = (if curlen md < n then zero_to n (put_byte md 0) else md)"
  by pat_completeness auto

definition sha512_final :: "sha512_context option \<Rightarrow> (sha512_context \<times> u8 list) option" where
  "sha512_final md =
     (case md of None \<Rightarrow> None
      | Some md \<Rightarrow>
          if 128 \<le> curlen md then None
          else
            let md = md\<lparr>length64 := length64 md + of_nat (curlen md) * 8\<rparr>;
                md = put_byte md 0x80;
                md = (if 112 < curlen md
                      then let md = zero_to 128 md in (sha512_compress md (buf md))\<lparr>curlen := 0\<rparr>
                      else md);
                md = zero_to 120 md;
                md = md\<lparr>buf := take 120 (buf md) @ STORE64H (length64 md)\<rparr>;
                md = sha512_compress md (buf md)
            in Some (md, concat (map STORE64H (state md))))"

definition sha512 :: "sha512_context \<Rightarrow> u8 list option \<Rightarrow> u8 list option" where
  "sha512 ctx message =
     (case sha512_init (Some ctx) of None \<Rightarrow> None
      | Some ctx \<Rightarrow>
          (case sha512_update (Some ctx) message of None \<Rightarrow> None
           | Some ctx \<Rightarrow> map_option snd (sha512_final (Some ctx))))"

termination zero_to
  by (relation "measure (\<lambda>(n, md). n - curlen md)") (auto simp: put_byte_def)

text \<open>Every turn of the loop consumes input, or leaves a full buffer behind that the previous call filled.\<close>

termination update_loop
proof (relation "measure (\<lambda>(md, inp). 2 * length inp + (if curlen md < 128 then 0 else 1))", goal_cases)
  case 1
  show ?case by simp
next
  case (2 md inp)
  then have "curlen (sha512_compress md b) = 0" for b
    by (simp add: sha512_compress_def Let_def)
  with 2 show ?case by simp
next
  case (3 md inp n md1 md2)
  then show ?case
    by (cases inp; cases "curlen md < 128") (auto split: if_splits)
qed

end
