(* ===== verification/Sha512_Ok.thy ===== *)
theory Sha512_Ok
  imports Sha512
begin

text \<open>
  SHA-512 as FIPS 180-4 states it - the round on eight variables, the padding, the iteration over
  blocks - and the proof that \<open>sha512.c\<close> computes it, however its input is cut into updates.
\<close>

unbundle bit_operations_syntax

declare update_loop.simps [simp del] zero_to.simps [simp del]

text \<open>The functions of the standard.\<close>

definition spec_Ch :: "u64 \<Rightarrow> u64 \<Rightarrow> u64 \<Rightarrow> u64" where "spec_Ch x y z = (x AND y) XOR (NOT x AND z)"
definition spec_Maj :: "u64 \<Rightarrow> u64 \<Rightarrow> u64 \<Rightarrow> u64" where
  "spec_Maj x y z = (x AND y) XOR (x AND z) XOR (y AND z)"
definition rotr :: "nat \<Rightarrow> u64 \<Rightarrow> u64" where "rotr = word_rotr"
definition big_sigma :: "nat \<Rightarrow> nat \<Rightarrow> nat \<Rightarrow> u64 \<Rightarrow> u64" where
  "big_sigma i j k x = rotr i x XOR rotr j x XOR rotr k x"
definition small_sigma :: "nat \<Rightarrow> nat \<Rightarrow> nat \<Rightarrow> u64 \<Rightarrow> u64" where
  "small_sigma i j k x = rotr i x XOR rotr j x XOR drop_bit k x"

fun spec_W :: "u8 list \<Rightarrow> nat \<Rightarrow> u64" where
  "spec_W b t = (if t < 16 then LOAD64H b (8 * t)
     else small_sigma 19 61 6 (spec_W b (t - 2)) + spec_W b (t - 7) +
          small_sigma 1 8 7 (spec_W b (t - 15)) + spec_W b (t - 16))"

declare spec_W.simps [simp del]

type_synonym vars = "u64 \<times> u64 \<times> u64 \<times> u64 \<times> u64 \<times> u64 \<times> u64 \<times> u64"

definition spec_round :: "u8 list \<Rightarrow> vars \<Rightarrow> nat \<Rightarrow> vars" where
  "spec_round m v t =
     (case v of (a, b, c, d, e, f, g, h) \<Rightarrow>
        let T1 = h + big_sigma 14 18 41 e + spec_Ch e f g + K ! t + spec_W m t;
            T2 = big_sigma 28 34 39 a + spec_Maj a b c
        in (T1 + T2, a, b, c, d + T1, e, f, g))"

fun spec_compress :: "vars \<Rightarrow> u8 list \<Rightarrow> vars" where
  "spec_compress (h0, h1, h2, h3, h4, h5, h6, h7) m =
     (case foldl (spec_round m) (h0, h1, h2, h3, h4, h5, h6, h7) [0..<80] of
        (a, b, c, d, e, f, g, h) \<Rightarrow> (h0 + a, h1 + b, h2 + c, h3 + d, h4 + e, h5 + f, h6 + g, h7 + h))"

definition blocks :: "u8 list \<Rightarrow> u8 list list" where
  "blocks m = map (\<lambda>i. take 128 (drop (128 * i) m)) [0..<length m div 128]"

definition pad :: "u8 list \<Rightarrow> u8 list" where
  "pad m = m @ 0x80 # replicate ((239 - length m mod 128) mod 128 + 8) 0 @ STORE64H (of_nat (8 * length m))"

definition initial_vars :: vars where
  "initial_vars = (0x6a09e667f3bcc908, 0xbb67ae8584caa73b, 0x3c6ef372fe94f82b, 0xa54ff53a5f1d36f1,
     0x510e527fade682d1, 0x9b05688c2b3e6c1f, 0x1f83d9abfb41bd6b, 0x5be0cd19137e2179)"

definition vars_list :: "vars \<Rightarrow> u64 list" where
  "vars_list v = (case v of (a, b, c, d, e, f, g, h) \<Rightarrow> [a, b, c, d, e, f, g, h])"

definition sha512_spec :: "u8 list \<Rightarrow> u8 list" where
  "sha512_spec m = concat (map STORE64H (vars_list (foldl spec_compress initial_vars (blocks (pad m)))))"

text \<open>The macros are the functions of the standard.\<close>

lemma Ch_eq: "Ch x y z = spec_Ch x y z"
  unfolding Ch_def spec_Ch_def by (rule bit_word_eqI) (auto simp: bit_simps)

lemma Maj_eq: "Maj x y z = spec_Maj x y z"
  unfolding Maj_def spec_Maj_def by (rule bit_word_eqI) (auto simp: bit_simps)

lemma ROR_eq: "0 < n \<Longrightarrow> n < 64 \<Longrightarrow> ROR64c x n = rotr n x"
proof (rule bit_word_eqI)
  fix k assume n: "0 < n" "n < 64" and k: "k < LENGTH(64)"
  have "bit (ROR64c x n) k \<longleftrightarrow> bit x (n + k) \<or> 64 - n \<le> k \<and> bit x (k - (64 - n))"
    using k by (simp add: ROR64c_def bit_or_iff bit_drop_bit_eq bit_push_bit_iff)
  also have "\<dots> \<longleftrightarrow> bit x ((k + n) mod 64)"
  proof (cases "k + n < 64")
    case False
    then have "\<not> bit x (n + k)" "(k + n) mod 64 = k - (64 - n)"
      using n k bit_imp_le_length [of x "n + k"] by (auto simp: le_mod_geq)
    then show ?thesis using False by auto
  qed (auto simp: add.commute)
  also have "\<dots> \<longleftrightarrow> bit (rotr n x) k" using k by (simp add: rotr_def bit_word_rotr_iff)
  finally show "bit (ROR64c x n) k \<longleftrightarrow> bit (rotr n x) k" .
qed

lemmas sigma_defs = Sigma0_def Sigma1_def Gamma0_def Gamma1_def big_sigma_def small_sigma_def ROR_eq

lemma sigma_eq:
  "Sigma0 x = big_sigma 28 34 39 x" "Sigma1 x = big_sigma 14 18 41 x"
  "Gamma0 x = small_sigma 1 8 7 x" "Gamma1 x = small_sigma 19 61 6 x"
  by (simp_all add: sigma_defs)

text \<open>The message schedule.\<close>

lemma schedule_spec: "schedule b = map (spec_W b) [0..<80]"
proof -
  have "foldl fill_W (map (\<lambda>i. LOAD64H b (8 * i)) [0..<16]) [16..<16 + n] = map (spec_W b) [0..<16 + n]" for n
  proof (induction n)
    case 0
    show ?case by (simp add: spec_W.simps)
  next
    case (Suc n)
    let ?t = "16 + n"
    have "fill_W (map (spec_W b) [0..<?t]) ?t = map (spec_W b) [0..<?t] @ [spec_W b ?t]"
      using spec_W.simps [of b ?t] by (simp add: fill_W_def sigma_eq del: upt_Suc)
    moreover have "[m..<m + Suc n] = [m..<m + n] @ [m + n]" for m :: nat by simp
    moreover have "[0..<16 + Suc n] = [0..<16 + n] @ [16 + n]"
      by (simp only: add_Suc_right upt_Suc le0 if_True)
    ultimately show ?case using Suc by (simp only: foldl_append foldl.simps map_append list.map)
  qed
  from this [of 64] show ?thesis by (simp add: schedule_def)
qed

text \<open>The rotating names of the working variables.\<close>

definition working :: "u64 list \<Rightarrow> nat \<Rightarrow> vars" where
  "working S i = (S ! reg i 0, S ! reg i 1, S ! reg i 2, S ! reg i 3, S ! reg i 4, S ! reg i 5, S ! reg i 6, S ! reg i 7)"

lemma reg_cases:
  obtains "i mod 8 = 0" "Suc i mod 8 = 1" | "i mod 8 = 1" "Suc i mod 8 = 2" | "i mod 8 = 2" "Suc i mod 8 = 3"
  | "i mod 8 = 3" "Suc i mod 8 = 4" | "i mod 8 = 4" "Suc i mod 8 = 5" | "i mod 8 = 5" "Suc i mod 8 = 6"
  | "i mod 8 = 6" "Suc i mod 8 = 7" | "i mod 8 = 7" "Suc i mod 8 = 0"
proof -
  have "i mod 8 < 8" by simp
  then have "i mod 8 = 0 \<or> i mod 8 = 1 \<or> i mod 8 = 2 \<or> i mod 8 = 3 \<or> i mod 8 = 4 \<or> i mod 8 = 5 \<or>
    i mod 8 = 6 \<or> i mod 8 = 7" by linarith
  then show thesis using that by (auto simp: mod_Suc)
qed

lemma RND_spec:
  assumes "length S = 8" "i < 80"
  shows "working (RND (schedule b) S i) (Suc i) = spec_round b (working S i) i" "length (RND (schedule b) S i) = 8"
proof -
  have W: "schedule b ! i = spec_W b i" using assms(2) by (simp add: schedule_spec)
  show "working (RND (schedule b) S i) (Suc i) = spec_round b (working S i) i"
    by (cases i rule: reg_cases)
      (simp_all add: working_def RND_def spec_round_def Let_def W Ch_eq Maj_eq sigma_eq reg_def assms(1) add_ac)
  show "length (RND (schedule b) S i) = 8" by (simp add: RND_def Let_def assms(1))
qed

lemma rounds_spec:
  "length S = 8 \<Longrightarrow> n \<le> 80 \<Longrightarrow>
    working (foldl (RND (schedule b)) S [0..<n]) n = foldl (spec_round b) (working S 0) [0..<n] \<and>
    length (foldl (RND (schedule b)) S [0..<n]) = 8"
  by (induction n) (simp_all add: RND_spec)

lemma list8: "length S = 8 \<Longrightarrow> S = [S ! 0, S ! 1, S ! 2, S ! 3, S ! 4, S ! 5, S ! 6, S ! 7]"
  by (intro nth_equalityI) (auto simp: less_Suc_eq numeral_eq_Suc)

lemma vars_list_working: "length S = 8 \<Longrightarrow> vars_list (working S (8 * k)) = S"
  using list8 [of S] by (simp add: vars_list_def working_def reg_def)

text \<open>The compression function.\<close>

lemma sha512_compress_spec:
  assumes "length (state md) = 8"
  shows "state (sha512_compress md b) = vars_list (spec_compress (working (state md) 0) b)"
proof -
  let ?S = "foldl (RND (schedule b)) (state md) [0..<80]"
  have r: "working ?S 80 = foldl (spec_round b) (working (state md) 0) [0..<80]" "length ?S = 8"
    using rounds_spec [OF assms, of 80 b] by simp_all
  have "working ?S 80 = working ?S 0" by (simp add: working_def reg_def)
  with r(1) have w: "foldl (spec_round b) (working (state md) 0) [0..<80] = working ?S 0" by simp
  have u: "[0..<8] = [0, 1, 2, 3, 4, 5, 6, 7 :: nat]" by code_simp
  show ?thesis
    using w unfolding sha512_compress_def Let_def u
    by (simp add: working_def reg_def vars_list_def)
qed

definition compress_list :: "u64 list \<Rightarrow> u8 list \<Rightarrow> u64 list" where
  "compress_list st b = vars_list (spec_compress (working st 0) b)"

lemma length_compress [simp]: "length (compress_list st b) = 8"
  by (simp add: compress_list_def vars_list_def split: prod.split)

lemma fold_compress:
  "foldl compress_list (vars_list v) bs = vars_list (foldl spec_compress v bs)"
proof (induction bs arbitrary: v)
  case (Cons b bs)
  have "working (vars_list v) 0 = v" by (auto simp: working_def vars_list_def reg_def split: prod.split)
  then show ?case using Cons by (simp add: compress_list_def)
qed simp

lemma compress_fields [simp]:
  "curlen (sha512_compress md b) = curlen md" "buf (sha512_compress md b) = buf md"
  "length64 (sha512_compress md b) = length64 md"
  by (simp_all add: sha512_compress_def Let_def)

lemma state_compress: "length (state md) = 8 \<Longrightarrow> state (sha512_compress md b) = compress_list (state md) b"
  by (simp add: sha512_compress_spec compress_list_def)

text \<open>The context stands for the message fed to it so far: its whole blocks and the rest in the buffer.\<close>

definition iv :: "u64 list" where "iv = vars_list initial_vars"

definition sha_split :: "sha512_context \<Rightarrow> u8 list \<Rightarrow> u8 list \<Rightarrow> bool" where
  "sha_split md p t \<longleftrightarrow> length (buf md) = 128 \<and> length p mod 128 = 0 \<and> length t < 128 \<and>
     curlen md = length t \<and> take (length t) (buf md) = t \<and> length64 md = of_nat (8 * length p) \<and>
     state md = foldl compress_list iv (blocks p)"

definition sha_rep :: "sha512_context \<Rightarrow> u8 list \<Rightarrow> bool" where
  "sha_rep md m \<longleftrightarrow> (\<exists>p t. m = p @ t \<and> sha_split md p t)"

lemma mod_add_block: "length m mod 128 = 0 \<Longrightarrow> \<exists>k. length m = 128 * (k :: nat)"
  by (metis dvdE dvd_eq_mod_eq_0)

lemma blocks_append:
  assumes "length m = 128 * k" "length b = 128"
  shows "blocks (m @ b) = blocks m @ [b]"
proof -
  have "take 128 (drop (128 * i) (m @ b)) = take 128 (drop (128 * i) m)" if "i < k" for i
    using that assms by (auto simp: take_append drop_append)
  then show ?thesis using assms by (simp add: blocks_def)
qed

lemma blocks_partial: "length r < 128 \<Longrightarrow> length m mod 128 = 0 \<Longrightarrow> blocks (m @ r) = blocks m"
proof -
  assume r: "length r < 128" "length m mod 128 = 0"
  then obtain k where k: "length m = 128 * k" by (metis dvdE dvd_eq_mod_eq_0)
  have "take 128 (drop (128 * i) (m @ r)) = take 128 (drop (128 * i) m)" if "i < k" for i
    using that k by (auto simp: take_append drop_append)
  then show ?thesis using r k by (simp add: blocks_def)
qed

lemma length_state_split: "sha_split md p t \<Longrightarrow> length (state md) = 8"
proof -
  have "length (foldl compress_list iv bs) = 8" for bs
    by (induction bs rule: rev_induct) (simp_all add: iv_def vars_list_def initial_vars_def)
  then show "sha_split md p t \<Longrightarrow> length (state md) = 8" by (simp add: sha_split_def)
qed

text \<open>A block taken directly from the input, and bytes collected in the buffer.\<close>

lemma split_block:
  assumes "sha_split md p []" "length b = 128"
  shows "sha_split ((sha512_compress md b)\<lparr>length64 := length64 md + 128 * 8\<rparr>) (p @ b) []"
proof -
  obtain k where k: "length p = 128 * k" using assms mod_add_block by (auto simp: sha_split_def)
  show ?thesis using assms blocks_append [OF k assms(2)]
    by (simp add: sha_split_def state_compress [OF length_state_split [OF assms(1)]])
qed

lemma split_collect:
  assumes "sha_split md p t" "length t + length r < 128"
  shows "sha_split (md\<lparr>buf := take (curlen md) (buf md) @ r @ drop (curlen md + length r) (buf md),
    curlen := curlen md + length r\<rparr>) p (t @ r)"
  using assms by (simp add: sha_split_def)

lemma split_fill:
  assumes "sha_split md p t" "length t + length r = 128" "length b' = 128"
  shows "sha_split ((sha512_compress (md\<lparr>buf := b, curlen := c\<rparr>) (t @ r))
      \<lparr>length64 := length64 md + 8 * 128, curlen := 0, buf := b'\<rparr>) (p @ t @ r) []"
proof -
  obtain k where k: "length p = 128 * k" using assms mod_add_block by (auto simp: sha_split_def)
  have l: "length (t @ r) = 128" using assms(2) by simp
  have ls: "length (state (md\<lparr>buf := b, curlen := c\<rparr>)) = 8" using length_state_split [OF assms(1)] by simp
  show ?thesis using assms blocks_append [OF k l] l
    by (simp add: sha_split_def state_compress [OF ls, simplified])
qed

text \<open>The loop feeds its whole input, whatever its length.\<close>

lemma update_loop_ok:
  "sha_rep md m \<Longrightarrow> \<exists>md'. update_loop md inp = Some md' \<and> sha_rep md' (m @ inp)"
proof (induction md inp arbitrary: m rule: update_loop.induct)
  case (1 md inp)
  obtain p t where pt: "m = p @ t" "sha_split md p t" using 1(3) by (auto simp: sha_rep_def)
  have c: "curlen md = length t" "length t < 128" "take (length t) (buf md) = t" "length (buf md) = 128"
    using pt(2) by (simp_all add: sha_split_def)
  consider "inp = []" | "inp \<noteq> []" "t = []" "128 \<le> length inp" | "inp \<noteq> []" "\<not> (t = [] \<and> 128 \<le> length inp)"
    by blast
  then show ?case
  proof cases
    case 1
    then show ?thesis using \<open>sha_rep md m\<close> by (simp add: update_loop.simps)
  next
    case 2
    let ?md = "(sha512_compress md (take 128 inp))\<lparr>length64 := length64 md + 128 * 8\<rparr>"
    have "sha_rep ?md (m @ take 128 inp)"
      using split_block [of md p "take 128 inp"] pt 2 by (auto simp: sha_rep_def)
    with 1(1) [OF _ _ this] 2 c(1) show ?thesis
      by (subst update_loop.simps) simp
  next
    case 3
    let ?n = "min (length inp) (128 - curlen md)"
    let ?r = "take ?n inp"
    have n: "length ?r = ?n" "curlen md + ?n \<le> 128" using c by simp_all
    let ?md1 = "md\<lparr>buf := take (curlen md) (buf md) @ take ?n inp @ drop (curlen md + ?n) (buf md),
      curlen := curlen md + ?n\<rparr>"
    let ?md2 = "if curlen ?md1 = 128 then (sha512_compress ?md1 (buf ?md1))\<lparr>length64 := length64 ?md1 + 8 * 128, curlen := 0\<rparr>
      else ?md1"
    have "sha_rep ?md2 (m @ ?r)"
    proof (cases "curlen md + ?n = 128")
      case True
      have b: "buf ?md1 = t @ ?r" using True c n(1) by simp
      have l: "length (t @ ?r) = 128" using True c n(1) by simp
      have "sha_split ((sha512_compress ?md1 (t @ ?r))\<lparr>length64 := length64 md + 8 * 128, curlen := 0, buf := t @ ?r\<rparr>) (p @ t @ ?r) []"
        by (rule split_fill [OF pt(2)]) (use l in simp_all)
      moreover have "(sha512_compress ?md1 (buf ?md1))\<lparr>length64 := length64 ?md1 + 8 * 128, curlen := 0\<rparr> =
          (sha512_compress ?md1 (t @ ?r))\<lparr>length64 := length64 md + 8 * 128, curlen := 0, buf := t @ ?r\<rparr>"
        unfolding b by (rule sha512_context.equality) (simp_all add: b del: take_append)
      ultimately show ?thesis using True pt(1) by (auto simp: sha_rep_def)
    next
      case False
      then have "length t + length ?r < 128" using n c by simp
      from split_collect [OF pt(2) this] show ?thesis using False pt(1) n(1) c by (auto simp: sha_rep_def)
    qed
    moreover have cond: "inp \<noteq> []" "\<not> (curlen md = 0 \<and> 128 \<le> length inp)" "\<not> 128 < curlen md"
      using 3 c by auto
    ultimately have "\<exists>md'. update_loop ?md2 (drop ?n inp) = Some md' \<and> sha_rep md' ((m @ ?r) @ drop ?n inp)"
      using 1(2) [OF _ _ _ refl refl refl] by blast
    moreover have "update_loop md inp = update_loop ?md2 (drop ?n inp)"
      by (subst update_loop.simps) (simp only: cond if_False Let_def)
    ultimately show ?thesis by (simp only: append_assoc append_take_drop_id)
  qed
qed

lemma sha512_update_ok:
  assumes "sha_rep md m"
  shows "\<exists>md'. sha512_update (Some md) (Some inp) = Some md' \<and> sha_rep md' (m @ inp)"
proof -
  have "curlen md < 128" using assms by (auto simp: sha_rep_def sha_split_def)
  then show ?thesis using update_loop_ok [OF assms] by (simp add: sha512_update_def)
qed

lemma sha512_init_ok:
  assumes "length (buf md) = 128"
  shows "\<exists>md'. sha512_init (Some md) = Some md' \<and> sha_rep md' []"
proof -
  have "sha_split (the (sha512_init (Some md))) [] []"
    using assms by (simp add: sha512_init_def sha_split_def iv_def initial_vars_def vars_list_def blocks_def)
  then show ?thesis by (auto simp: sha512_init_def sha_rep_def)
qed

text \<open>The padding.\<close>

lemma zero_to_eq:
  "n \<le> 128 \<Longrightarrow> length (buf md) = 128 \<Longrightarrow> curlen md \<le> n \<Longrightarrow>
    zero_to n md = md\<lparr>buf := take (curlen md) (buf md) @ replicate (n - curlen md) 0 @ drop n (buf md), curlen := n\<rparr>"
proof (induction n md rule: zero_to.induct)
  case (1 n md)
  show ?case
  proof (cases "curlen md < n")
    case True
    then have "curlen md < length (buf md)" using 1(2,3) by simp
    then have "take (Suc (curlen md)) ((buf md)[curlen md := 0]) = take (curlen md) (buf md) @ [0]"
      by (simp add: take_Suc_conv_app_nth take_update_cancel)
    moreover have "n - curlen md = Suc (n - Suc (curlen md))" using True by simp
    ultimately show ?thesis using True 1
      by (subst zero_to.simps) (simp add: put_byte_def drop_update_cancel)
  next
    case False
    then have "curlen md = n" using 1(4) by simp
    then show ?thesis by (subst zero_to.simps) simp
  qed
qed

definition final_bytes :: "u8 list \<Rightarrow> u8 list \<Rightarrow> u8 list" where
  "final_bytes p t = t @ 0x80 # replicate ((239 - length t) mod 128 + 8) 0 @ STORE64H (of_nat (8 * (length p + length t)))"

lemma pad_split:
  assumes "length p mod 128 = 0" "length t < 128"
  shows "pad (p @ t) = p @ final_bytes p t"
proof -
  obtain k where "length p = 128 * k" using assms(1) mod_add_block by auto
  then have "(length p + length t) mod 128 = length t" using assms(2) by simp
  then show ?thesis by (simp add: pad_def final_bytes_def)
qed

lemma length_STORE64H [simp]: "length (STORE64H x) = 8"
  by (simp add: STORE64H_def)

lemma final_bytes_short:
  "length t \<le> 111 \<Longrightarrow> final_bytes p t =
    t @ 0x80 # replicate (119 - length t) 0 @ STORE64H (of_nat (8 * (length p + length t)))"
proof -
  assume "length t \<le> 111"
  then have "(239 - length t) mod 128 + 8 = 119 - length t"
    using le_mod_geq [of 128 "239 - length t"] by simp
  then show ?thesis by (simp add: final_bytes_def)
qed

lemma final_bytes_long:
  assumes "112 \<le> length t" "length t < 128"
  shows "final_bytes p t =
    (t @ 0x80 # replicate (127 - length t) 0) @ (replicate 120 0 @ STORE64H (of_nat (8 * (length p + length t))))"
proof -
  have "(239 - length t) mod 128 + 8 = (127 - length t) + 120" using assms by simp
  moreover have "replicate ((127 - length t) + 120) (0 :: u8) = replicate (127 - length t) 0 @ replicate 120 0"
    by (rule replicate_add)
  ultimately show ?thesis by (simp only: final_bytes_def append_assoc append_Cons)
qed

lemma digest_spec: "concat (map STORE64H (foldl compress_list iv (blocks (pad m)))) = sha512_spec m"
  by (simp add: sha512_spec_def iv_def fold_compress)

lemma put_byte_fields [simp]:
  "curlen (put_byte md b) = curlen md + 1" "buf (put_byte md b) = (buf md)[curlen md := b]"
  "state (put_byte md b) = state md" "length64 (put_byte md b) = length64 md"
  by (simp_all add: put_byte_def)

lemma sha512_final_ok:
  assumes "sha_rep md m"
  shows "\<exists>md'. sha512_final (Some md) = Some (md', sha512_spec m)"
proof -
  obtain p t where m: "m = p @ t" and s: "sha_split md p t" using assms by (auto simp: sha_rep_def)
  have c: "curlen md = length t" "length t < 128" "take (length t) (buf md) = t" "length (buf md) = 128"
    "length p mod 128 = 0" "length64 md = of_nat (8 * length p)" "state md = foldl compress_list iv (blocks p)"
    using s by (simp_all add: sha_split_def)
  obtain k where k: "length p = 128 * k" using c(5) mod_add_block by auto
  have ls: "length (state md) = 8" by (rule length_state_split [OF s])
  let ?len = "of_nat (8 * (length p + length t)) :: u64"
  let ?md0 = "put_byte (md\<lparr>length64 := length64 md + of_nat (curlen md) * 8\<rparr>) 0x80"
  have t1: "take (Suc (length t)) (buf ?md0) = t @ [0x80]" "length (buf ?md0) = 128"
    using c by (simp_all add: take_Suc_conv_app_nth take_update_cancel)
  have len: "length64 ?md0 = ?len" using c by (simp add: algebra_simps)
  show ?thesis
  proof (cases "112 \<le> length t")
    case False
    let ?b = "t @ 0x80 # replicate (119 - length t) 0 @ STORE64H ?len"
    have z: "zero_to 120 ?md0 = ?md0\<lparr>buf := take (Suc (length t)) (buf ?md0) @ replicate (120 - Suc (length t)) 0 @
        drop 120 (buf ?md0), curlen := 120\<rparr>"
      using zero_to_eq [of 120 ?md0] t1(2) c(1) False by simp
    have "blocks (pad m) = blocks p @ [?b]"
      using pad_split [OF c(5,2)] final_bytes_short [of t p] blocks_append [OF k, of ?b] False by (simp add: m)
    then have "sha512_spec m = concat (map STORE64H (compress_list (state md) ?b))"
      by (simp add: c(7) flip: digest_spec)
    moreover have "take 120 (buf (zero_to 120 ?md0)) = t @ 0x80 # replicate (119 - length t) 0"
    proof -
      have "120 - length t = Suc (119 - length t)" using False by simp
      then show ?thesis unfolding z using t1 False by simp
    qed
    moreover have "length64 (zero_to 120 ?md0) = ?len" "state (zero_to 120 ?md0) = state md"
      unfolding z using len by simp_all
    ultimately show ?thesis
      using c False ls by (simp add: sha512_final_def Let_def state_compress)
  next
    case True
    let ?b1 = "t @ 0x80 # replicate (127 - length t) 0" and ?b2 = "replicate 120 0 @ STORE64H ?len"
    have z1: "zero_to 128 ?md0 = ?md0\<lparr>buf := ?b1, curlen := 128\<rparr>"
      using zero_to_eq [of 128 ?md0] t1 c by (simp add: Suc_diff_le)
    let ?md1 = "(sha512_compress (zero_to 128 ?md0) (buf (zero_to 128 ?md0)))\<lparr>curlen := 0\<rparr>"
    have z2: "zero_to 120 ?md1 = ?md1\<lparr>buf := replicate 120 0 @ drop 120 (buf ?md1), curlen := 120\<rparr>"
      using zero_to_eq [of 120 ?md1] c(2) by (simp add: z1)
    have "blocks (pad m) = (blocks p @ [?b1]) @ [?b2]"
      using pad_split [OF c(5,2)] final_bytes_long [OF True c(2), of p] blocks_append [OF k, of ?b1]
        blocks_append [of "p @ ?b1" "Suc k" ?b2] True c(2) k by (simp add: m)
    then have spec: "sha512_spec m = concat (map STORE64H (compress_list (compress_list (state md) ?b1) ?b2))"
      by (simp add: c(7) flip: digest_spec)
    have f: "take 120 (buf (zero_to 120 ?md1)) = replicate 120 0" "length64 (zero_to 120 ?md1) = ?len"
      "state (zero_to 120 ?md1) = compress_list (state md) ?b1"
      unfolding z2 unfolding z1 using len ls by (simp_all add: state_compress)
    have "112 < curlen ?md0" "\<not> 128 \<le> curlen md" using True c by simp_all
    then show ?thesis
      unfolding spec sha512_final_def using f by (simp add: Let_def state_compress)
  qed
qed

lemma sha512_ok:
  assumes "length (buf ctx) = 128"
  shows "sha512 ctx (Some m) = Some (sha512_spec m)"
proof -
  obtain md where i: "sha512_init (Some ctx) = Some md" "sha_rep md []" using sha512_init_ok [OF assms] by blast
  obtain md1 where u: "sha512_update (Some md) (Some m) = Some md1" "sha_rep md1 m"
    using sha512_update_ok [OF i(2), of m] by auto
  obtain md2 where "sha512_final (Some md1) = Some (md2, sha512_spec m)" using sha512_final_ok [OF u(2)] by blast
  then show ?thesis by (simp add: sha512_def i(1) u(1))
qed

text \<open>Feeding a message in pieces.\<close>

definition feed :: "sha512_context option \<Rightarrow> u8 list list \<Rightarrow> sha512_context option" where
  "feed c ps = foldl (\<lambda>c p. sha512_update c (Some p)) c ps"

lemma feed_ok: "sha_rep md m \<Longrightarrow> \<exists>md'. feed (Some md) ps = Some md' \<and> sha_rep md' (m @ concat ps)"
proof (induction ps arbitrary: md m)
  case (Cons p ps)
  obtain md1 where u: "sha512_update (Some md) (Some p) = Some md1" "sha_rep md1 (m @ p)"
    using sha512_update_ok [OF Cons.prems, of p] by blast
  then show ?case using Cons.IH [OF u(2)] by (simp add: feed_def)
qed (simp add: feed_def)

text \<open>The loop returns from every context whose buffer is not overrun, a full one included.\<close>

lemma update_loop_returns: "curlen md \<le> 128 \<Longrightarrow> update_loop md inp \<noteq> None"
proof (induction md inp rule: update_loop.induct)
  case (1 md inp)
  consider "inp = []" | "inp \<noteq> []" "curlen md = 0 \<and> 128 \<le> length inp"
    | "inp \<noteq> []" "\<not> (curlen md = 0 \<and> 128 \<le> length inp)" by blast
  then show ?case
  proof cases
    case 2
    with 1(1) show ?thesis by (subst update_loop.simps) simp
  next
    case 3
    let ?n = "min (length inp) (128 - curlen md)"
    let ?md1 = "md\<lparr>buf := take (curlen md) (buf md) @ take ?n inp @ drop (curlen md + ?n) (buf md),
      curlen := curlen md + ?n\<rparr>"
    let ?md2 = "if curlen ?md1 = 128 then (sha512_compress ?md1 (buf ?md1))\<lparr>length64 := length64 ?md1 + 8 * 128, curlen := 0\<rparr>
      else ?md1"
    have full: "\<not> 128 < curlen md" using 1(3) by simp
    then have "curlen ?md2 \<le> 128" by (auto simp: min_def)
    with 1(2) [OF 3 full refl refl refl] have "update_loop ?md2 (drop ?n inp) \<noteq> None" by blast
    moreover have "update_loop md inp = update_loop ?md2 (drop ?n inp)"
      by (subst update_loop.simps) (simp only: 3 full if_False Let_def)
    ultimately show ?thesis by simp
  qed (simp add: update_loop.simps)
qed

end
