(* ===== verification/Ed_Props.thy ===== *)
theory Ed_Props
  imports Field_Power Scalar_Reduce Sha512_Ok
begin

text \<open>
  Properties of the arithmetic under the signature check: the field routines of \<open>fe.c\<close>, the scalar
  routines of \<open>sc.c\<close> and the hash of \<open>sha512.c\<close>.
\<close>

text \<open>C18: Field multiplication never overflows for operands of the sizes its comment asks for, promises
  limbs of the sizes of its postcondition, and its result is the product modulo \<open>2^255 - 19\<close>.\<close>

theorem fe_mul_is_product:
  assumes "fe_ok fe_loose f" "fe_ok fe_loose g"
  shows "fe_ok fe_tight (fe_mul f g) \<and> fe_val (fe_mul f g) mod fe_p = fe_val f * fe_val g mod fe_p"
  using fe_mul_ok [OF assms] by simp

theorem fe_mul_is_product_witness:
  "fe_val (fe_mul (fe_add fe_1 fe_1) (fe_add fe_1 fe_1)) mod fe_p = 4"
proof -
  have "fe_ok fe_loose (fe_add fe_1 fe_1)" "fe_val (fe_add fe_1 fe_1) = 2" "fe_p = 2 ^ 255 - 19"
    by code_simp+
  then show ?thesis using fe_mul_is_product [of "fe_add fe_1 fe_1" "fe_add fe_1 fe_1"] by simp
qed

text \<open>The two squaring routines, which compute half of the products, agree with multiplication:
  \<open>fe_sq\<close> is \<open>fe_mul\<close> of an element with itself limb by limb, and \<open>fe_sq2\<close> is twice the square.\<close>

theorem fe_squares_agree:
  assumes "fe_ok fe_loose f"
  shows "fe_sq f = fe_mul f f \<and> fe_ok fe_tight (fe_sq2 f) \<and>
    fe_val (fe_sq2 f) mod fe_p = 2 * fe_val (fe_sq f) mod fe_p"
proof -
  have "fe_val (fe_sq f) mod fe_p = fe_val f * fe_val f mod fe_p"
    using fe_mul_ok(2) [OF assms assms] fe_sq_mul [OF assms] by simp
  then have "2 * fe_val (fe_sq f) mod fe_p = 2 * (fe_val f * fe_val f) mod fe_p"
    by (metis mod_mult_right_eq)
  then show ?thesis using fe_sq_mul [OF assms] fe_sq2_ok [OF assms] by simp
qed

theorem fe_squares_agree_witness: "fe_sq fe_1 = fe_mul fe_1 fe_1"
proof -
  have "fe_ok fe_loose fe_1" by code_simp
  then show ?thesis using fe_squares_agree by blast
qed

text \<open>The addition chains of inversion and of the square-root candidate raise to the powers
  \<open>p - 2\<close> and \<open>(p - 5) / 8\<close>.\<close>

theorem fe_powers_exact:
  assumes "fe_ok fe_loose z"
  shows "fe_val (fe_invert z) mod fe_p = fe_val z ^ nat (fe_p - 2) mod fe_p \<and> fe_ok fe_tight (fe_invert z) \<and>
    fe_val (fe_pow22523 z) mod fe_p = fe_val z ^ nat ((fe_p - 5) div 8) mod fe_p \<and> fe_ok fe_tight (fe_pow22523 z)"
proof -
  have "nat (fe_p - 2) = 2 ^ 255 - 21" "nat ((fe_p - 5) div 8) = 2 ^ 252 - 3" by (simp_all add: fe_p_def)
  then show ?thesis using fe_invert_ok [OF assms] fe_pow22523_ok [OF assms] by simp
qed

theorem fe_powers_exact_witness: "fe_val (fe_invert fe_1) mod fe_p = 1"
proof -
  have "fe_ok fe_loose fe_1" "fe_val fe_1 = 1" "1 mod fe_p = 1" by code_simp+
  then show ?thesis using fe_powers_exact [of fe_1] by simp
qed

text \<open>Serialisation writes the least non-negative residue, so two elements have the same bytes
  exactly when they are congruent, and the sign and zero tests read that residue.\<close>

theorem fe_tobytes_canonical:
  assumes "fe_ok fe_wide f" "fe_ok fe_wide g"
  shows "le_int (fe_tobytes f) = fe_val f mod fe_p \<and> length (fe_tobytes f) = 32 \<and>
    (fe_tobytes f = fe_tobytes g \<longleftrightarrow> fe_val f mod fe_p = fe_val g mod fe_p) \<and>
    fe_isnegative f = of_int (fe_val f mod fe_p mod 2) \<and> (fe_isnonzero f \<longleftrightarrow> fe_val f mod fe_p \<noteq> 0)"
  using fe_tobytes_ok [OF assms(1)] fe_tobytes_cong [OF assms] fe_isnegative_ok [OF assms(1)]
    fe_isnonzero_ok [OF assms(1)] by simp

theorem fe_tobytes_canonical_witness: "le_int (fe_tobytes (fe_sub fe_0 fe_1)) = fe_p - 1"
proof -
  have "fe_ok fe_wide (fe_sub fe_0 fe_1)" "fe_val (fe_sub fe_0 fe_1) = - 1" "- 1 mod fe_p = fe_p - 1" by code_simp+
  then show ?thesis using fe_tobytes_canonical [of "fe_sub fe_0 fe_1" "fe_sub fe_0 fe_1"] by simp
qed

text \<open>Reading 32 bytes ignores the top bit; writing back gives the residue, and the same bytes when
  they are canonical.\<close>

theorem fe_bytes_round_trip:
  assumes "length s = 32"
  shows "le_int (fe_tobytes (fe_frombytes s)) = le_int s mod 2 ^ 255 mod fe_p \<and>
    (le_int s < fe_p \<longrightarrow> fe_tobytes (fe_frombytes s) = s)"
proof -
  have ok: "fe_ok fe_wide (fe_frombytes s)" using fe_frombytes_ok(1) [OF assms] by (rule fe_ok_tight(2))
  have v: "le_int (fe_tobytes (fe_frombytes s)) = le_int s mod 2 ^ 255 mod fe_p"
    using fe_tobytes_ok(1) [OF ok] fe_frombytes_ok(2) [OF assms] by simp
  moreover have "fe_tobytes (fe_frombytes s) = s" if "le_int s < fe_p"
  proof (rule le_int_inject)
    have "fe_p < 2 ^ 255" by (simp add: fe_p_def)
    then show "le_int (fe_tobytes (fe_frombytes s)) = le_int s"
      unfolding v using that le_int_bounds(1) [of s] by simp
    show "length (fe_tobytes (fe_frombytes s)) = length s" using fe_tobytes_ok(2) [OF ok] assms by simp
  qed
  ultimately show ?thesis by blast
qed

theorem fe_bytes_round_trip_witness:
  "fe_tobytes (fe_frombytes (9 # replicate 31 0)) = 9 # replicate 31 0"
proof -
  have "length (9 # replicate 31 (0 :: u8)) = 32" "le_int (9 # replicate 31 0) < fe_p" by code_simp+
  then show ?thesis using fe_bytes_round_trip by blast
qed

text \<open>C19: Reducing a 64-byte number gives its least residue modulo the group order, as 32 bytes.\<close>

theorem sc_reduce_residue:
  assumes "length s = 64"
  shows "le_int (sc_reduce s) = le_int s mod sc_l \<and> length (sc_reduce s) = 32"
  using sc_reduce_ok [OF assms] by simp

theorem sc_reduce_residue_witness: "le_int (sc_reduce (replicate 64 255)) = (2 ^ 512 - 1) mod sc_l"
proof -
  have "length (replicate 64 (255 :: u8)) = 64" "le_int (replicate 64 255) = 2 ^ 512 - 1" by code_simp+
  then show ?thesis using sc_reduce_residue by metis
qed

text \<open>C20: The signing equation \<open>(a * b + c) mod l\<close> is computed exactly for all 32-byte operands, reduced
  or not.\<close>

theorem sc_muladd_residue:
  assumes "length a = 32" "length b = 32" "length c = 32"
  shows "le_int (sc_muladd a b c) = (le_int a * le_int b + le_int c) mod sc_l \<and> length (sc_muladd a b c) = 32"
  using sc_muladd_ok [OF assms] by simp

theorem sc_muladd_residue_witness:
  "le_int (sc_muladd (2 # replicate 31 0) (3 # replicate 31 0) (4 # replicate 31 0)) = 10"
proof -
  have "length (x # replicate 31 (0 :: u8)) = 32" for x :: u8 by simp
  moreover have "le_int (2 # replicate 31 0) = 2" "le_int (3 # replicate 31 0) = 3" "le_int (4 # replicate 31 0) = 4"
    "10 mod sc_l = 10" by code_simp+
  ultimately show ?thesis using sc_muladd_residue [of "2 # replicate 31 0" "3 # replicate 31 0" "4 # replicate 31 0"]
    by simp
qed

text \<open>C21: The hash of a message is its SHA-512 digest as the standard defines it, whatever the context
  held before.\<close>

theorem sha512_is_standard:
  assumes "length (buf ctx) = 128"
  shows "sha512 ctx (Some m) = Some (sha512_spec m)"
  by (rule sha512_ok [OF assms])

theorem sha512_is_standard_witness:
  "sha512 \<lparr>length64 = 7, state = [], curlen = 200, buf = replicate 128 1\<rparr> (Some [97, 98, 99])
    = Some (sha512_spec [97, 98, 99])"
  by (rule sha512_is_standard) simp

text \<open>The digest depends on the concatenation of the pieces fed to the context only: however a message
  is cut into updates, the final digest is that of the whole.\<close>

theorem sha512_pieces:
  assumes "length (buf ctx) = 128"
  shows "map_option snd (sha512_final (feed (sha512_init (Some ctx)) ps)) = Some (sha512_spec (concat ps))"
proof -
  obtain md where i: "sha512_init (Some ctx) = Some md" "sha_rep md []" using sha512_init_ok [OF assms] by blast
  obtain md1 where f: "feed (Some md) ps = Some md1" "sha_rep md1 (concat ps)" using feed_ok [OF i(2)] by auto
  then show ?thesis using sha512_final_ok [OF f(2)] by (auto simp: i(1) f(1))
qed

theorem sha512_pieces_witness:
  "map_option snd (sha512_final (feed (sha512_init (Some
     \<lparr>length64 = 0, state = [], curlen = 0, buf = replicate 128 0\<rparr>)) [[97], [98, 99]])) = Some (sha512_spec [97, 98, 99])"
  using sha512_pieces [of "\<lparr>length64 = 0, state = [], curlen = 0, buf = replicate 128 0\<rparr>" "[[97], [98, 99]]"] by simp

text \<open>C22: \<open>sha512_update\<close> terminates for every context and input and fails exactly for null pointers and for
  a fill level beyond the buffer; a context whose buffer is already full makes no progress in one turn of
  the loop but does not hang it.\<close>

theorem sha512_update_returns:
  "sha512_update md inp = None \<longleftrightarrow> md = None \<or> inp = None \<or> 128 < curlen (the md)"
proof (cases md)
  case (Some c)
  then show ?thesis
    by (cases inp; cases "128 < curlen c") (simp_all add: sha512_update_def update_loop_returns)
qed (simp add: sha512_update_def)

end
