(* ===== verification/Prime_Field.thy ===== *)
theory Prime_Field
  imports Field_Power
begin

text \<open>
  The residues modulo \<open>2^255 - 19\<close> as a type of their own, a commutative ring, and the value of a field
  element in it. The rules \<open>rep_rules\<close> read the routines of \<open>fe.c\<close> as the ring's operations and keep
  track of the sizes of the limbs, so that the formulas of \<open>ge.c\<close> become equations of a commutative
  ring.
\<close>

lemma fe_p_gt1: "1 < fe_p" by (simp add: fe_p_def)

lemma fe_p_pos: "0 < fe_p" using fe_p_gt1 by simp

typedef gf = "{0 ..< fe_p}" morphisms gf_rep gf_abs
  using fe_p_pos by force

setup_lifting type_definition_gf

lift_definition to_gf :: "int \<Rightarrow> gf" is "\<lambda>x. x mod fe_p"
  using fe_p_pos by simp

instantiation gf :: comm_ring_1
begin

lift_definition zero_gf :: gf is 0 using fe_p_pos by simp
lift_definition one_gf :: gf is 1 using fe_p_gt1 by simp
lift_definition plus_gf :: "gf \<Rightarrow> gf \<Rightarrow> gf" is "\<lambda>x y. (x + y) mod fe_p" using fe_p_pos by simp
lift_definition uminus_gf :: "gf \<Rightarrow> gf" is "\<lambda>x. (- x) mod fe_p" using fe_p_pos by simp
lift_definition minus_gf :: "gf \<Rightarrow> gf \<Rightarrow> gf" is "\<lambda>x y. (x - y) mod fe_p" using fe_p_pos by simp
lift_definition times_gf :: "gf \<Rightarrow> gf \<Rightarrow> gf" is "\<lambda>x y. (x * y) mod fe_p" using fe_p_pos by simp

instance
  by standard (transfer; simp add: algebra_simps mod_simps; fail)+

end

lemma gf_rep_bounds: "0 \<le> gf_rep x" "gf_rep x < fe_p"
  using gf_rep [of x] by auto

lemma to_gf_ring:
  "to_gf 0 = 0" "to_gf 1 = 1" "to_gf (x + y) = to_gf x + to_gf y" "to_gf (x - y) = to_gf x - to_gf y"
  "to_gf (x * y) = to_gf x * to_gf y" "to_gf (- x) = - to_gf x"
  using fe_p_gt1 by (transfer; simp add: mod_simps)+

lemma to_gf_pow: "to_gf (x ^ n) = to_gf x ^ n"
  by (induction n) (simp_all add: to_gf_ring)

lemma to_gf_eq: "to_gf x = to_gf y \<longleftrightarrow> x mod fe_p = y mod fe_p"
  by transfer simp

lemma to_gf_0: "to_gf x = 0 \<longleftrightarrow> x mod fe_p = 0"
  using to_gf_eq [of x 0] by (simp add: to_gf_ring)

lemma gf_rep_to_gf: "gf_rep (to_gf x) = x mod fe_p"
  by transfer simp

lemma gf_rep_0: "gf_rep x = 0 \<longleftrightarrow> x = 0"
  by transfer simp

lemma to_gf_gf_rep [simp]: "to_gf (gf_rep x) = x"
  by transfer simp

lemma to_gf_numeral: "to_gf (numeral n) = numeral n"
proof -
  have "to_gf (int k) = of_nat k" for k
    by (induction k) (simp_all add: to_gf_ring)
  from this [of "numeral n"] show ?thesis by simp
qed


section \<open>Field elements as values\<close>

text \<open>
  \<open>rep k f x\<close>: the limbs of \<open>f\<close> have at most \<open>k\<close> times the sizes that a multiplication promises,
  and \<open>f\<close> stands for the residue \<open>x\<close>. Products accept operands of size 3, conversions of size 2.
\<close>

definition rep :: "int \<Rightarrow> fe \<Rightarrow> gf \<Rightarrow> bool" where
  "rep k f x \<longleftrightarrow> fe_ok (limb_sizes (k * 16945479)) f \<and> to_gf (fe_val f) = x"

lemma rep_sizes: "rep k f x \<Longrightarrow> fe_ok (limb_sizes (k * 16945479)) f"
  by (simp add: rep_def)

lemma rep_loose: "rep k f x \<Longrightarrow> k \<le> 3 \<Longrightarrow> fe_ok fe_loose f"
  unfolding fe_loose_def rep_def by (auto elim: fe_ok_mono)

lemma rep_wide: "rep k f x \<Longrightarrow> k \<le> 2 \<Longrightarrow> fe_ok fe_wide f"
  unfolding fe_wide_def rep_def by (auto elim: fe_ok_mono)

lemma rep_val: "rep k f x \<Longrightarrow> to_gf (fe_val f) = x"
  by (simp add: rep_def)

lemma rep_residue: "rep k f x \<Longrightarrow> fe_val f mod fe_p = gf_rep x"
  unfolding rep_def by transfer simp

lemma rep_tight: "fe_ok fe_tight f \<Longrightarrow> to_gf (fe_val f) = x \<Longrightarrow> rep 1 f x"
  by (simp add: rep_def fe_tight_def)

lemma rep_mono: "rep k f x \<Longrightarrow> k \<le> l \<Longrightarrow> rep l f x"
  unfolding rep_def by (auto elim: fe_ok_mono)

lemma rep_unique: "rep k f x \<Longrightarrow> rep l f y \<Longrightarrow> x = y"
  by (simp add: rep_def)

lemma rep_mod: "fe_ok fe_tight h \<Longrightarrow> fe_val h mod fe_p = v mod fe_p \<Longrightarrow> to_gf v = x \<Longrightarrow> rep 1 h x"
  by (rule rep_tight) (simp_all flip: to_gf_eq)

lemma rep_mul: "rep k f x \<Longrightarrow> rep l g y \<Longrightarrow> k \<le> 3 \<Longrightarrow> l \<le> 3 \<Longrightarrow> rep 1 (fe_mul f g) (x * y)"
  using fe_mul_ok [of f g] rep_loose [of k f x] rep_loose [of l g y] rep_val [of k f x] rep_val [of l g y]
  by (auto intro: rep_mod simp: to_gf_ring)

lemma rep_sq: "rep k f x \<Longrightarrow> k \<le> 3 \<Longrightarrow> rep 1 (fe_sq f) (x * x)"
  using rep_mul [of k f x k f x] fe_sq_mul [OF rep_loose] by simp

lemma rep_sq2: "rep k f x \<Longrightarrow> k \<le> 3 \<Longrightarrow> rep 1 (fe_sq2 f) (2 * (x * x))"
  using fe_sq2_ok [of f] rep_loose [of k f x] rep_val [of k f x]
  by (auto intro: rep_mod simp: to_gf_ring to_gf_numeral)

lemma rep_mul121666: "rep k f x \<Longrightarrow> k \<le> 2 \<Longrightarrow> rep 1 (fe_mul121666 f) (121666 * x)"
  using fe_mul121666_ok [of f] rep_wide [of k f x] rep_val [of k f x]
  by (auto intro: rep_mod simp: to_gf_ring to_gf_numeral mult.commute)

lemma rep_add: "rep k f x \<Longrightarrow> rep l g y \<Longrightarrow> k + l \<le> 3 \<Longrightarrow> rep (k + l) (fe_add f g) (x + y)"
  using fe_add_sub(1,2) [of "k * 16945479" f "l * 16945479" g]
  by (simp add: rep_def distrib_right to_gf_ring)

lemma rep_sub: "rep k f x \<Longrightarrow> rep l g y \<Longrightarrow> k + l \<le> 3 \<Longrightarrow> rep (k + l) (fe_sub f g) (x - y)"
  using fe_add_sub(3,4) [of "k * 16945479" f "l * 16945479" g]
  by (simp add: rep_def distrib_right to_gf_ring)

lemma rep_0: "rep 1 fe_0 0" and rep_1: "rep 1 fe_1 1"
  using fe_0_1 by (simp_all add: rep_tight to_gf_ring)

lemma fe_copy_id: "length f = 10 \<Longrightarrow> fe_copy f = f"
  unfolding fe_copy_def by (metis map_nth)

lemma rep_length: "rep k f x \<Longrightarrow> length f = 10"
  by (simp add: rep_def fe_ok_sizes)

lemma rep_copy: "rep k f x \<Longrightarrow> rep k (fe_copy f) x"
  using fe_copy_id rep_length by metis

lemma fe_neg_sub: "fe_neg f = fe_sub fe_0 f"
  by (simp add: fe_neg_def fe_sub_def fe_0_def upt_rec)

lemma fe_cmov_cases: "length f = 10 \<Longrightarrow> length g = 10 \<Longrightarrow> fe_cmov f g 1 = g \<and> fe_cmov f g 0 = f"
  unfolding fe_cmov_def by (auto simp: list_eq_iff_nth_eq xor.assoc [symmetric])

lemma fe_cswap_cases: "length f = 10 \<Longrightarrow> length g = 10 \<Longrightarrow> fe_cswap f g 1 = (g, f) \<and> fe_cswap f g 0 = (f, g)"
  unfolding fe_cswap_def Let_def
  by (auto simp: list_eq_iff_nth_eq xor.assoc [symmetric]) (simp add: xor.assoc xor.left_commute)

lemma fe_ok_zero: "fe_ok (limb_sizes 0) fe_0"
  unfolding fe_ok_sizes fe_0_def less10 by simp

lemma rep_neg: "rep k f x \<Longrightarrow> k \<le> 3 \<Longrightarrow> rep k (fe_neg f) (- x)"
  using fe_add_sub(3,4) [OF fe_ok_zero, of "k * 16945479" f]
  by (simp add: rep_def fe_neg_sub to_gf_ring fe_0_1)

lemma rep_invert: "rep k f x \<Longrightarrow> k \<le> 3 \<Longrightarrow> rep 1 (fe_invert f) (x ^ (2 ^ 255 - 21))"
  using fe_invert_ok [of f, OF rep_loose [of k f x]] rep_val [of k f x]
  by (intro rep_mod [where v = "fe_val f ^ (2 ^ 255 - 21)"]) (simp_all only: to_gf_pow)

lemma rep_pow22523: "rep k f x \<Longrightarrow> k \<le> 3 \<Longrightarrow> rep 1 (fe_pow22523 f) (x ^ (2 ^ 252 - 3))"
  using fe_pow22523_ok [of f, OF rep_loose [of k f x]] rep_val [of k f x]
  by (intro rep_mod [where v = "fe_val f ^ (2 ^ 252 - 3)"]) (simp_all only: to_gf_pow)

lemma rep_frombytes: "length s = 32 \<Longrightarrow> rep 1 (fe_frombytes s) (to_gf (le_int s mod 2 ^ 255))"
  using fe_frombytes_ok [of s] by (intro rep_tight) (auto simp: to_gf_eq)

lemma rep_isnonzero: "rep k f x \<Longrightarrow> k \<le> 2 \<Longrightarrow> fe_isnonzero f \<longleftrightarrow> x \<noteq> 0"
  using fe_isnonzero_ok [OF rep_wide] rep_residue gf_rep_0 by metis

lemma rep_isnegative: "rep k f x \<Longrightarrow> k \<le> 2 \<Longrightarrow> fe_isnegative f = of_int (gf_rep x mod 2)"
  using fe_isnegative_ok [OF rep_wide] rep_residue by metis

lemma rep_tobytes: "rep k f x \<Longrightarrow> k \<le> 2 \<Longrightarrow> le_int (fe_tobytes f) = gf_rep x \<and> length (fe_tobytes f) = 32"
  using fe_tobytes_ok [OF rep_wide] rep_residue by metis

lemmas rep_rules = rep_0 rep_1 rep_copy rep_mul rep_sq rep_sq2 rep_add rep_sub rep_neg rep_invert rep_pow22523

end
