(* ===== verification/Group_Element.thy ===== *)
theory Group_Element
  imports Prime_Field
begin

text \<open>
  The point arithmetic of \<open>ge.c\<close>: the five representations of \<open>ge.h\<close> as records and one definition
  per routine, each a chain of the field operations in the order of the source, a variable reused where
  the source reuses a coordinate of the result.
\<close>

unbundle bit_operations_syntax

record ge_p2 =
  p2_X :: fe
  p2_Y :: fe
  p2_Z :: fe

record ge_p3 =
  p3_X :: fe
  p3_Y :: fe
  p3_Z :: fe
  p3_T :: fe

record ge_p1p1 =
  p1_X :: fe
  p1_Y :: fe
  p1_Z :: fe
  p1_T :: fe

record ge_precomp =
  yplusx :: fe
  yminusx :: fe
  xy2d :: fe

record ge_cached =
  YplusX :: fe
  YminusX :: fe
  c_Z :: fe
  T2d :: fe

definition ge_d :: fe where
  "ge_d = [-10913610, 13857413, -15372611, 6949391, 114729, -8787816, -6275908, -3247719, -18696448, -12055116]"

definition ge_sqrtm1 :: fe where
  "ge_sqrtm1 = [-32595792, -7943725, 9377950, 3500415, 12389472, -272473, -25146209, -2005654, 326686, 11406482]"

definition ge_d2 :: fe where
  "ge_d2 = [-21827239, -5839606, -30745221, 13898782, 229458, 15978800, -12551817, -6495438, 29715968, 9444199]"

definition ge_add :: "ge_p3 \<Rightarrow> ge_cached \<Rightarrow> ge_p1p1" where
  "ge_add p q =
     (let X = fe_add (p3_Y p) (p3_X p);
          Y = fe_sub (p3_Y p) (p3_X p);
          Z = fe_mul X (YplusX q);
          Y = fe_mul Y (YminusX q);
          T = fe_mul (T2d q) (p3_T p);
          X = fe_mul (p3_Z p) (c_Z q);
          t0 = fe_add X X;
          X = fe_sub Z Y;
          Y = fe_add Z Y;
          Z = fe_add t0 T;
          T = fe_sub t0 T
      in \<lparr>p1_X = X, p1_Y = Y, p1_Z = Z, p1_T = T\<rparr>)"

definition ge_sub :: "ge_p3 \<Rightarrow> ge_cached \<Rightarrow> ge_p1p1" where
  "ge_sub p q =
     (let X = fe_add (p3_Y p) (p3_X p);
          Y = fe_sub (p3_Y p) (p3_X p);
          Z = fe_mul X (YminusX q);
          Y = fe_mul Y (YplusX q);
          T = fe_mul (T2d q) (p3_T p);
          X = fe_mul (p3_Z p) (c_Z q);
          t0 = fe_add X X;
          X = fe_sub Z Y;
          Y = fe_add Z Y;
          Z = fe_sub t0 T;
          T = fe_add t0 T
      in \<lparr>p1_X = X, p1_Y = Y, p1_Z = Z, p1_T = T\<rparr>)"

definition ge_madd :: "ge_p3 \<Rightarrow> ge_precomp \<Rightarrow> ge_p1p1" where
  "ge_madd p q =
     (let X = fe_add (p3_Y p) (p3_X p);
          Y = fe_sub (p3_Y p) (p3_X p);
          Z = fe_mul X (yplusx q);
          Y = fe_mul Y (yminusx q);
          T = fe_mul (xy2d q) (p3_T p);
          t0 = fe_add (p3_Z p) (p3_Z p);
          X = fe_sub Z Y;
          Y = fe_add Z Y;
          Z = fe_add t0 T;
          T = fe_sub t0 T
      in \<lparr>p1_X = X, p1_Y = Y, p1_Z = Z, p1_T = T\<rparr>)"

definition ge_msub :: "ge_p3 \<Rightarrow> ge_precomp \<Rightarrow> ge_p1p1" where
  "ge_msub p q =
     (let X = fe_add (p3_Y p) (p3_X p);
          Y = fe_sub (p3_Y p) (p3_X p);
          Z = fe_mul X (yminusx q);
          Y = fe_mul Y (yplusx q);
          T = fe_mul (xy2d q) (p3_T p);
          t0 = fe_add (p3_Z p) (p3_Z p);
          X = fe_sub Z Y;
          Y = fe_add Z Y;
          Z = fe_sub t0 T;
          T = fe_add t0 T
      in \<lparr>p1_X = X, p1_Y = Y, p1_Z = Z, p1_T = T\<rparr>)"

definition ge_p1p1_to_p2 :: "ge_p1p1 \<Rightarrow> ge_p2" where
  "ge_p1p1_to_p2 p =
     \<lparr>p2_X = fe_mul (p1_X p) (p1_T p), p2_Y = fe_mul (p1_Y p) (p1_Z p), p2_Z = fe_mul (p1_Z p) (p1_T p)\<rparr>"

definition ge_p1p1_to_p3 :: "ge_p1p1 \<Rightarrow> ge_p3" where
  "ge_p1p1_to_p3 p =
     \<lparr>p3_X = fe_mul (p1_X p) (p1_T p), p3_Y = fe_mul (p1_Y p) (p1_Z p),
      p3_Z = fe_mul (p1_Z p) (p1_T p), p3_T = fe_mul (p1_X p) (p1_Y p)\<rparr>"

definition ge_p2_0 :: ge_p2 where
  "ge_p2_0 = \<lparr>p2_X = fe_0, p2_Y = fe_1, p2_Z = fe_1\<rparr>"

definition ge_p3_0 :: ge_p3 where
  "ge_p3_0 = \<lparr>p3_X = fe_0, p3_Y = fe_1, p3_Z = fe_1, p3_T = fe_0\<rparr>"

definition ge_p2_dbl :: "ge_p2 \<Rightarrow> ge_p1p1" where
  "ge_p2_dbl p =
     (let X = fe_sq (p2_X p);
          Z = fe_sq (p2_Y p);
          T = fe_sq2 (p2_Z p);
          Y = fe_add (p2_X p) (p2_Y p);
          t0 = fe_sq Y;
          Y = fe_add Z X;
          Z = fe_sub Z X;
          X = fe_sub t0 Y;
          T = fe_sub T Z
      in \<lparr>p1_X = X, p1_Y = Y, p1_Z = Z, p1_T = T\<rparr>)"

definition ge_p3_to_p2 :: "ge_p3 \<Rightarrow> ge_p2" where
  "ge_p3_to_p2 p = \<lparr>p2_X = fe_copy (p3_X p), p2_Y = fe_copy (p3_Y p), p2_Z = fe_copy (p3_Z p)\<rparr>"

definition ge_p3_dbl :: "ge_p3 \<Rightarrow> ge_p1p1" where
  "ge_p3_dbl p = (let q = ge_p3_to_p2 p in ge_p2_dbl q)"

definition ge_p3_to_cached :: "ge_p3 \<Rightarrow> ge_cached" where
  "ge_p3_to_cached p =
     \<lparr>YplusX = fe_add (p3_Y p) (p3_X p), YminusX = fe_sub (p3_Y p) (p3_X p),
      c_Z = fe_copy (p3_Z p), T2d = fe_mul (p3_T p) ge_d2\<rparr>"

text \<open>Decoding and encoding. On failure (\<open>- 1\<close>) the coordinate \<open>T\<close> keeps what was there.\<close>

definition ge_frombytes_negate_vartime :: "ge_p3 \<Rightarrow> u8 list \<Rightarrow> int \<times> ge_p3" where
  "ge_frombytes_negate_vartime h s =
     (let Y = fe_frombytes s;
          Z = fe_1;
          u = fe_sq Y;
          v = fe_mul u ge_d;
          u = fe_sub u Z;
          v = fe_add v Z;
          v3 = fe_sq v;
          v3 = fe_mul v3 v;
          X = fe_sq v3;
          X = fe_mul X v;
          X = fe_mul X u;
          X = fe_pow22523 X;
          X = fe_mul X v3;
          X = fe_mul X u;
          vxx = fe_sq X;
          vxx = fe_mul vxx v;
          check = fe_sub vxx u
      in if fe_isnonzero check \<and> fe_isnonzero (fe_add vxx u)
         then (- 1, h\<lparr>p3_X := X, p3_Y := Y, p3_Z := Z\<rparr>)
         else
           let X = (if fe_isnonzero check then fe_mul X ge_sqrtm1 else X);
               X = (if fe_isnegative X = ucast (drop_bit 7 (s ! 31)) then fe_neg X else X);
               T = fe_mul X Y
           in (0, h\<lparr>p3_X := X, p3_Y := Y, p3_Z := Z, p3_T := T\<rparr>))"

definition ge_p3_tobytes :: "ge_p3 \<Rightarrow> u8 list" where
  "ge_p3_tobytes h =
     (let recip = fe_invert (p3_Z h);
          x = fe_mul (p3_X h) recip;
          y = fe_mul (p3_Y h) recip;
          s = fe_tobytes y
      in s[31 := s ! 31 XOR ucast (push_bit 7 (fe_isnegative x))])"

definition ge_tobytes :: "ge_p2 \<Rightarrow> u8 list" where
  "ge_tobytes h =
     (let recip = fe_invert (p2_Z h);
          x = fe_mul (p2_X h) recip;
          y = fe_mul (p2_Y h) recip;
          s = fe_tobytes y
      in s[31 := s ! 31 XOR ucast (push_bit 7 (fe_isnegative x))])"

end
