(* ===== verification/Group_Ok.thy ===== *)
theory Group_Ok
  imports Group_Element
begin

text \<open>
  The formulas of the point routines. A point is four residues \<open>(X, Y, Z, T)\<close> as in \<open>ge.h\<close>; the
  specification is the addition law of the twisted Edwards curve \<open>-x^2 + y^2 = 1 + d x^2 y^2\<close>, its
  numerators and denominators written without divisions. The routines compute these formulas, keep the
  sizes of limbs, and keep points on the curve.
\<close>

lemma ge_constants_ok: "fe_ok fe_tight ge_d" "fe_ok fe_tight ge_d2" "fe_ok fe_tight ge_sqrtm1"
  by code_simp+

definition gf_d :: gf where "gf_d = to_gf (fe_val ge_d)"
definition gf_i :: gf where "gf_i = to_gf (fe_val ge_sqrtm1)"

lemma rep_constants: "rep 1 ge_d gf_d" "rep 1 ge_sqrtm1 gf_i"
  by (simp_all add: gf_d_def gf_i_def rep_tight ge_constants_ok)

lemma ge_constant_values:
  "fe_val ge_d = -20800338683988658368647408995589388737092878452977063003340006470870624536394"
  "fe_val ge_d2 = 16295367250680780974490674513165176452449235426866156013048779062215315747161"
  "fe_val ge_sqrtm1 = 19681161376707505956807079304988542015446066515923890162744021073123829784752"
  by code_simp+

lemma to_gf_mult_p: "to_gf (a + k * fe_p) = to_gf a"
  by (simp add: to_gf_eq)

text \<open>\<open>d2\<close> is \<open>2 d\<close>, \<open>d\<close> is \<open>-121665 / 121666\<close>, and \<open>sqrtm1\<close> squares to \<open>-1\<close>.\<close>

lemma rep_d2: "rep 1 ge_d2 (2 * gf_d)"
proof -
  have "fe_val ge_d2 = 2 * fe_val ge_d + 1 * fe_p" unfolding ge_constant_values fe_p_def by simp
  then have "to_gf (fe_val ge_d2) = 2 * gf_d"
    by (simp only: to_gf_mult_p to_gf_ring(5) to_gf_numeral gf_d_def)
  with ge_constants_ok(2) show ?thesis by (rule rep_tight)
qed

lemma gf_d_quotient: "121666 * gf_d = - 121665"
proof -
  have "121666 * fe_val ge_d = - 121665 + (-43711) * fe_p" unfolding ge_constant_values fe_p_def by simp
  then have "to_gf (121666 * fe_val ge_d) = to_gf (- 121665)" by (simp only: to_gf_mult_p)
  then show ?thesis by (simp add: to_gf_ring to_gf_numeral gf_d_def)
qed

lemma gf_i_square: "gf_i * gf_i = - 1"
proof -
  have "fe_val ge_sqrtm1 * fe_val ge_sqrtm1 = - 1 + (6690407189080634018507799843845558368979872843924222843531373839242004886245) * fe_p"
    unfolding ge_constant_values fe_p_def by simp
  then have "to_gf (fe_val ge_sqrtm1 * fe_val ge_sqrtm1) = to_gf (- 1)" by (simp only: to_gf_mult_p)
  then show ?thesis by (simp add: to_gf_ring gf_i_def)
qed

section \<open>The addition law\<close>

type_synonym quad = "gf \<times> gf \<times> gf \<times> gf"

fun on_curve :: "quad \<Rightarrow> bool" where
  "on_curve (X, Y, Z, T) \<longleftrightarrow> X * Y = Z * T \<and> Y * Y - X * X = Z * Z + gf_d * (T * T)"

text \<open>
  The sum as a completed point \<open>((E : G), (H : F))\<close>: \<open>x = (x1 y2 + y1 x2) / (1 + d x1 x2 y1 y2)\<close> and
  \<open>y = (y1 y2 + x1 x2) / (1 - d x1 x2 y1 y2)\<close>, every part times \<open>2 Z1 Z2\<close>.
\<close>

fun edwards :: "quad \<Rightarrow> quad \<Rightarrow> quad" where
  "edwards (X1, Y1, Z1, T1) (X2, Y2, Z2, T2) =
     (2 * (X1 * Y2 + Y1 * X2), 2 * (Y1 * Y2 + X1 * X2),
      2 * (Z1 * Z2 + gf_d * (T1 * T2)), 2 * (Z1 * Z2 - gf_d * (T1 * T2)))"

fun opposite :: "quad \<Rightarrow> quad" where
  "opposite (X, Y, Z, T) = (- X, Y, Z, - T)"

text \<open>Twice a point, with the curve equation used for the denominators, and without the common factor 2.\<close>

fun edwards_dbl :: "quad \<Rightarrow> quad" where
  "edwards_dbl (X, Y, Z, T) = (2 * (X * Y), Y * Y + X * X, Y * Y - X * X, 2 * (Z * Z) - (Y * Y - X * X))"

fun complete :: "quad \<Rightarrow> quad" where
  "complete (E, H, G, F) = (E * F, H * G, G * F, E * H)"

fun scale :: "gf \<Rightarrow> quad \<Rightarrow> quad" where
  "scale k (X, Y, Z, T) = (k * X, k * Y, k * Z, k * T)"

definition neutral :: quad where "neutral = (0, 1, 1, 0)"

lemma on_curve_neutral: "on_curve neutral"
  by (simp add: neutral_def)

lemma on_curve_opposite: "on_curve p \<Longrightarrow> on_curve (opposite p)"
  by (cases p) simp

lemma edwards_neutral: "on_curve (X, Y, Z, T) \<Longrightarrow> complete (edwards (X, Y, Z, T) neutral) = scale (4 * Z) (X, Y, Z, T)"
  by (auto simp: neutral_def mult_ac) (metis mult.assoc mult.commute)

lemma edwards_commute: "edwards p q = edwards q p"
  by (cases p; cases q) (simp add: algebra_simps)

lemma edwards_opposite: "fst (edwards p (opposite p)) = 0"
  by (cases p) (simp add: algebra_simps)

lemma edwards_self: "on_curve p \<Longrightarrow> edwards p p = scale 2 (edwards_dbl p)"
proof (cases p)
  case (fields X Y Z T)
  assume "on_curve p"
  then have c: "gf_d * (T * T) = Y * Y - X * X - Z * Z" by (simp add: fields)
  show ?thesis unfolding fields edwards.simps c by (simp add: algebra_simps)
qed

text \<open>The identity behind the closure of the addition, in any commutative ring.\<close>

lemma edwards_identity:
  fixes a b s t A B P Q u v d m :: "'a::comm_ring_1"
  assumes "A = a + s" "B = b + t" "a * s = d * (u * u)" "b * t = d * (v * v)" "m = d * (u * v)"
    and "E * E = k" "H * H = k + A * B" "2 * k = P * Q + 4 * (u * v) - A * B"
    and "P * P = A * A + 4 * (u * u)" "Q * Q = B * B + 4 * (v * v)"
    and "E * H = u * Q + v * P" "G * F = a * b - s * t" "G * G = a * b + s * t + 2 * m"
    "F * F = a * b + s * t - 2 * m"
  shows "(H * G) * (H * G) - (E * F) * (E * F) = (G * F) * (G * F) + d * ((E * H) * (E * H))"
proof -
  have l: "(H * G) * (H * G) - (E * F) * (E * F) = A * B * (a * b + s * t) + 2 * m * (P * Q + 4 * (u * v))"
  proof -
    have "(H * G) * (H * G) - (E * F) * (E * F) = (H * H) * (G * G) - (E * E) * (F * F)"
      by (simp only: mult_ac)
    also have "\<dots> = A * B * (a * b + s * t) + 2 * m * (2 * k + A * B)"
      unfolding assms(6,7,13,14) by (simp add: algebra_simps)
    finally show ?thesis unfolding assms(8) by (simp add: algebra_simps)
  qed
  have "(E * H) * (E * H) = (u * u) * (Q * Q) + (v * v) * (P * P) + 2 * (u * v) * (P * Q)"
    unfolding assms(11) by (simp add: algebra_simps)
  then have "d * ((E * H) * (E * H)) = (d * (u * u)) * (Q * Q) + (d * (v * v)) * (P * P) + 2 * m * (P * Q)"
    by (simp add: assms(5) algebra_simps)
  also have "\<dots> = a * s * (B * B) + b * t * (A * A) + 8 * m * (u * v) + 2 * m * (P * Q)"
    unfolding assms(9,10) by (simp add: assms(3,4,5) algebra_simps)
  finally have r: "d * ((E * H) * (E * H)) =
      a * s * (B * B) + b * t * (A * A) + 8 * m * (u * v) + 2 * m * (P * Q)" .
  show ?thesis unfolding l r assms(12) assms(1,2) by (simp add: algebra_simps)
qed

lemma edwards_closed:
  fixes d :: "'a::comm_ring_1"
  assumes "X1 * Y1 = Z1 * T1" "Y1 * Y1 - X1 * X1 = Z1 * Z1 + d * (T1 * T1)"
    and "X2 * Y2 = Z2 * T2" "Y2 * Y2 - X2 * X2 = Z2 * Z2 + d * (T2 * T2)"
    and "E = X1 * Y2 + Y1 * X2" "H = Y1 * Y2 + X1 * X2" "G = Z1 * Z2 + d * (T1 * T2)" "F = Z1 * Z2 - d * (T1 * T2)"
  shows "(H * G) * (H * G) - (E * F) * (E * F) = (G * F) * (G * F) + d * ((E * H) * (E * H))"
proof (rule edwards_identity [where a = "Z1 * Z1" and b = "Z2 * Z2" and s = "d * (T1 * T1)" and t = "d * (T2 * T2)"
      and u = "Z1 * T1" and v = "Z2 * T2" and P = "Y1 * Y1 + X1 * X1" and Q = "Y2 * Y2 + X2 * X2"
      and A = "Y1 * Y1 - X1 * X1" and B = "Y2 * Y2 - X2 * X2" and k = "E * E" and m = "d * ((Z1 * T1) * (Z2 * T2))"])
  show "E * H = Z1 * T1 * (Y2 * Y2 + X2 * X2) + Z2 * T2 * (Y1 * Y1 + X1 * X1)"
    "2 * (E * E) = (Y1 * Y1 + X1 * X1) * (Y2 * Y2 + X2 * X2) + 4 * (Z1 * T1 * (Z2 * T2)) -
       (Y1 * Y1 - X1 * X1) * (Y2 * Y2 - X2 * X2)"
    "(Y1 * Y1 + X1 * X1) * (Y1 * Y1 + X1 * X1) = (Y1 * Y1 - X1 * X1) * (Y1 * Y1 - X1 * X1) + 4 * (Z1 * T1 * (Z1 * T1))"
    "(Y2 * Y2 + X2 * X2) * (Y2 * Y2 + X2 * X2) = (Y2 * Y2 - X2 * X2) * (Y2 * Y2 - X2 * X2) + 4 * (Z2 * T2 * (Z2 * T2))"
    unfolding assms(1,3) [symmetric] assms(5,6) by (simp_all add: algebra_simps)
  show "H * H = E * E + (Y1 * Y1 - X1 * X1) * (Y2 * Y2 - X2 * X2)"
    unfolding assms(5,6) by (simp add: algebra_simps)
  show "G * F = Z1 * Z1 * (Z2 * Z2) - d * (T1 * T1) * (d * (T2 * T2))"
    "G * G = Z1 * Z1 * (Z2 * Z2) + d * (T1 * T1) * (d * (T2 * T2)) + 2 * (d * (Z1 * T1 * (Z2 * T2)))"
    "F * F = Z1 * Z1 * (Z2 * Z2) + d * (T1 * T1) * (d * (T2 * T2)) - 2 * (d * (Z1 * T1 * (Z2 * T2)))"
    unfolding assms(7,8) by (simp_all add: algebra_simps)
qed (simp_all add: assms(2,4) mult_ac)

lemma scale_complete: "on_curve (complete q) \<Longrightarrow> on_curve (complete (scale k q))"
proof (cases q)
  case (fields E H G F)
  assume "on_curve (complete q)"
  then have c: "(H * G) * (H * G) - (E * F) * (E * F) = (G * F) * (G * F) + gf_d * ((E * H) * (E * H))"
    by (simp add: fields)
  have "k * H * (k * G) * (k * H * (k * G)) - k * E * (k * F) * (k * E * (k * F)) =
      (k * k * k * k) * ((H * G) * (H * G) - (E * F) * (E * F))"
    by (simp add: algebra_simps)
  also have "\<dots> = k * G * (k * F) * (k * G * (k * F)) + gf_d * (k * E * (k * H) * (k * E * (k * H)))"
    unfolding c by (simp add: algebra_simps)
  finally show ?thesis by (simp add: fields mult_ac)
qed

lemma on_curve_edwards:
  assumes "on_curve p" "on_curve q"
  shows "on_curve (complete (edwards p q))"
proof (cases p; cases q)
  fix X1 Y1 Z1 T1 X2 Y2 Z2 T2
  assume pq: "p = (X1, Y1, Z1, T1)" "q = (X2, Y2, Z2, T2)"
  let ?e = "(X1 * Y2 + Y1 * X2, Y1 * Y2 + X1 * X2, Z1 * Z2 + gf_d * (T1 * T2), Z1 * Z2 - gf_d * (T1 * T2))"
  have "on_curve (complete ?e)"
    using edwards_closed [of X1 Y1 Z1 T1 gf_d X2 Y2 Z2 T2] assms by (simp add: pq mult_ac)
  from scale_complete [OF this, of 2] show ?thesis by (simp add: pq)
qed

definition gf_half :: gf where "gf_half = to_gf (2 ^ 254 - 9)"

lemma gf_half: "gf_half * 2 = 1"
proof -
  have "(2 ^ 254 - 9) * 2 = 1 + 1 * fe_p" by (simp add: fe_p_def)
  then have "to_gf ((2 ^ 254 - 9) * 2) = to_gf 1" by (simp only: to_gf_mult_p)
  then show ?thesis by (simp only: to_gf_ring to_gf_numeral gf_half_def)
qed

lemma scale_scale: "scale k (scale l p) = scale (k * l) p" and scale_1: "scale 1 p = p"
  by (cases p; simp add: mult.assoc)+

lemma on_curve_dbl: "on_curve p \<Longrightarrow> on_curve (complete (edwards_dbl p))"
  using scale_complete [OF on_curve_edwards [of p p], of gf_half]
  by (simp add: edwards_self scale_scale gf_half scale_1)

section \<open>The routines\<close>

text \<open>What the five representations stand for. Completed points carry the sums of up to three products.\<close>

fun p3_rep :: "ge_p3 \<Rightarrow> quad \<Rightarrow> bool" where
  "p3_rep p (X, Y, Z, T) \<longleftrightarrow> rep 1 (p3_X p) X \<and> rep 1 (p3_Y p) Y \<and> rep 1 (p3_Z p) Z \<and> rep 1 (p3_T p) T"

fun p2_rep :: "ge_p2 \<Rightarrow> quad \<Rightarrow> bool" where
  "p2_rep p (X, Y, Z, T) \<longleftrightarrow> rep 1 (p2_X p) X \<and> rep 1 (p2_Y p) Y \<and> rep 1 (p2_Z p) Z"

fun p1_rep :: "ge_p1p1 \<Rightarrow> quad \<Rightarrow> bool" where
  "p1_rep p (E, H, G, F) \<longleftrightarrow> rep 3 (p1_X p) E \<and> rep 3 (p1_Y p) H \<and> rep 3 (p1_Z p) G \<and> rep 3 (p1_T p) F"

fun cached_rep :: "ge_cached \<Rightarrow> quad \<Rightarrow> bool" where
  "cached_rep q (X, Y, Z, T) \<longleftrightarrow>
     rep 2 (YplusX q) (Y + X) \<and> rep 2 (YminusX q) (Y - X) \<and> rep 1 (c_Z q) Z \<and> rep 1 (T2d q) (T * (2 * gf_d))"

fun precomp_rep :: "ge_precomp \<Rightarrow> quad \<Rightarrow> bool" where
  "precomp_rep q (X, Y, Z, T) \<longleftrightarrow>
     rep 1 (yplusx q) (Y + X) \<and> rep 1 (yminusx q) (Y - X) \<and> Z = 1 \<and> rep 1 (xy2d q) (T * (2 * gf_d))"

lemma rep_step:
  "rep k f x \<Longrightarrow> rep l g y \<Longrightarrow> k + l \<le> 3 \<Longrightarrow> x + y = z \<Longrightarrow> rep 3 (fe_add f g) z"
  "rep k f x \<Longrightarrow> rep l g y \<Longrightarrow> k + l \<le> 3 \<Longrightarrow> x - y = z \<Longrightarrow> rep 3 (fe_sub f g) z"
  using rep_add [of k f x l g y] rep_sub [of k f x l g y] rep_mono by blast+

lemma sum_rep:
  assumes "rep 1 a ((Y1 + X1) * (Y2 + X2))" "rep 1 b ((Y1 - X1) * (Y2 - X2))"
    and "rep 1 c (T2 * (2 * gf_d) * T1)" "rep 2 t (Z1 * Z2 + Z1 * Z2)"
  shows "p1_rep \<lparr>p1_X = fe_sub a b, p1_Y = fe_add a b, p1_Z = fe_add t c, p1_T = fe_sub t c\<rparr>
    (edwards (X1, Y1, Z1, T1) (X2, Y2, Z2, T2))"
  by (auto intro!: rep_step [OF assms(1,2)] rep_step [OF assms(4,3)] simp: algebra_simps)

lemma diff_rep:
  assumes "rep 1 a ((Y1 + X1) * (Y2 - X2))" "rep 1 b ((Y1 - X1) * (Y2 + X2))"
    and "rep 1 c (T2 * (2 * gf_d) * T1)" "rep 2 t (Z1 * Z2 + Z1 * Z2)"
  shows "p1_rep \<lparr>p1_X = fe_sub a b, p1_Y = fe_add a b, p1_Z = fe_sub t c, p1_T = fe_add t c\<rparr>
    (edwards (X1, Y1, Z1, T1) (opposite (X2, Y2, Z2, T2)))"
  by (auto intro!: rep_step [OF assms(1,2)] rep_step [OF assms(4,3)] simp: algebra_simps)

lemma rep_double: "rep 1 f x \<Longrightarrow> rep 2 (fe_add f f) (x + x)"
  using rep_add [of 1 f x 1 f x] by simp

lemma ge_add_rep:
  assumes "p3_rep p P" "cached_rep q Q"
  shows "p1_rep (ge_add p q) (edwards P Q)" "p1_rep (ge_sub p q) (edwards P (opposite Q))"
  using assms unfolding ge_add_def ge_sub_def Let_def
  by (cases P; cases Q; auto simp del: edwards.simps opposite.simps p1_rep.simps
      intro!: sum_rep diff_rep rep_double rep_mul rep_add rep_sub)+

lemma ge_madd_rep:
  assumes "p3_rep p P" "precomp_rep q Q"
  shows "p1_rep (ge_madd p q) (edwards P Q)" "p1_rep (ge_msub p q) (edwards P (opposite Q))"
  using assms unfolding ge_madd_def ge_msub_def Let_def
  by (cases P; cases Q; auto simp del: edwards.simps opposite.simps p1_rep.simps
      intro!: sum_rep diff_rep rep_double rep_mul rep_add rep_sub)+

lemma ge_p2_dbl_rep:
  assumes "p2_rep p (X, Y, Z, T)"
  shows "p1_rep (ge_p2_dbl p) (edwards_dbl (X, Y, Z, T))"
proof -
  define x where "x = fe_sq (p2_X p)"
  define z where "z = fe_sq (p2_Y p)"
  define t where "t = fe_sq2 (p2_Z p)"
  define u where "u = fe_sq (fe_add (p2_X p) (p2_Y p))"
  have r: "rep 1 x (X * X)" "rep 1 z (Y * Y)" "rep 1 t (2 * (Z * Z))" "rep 1 u ((X + Y) * (X + Y))"
    unfolding x_def z_def t_def u_def using assms by (auto intro!: rep_sq rep_sq2 rep_add)
  have "rep 2 (fe_add z x) (Y * Y + X * X)" "rep 2 (fe_sub z x) (Y * Y - X * X)"
    using rep_add [OF r(2,1)] rep_sub [OF r(2,1)] by simp_all
  note s = this
  have "ge_p2_dbl p = \<lparr>p1_X = fe_sub u (fe_add z x), p1_Y = fe_add z x, p1_Z = fe_sub z x, p1_T = fe_sub t (fe_sub z x)\<rparr>"
    by (simp add: ge_p2_dbl_def Let_def x_def z_def t_def u_def)
  then show ?thesis
    using rep_mono [OF s(1)] rep_mono [OF s(2)]
    by (auto intro!: rep_step(2) [OF r(4) s(1)] rep_step(2) [OF r(3) s(2)] simp: algebra_simps)
qed

lemma p3_to_p2_rep: "p3_rep p P \<Longrightarrow> p2_rep (ge_p3_to_p2 p) P"
  by (cases P) (auto simp: ge_p3_to_p2_def intro: rep_copy)

lemma ge_p3_dbl_rep: "p3_rep p P \<Longrightarrow> p1_rep (ge_p3_dbl p) (edwards_dbl P)"
  by (cases P) (metis ge_p3_dbl_def ge_p2_dbl_rep p3_to_p2_rep)

lemma ge_p2_dbl_rep': "p2_rep p P \<Longrightarrow> p1_rep (ge_p2_dbl p) (edwards_dbl P)"
  by (cases P) (simp only: ge_p2_dbl_rep)

lemma p1_to_p3_rep: "p1_rep p Q \<Longrightarrow> p3_rep (ge_p1p1_to_p3 p) (complete Q)"
  by (cases Q) (auto simp: ge_p1p1_to_p3_def intro!: rep_mul)

lemma p1_to_p2_rep: "p1_rep p Q \<Longrightarrow> p2_rep (ge_p1p1_to_p2 p) (complete Q)"
  by (cases Q) (auto simp: ge_p1p1_to_p2_def intro!: rep_mul)

lemma p3_to_cached_rep: "p3_rep p P \<Longrightarrow> cached_rep (ge_p3_to_cached p) P"
  using rep_add [of 1 "p3_Y p" _ 1 "p3_X p"] rep_sub [of 1 "p3_Y p" _ 1 "p3_X p"]
  by (cases P) (auto simp: ge_p3_to_cached_def intro!: rep_mul rep_d2 rep_copy)

lemma neutral_rep: "p2_rep ge_p2_0 neutral" "p3_rep ge_p3_0 neutral"
  by (simp_all add: ge_p2_0_def ge_p3_0_def neutral_def rep_0 rep_1)

end
