(* ===== verification/Group_Base.thy ===== *)
theory Group_Base
  imports Group_Ok Group_Table
begin

text \<open>
  The eight odd multiples in \<open>Bi\<close> are points of the curve: every entry is \<open>(y + x, y - x, 2 d x y)\<close> of
  an affine point. An entry is checked by three products of integers, with the quotients by
  \<open>2^255 - 19\<close> given.
\<close>

definition entry_point :: "ge_precomp \<Rightarrow> quad" where
  "entry_point q =
     (let a = to_gf (fe_val (yplusx q)); b = to_gf (fe_val (yminusx q));
          X = gf_half * (a - b); Y = gf_half * (a + b)
      in (X, Y, 1, X * Y))"

definition curve_entry :: "ge_precomp \<Rightarrow> bool" where
  "curve_entry q \<longleftrightarrow> on_curve (entry_point q) \<and> precomp_rep q (entry_point q)"

lemma fe_val_ints: "tight_ints a \<Longrightarrow> fe_val (map of_int a) = fval a"
proof -
  assume a: "tight_ints a"
  then have "\<forall>x \<in> set a. \<bar>x\<bar> < 2 ^ 31"
    unfolding tight_ints_def by (rule bound_all) simp
  then show ?thesis
    unfolding fe_val_def fe_ints_def by (simp add: map_idI sint_of_int32 in32_abs)
qed

lemma unit_cancel:
  assumes "n * m = 1 + k * fe_p" "to_gf m * x = to_gf m * y"
  shows "x = y"
proof -
  have "to_gf n * to_gf m = 1" unfolding to_gf_ring(5) [symmetric] assms(1) to_gf_mult_p by (rule to_gf_ring(2))
  then show ?thesis using assms(2) by (metis mult.assoc mult_1)
qed

lemma gf_half_cancel: "2 * x = 2 * y \<Longrightarrow> x = (y :: gf)"
  using unit_cancel [of "2 ^ 254 - 9" 2 1 x y] by (simp add: fe_p_def to_gf_numeral)

lemma gf_121666_cancel: "121666 * x = 121666 * y \<Longrightarrow> x = (y :: gf)"
  using unit_cancel [of "37095705934669439343138083508754565189542113879843219016388785533085940283556" 121666 "77955" x y]
  by (simp add: fe_p_def to_gf_numeral)

lemma curve_entryI:
  assumes ints: "tight_ints a" "tight_ints b" "tight_ints c" and "fval a = A" "fval b = B" "fval c = C"
    and "(A + B) * (A - B) = r + h * 2 ^ 255 - 19 * h" "243332 * C + 121665 * r = k * 2 ^ 255 - 19 * k"
    and "8 * (A * B - 1) - C * r = l * 2 ^ 255 - 19 * l"
  shows "curve_entry (precomp a b c)"
proof -
  let ?a = a and ?b = b and ?c = c
  define a b c where "a = to_gf A" and "b = to_gf B" and "c = to_gf C"
  have "(A + B) * (A - B) = r + h * fe_p" "243332 * C + 121665 * r = 0 + k * fe_p" "8 * (A * B - 1) - C * r = 0 + l * fe_p"
    using assms(7-9) by (simp_all add: fe_p_def algebra_simps)
  then have e: "to_gf ((A + B) * (A - B)) = to_gf r" "to_gf (243332 * C + 121665 * r) = to_gf 0"
    "to_gf (8 * (A * B - 1) - C * r) = to_gf 0" by (simp_all only: to_gf_mult_p)
  then have s: "(a + b) * (a - b) = to_gf r" "243332 * c + 121665 * to_gf r = 0" "8 * (a * b - 1) = c * to_gf r"
    by (simp_all add: to_gf_ring to_gf_numeral a_def b_def c_def)
  define X Y where "X = gf_half * (a - b)" and "Y = gf_half * (a + b)"
  have XY: "2 * X = a - b" "2 * Y = a + b"
    using gf_half unfolding X_def Y_def by (simp_all only: mult.assoc [symmetric] mult.commute [of 2 gf_half] mult_1)
  have yx: "Y + X = a" "Y - X = b"
    by (rule gf_half_cancel, unfold distrib_left right_diff_distrib XY, simp)+
  have t: "4 * (X * Y) = to_gf r" unfolding s(1) [symmetric] XY [symmetric] by (simp add: algebra_simps)
  have c: "c = X * Y * (2 * gf_d)"
  proof (rule gf_121666_cancel, rule gf_half_cancel)
    have "2 * (121666 * c) = 243332 * c" by simp
    also have "\<dots> = - 121665 * to_gf r" using s(2) by (simp only: add_eq_0_iff2 mult_minus_left)
    also have "\<dots> = (121666 * gf_d) * (4 * (X * Y))" by (simp only: gf_d_quotient t)
    finally show "2 * (121666 * c) = 2 * (121666 * (X * Y * (2 * gf_d)))" by (simp add: mult_ac)
  qed
  have "8 * (Y * Y - X * X) = 8 * (1 + gf_d * (X * Y * (X * Y)))"
  proof -
    have "8 * (Y * Y - X * X) = 8 * (a * b)" unfolding yx [symmetric] by (simp add: algebra_simps)
    also have "\<dots> = 8 + c * to_gf r" using s(3) by (simp add: algebra_simps)
    also have "\<dots> = 8 * (1 + gf_d * (X * Y * (X * Y)))" unfolding c t [symmetric] by (simp add: algebra_simps)
    finally show ?thesis .
  qed
  then have "2 * (2 * (2 * (Y * Y - X * X))) = 2 * (2 * (2 * (1 + gf_d * (X * Y * (X * Y)))))" by simp
  then have "Y * Y - X * X = 1 + gf_d * (X * Y * (X * Y))" by (metis gf_half_cancel)
  then have "on_curve (X, Y, 1, X * Y)" by simp
  moreover have "precomp_rep (precomp ?a ?b ?c) (X, Y, 1, X * Y)"
    using tight_ints_ok [OF ints(1)] tight_ints_ok [OF ints(2)] tight_ints_ok [OF ints(3)] c yx assms(4-6)
    by (simp add: precomp_def a_def b_def c_def rep_tight fe_val_ints ints)
  moreover have "entry_point (precomp ?a ?b ?c) = (X, Y, 1, X * Y)"
    by (simp add: entry_point_def precomp_def fe_val_ints ints assms(4,5) X_def Y_def a_def b_def Let_def)
  ultimately show ?thesis unfolding curve_entry_def by metis
qed

lemma nth_simps:
  "[a, b, c, d, e, f, g, h] ! 0 = a" "[a, b, c, d, e, f, g, h] ! 1 = b" "[a, b, c, d, e, f, g, h] ! 2 = c"
  "[a, b, c, d, e, f, g, h] ! 3 = d" "[a, b, c, d, e, f, g, h] ! 4 = e" "[a, b, c, d, e, f, g, h] ! 5 = f"
  "[a, b, c, d, e, f, g, h] ! 6 = g" "[a, b, c, d, e, f, g, h] ! 7 = h"
  by simp_all

lemma Bi_0: "curve_entry (Bi ! 0)"
  unfolding Bi_def nth_simps
  by (rule curve_entryI [where A = "3533012425803781230144052908719740726127014226477800802100354883158534798213"
        and B = "-26691430273267020314858249910457322296781011159605913609991871684741160726191"
        and C = "-7658430290429433199253656808231786248588514975978872815715289361970058581381"
        and r = "13621481547318423844932389008076928480671845218041773847510287306265573947077"
        and h = "-12089777079628320618000921127670825209163210154433485764836890627159878209761"
        and k = "-3563"
        and l = "-11228574869714121044877492576792307623860961003424886910640796069724423394115"])
    (simp_all add: tight_ints_def fval_list)

lemma Bi_1: "curve_entry (Bi ! 1)"
  unfolding Bi_def nth_simps
  by (rule curve_entryI [where A = "-2674467375669715078171570788587964999287376826390061016746268013761928456381"
        and B = "19324154932736603031152325029326367275890211278985171650228672434569381466725"
        and C = "-17116947377249126259557375896760539191404829378624049010295706104213611161444"
        and r = "18636768049439262912846112718494667691362386871051631200531164609680862253179"
        and h = "-6326342162636257602146179170294853380626668804803165271497557082325689978007"
        and k = "-32777"
        and l = "-1631372196110964199816572804384488757326357614273632811087241573511192149268"])
    (simp_all add: tight_ints_def fval_list)

lemma Bi_2: "curve_entry (Bi ! 2)"
  unfolding Bi_def nth_simps
  by (rule curve_entryI [where A = "18668153700450365046820768141064729913722721519882092422277400263756282706739"
        and B = "9630189248235390748103966146409333440210333639383242876188677650069613696698"
        and C = "-27289405588673654262236781204217667191986561123886393674357247068389210684776"
        and r = "36837606618055379788354102880411274885248357968626847252925238082947197699961"
        and h = "4417562880355851072318125084205607730290629352950406145473328568475609526844"
        and k = "-37283"
        and l = "42204942123671791746367514064971719034704007397760014460463404680655522098896"])
    (simp_all add: tight_ints_def fval_list)

lemma Bi_3: "curve_entry (Bi ! 3)"
  unfolding Bi_def nth_simps
  by (rule curve_entryI [where A = "-26184822503403475464251396234905906648819182662070766566608335505300128881710"
        and B = "13312953584136576304523025463821328163824699951717010248032899908581467496881"
        and C = "-2431657015584972697853056118816474425792590835962464619820990274753041747019"
        and r = "31877225379758397792435118480996571992636978243915343036750464554447157572716"
        and h = "8781432302501807123962559143167577431620198620621211229820641727593525645427"
        and k = "56768"
        and l = "-46829868117924828126753774196448716597721286936518848187624556047185861495716"])
    (simp_all add: tight_ints_def fval_list)

lemma Bi_4: "curve_entry (Bi ! 4)"
  unfolding Bi_def nth_simps
  by (rule curve_entryI [where A = "23848771936779537706600755363852330642691035199144679981329841599443567665967"
        and B = "-24537348668296483127860220695824697520750570647875010296398096014618080214921"
        and C = "-5538278692233152133376739725259355329941280220717145056557503951635050287314"
        and r = "51457551349924515929359488380063524378018853228504564439505168975720266584506"
        and h = "-575472072340685563446024246920350068425765223641712392809408978181286252242"
        and k = "84858"
        and l = "-75937809350363049480234822568254252906624827426862867300292945582571670957020"])
    (simp_all add: tight_ints_def fval_list)

lemma Bi_5: "curve_entry (Bi ! 5)"
  unfolding Bi_def nth_simps
  by (rule curve_entryI [where A = "-27835496106865240550294628585727111252162879719570707683053605799162363761935"
        and B = "11158256924779282454740543163093780811298074430862908234953982287139410690888"
        and C = "27941507066570052986778351271715755022397500567158991111890716087464763623913"
        and r = "48670601650607990360978818299842102428197526794109594529602597948155482848118"
        and h = "11232341521761765190764052467863076345281456738189801485026471134768010068087"
        and k = "219714"
        and l = "-66406866354880831890998750832046148472693867439111645721685413701655599822118"])
    (simp_all add: tight_ints_def fval_list)

lemma Bi_6: "curve_entry (Bi ! 6)"
  unfolding Bi_def nth_simps
  by (rule curve_entryI [where A = "15972020931028765202356936322618908365444234765594279114894468132403870203757"
        and B = "1087550798001203620797136749953957393762725578137024723030949917728262045587"
        and C = "-24658731954444850638391282627992509015936355844633454421460281249029118057589"
        and r = "2092132526972485615649625918041922724519914776579930983280716564600303697266"
        and h = "4385838230495568785973198669782464656732150717632008784228215866109772852486"
        and k = "-99242"
        and l = "3291285429337237414461299609493613445451329962688872058096358854203405757362"])
    (simp_all add: tight_ints_def fval_list)

lemma Bi_7: "curve_entry (Bi ! 7)"
  unfolding Bi_def nth_simps
  by (rule curve_entryI [where A = "-13622107252363205731389909145064991505125443080968657649315311937303369225549"
        and B = "-27269867804883576538601263481168717777153380833067050840808865617683877671138"
        and C = "-21206794958313804217892670850113670548490237750447414108551674528239769832151"
        and r = "54644605840506020920861136001697349161448231662598257989834097549758199168202"
        and h = "-9639412981955013513319602598607811879069607918277129638680573244756912922905"
        and k = "25702"
        and l = "71345486393960681350291459849633286356045759188499139799981501298631508503910"])
    (simp_all add: tight_ints_def fval_list)

lemma Bi_curve: "k < 8 \<Longrightarrow> curve_entry (Bi ! k)"
proof -
  assume "k < 8"
  then have "k \<in> {0, 1, 2, 3, 4, 5, 6, 7}" by auto
  then show ?thesis using Bi_0 Bi_1 Bi_2 Bi_3 Bi_4 Bi_5 Bi_6 Bi_7 by auto
qed

end
