(* ===== verification/Group_Slide.thy ===== *)
theory Group_Slide
  imports Scalar_Ok
begin

text \<open>
  \<open>slide\<close> of \<open>ge.c\<close>: the signed sliding-window digits of a scalar. The array of \<open>signed char\<close> is read
  with \<open>sint\<close>, the arithmetic on its elements is that of \<open>int\<close>, and every store truncates to 8 bits.
\<close>

unbundle bit_operations_syntax

type_synonym i8 = "8 word"

definition slide_bits :: "u8 list \<Rightarrow> i8 list" where
  "slide_bits a = map (\<lambda>i. of_int (1 AND drop_bit (i mod 8) (uint (a ! (i div 8))))) [0..<256]"

text \<open>The loop over \<open>k\<close>: the carry out of a window runs up to the next zero bit.\<close>

function slide_carry :: "i8 list \<Rightarrow> nat \<Rightarrow> i8 list" where
  "slide_carry r k =
     (if k < 256
      then if r ! k = 0 then r[k := 1] else slide_carry (r[k := 0]) (k + 1)
      else r)"
  by pat_completeness auto

termination slide_carry
  by (relation "measure (\<lambda>(r, k). 256 - k)") auto

text \<open>The loop over \<open>b\<close>, which collects the window that starts at \<open>i\<close>.\<close>

function slide_window :: "i8 list \<Rightarrow> nat \<Rightarrow> nat \<Rightarrow> i8 list" where
  "slide_window r i b =
     (if b \<le> 6 \<and> i + b < 256
      then
        if r ! (i + b) \<noteq> 0
        then
          let v = sint (r ! (i + b)) * 2 ^ b
          in if sint (r ! i) + v \<le> 15
             then slide_window ((r[i := of_int (sint (r ! i) + v)])[i + b := 0]) i (b + 1)
             else if - 15 \<le> sint (r ! i) - v
             then slide_window (slide_carry (r[i := of_int (sint (r ! i) - v)]) (i + b)) i (b + 1)
             else r
        else slide_window r i (b + 1)
      else r)"
  by pat_completeness auto

termination slide_window
  by (relation "measure (\<lambda>(r, i, b). 7 - b)") auto

definition slide_at :: "i8 list \<Rightarrow> nat \<Rightarrow> i8 list" where
  "slide_at r i = (if r ! i \<noteq> 0 then slide_window r i 1 else r)"

definition slide :: "u8 list \<Rightarrow> i8 list" where
  "slide a = foldl slide_at (slide_bits a) [0..<256]"

declare slide_carry.simps [simp del] slide_window.simps [simp del]

section \<open>The bits\<close>

lemma sint_of_int8: "- 128 \<le> v \<Longrightarrow> v < 128 \<Longrightarrow> sint (of_int v :: i8) = v"
  by (simp add: sint_sbintrunc' signed_take_bit_int_eq_self)

lemma bit_of_bytes:
  "i < 8 * length a \<Longrightarrow> uint (a ! (i div 8)) div 2 ^ (i mod 8) mod 2 = le_int a div 2 ^ i mod 2"
proof (induction a arbitrary: i)
  case (Cons b bs)
  show ?case
  proof (cases "i < 8")
    case True
    then have "(256 :: int) = 2 ^ (7 - i) * 2 * 2 ^ i" by (simp flip: power_Suc power_add)
    then have "le_int (b # bs) = uint b + (2 ^ (7 - i) * le_int bs * 2) * 2 ^ i" by simp
    with True show ?thesis by (simp only: div_mult_self1 nth_Cons_0 div_less mod_less mod_mult_self1) simp
  next
    case False
    define j where "j = i - 8"
    with False have i: "i = 8 + j" by simp
    have "le_int (b # bs) div 2 ^ i = le_int (b # bs) div 256 div 2 ^ j"
      unfolding i by (simp add: power_add zdiv_zmult2_eq)
    also have "le_int (b # bs) div 256 = le_int bs" using uint_bytes [of b] by simp
    finally have "le_int (b # bs) div 2 ^ i = le_int bs div 2 ^ j" .
    moreover have "(8 + j) div 8 = Suc (j div 8)" by simp
    ultimately show ?thesis using Cons.IH [of j] Cons.prems by (simp add: i)
  qed
qed simp

definition digits_of :: "i8 list \<Rightarrow> int list" where "digits_of r = map sint r"

lemma slide_bits_value:
  assumes "length a = 32"
  shows "radix 2 (digits_of (slide_bits a)) = le_int a"
    "\<forall>i < 256. sint (slide_bits a ! i) \<in> {0, 1}" "length (slide_bits a) = 256"
proof -
  have b: "sint (of_int (1 AND drop_bit (i mod 8) (uint (a ! (i div 8)))) :: i8) = le_int a div 2 ^ i mod 2"
    if "i < 256" for i
  proof -
    have "1 AND drop_bit (i mod 8) (uint (a ! (i div 8))) = le_int a div 2 ^ i mod 2"
      using bit_of_bytes [of i a] that assms by (simp add: one_and_eq drop_bit_eq_div)
    then show ?thesis by (simp add: sint_of_int8)
  qed
  have "digits_of (slide_bits a) = map (\<lambda>i. le_int a div 2 ^ i mod 2) [0..<256]"
    unfolding digits_of_def slide_bits_def using b by simp
  then show "radix 2 (digits_of (slide_bits a)) = le_int a"
    using radix_digits [of 2 "le_int a" 256] le_int_bounds [of a] assms by simp
  show "\<forall>i < 256. sint (slide_bits a ! i) \<in> {0, 1}" using b by (auto simp: slide_bits_def)
  show "length (slide_bits a) = 256" by (simp add: slide_bits_def)
qed

section \<open>The digits\<close>

text \<open>\<open>upper r i\<close>: the value of the elements from \<open>i\<close> on, in units of \<open>2^i\<close>.\<close>

definition upper :: "i8 list \<Rightarrow> nat \<Rightarrow> int" where "upper r i = radix 2 (digits_of (drop i r))"

lemma upper_step: "i < length r \<Longrightarrow> upper r i = sint (r ! i) + 2 * upper r (i + 1)"
  unfolding upper_def digits_of_def by (simp flip: Cons_nth_drop_Suc)

lemma upper_update: "j < i \<Longrightarrow> upper (r[j := v]) i = upper r i"
  by (simp add: upper_def)

lemma upper_end: "length r \<le> i \<Longrightarrow> upper r i = 0"
  by (simp add: upper_def digits_of_def)

definition bits_from :: "i8 list \<Rightarrow> nat \<Rightarrow> bool" where
  "bits_from r k \<longleftrightarrow> (\<forall>j. k \<le> j \<and> j < length r \<longrightarrow> r ! j = 0 \<or> r ! j = 1)"

lemma upper_nonneg: "bits_from r i \<Longrightarrow> 0 \<le> upper r i"
proof (induction "length r - i" arbitrary: i)
  case (Suc n)
  then have "0 \<le> upper r (i + 1)" by (simp add: bits_from_def)
  moreover have "r ! i = 0 \<or> r ! i = 1" using Suc by (simp add: bits_from_def)
  ultimately show ?case using Suc.hyps(2) by (auto simp: upper_step)
qed (simp add: upper_end)

text \<open>A carry adds one at its position, if there is a zero to stop at: no overflow leaves the array.\<close>

lemma slide_carry_ok:
  assumes "length r = 256" "bits_from r k" "k \<le> 256" "upper r k < 2 ^ (256 - k) - 1"
  shows "length (slide_carry r k) = 256 \<and> take k (slide_carry r k) = take k r \<and>
    bits_from (slide_carry r k) k \<and> upper (slide_carry r k) k = upper r k + 1 \<and>
    (k < 256 \<and> r ! k = 1 \<longrightarrow> slide_carry r k ! k = 0)"
  using assms
proof (induction r k rule: slide_carry.induct)
  case (1 r k)
  have k: "k < 256" using "1.prems" by (cases "k = 256") (simp_all add: upper_end)
  then have bit: "r ! k = 0 \<or> r ! k = 1" using "1.prems" by (simp add: bits_from_def)
  show ?case
  proof (cases "r ! k = 0")
    case True
    with k "1.prems" show ?thesis
      by (subst (1 2 3 4 5) slide_carry.simps) (auto simp: bits_from_def upper_step upper_update nth_list_update)
  next
    case False
    with bit have one: "r ! k = 1" by simp
    let ?r = "r[k := 0]" and ?s = "slide_carry (r[k := 0]) (k + 1)"
    have "upper r k = 1 + 2 * upper r (k + 1)" using one k "1.prems" by (simp add: upper_step)
    moreover have "(2 :: int) ^ (256 - k) = 2 * 2 ^ (256 - (k + 1))"
      using k by (simp add: Suc_diff_Suc flip: power_Suc)
    ultimately have u: "upper ?r (k + 1) < 2 ^ (256 - (k + 1)) - 1" "upper r k = 1 + 2 * upper ?r (k + 1)"
      using "1.prems"(4) by (simp_all add: upper_update)
    have IH: "length ?s = 256" "take (k + 1) ?s = take (k + 1) ?r" "bits_from ?s (k + 1)"
      "upper ?s (k + 1) = upper ?r (k + 1) + 1"
      using "1.IH" [OF k False] u(1) "1.prems" k by (auto simp: bits_from_def nth_list_update)
    have z: "?s ! k = 0"
      using IH(1) k "1.prems"(1) arg_cong [OF IH(2), of "\<lambda>x. x ! k"] by simp
    have t: "take k ?s = take k r"
      using arg_cong [OF IH(2), of "take k"] by (simp add: min_def)
    have "bits_from ?s k"
      using IH(3) z by (auto simp: bits_from_def) (metis Suc_leI le_neq_implies_less)
    moreover have "upper ?s k = upper r k + 1"
      using u(2) IH(1,4) k z by (simp add: upper_step [of k])
    moreover have "slide_carry r k = ?s" using k False by (subst slide_carry.simps) simp
    ultimately show ?thesis using IH(1) t z by simp
  qed
qed

lemma upper_zeros:
  "length r = 256 \<Longrightarrow> \<forall>j. k \<le> j \<and> j < k + n \<and> j < 256 \<longrightarrow> r ! j = 0 \<Longrightarrow> upper r k = 2 ^ n * upper r (k + n)"
proof (induction n)
  case (Suc n)
  have "upper r (k + n) = 2 * upper r (k + Suc n)"
    using Suc.prems by (cases "k + n < 256") (simp_all add: upper_step upper_end)
  then show ?case using Suc by simp
qed simp

text \<open>
  The invariant of the window loop at \<open>b\<close>: the digit at \<open>i\<close> and the bits above it have the value \<open>c\<close>,
  the elements between are zero, and what is above stays below \<open>2^255\<close>.
\<close>

definition window_inv :: "nat \<Rightarrow> int \<Rightarrow> nat \<Rightarrow> i8 list \<Rightarrow> bool" where
  "window_inv i c b r \<longleftrightarrow> length r = 256 \<and> i < 256 \<and> 1 \<le> b \<and> odd (sint (r ! i)) \<and> \<bar>sint (r ! i)\<bar> \<le> 15 \<and>
     (\<forall>j. i < j \<and> j < i + b \<and> j < 256 \<longrightarrow> r ! j = 0) \<and> bits_from r (i + b) \<and>
     sint (r ! i) + 2 ^ b * upper r (i + b) = c \<and> 2 ^ (i + b) * upper r (i + b) \<le> 2 ^ 255"

definition window_done :: "nat \<Rightarrow> int \<Rightarrow> i8 list \<Rightarrow> i8 list \<Rightarrow> bool" where
  "window_done i c r s \<longleftrightarrow> length s = 256 \<and> take i s = take i r \<and> odd (sint (s ! i)) \<and> \<bar>sint (s ! i)\<bar> \<le> 15 \<and>
     bits_from s (i + 1) \<and> upper s i = c \<and> 2 ^ (i + 1) * upper s (i + 1) \<le> 2 ^ 255"

lemma window_exit:
  assumes "window_inv i c b r"
  shows "window_done i c r r"
proof -
  have r: "length r = 256" "i < 256" "1 \<le> b" "\<forall>j. i < j \<and> j < i + b \<and> j < 256 \<longrightarrow> r ! j = 0" "bits_from r (i + b)"
    using assms by (simp_all add: window_inv_def)
  have b: "i + 1 + (b - 1) = i + b" "b = Suc (b - 1)" using r(3) by simp_all
  have u: "upper r (i + 1) = 2 ^ (b - 1) * upper r (i + b)"
    using upper_zeros [of r "i + 1" "b - 1"] r unfolding b(1) by simp
  then have u2: "2 * upper r (i + 1) = 2 ^ b * upper r (i + b)"
    using b(2) by (metis mult.assoc power_Suc)
  then have "2 ^ (i + 1) * upper r (i + 1) = 2 ^ (i + b) * upper r (i + b)"
    by (simp add: power_add)
  moreover have "bits_from r (i + 1)"
    unfolding bits_from_def
  proof (intro allI impI)
    fix j assume "i + 1 \<le> j \<and> j < length r"
    then show "r ! j = 0 \<or> r ! j = 1"
      using r by (cases "j < i + b") (auto simp: bits_from_def)
  qed
  ultimately show ?thesis using assms u2 r by (simp add: window_done_def window_inv_def upper_step)
qed

lemma window_add:
  assumes "window_inv i c b r" "i + b < 256" "r ! (i + b) = 1" "sint (r ! i) + 2 ^ b \<le> 15"
  shows "window_inv i c (b + 1) ((r[i := of_int (sint (r ! i) + 2 ^ b)])[i + b := 0])"
proof -
  let ?v = "sint (r ! i) + 2 ^ b" and ?s = "(r[i := of_int (sint (r ! i) + 2 ^ b)])[i + b := 0]"
  have r: "length r = 256" "1 \<le> b" "odd (sint (r ! i))" "\<bar>sint (r ! i)\<bar> \<le> 15" "bits_from r (i + b)"
    "sint (r ! i) + 2 ^ b * upper r (i + b) = c" "2 ^ (i + b) * upper r (i + b) \<le> 2 ^ 255"
    using assms(1) by (simp_all add: window_inv_def)
  have p: "(0 :: int) < 2 ^ b" by simp
  have v: "\<bar>?v\<bar> \<le> 15" using r(4) assms(4) p by linarith
  then have sv: "sint (of_int ?v :: i8) = ?v" by (intro sint_of_int8) linarith+
  have si: "sint (?s ! i) = ?v" using r assms(2) sv by simp
  have u: "upper r (i + b) = 1 + 2 * upper ?s (i + b + 1)"
    using r(1) assms(2,3) by (simp add: upper_step upper_update)
  have "2 ^ (i + (b + 1)) * upper ?s (i + (b + 1)) \<le> 2 ^ (i + b) * upper r (i + b)"
    unfolding u by (simp add: distrib_left)
  then have le: "2 ^ (i + (b + 1)) * upper ?s (i + (b + 1)) \<le> 2 ^ 255" using r(7) by (rule order_trans)
  have "?v + 2 ^ (b + 1) * upper ?s (i + (b + 1)) = c"
    using r(6) unfolding u by (simp add: distrib_left add.assoc)
  moreover have "odd ?v" using r(2,3) by simp
  moreover have "bits_from ?s (i + (b + 1))" using r(1,2,5) by (simp add: bits_from_def)
  moreover have "\<forall>j. i < j \<and> j < i + (b + 1) \<and> j < 256 \<longrightarrow> ?s ! j = 0"
    using assms(1) by (auto simp: window_inv_def nth_list_update less_Suc_eq)
  ultimately show ?thesis
    using le v r(1,2) assms(2) unfolding window_inv_def si by simp
qed

lemma window_sub:
  assumes "window_inv i c b r" "i + b < 256" "r ! (i + b) = 1" "2 ^ i * c \<le> 2 ^ 255"
    and "15 < sint (r ! i) + 2 ^ b" "- 15 \<le> sint (r ! i) - 2 ^ b"
  shows "window_inv i c (b + 1) (slide_carry (r[i := of_int (sint (r ! i) - 2 ^ b)]) (i + b)) \<and>
    take i (slide_carry (r[i := of_int (sint (r ! i) - 2 ^ b)]) (i + b)) = take i r"
proof -
  let ?v = "sint (r ! i) - 2 ^ b" and ?r = "r[i := of_int (sint (r ! i) - 2 ^ b)]"
  let ?s = "slide_carry ?r (i + b)" and ?W = "upper r (i + b)"
  have r: "length r = 256" "i < 256" "1 \<le> b" "odd (sint (r ! i))" "\<bar>sint (r ! i)\<bar> \<le> 15" "bits_from r (i + b)"
    "sint (r ! i) + 2 ^ b * ?W = c" "\<forall>j. i < j \<and> j < i + b \<and> j < 256 \<longrightarrow> r ! j = 0"
    using assms(1) by (simp_all add: window_inv_def)
  have pos: "1 \<le> sint (r ! i)" using assms(5,6) by linarith
  have p: "(2 :: int) ^ 255 = 2 ^ (i + b) * 2 ^ (255 - (i + b))" using assms(2) by (simp flip: power_add)
  have "2 ^ i * sint (r ! i) + 2 ^ (i + b) * ?W = 2 ^ i * c"
    unfolding r(7) [symmetric] by (simp add: distrib_left power_add mult.assoc)
  moreover have "0 < 2 ^ i * sint (r ! i)" using pos by simp
  ultimately have "2 ^ (i + b) * ?W < 2 ^ (i + b) * 2 ^ (255 - (i + b))"
    using assms(4) unfolding p by linarith
  then have W: "?W + 1 \<le> 2 ^ (255 - (i + b))" by (simp only: mult_less_cancel_left_pos zero_less_power zero_less_numeral zless_imp_add1_zle)
  have "(2 :: int) ^ (256 - (i + b)) = 2 * 2 ^ (255 - (i + b))"
    using assms(2) by (simp add: Suc_diff_le flip: power_Suc)
  moreover have "(0 :: int) < 2 ^ (255 - (i + b))" by simp
  ultimately have "upper ?r (i + b) < 2 ^ (256 - (i + b)) - 1"
    using W r(3) by (simp only: upper_update)
  moreover have "length ?r = 256" "bits_from ?r (i + b)" "i + b \<le> 256"
    using r(1,3,6) assms(2) by (auto simp: bits_from_def nth_list_update)
  ultimately have s: "length ?s = 256" "take (i + b) ?s = take (i + b) ?r" "bits_from ?s (i + b)"
    "upper ?s (i + b) = upper ?r (i + b) + 1" "?s ! (i + b) = 0"
    using slide_carry_ok [of ?r "i + b"] assms(2,3) r(3) by auto
  have v: "\<bar>?v\<bar> \<le> 15" using r(5) assms(6) by (simp only: abs_le_iff) (smt (verit) zero_less_power)
  then have sv: "sint (of_int ?v :: i8) = ?v" by (intro sint_of_int8) linarith+
  have low: "?s ! j = ?r ! j" if "j < i + b" for j
    using arg_cong [OF s(2), of "\<lambda>x. x ! j"] that s(1) r(1) by simp
  have si: "sint (?s ! i) = ?v" using low [of i] r(1,2,3) sv by simp
  have u: "?W + 1 = 2 * upper ?s (i + b + 1)"
    using upper_step [of "i + b" ?s] s(1,4,5) assms(2) r(3) by (simp add: upper_update)
  have "?v + 2 ^ (b + 1) * upper ?s (i + (b + 1)) = c"
  proof -
    have "2 ^ (b + 1) * upper ?s (i + (b + 1)) = 2 ^ b * (?W + 1)" unfolding u by simp
    then show ?thesis using r(7) by (simp only: distrib_left)
  qed
  moreover have "2 ^ (i + (b + 1)) * upper ?s (i + (b + 1)) \<le> 2 ^ 255"
  proof -
    have "2 ^ (i + (b + 1)) * upper ?s (i + (b + 1)) = 2 ^ (i + b) * (?W + 1)" unfolding u by (simp add: power_add)
    also have "\<dots> \<le> 2 ^ 255" unfolding p by (intro mult_left_mono W) simp
    finally show ?thesis .
  qed
  moreover have "\<forall>j. i < j \<and> j < i + (b + 1) \<and> j < 256 \<longrightarrow> ?s ! j = 0"
    using low r(8) s(5) by (auto simp: less_Suc_eq)
  moreover have "odd ?v" using r(3,4) by simp
  moreover have "bits_from ?s (i + (b + 1))" using s(3) by (simp add: bits_from_def)
  moreover have "take i ?s = take i r"
    using arg_cong [OF s(2), of "take i"] by (simp add: min_def)
  ultimately show ?thesis using si v s(1) r(2) unfolding window_inv_def by simp
qed

lemma slide_window_ok:
  "window_inv i c b r \<Longrightarrow> 2 ^ i * c \<le> 2 ^ 255 \<Longrightarrow> window_done i c r (slide_window r i b)"
proof (induction r i b rule: slide_window.induct)
  case (1 r i b)
  note unf = slide_window.simps [of r i b]
  show ?case
  proof (cases "b \<le> 6 \<and> i + b < 256")
    case False
    then show ?thesis using window_exit [OF "1.prems"(1)] by (simp only: unf if_False)
  next
    case loop: True
    have r: "length r = 256" "1 \<le> b" "bits_from r (i + b)" using "1.prems"(1) by (simp_all add: window_inv_def)
    show ?thesis
    proof (cases "r ! (i + b) = 0")
      case True
      have "window_inv i c (b + 1) r"
        using "1.prems"(1) True loop unfolding window_inv_def
        by (auto simp: upper_step bits_from_def less_Suc_eq)
      then show ?thesis using "1.IH"(3) True loop "1.prems"(2) by (simp add: unf)
    next
      case False
      then have one: "r ! (i + b) = 1" using r loop by (auto simp: bits_from_def)
      then have v: "sint (r ! (i + b)) * 2 ^ b = 2 ^ b" by simp
      consider (add) "sint (r ! i) + 2 ^ b \<le> 15" | (sub) "15 < sint (r ! i) + 2 ^ b" "- 15 \<le> sint (r ! i) - 2 ^ b"
        | (stop) "15 < sint (r ! i) + 2 ^ b" "sint (r ! i) - 2 ^ b < - 15" by linarith
      then show ?thesis
      proof cases
        case add
        let ?s = "(r[i := of_int (sint (r ! i) + 2 ^ b)])[i + b := 0]"
        have "window_done i c ?s (slide_window ?s i (b + 1))"
          using "1.IH"(1) [OF loop False refl] add window_add [OF "1.prems"(1) _ one] loop "1.prems"(2) by (simp add: v)
        then show ?thesis using loop one add r(2) by (simp add: unf window_done_def)
      next
        case sub
        let ?s = "slide_carry (r[i := of_int (sint (r ! i) - 2 ^ b)]) (i + b)"
        have s: "window_inv i c (b + 1) ?s" "take i ?s = take i r"
          using window_sub [OF "1.prems"(1) _ one "1.prems"(2) sub] loop by simp_all
        have "window_done i c ?s (slide_window ?s i (b + 1))"
          using "1.IH"(2) [OF loop False refl] sub s(1) loop "1.prems"(2) by (simp add: v)
        then show ?thesis using loop one sub s(2) by (simp add: unf window_done_def)
      next
        case stop
        then show ?thesis using loop one window_exit [OF "1.prems"(1)] by (simp add: unf)
      qed
    qed
  qed
qed

text \<open>
  The outer loop. A digit is zero, or odd and at most 15 in absolute value.
\<close>

definition digit :: "i8 \<Rightarrow> bool" where
  "digit x \<longleftrightarrow> x = 0 \<or> odd (sint x) \<and> \<bar>sint x\<bar> \<le> 15"

definition slide_inv :: "int \<Rightarrow> nat \<Rightarrow> i8 list \<Rightarrow> bool" where
  "slide_inv a i r \<longleftrightarrow> length r = 256 \<and> (\<forall>j < i. digit (r ! j)) \<and> bits_from r i \<and>
     radix 2 (digits_of (take i r)) + 2 ^ i * upper r i = a \<and> 2 ^ i * upper r i \<le> 2 ^ 255"

lemma radix_take_Suc:
  "i < length r \<Longrightarrow> radix 2 (digits_of (take (i + 1) r)) = radix 2 (digits_of (take i r)) + 2 ^ i * sint (r ! i)"
  by (simp add: digits_of_def take_Suc_conv_app_nth radix_append)

lemma slide_step:
  assumes "slide_inv a i r" "i < 256"
  shows "slide_inv a (i + 1) (slide_at r i)"
proof (cases "r ! i = 0")
  case True
  then show ?thesis
    using assms radix_take_Suc [of i r]
    by (auto simp: slide_at_def slide_inv_def bits_from_def upper_step digit_def less_Suc_eq)
next
  case False
  let ?s = "slide_window r i 1"
  have r: "length r = 256" "\<forall>j < i. digit (r ! j)" "bits_from r i"
    "radix 2 (digits_of (take i r)) + 2 ^ i * upper r i = a" "2 ^ i * upper r i \<le> 2 ^ 255"
    using assms(1) by (simp_all add: slide_inv_def)
  have one: "r ! i = 1" using r(1,3) False assms(2) by (auto simp: bits_from_def)
  have "upper r i = 1 + 2 * upper r (i + 1)" using one r(1) assms(2) by (simp add: upper_step)
  moreover from this have "2 ^ (i + 1) * upper r (i + 1) \<le> 2 ^ i * upper r i" by (simp add: distrib_left)
  then have "2 ^ (i + 1) * upper r (i + 1) \<le> 2 ^ 255" using r(5) by (rule order_trans)
  ultimately have "window_inv i (upper r i) 1 r"
    using r(1,3) one assms(2) unfolding window_inv_def by (auto simp: bits_from_def less_Suc_eq)
  from slide_window_ok [OF this r(5)] have s: "length ?s = 256" "take i ?s = take i r" "digit (?s ! i)"
    "bits_from ?s (i + 1)" "upper ?s i = upper r i" "2 ^ (i + 1) * upper ?s (i + 1) \<le> 2 ^ 255"
    by (auto simp: window_done_def digit_def)
  have low: "?s ! j = r ! j" if "j < i" for j
    using arg_cong [OF s(2), of "\<lambda>x. x ! j"] that by simp
  have "\<forall>j < i + 1. digit (?s ! j)" using r(2) s(3) low by (auto simp: less_Suc_eq)
  moreover have "radix 2 (digits_of (take (i + 1) ?s)) + 2 ^ (i + 1) * upper ?s (i + 1) = a"
  proof -
    have "upper r i = sint (?s ! i) + 2 * upper ?s (i + 1)"
      using s(1,5) assms(2) by (simp add: upper_step)
    then show ?thesis
      unfolding r(4) [symmetric] using radix_take_Suc [of i ?s] s(1,2) assms(2) by (simp add: distrib_left)
  qed
  ultimately show ?thesis using s False by (simp add: slide_at_def slide_inv_def)
qed

lemma slide_ok:
  assumes "length a = 32" "le_int a \<le> 2 ^ 255"
  shows "length (slide a) = 256" "\<forall>j < 256. digit (slide a ! j)" "radix 2 (digits_of (slide a)) = le_int a"
proof -
  have "slide_inv (le_int a) n (foldl slide_at (slide_bits a) [0..<n])" if "n \<le> 256" for n
    using that
  proof (induction n)
    case 0
    have "slide_bits a ! j = 0 \<or> slide_bits a ! j = 1" if "j < 256" for j
      using slide_bits_value(2) [OF assms(1)] that by (auto dest!: word_sint)
    then show ?case
      using slide_bits_value [OF assms(1)] assms(2) by (simp add: slide_inv_def bits_from_def upper_def digits_of_def)
  next
    case (Suc n)
    then show ?case using slide_step by simp
  qed
  from this [of 256] have "slide_inv (le_int a) 256 (slide a)" by (simp add: slide_def)
  moreover from this have "upper (slide a) 256 = 0" "take 256 (slide a) = slide a"
    by (simp_all add: slide_inv_def upper_end)
  ultimately show "length (slide a) = 256" "\<forall>j < 256. digit (slide a ! j)" "radix 2 (digits_of (slide a)) = le_int a"
    by (simp_all add: slide_inv_def)
qed

end
