(* ===== verification/Group_Mult.thy ===== *)
theory Group_Mult
  imports Group_Base Group_Slide
begin

text \<open>
  The scalar multiplications of \<open>ge.c\<close>: \<open>ge_double_scalarmult_vartime\<close>, which the signature check
  uses, and \<open>ge_scalarmult_base\<close> with the constant-time selection from the table. A table is read
  through \<open>cell\<close>: \<open>None\<close> is a read outside of it.
\<close>

unbundle bit_operations_syntax

section \<open>\<open>a * A + b * B\<close>\<close>

definition next_odd :: "ge_p3 \<Rightarrow> ge_cached \<Rightarrow> ge_cached" where
  "next_odd A2 q =
     (let t = ge_add A2 q;
          u = ge_p1p1_to_p3 t
      in ge_p3_to_cached u)"

text \<open>\<open>Ai\<close>: \<open>A, 3A, 5A, 7A, 9A, 11A, 13A, 15A\<close>.\<close>

definition odd_multiples :: "ge_p3 \<Rightarrow> ge_cached list" where
  "odd_multiples A =
     (let A0 = ge_p3_to_cached A;
          t = ge_p3_dbl A;
          A2 = ge_p1p1_to_p3 t;
          A1 = next_odd A2 A0;
          A2' = next_odd A2 A1;
          A3 = next_odd A2 A2';
          A4 = next_odd A2 A3;
          A5 = next_odd A2 A4;
          A6 = next_odd A2 A5;
          A7 = next_odd A2 A6
      in [A0, A1, A2', A3, A4, A5, A6, A7])"

text \<open>One more than the highest position with a digit, or zero.\<close>

fun top_digit :: "i8 list \<Rightarrow> i8 list \<Rightarrow> nat \<Rightarrow> nat" where
  "top_digit aslide bslide 0 = 0"
| "top_digit aslide bslide (Suc i) =
     (if aslide ! i \<noteq> 0 \<or> bslide ! i \<noteq> 0 then Suc i else top_digit aslide bslide i)"

definition add_digit_A :: "ge_cached list \<Rightarrow> i8 \<Rightarrow> ge_p1p1 \<Rightarrow> ge_p1p1 option" where
  "add_digit_A Ai x t =
     (if 0 < sint x then do {
        q \<leftarrow> cell Ai (nat (sint x div 2));
        Some (ge_add (ge_p1p1_to_p3 t) q)
      }
      else if sint x < 0 then do {
        q \<leftarrow> cell Ai (nat (- sint x div 2));
        Some (ge_sub (ge_p1p1_to_p3 t) q)
      }
      else Some t)"

definition add_digit_B :: "i8 \<Rightarrow> ge_p1p1 \<Rightarrow> ge_p1p1 option" where
  "add_digit_B x t =
     (if 0 < sint x then do {
        q \<leftarrow> cell Bi (nat (sint x div 2));
        Some (ge_madd (ge_p1p1_to_p3 t) q)
      }
      else if sint x < 0 then do {
        q \<leftarrow> cell Bi (nat (- sint x div 2));
        Some (ge_msub (ge_p1p1_to_p3 t) q)
      }
      else Some t)"

fun double_loop :: "ge_cached list \<Rightarrow> i8 list \<Rightarrow> i8 list \<Rightarrow> nat \<Rightarrow> ge_p2 \<Rightarrow> ge_p2 option" where
  "double_loop Ai aslide bslide 0 r = Some r"
| "double_loop Ai aslide bslide (Suc i) r = do {
     let t = ge_p2_dbl r;
     t \<leftarrow> add_digit_A Ai (aslide ! i) t;
     t \<leftarrow> add_digit_B (bslide ! i) t;
     double_loop Ai aslide bslide i (ge_p1p1_to_p2 t)
   }"

definition ge_double_scalarmult_vartime :: "u8 list \<Rightarrow> ge_p3 \<Rightarrow> u8 list \<Rightarrow> ge_p2 option" where
  "ge_double_scalarmult_vartime a A b =
     (let aslide = slide a;
          bslide = slide b;
          Ai = odd_multiples A
      in double_loop Ai aslide bslide (top_digit aslide bslide 256) ge_p2_0)"

section \<open>\<open>a * B\<close> in constant time\<close>

definition ge_equal :: "i8 \<Rightarrow> i8 \<Rightarrow> u8" where
  "ge_equal b c =
     (let ub = (ucast b :: u8);
          uc = (ucast c :: u8);
          x = ub XOR uc;
          y = (ucast x :: u64);
          y = y - 1;
          y = drop_bit 63 y
      in ucast y)"

definition ge_negative :: "i8 \<Rightarrow> u8" where
  "ge_negative b = (let x = (scast b :: u64); x = drop_bit 63 x in ucast x)"

definition ge_cmov :: "ge_precomp \<Rightarrow> ge_precomp \<Rightarrow> u8 \<Rightarrow> ge_precomp" where
  "ge_cmov t u b =
     \<lparr>yplusx = fe_cmov (yplusx t) (yplusx u) (ucast b),
      yminusx = fe_cmov (yminusx t) (yminusx u) (ucast b),
      xy2d = fe_cmov (xy2d t) (xy2d u) (ucast b)\<rparr>"

definition ge_select :: "nat \<Rightarrow> i8 \<Rightarrow> ge_precomp" where
  "ge_select pos b =
     (let bnegative = ge_negative b;
          babs = (of_int (sint b - ((- uint bnegative) AND sint b) * 2) :: u8);
          t = \<lparr>yplusx = fe_1, yminusx = fe_1, xy2d = fe_0\<rparr>;
          t = ge_cmov t (base ! pos ! 0) (ge_equal (ucast babs) 1);
          t = ge_cmov t (base ! pos ! 1) (ge_equal (ucast babs) 2);
          t = ge_cmov t (base ! pos ! 2) (ge_equal (ucast babs) 3);
          t = ge_cmov t (base ! pos ! 3) (ge_equal (ucast babs) 4);
          t = ge_cmov t (base ! pos ! 4) (ge_equal (ucast babs) 5);
          t = ge_cmov t (base ! pos ! 5) (ge_equal (ucast babs) 6);
          t = ge_cmov t (base ! pos ! 6) (ge_equal (ucast babs) 7);
          t = ge_cmov t (base ! pos ! 7) (ge_equal (ucast babs) 8);
          minust = \<lparr>yplusx = fe_copy (yminusx t), yminusx = fe_copy (yplusx t), xy2d = fe_neg (xy2d t)\<rparr>
      in ge_cmov t minust bnegative)"

text \<open>The 64 signed radix-16 digits.\<close>

definition nibbles :: "u8 list \<Rightarrow> i8 list" where
  "nibbles a = concat (map (\<lambda>i. [of_int (uint (a ! i) AND 15), of_int (drop_bit 4 (uint (a ! i)) AND 15)]) [0..<32])"

definition recode_step :: "i8 list \<times> i8 \<Rightarrow> nat \<Rightarrow> i8 list \<times> i8" where
  "recode_step s i =
     (case s of (e, carry) \<Rightarrow>
        let e = e[i := of_int (sint (e ! i) + sint carry)];
            carry = (of_int (sint (e ! i) + 8) :: i8);
            carry = (of_int (sint carry div 2 ^ 4) :: i8);
            e = e[i := of_int (sint (e ! i) - sint carry * 2 ^ 4)]
        in (e, carry))"

definition recode :: "u8 list \<Rightarrow> i8 list" where
  "recode a =
     (case foldl recode_step (nibbles a, 0) [0..<63] of
        (e, carry) \<Rightarrow> e[63 := of_int (sint (e ! 63) + sint carry)])"

definition add_entry :: "i8 list \<Rightarrow> ge_p3 \<Rightarrow> nat \<Rightarrow> ge_p3" where
  "add_entry e h i =
     (let t = ge_select (i div 2) (e ! i);
          r = ge_madd h t
      in ge_p1p1_to_p3 r)"

definition ge_scalarmult_base :: "u8 list \<Rightarrow> ge_p3" where
  "ge_scalarmult_base a =
     (let e = recode a;
          h = foldl (add_entry e) ge_p3_0 (filter odd [0..<64]);
          r = ge_p3_dbl h;
          s = ge_p1p1_to_p2 r;
          r = ge_p2_dbl s;
          s = ge_p1p1_to_p2 r;
          r = ge_p2_dbl s;
          s = ge_p1p1_to_p2 r;
          r = ge_p2_dbl s;
          h = ge_p1p1_to_p3 r
      in foldl (add_entry e) h (filter even [0..<64]))"

section \<open>The points computed\<close>

text \<open>
  The same computations on points: the odd multiples of a point, and one step of the loop, which
  doubles and adds the multiples that the two digits name.
\<close>

definition add_points :: "quad \<Rightarrow> quad \<Rightarrow> quad" where "add_points P Q = complete (edwards P Q)"
definition dbl_point :: "quad \<Rightarrow> quad" where "dbl_point P = complete (edwards_dbl P)"

primrec odd_multiple :: "quad \<Rightarrow> nat \<Rightarrow> quad" where
  "odd_multiple P 0 = P"
| "odd_multiple P (Suc k) = add_points (dbl_point P) (odd_multiple P k)"

definition B_point :: "nat \<Rightarrow> quad" where "B_point k = entry_point (Bi ! k)"

definition digit_point :: "(nat \<Rightarrow> quad) \<Rightarrow> int \<Rightarrow> quad \<Rightarrow> quad" where
  "digit_point M x P =
     (if 0 < x then add_points P (M (nat (x div 2)))
      else if x < 0 then add_points P (opposite (M (nat (- x div 2))))
      else P)"

primrec double_points :: "(nat \<Rightarrow> quad) \<Rightarrow> (nat \<Rightarrow> quad) \<Rightarrow> i8 list \<Rightarrow> i8 list \<Rightarrow> nat \<Rightarrow> quad \<Rightarrow> quad" where
  "double_points MA MB as bs 0 P = P"
| "double_points MA MB as bs (Suc i) P =
     double_points MA MB as bs i
       (digit_point MB (sint (bs ! i)) (digit_point MA (sint (as ! i)) (dbl_point P)))"

lemma on_curve_add: "on_curve P \<Longrightarrow> on_curve Q \<Longrightarrow> on_curve (add_points P Q)"
  by (simp add: add_points_def on_curve_edwards)

lemma on_curve_dbl_point: "on_curve P \<Longrightarrow> on_curve (dbl_point P)"
  by (simp add: dbl_point_def on_curve_dbl)

lemma on_curve_odd: "on_curve P \<Longrightarrow> on_curve (odd_multiple P k)"
  by (induction k) (simp_all add: on_curve_add on_curve_dbl_point)

lemma on_curve_digit:
  "on_curve P \<Longrightarrow> \<forall>k < 8. on_curve (M k) \<Longrightarrow> \<bar>x\<bar> \<le> 15 \<Longrightarrow> on_curve (digit_point M x P)"
  by (simp add: digit_point_def on_curve_add on_curve_opposite)

lemma dbl_neutral: "dbl_point neutral = neutral"
  by (simp add: dbl_point_def neutral_def)

text \<open>Leading zero digits change nothing: the search for the first digit is an optimisation.\<close>

lemma skip_zeros:
  "n \<le> length as \<Longrightarrow> double_points MA MB as bs n neutral = double_points MA MB as bs (top_digit as bs n) neutral"
  by (induction n) (simp_all add: digit_point_def dbl_neutral)

text \<open>The tables and the digits.\<close>

lemma next_odd_rep: "p3_rep A2 P2 \<Longrightarrow> cached_rep q Q \<Longrightarrow> cached_rep (next_odd A2 q) (add_points P2 Q)"
  unfolding next_odd_def Let_def add_points_def by (intro p3_to_cached_rep p1_to_p3_rep ge_add_rep)

lemma odd_multiples_rep:
  assumes "p3_rep A P"
  shows "k < 8 \<Longrightarrow> cached_rep (odd_multiples A ! k) (odd_multiple P k)" "length (odd_multiples A) = 8"
proof -
  have A2: "p3_rep (ge_p1p1_to_p3 (ge_p3_dbl A)) (dbl_point P)"
    unfolding dbl_point_def by (intro p1_to_p3_rep ge_p3_dbl_rep assms)
  have eq: "odd_multiples A = map (\<lambda>k. (next_odd (ge_p1p1_to_p3 (ge_p3_dbl A)) ^^ k) (ge_p3_to_cached A)) [0..<8]"
    by (simp add: odd_multiples_def Let_def upt_rec eval_nat_numeral)
  have "cached_rep ((next_odd (ge_p1p1_to_p3 (ge_p3_dbl A)) ^^ k) (ge_p3_to_cached A)) (odd_multiple P k)" for k
    by (induction k) (simp_all add: p3_to_cached_rep assms next_odd_rep A2)
  then show "k < 8 \<Longrightarrow> cached_rep (odd_multiples A ! k) (odd_multiple P k)" "length (odd_multiples A) = 8"
    unfolding eq by simp_all
qed

lemma digit_bound: "digit x \<Longrightarrow> \<bar>sint x\<bar> \<le> 15"
  by (auto simp: digit_def)

text \<open>A completed point that stands for the point \<open>P\<close>.\<close>

definition completes :: "ge_p1p1 \<Rightarrow> quad \<Rightarrow> bool" where
  "completes t P \<longleftrightarrow> (\<exists>T. p1_rep t T \<and> complete T = P)"

lemma completes_dbl: "p2_rep r P \<Longrightarrow> completes (ge_p2_dbl r) (dbl_point P)"
  unfolding completes_def dbl_point_def using ge_p2_dbl_rep' by blast

lemma completes_add:
  assumes "completes t P"
  shows "cached_rep q Q \<Longrightarrow> completes (ge_add (ge_p1p1_to_p3 t) q) (add_points P Q)"
    and "cached_rep q Q \<Longrightarrow> completes (ge_sub (ge_p1p1_to_p3 t) q) (add_points P (opposite Q))"
    and "precomp_rep e Q \<Longrightarrow> completes (ge_madd (ge_p1p1_to_p3 t) e) (add_points P Q)"
    and "precomp_rep e Q \<Longrightarrow> completes (ge_msub (ge_p1p1_to_p3 t) e) (add_points P (opposite Q))"
proof -
  have "p3_rep (ge_p1p1_to_p3 t) P" using assms p1_to_p3_rep unfolding completes_def by blast
  note r = ge_add_rep [OF this] ge_madd_rep [OF this]
  show "cached_rep q Q \<Longrightarrow> completes (ge_add (ge_p1p1_to_p3 t) q) (add_points P Q)"
    "cached_rep q Q \<Longrightarrow> completes (ge_sub (ge_p1p1_to_p3 t) q) (add_points P (opposite Q))"
    "precomp_rep e Q \<Longrightarrow> completes (ge_madd (ge_p1p1_to_p3 t) e) (add_points P Q)"
    "precomp_rep e Q \<Longrightarrow> completes (ge_msub (ge_p1p1_to_p3 t) e) (add_points P (opposite Q))"
    unfolding completes_def add_points_def using r by blast+
qed

lemma completes_p2: "completes t P \<Longrightarrow> p2_rep (ge_p1p1_to_p2 t) P"
  unfolding completes_def using p1_to_p2_rep by blast

lemma Bi_rep: "k < 8 \<Longrightarrow> precomp_rep (Bi ! k) (B_point k)"
  using Bi_curve by (simp add: curve_entry_def B_point_def)

lemma add_digit_ok:
  assumes "completes t P" "digit x"
  shows "\<forall>k < 8. cached_rep (Ai ! k) (M k) \<Longrightarrow> length Ai = 8 \<Longrightarrow>
      \<exists>t'. add_digit_A Ai x t = Some t' \<and> completes t' (digit_point M (sint x) P)"
    and "\<exists>t'. add_digit_B x t = Some t' \<and> completes t' (digit_point B_point (sint x) P)"
proof -
  have b: "nat (sint x div 2) < 8" "nat (- sint x div 2) < 8" using digit_bound [OF assms(2)] by linarith+
  show "\<exists>t'. add_digit_A Ai x t = Some t' \<and> completes t' (digit_point M (sint x) P)"
    if "\<forall>k < 8. cached_rep (Ai ! k) (M k)" "length Ai = 8"
    unfolding add_digit_A_def digit_point_def cell_def using that b assms(1) by (simp add: completes_add)
  show "\<exists>t'. add_digit_B x t = Some t' \<and> completes t' (digit_point B_point (sint x) P)"
    unfolding add_digit_B_def digit_point_def cell_def length_Bi
    using b assms(1) by (simp add: completes_add Bi_rep)
qed

lemma double_loop_rep:
  assumes "\<forall>k < 8. cached_rep (Ai ! k) (M k)" "length Ai = 8"
  shows "p2_rep r P \<Longrightarrow> \<forall>j < i. digit (as ! j) \<and> digit (bs ! j) \<Longrightarrow>
    \<exists>s. double_loop Ai as bs i r = Some s \<and> p2_rep s (double_points M B_point as bs i P)"
proof (induction i arbitrary: r P)
  case (Suc i)
  obtain t where t: "add_digit_A Ai (as ! i) (ge_p2_dbl r) = Some t"
    "completes t (digit_point M (sint (as ! i)) (dbl_point P))"
    using add_digit_ok(1) [OF completes_dbl [OF Suc.prems(1)] _ assms, of "as ! i"] Suc.prems(2) by auto
  obtain t' where t': "add_digit_B (bs ! i) t = Some t'"
    "completes t' (digit_point B_point (sint (bs ! i)) (digit_point M (sint (as ! i)) (dbl_point P)))"
    using add_digit_ok(2) [OF t(2), of "bs ! i"] Suc.prems(2) by auto
  show ?case
    using Suc.IH [OF completes_p2 [OF t'(2)]] Suc.prems(2) t t' by simp
qed simp

lemma ge_double_scalarmult_ok:
  assumes "p3_rep A P" "on_curve P" "length a = 32" "length b = 32" "le_int a \<le> 2 ^ 255" "le_int b \<le> 2 ^ 255"
  defines "Q \<equiv> double_points (odd_multiple P) B_point (slide a) (slide b) 256 neutral"
  shows "\<exists>r. ge_double_scalarmult_vartime a A b = Some r \<and> p2_rep r Q" "on_curve Q"
proof -
  note sa = slide_ok [OF assms(3,5)] and sb = slide_ok [OF assms(4,6)]
  let ?n = "top_digit (slide a) (slide b) 256"
  have n: "top_digit as bs m \<le> m" for as bs m by (induction m) simp_all
  have "\<forall>j < ?n. digit (slide a ! j) \<and> digit (slide b ! j)"
    using sa(2) sb(2) n [of "slide a" "slide b" 256] by auto
  from double_loop_rep [OF _ _ neutral_rep(1) this, of "odd_multiples A" "odd_multiple P"]
  show "\<exists>r. ge_double_scalarmult_vartime a A b = Some r \<and> p2_rep r Q"
    using odd_multiples_rep [OF assms(1)] skip_zeros [of 256 "slide a" _ _ "slide b"] sa(1)
    by (simp add: ge_double_scalarmult_vartime_def Q_def Let_def)
  have B: "\<forall>k < 8. on_curve (B_point k)" using Bi_curve by (simp add: B_point_def curve_entry_def)
  have "on_curve (double_points (odd_multiple P) B_point (slide a) (slide b) n R)" if "on_curve R" "n \<le> 256" for n R
    using that
    by (induction n arbitrary: R)
      (simp_all add: on_curve_digit on_curve_odd on_curve_dbl_point assms(2) B digit_bound sa(2) sb(2))
  then show "on_curve Q" unfolding Q_def by (simp add: on_curve_neutral)
qed

end
