(* ===== verification/Group_Select.thy ===== *)
theory Group_Select
  imports Group_Mult
begin

text \<open>
  The two parts of \<open>ge_scalarmult_base\<close> that are not point arithmetic: the recoding of the scalar into
  64 signed digits of the same value, and the constant-time selection of the table entry of a digit.
\<close>

unbundle bit_operations_syntax

section \<open>Selection\<close>

definition entry_neg :: "ge_precomp \<Rightarrow> ge_precomp" where
  "entry_neg t = \<lparr>yplusx = yminusx t, yminusx = yplusx t, xy2d = fe_neg (xy2d t)\<rparr>"

definition entry_0 :: ge_precomp where
  "entry_0 = \<lparr>yplusx = fe_1, yminusx = fe_1, xy2d = fe_0\<rparr>"

text \<open>The entry that a digit stands for: its absolute value selects, its sign negates.\<close>

definition digit_entry :: "ge_precomp list \<Rightarrow> int \<Rightarrow> ge_precomp" where
  "digit_entry row v =
     (let t = (if v = 0 then entry_0 else row ! nat (\<bar>v\<bar> - 1))
      in if v < 0 then entry_neg t else t)"

definition entry_10 :: "ge_precomp \<Rightarrow> bool" where
  "entry_10 t \<longleftrightarrow> length (yplusx t) = 10 \<and> length (yminusx t) = 10 \<and> length (xy2d t) = 10"

lemma ge_cmov_cases: "entry_10 t \<Longrightarrow> entry_10 u \<Longrightarrow> ge_cmov t u (if c then 1 else 0) = (if c then u else t)"
  by (cases c) (simp_all add: ge_cmov_def entry_10_def fe_cmov_cases)

definition babs :: "i8 \<Rightarrow> i8" where
  "babs b = ucast (of_int (sint b - ((- uint (ge_negative b)) AND sint b) * 2) :: u8)"

text \<open>The comparisons of the source on every digit, evaluated.\<close>

lemma flags_evaluated:
  "list_all (\<lambda>v. ge_negative (of_int v) = (if v < 0 then 1 else 0) \<and>
     map (ge_equal (babs (of_int v))) [1, 2, 3, 4, 5, 6, 7, 8] = map (\<lambda>k. if \<bar>v\<bar> = k then 1 else 0) [1, 2, 3, 4, 5, 6, 7, 8])
   [-8, -7, -6, -5, -4, -3, -2, -1, 0, 1, 2, 3, 4, 5, 6, 7, 8]"
  by code_simp

lemma digit_cases: "\<bar>v\<bar> \<le> 8 \<Longrightarrow> v \<in> set [-8, -7, -6, -5, -4, -3, -2, -1, 0, 1, 2, 3, 4, 5, 6, 7, 8 :: int]"
  unfolding set_simps insert_iff empty_iff by arith

lemma select_flags:
  assumes "\<bar>sint b\<bar> \<le> 8"
  shows "ge_negative b = (if sint b < 0 then 1 else 0)"
    "ge_equal (babs b) 1 = (if \<bar>sint b\<bar> = 1 then 1 else 0)" "ge_equal (babs b) 2 = (if \<bar>sint b\<bar> = 2 then 1 else 0)"
    "ge_equal (babs b) 3 = (if \<bar>sint b\<bar> = 3 then 1 else 0)" "ge_equal (babs b) 4 = (if \<bar>sint b\<bar> = 4 then 1 else 0)"
    "ge_equal (babs b) 5 = (if \<bar>sint b\<bar> = 5 then 1 else 0)" "ge_equal (babs b) 6 = (if \<bar>sint b\<bar> = 6 then 1 else 0)"
    "ge_equal (babs b) 7 = (if \<bar>sint b\<bar> = 7 then 1 else 0)" "ge_equal (babs b) 8 = (if \<bar>sint b\<bar> = 8 then 1 else 0)"
proof -
  have b: "b = of_int (sint b)" by (rule word_sint [OF refl])
  from flags_evaluated digit_cases [OF assms]
  have "ge_negative (of_int (sint b)) = (if sint b < 0 then 1 else 0) \<and>
     map (ge_equal (babs (of_int (sint b)))) [1, 2, 3, 4, 5, 6, 7, 8] =
     map (\<lambda>k. if \<bar>sint b\<bar> = k then 1 else 0) [1, 2, 3, 4, 5, 6, 7, 8]"
    unfolding list_all_iff by (rule bspec)
  then show "ge_negative b = (if sint b < 0 then 1 else 0)"
    "ge_equal (babs b) 1 = (if \<bar>sint b\<bar> = 1 then 1 else 0)" "ge_equal (babs b) 2 = (if \<bar>sint b\<bar> = 2 then 1 else 0)"
    "ge_equal (babs b) 3 = (if \<bar>sint b\<bar> = 3 then 1 else 0)" "ge_equal (babs b) 4 = (if \<bar>sint b\<bar> = 4 then 1 else 0)"
    "ge_equal (babs b) 5 = (if \<bar>sint b\<bar> = 5 then 1 else 0)" "ge_equal (babs b) 6 = (if \<bar>sint b\<bar> = 6 then 1 else 0)"
    "ge_equal (babs b) 7 = (if \<bar>sint b\<bar> = 7 then 1 else 0)" "ge_equal (babs b) 8 = (if \<bar>sint b\<bar> = 8 then 1 else 0)"
    unfolding b [symmetric] by simp_all
qed

lemma entry_10_ok: "entry_ok q \<Longrightarrow> entry_10 q"
  by (simp add: entry_ok_def entry_10_def fe_ok_def bounded_def fe_ints_def)

lemma entry_10_row: "pos < 32 \<Longrightarrow> k < 8 \<Longrightarrow> entry_10 (base ! pos ! k)"
  using base_entry_ok entry_10_ok by blast

lemma ge_select_ok:
  assumes "pos < 32" "\<bar>sint b\<bar> \<le> 8"
  shows "ge_select pos b = digit_entry (base ! pos) (sint b)"
proof -
  have e0: "entry_10 entry_0" by (simp add: entry_10_def entry_0_def fe_0_def fe_1_def)
  note e = entry_10_row [OF assms(1)]
  define t where "t = (if sint b = 0 then entry_0 else base ! pos ! nat (\<bar>sint b\<bar> - 1))"
  have nat8: "nat (\<bar>sint b\<bar> - 1) < 8" using assms(2) by linarith
  then have t10: "entry_10 t" by (simp add: t_def e0 e)
  then have n10: "entry_10 (entry_neg t)" by (simp add: entry_10_def entry_neg_def fe_neg_def)
  have c: "ge_cmov s u (if P then 1 else 0) = (if P then u else s)" "entry_10 (if P then u else s)"
    if "entry_10 s" "entry_10 u" for s u P
    using that by (simp_all add: ge_cmov_cases)
  have chain: "ge_cmov (ge_cmov (ge_cmov (ge_cmov (ge_cmov (ge_cmov (ge_cmov (ge_cmov entry_0
      (base ! pos ! 0) (ge_equal (babs b) 1)) (base ! pos ! 1) (ge_equal (babs b) 2))
      (base ! pos ! 2) (ge_equal (babs b) 3)) (base ! pos ! 3) (ge_equal (babs b) 4))
      (base ! pos ! 4) (ge_equal (babs b) 5)) (base ! pos ! 5) (ge_equal (babs b) 6))
      (base ! pos ! 6) (ge_equal (babs b) 7)) (base ! pos ! 7) (ge_equal (babs b) 8) = t"
    unfolding select_flags(2-9) [OF assms(2)] t_def using digit_cases [OF assms(2)]
    by (simp add: c e e0) (elim disjE; simp)
  have minust: "\<lparr>yplusx = fe_copy (yminusx t), yminusx = fe_copy (yplusx t), xy2d = fe_neg (xy2d t)\<rparr> = entry_neg t"
    using t10 by (simp add: entry_neg_def entry_10_def fe_copy_id)
  show ?thesis
    unfolding ge_select_def Let_def
    unfolding babs_def [symmetric] entry_0_def [symmetric]
    unfolding select_flags(1) [OF assms(2)] chain minust c(1) [OF t10 n10]
    by (simp add: digit_entry_def t_def)
qed

section \<open>Recoding\<close>

lemma nibble_values:
  assumes "length a = 32"
  shows "length (nibbles a) = 64" "\<forall>i < 64. 0 \<le> sint (nibbles a ! i) \<and> sint (nibbles a ! i) \<le> 15"
    "radix 16 (digits_of (nibbles a)) = le_int a"
proof -
  let ?f = "\<lambda>b :: u8. [of_int (uint b AND 15), of_int (drop_bit 4 (uint b) AND 15)] :: i8 list"
  have eq: "nibbles a = concat (map ?f a)"
    unfolding nibbles_def by (rule arg_cong [where f = concat], rule nth_equalityI) (simp_all add: assms)
  have m: "v AND 15 = v mod 16" for v :: int
    using take_bit_eq_mask [of 4 v] by (simp add: take_bit_eq_mod mask_eq_exp_minus_1)
  have s: "sint (of_int (uint b AND 15) :: i8) = uint b mod 16"
    "sint (of_int (drop_bit 4 (uint b) AND 15) :: i8) = uint b div 16" for b :: u8
  proof -
    have "0 \<le> uint b div 16" "uint b div 16 < 16"
      using uint_bytes [of b] by (simp_all add: pos_imp_zdiv_nonneg_iff)
    then have "uint b div 16 mod 16 = uint b div 16" by (rule mod_pos_pos_trivial)
    moreover from this have "- 128 \<le> uint b mod 16" "uint b mod 16 < 128" "- 128 \<le> uint b div 16" "uint b div 16 < 128"
      using \<open>0 \<le> uint b div 16\<close> \<open>uint b div 16 < 16\<close> pos_mod_bound [of 16 "uint b"] pos_mod_sign [of 16 "uint b"]
      by linarith+
    ultimately show "sint (of_int (uint b AND 15) :: i8) = uint b mod 16"
      "sint (of_int (drop_bit 4 (uint b) AND 15) :: i8) = uint b div 16"
      unfolding m drop_bit_eq_div by (simp_all add: sint_of_int8)
  qed
  have "length (concat (map ?f bs)) = 2 * length bs" for bs by (induction bs) simp_all
  then show "length (nibbles a) = 64" unfolding eq by (simp add: assms)
  have all: "\<forall>x \<in> set (concat (map ?f bs)). 0 \<le> sint x \<and> sint x \<le> 15" for bs
  proof (induction bs)
    case (Cons b bs)
    have "uint b div 16 \<le> 15" "uint b mod 16 \<le> 15" using uint_bytes [of b] by auto
    then show ?case using Cons uint_bytes [of b] by (simp add: s pos_imp_zdiv_nonneg_iff)
  qed simp
  show "\<forall>i < 64. 0 \<le> sint (nibbles a ! i) \<and> sint (nibbles a ! i) \<le> 15"
  proof (intro allI impI)
    fix i :: nat assume "i < 64"
    then have "nibbles a ! i \<in> set (nibbles a)" using \<open>length (nibbles a) = 64\<close> by simp
    with all [of a] show "0 \<le> sint (nibbles a ! i) \<and> sint (nibbles a ! i) \<le> 15"
      unfolding eq by (rule bspec)
  qed
  have "radix 16 (digits_of (concat (map ?f bs))) = le_int bs" for bs
  proof (induction bs)
    case (Cons b bs)
    have "uint b mod 16 + 16 * (uint b div 16) = uint b" by simp
    then show ?case using Cons by (simp add: digits_of_def s)
  qed (simp add: digits_of_def)
  then show "radix 16 (digits_of (nibbles a)) = le_int a" unfolding eq .
qed

lemma radix_nonneg: "\<forall>x \<in> set xs. 0 \<le> x \<Longrightarrow> 0 \<le> b \<Longrightarrow> 0 \<le> radix b xs"
  by (induction xs) simp_all

definition recode_inv :: "int \<Rightarrow> int \<Rightarrow> nat \<Rightarrow> i8 list \<times> i8 \<Rightarrow> bool" where
  "recode_inv n m i s \<longleftrightarrow> length (fst s) = 64 \<and> sint (snd s) \<in> {0, 1} \<and>
     (\<forall>j < i. - 8 \<le> sint (fst s ! j) \<and> sint (fst s ! j) \<le> 7) \<and>
     (\<forall>j < 64. i \<le> j \<longrightarrow> 0 \<le> sint (fst s ! j) \<and> sint (fst s ! j) \<le> 15) \<and> sint (fst s ! 63) = m \<and>
     radix 16 (digits_of (fst s)) + 16 ^ i * sint (snd s) = n"

lemma digits_update: "digits_of (r[i := x]) = (digits_of r)[i := sint x]"
  by (simp add: digits_of_def map_update)

lemma recode_step_ok:
  assumes "recode_inv n m i s" "i < 63"
  shows "recode_inv n m (i + 1) (recode_step s i)"
proof -
  obtain e c where s: "s = (e, c)" by force
  have e: "length e = 64" "sint c = 0 \<or> sint c = 1" "0 \<le> sint (e ! i)" "sint (e ! i) \<le> 15"
    using assms by (auto simp: s recode_inv_def)
  define x where "x = sint (e ! i) + sint c"
  have x: "0 \<le> x" "x \<le> 16" unfolding x_def using e by auto
  define k where "k = (x + 8) div 2 ^ 4"
  have k: "k = 0 \<or> k = 1" "- 8 \<le> x - k * 16" "x - k * 16 \<le> 7"
    unfolding k_def power_numeral Num.pow.simps Num.sqr.simps using x by presburger+
  have xx: "sint (of_int x :: i8) = x" using x by (intro sint_of_int8) simp_all
  have xk: "sint (of_int (x + 8) :: i8) = x + 8" using x by (intro sint_of_int8) simp_all
  have kk: "sint (of_int k :: i8) = k" using k(1) by (intro sint_of_int8) auto
  have xr: "sint (of_int (x - k * 16) :: i8) = x - k * 16" using k by (intro sint_of_int8) simp_all
  have ei: "i < length e" using e(1) assms(2) by simp
  have "recode_step s i = (e[i := of_int (x - k * 2 ^ 4)], of_int k)"
    unfolding s recode_step_def prod.case Let_def x_def [symmetric] nth_list_update_eq [OF ei] xx xk
      k_def [symmetric] kk list_update_overwrite ..
  then have step: "recode_step s i = (e[i := of_int (x - k * 16)], of_int k)" by simp
  have "radix 16 (digits_of (e[i := of_int (x - k * 16)])) =
      radix 16 (digits_of e) + (x - k * 16 - sint (e ! i)) * 16 ^ i"
    unfolding digits_update xr by (subst radix_update) (use e(1) assms(2) in \<open>simp_all add: digits_of_def\<close>)
  also have "\<dots> + 16 ^ (i + 1) * k = radix 16 (digits_of e) + 16 ^ i * sint c"
    unfolding x_def by (simp add: algebra_simps)
  finally have "radix 16 (digits_of (e[i := of_int (x - k * 16)])) + 16 ^ (i + 1) * k = n"
    using assms(1) by (simp add: s recode_inv_def)
  moreover have "\<forall>j < i. - 8 \<le> sint (e ! j) \<and> sint (e ! j) \<le> 7"
    "\<forall>j < 64. i \<le> j \<longrightarrow> 0 \<le> sint (e ! j) \<and> sint (e ! j) \<le> 15" "sint (e ! 63) = m"
    using assms(1) by (simp_all add: s recode_inv_def)
  ultimately show ?thesis
    using k assms(2) e(1) unfolding step recode_inv_def fst_conv snd_conv kk
    by (auto simp: nth_list_update less_Suc_eq xr simp del: of_int_diff of_int_mult)
qed

lemma recode_ok:
  assumes "length a = 32" "le_int a < 2 ^ 255"
  shows "length (recode a) = 64" "\<forall>i < 64. \<bar>sint (recode a ! i)\<bar> \<le> 8" "radix 16 (digits_of (recode a)) = le_int a"
proof -
  note nb = nibble_values [OF assms(1)]
  let ?m = "sint (nibbles a ! 63)"
  have "recode_inv (le_int a) ?m n (foldl recode_step (nibbles a, 0) [0..<n])" if "n \<le> 63" for n
    using that
  proof (induction n)
    case 0
    show ?case using nb by (simp add: recode_inv_def)
  next
    case (Suc n)
    then show ?case using recode_step_ok [of "le_int a" ?m n] by simp
  qed
  from this [of 63] obtain e c where s: "foldl recode_step (nibbles a, 0) [0..<63] = (e, c)"
    and inv: "recode_inv (le_int a) ?m 63 (e, c)" by (metis order_refl prod.exhaust)
  have m: "?m \<le> 7"
  proof -
    have "digits_of (nibbles a) = digits_of (take 63 (nibbles a)) @ [?m]"
      unfolding digits_of_def using arg_cong [OF take_Suc_conv_app_nth [of 63 "nibbles a"], of "map sint"] nb(1) by simp
    then have "radix 16 (digits_of (nibbles a)) = radix 16 (digits_of (take 63 (nibbles a))) + 16 ^ 63 * ?m"
      using nb(1) by (simp add: radix_append digits_of_def)
    moreover have "0 \<le> radix 16 (digits_of (take 63 (nibbles a)))"
      using nb(1,2) by (intro radix_nonneg) (auto simp: digits_of_def in_set_conv_nth)
    ultimately have "16 ^ 63 * ?m \<le> radix 16 (digits_of (nibbles a))" by simp
    then have "16 ^ 63 * ?m < 2 ^ 255" using nb(3) assms(2) by simp
    then show ?thesis by simp
  qed
  have e: "length e = 64" "sint (e ! 63) = ?m" "sint c = 0 \<or> sint c = 1" "0 \<le> ?m"
    "\<forall>j < 63. - 8 \<le> sint (e ! j) \<and> sint (e ! j) \<le> 7" "radix 16 (digits_of e) + 16 ^ 63 * sint c = le_int a"
    using inv nb(2) by (auto simp: recode_inv_def)
  have r: "recode a = e[63 := of_int (?m + sint c)]" by (simp only: recode_def s e(2) prod.case)
  have x: "sint (of_int (?m + sint c) :: i8) = ?m + sint c" using m e(3,4) by (intro sint_of_int8) auto
  show "length (recode a) = 64" by (simp add: r e(1))
  show "\<forall>i < 64. \<bar>sint (recode a ! i)\<bar> \<le> 8"
  proof (intro allI impI)
    fix i :: nat assume "i < 64"
    then consider "i < 63" | "i = 63" by linarith
    then show "\<bar>sint (recode a ! i)\<bar> \<le> 8"
    proof cases
      case 1
      then have "- 8 \<le> sint (e ! i) \<and> sint (e ! i) \<le> 7" using e(5) by blast
      then have "\<bar>sint (e ! i)\<bar> \<le> 8" by linarith
      then show ?thesis using 1 by (simp add: r)
    next
      case 2
      then show ?thesis using m e(1,3,4) x by (auto simp: r simp del: of_int_add)
    qed
  qed
  show "radix 16 (digits_of (recode a)) = le_int a"
    unfolding r digits_update x
    by (subst radix_update) (use e(1,2,6) in \<open>simp_all add: digits_of_def mult.commute\<close>)
qed

section \<open>Sizes\<close>

definition p3_sized :: "ge_p3 \<Rightarrow> bool" where
  "p3_sized p \<longleftrightarrow> fe_ok fe_tight (p3_X p) \<and> fe_ok fe_tight (p3_Y p) \<and> fe_ok fe_tight (p3_Z p) \<and> fe_ok fe_tight (p3_T p)"

lemma p3_sized_rep: "p3_rep p P \<Longrightarrow> p3_sized p"
  by (cases P) (simp add: p3_sized_def rep_def fe_tight_def)

lemma entry_ok_digit:
  assumes "list_all entry_ok row" "length row = 8" "\<bar>v\<bar> \<le> 8"
  shows "entry_ok (digit_entry row v)"
proof -
  have "entry_ok entry_0" by (simp add: entry_ok_def entry_0_def fe_0_1)
  moreover have "entry_ok (entry_neg t)" if "entry_ok t" for t
    using that rep_neg [OF rep_tight [OF _ refl], of "xy2d t"]
    by (simp add: entry_ok_def entry_neg_def) (simp add: rep_def fe_tight_def)
  moreover have "nat (\<bar>v\<bar> - 1) < 8" using assms(3) by linarith
  ultimately show ?thesis using assms(1,2) by (simp add: digit_entry_def list_all_length Let_def)
qed

lemma madd_sized:
  assumes "p3_sized p" "entry_ok q"
  shows "p3_sized (ge_p1p1_to_p3 (ge_madd p q))"
proof -
  have p: "rep 1 (p3_X p) (to_gf (fe_val (p3_X p)))" "rep 1 (p3_Y p) (to_gf (fe_val (p3_Y p)))"
      "rep 1 (p3_Z p) (to_gf (fe_val (p3_Z p)))" "rep 1 (p3_T p) (to_gf (fe_val (p3_T p)))"
    and q: "rep 1 (yplusx q) (to_gf (fe_val (yplusx q)))" "rep 1 (yminusx q) (to_gf (fe_val (yminusx q)))"
      "rep 1 (xy2d q) (to_gf (fe_val (xy2d q)))"
    using assms by (simp_all add: p3_sized_def entry_ok_def rep_tight)
  define a where "a = fe_mul (fe_add (p3_Y p) (p3_X p)) (yplusx q)"
  define b where "b = fe_mul (fe_sub (p3_Y p) (p3_X p)) (yminusx q)"
  define c where "c = fe_mul (xy2d q) (p3_T p)"
  define t where "t = fe_add (p3_Z p) (p3_Z p)"
  obtain x y z w where s: "rep 1 a x" "rep 1 b y" "rep 1 c z" "rep 2 t w"
    unfolding a_def b_def c_def t_def
    using rep_mul [OF rep_add [OF p(2,1)] q(1)] rep_mul [OF rep_sub [OF p(2,1)] q(2)] rep_mul [OF q(3) p(4)]
      rep_double [OF p(3)] by auto
  have "ge_madd p q = \<lparr>p1_X = fe_sub a b, p1_Y = fe_add a b, p1_Z = fe_add t c, p1_T = fe_sub t c\<rparr>"
    by (simp add: ge_madd_def Let_def a_def b_def c_def t_def)
  then have "p1_rep (ge_madd p q) (x - y, x + y, w + z, w - z)"
    by (simp add: rep_step [OF s(1,2)] rep_step [OF s(4,3)])
  then show ?thesis by (rule p3_sized_rep [OF p1_to_p3_rep])
qed

lemma sized_rep: "p3_sized p \<Longrightarrow> \<exists>P. p3_rep p P"
proof -
  assume "p3_sized p"
  then have "p3_rep p (to_gf (fe_val (p3_X p)), to_gf (fe_val (p3_Y p)), to_gf (fe_val (p3_Z p)), to_gf (fe_val (p3_T p)))"
    by (simp add: p3_sized_def rep_tight)
  then show ?thesis by blast
qed

lemma add_entry_sized:
  assumes "i < 64" "\<bar>sint (e ! i)\<bar> \<le> 8" "p3_sized h"
  shows "p3_sized (add_entry e h i)"
proof -
  have i: "i div 2 < 32" using assms(1) by simp
  have "entry_ok (digit_entry (base ! (i div 2)) (sint (e ! i)))"
    using base_rows i assms(2) by (intro entry_ok_digit) (simp_all add: list_all_length)
  then show ?thesis
    unfolding add_entry_def Let_def ge_select_ok [OF i assms(2)] using madd_sized assms(3) by blast
qed

lemma fold_sized:
  "\<forall>i \<in> set is. i < 64 \<and> \<bar>sint (e ! i)\<bar> \<le> 8 \<Longrightarrow> p3_sized h \<Longrightarrow> p3_sized (foldl (add_entry e) h is)"
  by (induction "is" arbitrary: h) (simp_all add: add_entry_sized)

lemma double_four:
  assumes "p3_rep h P"
  shows "p3_rep (ge_p1p1_to_p3 (ge_p2_dbl (ge_p1p1_to_p2 (ge_p2_dbl (ge_p1p1_to_p2 (ge_p2_dbl
      (ge_p1p1_to_p2 (ge_p3_dbl h)))))))) (dbl_point (dbl_point (dbl_point (dbl_point P))))"
  unfolding dbl_point_def by (intro p1_to_p3_rep ge_p2_dbl_rep' p1_to_p2_rep ge_p3_dbl_rep assms)

lemma scalarmult_base_sized:
  assumes "length a = 32" "le_int a < 2 ^ 255"
  shows "p3_sized (ge_scalarmult_base a)"
proof -
  have d: "\<forall>i \<in> set (filter P [0..<64]). i < 64 \<and> \<bar>sint (recode a ! i)\<bar> \<le> 8" for P
    using recode_ok(2) [OF assms] by simp
  have "p3_sized (foldl (add_entry (recode a)) ge_p3_0 (filter odd [0..<64]))"
    by (intro fold_sized d p3_sized_rep [OF neutral_rep(2)])
  from sized_rep [OF this] obtain P
    where "p3_rep (foldl (add_entry (recode a)) ge_p3_0 (filter odd [0..<64])) P" by blast
  note P = p3_sized_rep [OF double_four [OF this]]
  show ?thesis unfolding ge_scalarmult_base_def Let_def by (rule fold_sized [OF d P])
qed

end
