(* ===== verification/Group_Decode.thy ===== *)
theory Group_Decode
  imports Group_Ok
begin

text \<open>
  Decoding and encoding of points: what \<open>ge_frombytes_negate_vartime\<close> accepts and returns, and what
  \<open>ge_tobytes\<close> and \<open>ge_p3_tobytes\<close> write.
\<close>

unbundle bit_operations_syntax

text \<open>The candidate root of \<open>u / v\<close>, and the values the decoder computes from \<open>y\<close>.\<close>

definition root_u :: "gf \<Rightarrow> gf" where "root_u y = y * y - 1"
definition root_v :: "gf \<Rightarrow> gf" where "root_v y = y * y * gf_d + 1"

definition root_x :: "gf \<Rightarrow> gf" where
  "root_x y =
     (let u = root_u y; v = root_v y; v3 = v * v * v
      in (v3 * v3 * v * u) ^ (2 ^ 252 - 3) * v3 * u)"

text \<open>The sizes that \<open>fe_1\<close> really has: subtracting it from a product keeps the operand of the zero test small.\<close>

lemma one_small: "fe_ok (limb_sizes 1) fe_1"
  unfolding fe_ok_sizes fe_1_def less10 by simp

lemma minus_one_small:
  assumes "rep 1 f x"
  shows "fe_ok (limb_sizes 16945480) (fe_sub f fe_1)" "to_gf (fe_val (fe_sub f fe_1)) = x - 1"
  using fe_add_sub(3,4) [OF rep_sizes [OF assms] one_small] rep_val [OF assms] by (simp_all add: fe_0_1 to_gf_ring)

lemma check_wide:
  assumes "rep 1 g y" "fe_ok (limb_sizes 16945480) f" "to_gf (fe_val f) = x"
  shows "fe_isnonzero (fe_sub g f) \<longleftrightarrow> y - x \<noteq> 0" "fe_isnonzero (fe_add g f) \<longleftrightarrow> y + x \<noteq> 0"
proof -
  note s = fe_add_sub [OF rep_sizes [OF assms(1)] assms(2)]
  have w: "fe_ok fe_wide (fe_sub g f)" "fe_ok fe_wide (fe_add g f)"
    unfolding fe_wide_def using s by (auto elim: fe_ok_mono)
  have v: "to_gf (fe_val (fe_sub g f)) = y - x" "to_gf (fe_val (fe_add g f)) = y + x"
    using s(2,4) rep_val [OF assms(1)] assms(3) by (simp_all add: to_gf_ring)
  show "fe_isnonzero (fe_sub g f) \<longleftrightarrow> y - x \<noteq> 0" "fe_isnonzero (fe_add g f) \<longleftrightarrow> y + x \<noteq> 0"
    unfolding fe_isnonzero_ok [OF w(1)] fe_isnonzero_ok [OF w(2)] v [symmetric] to_gf_0 by (rule refl)+
qed

definition root_of :: "gf \<Rightarrow> gf option" where
  "root_of y =
     (let x = root_x y; t = x * x * root_v y
      in if t = root_u y then Some x else if t = - root_u y then Some (x * gf_i) else None)"

text \<open>The decoder: the sign bit of the last byte decides between the root and its negative, the result is the negative.\<close>

definition decode_x :: "gf \<Rightarrow> bool \<Rightarrow> gf" where
  "decode_x x b = (if (gf_rep x mod 2 = 1) = b then - x else x)"

lemma sign_eq: "(of_int (v mod 2) :: i32) = ucast (drop_bit 7 (w :: u8)) \<longleftrightarrow> (v mod 2 = 1) = bit w 7"
proof -
  have w: "(ucast (drop_bit 7 w) :: i32) = of_bool (bit w 7)"
  proof (rule bit_word_eqI)
    fix n assume "n < LENGTH(32)"
    have "bit w (7 + n) \<Longrightarrow> n = 0" using bit_imp_le_length [of w "7 + n"] by simp
    then show "bit (ucast (drop_bit 7 w) :: i32) n = bit (of_bool (bit w 7) :: i32) n"
      using \<open>n < LENGTH(32)\<close> by (auto simp: bit_simps)
  qed
  have "v mod 2 = 0 \<or> v mod 2 = 1" by presburger
  then show ?thesis unfolding w by (cases "bit w 7") auto
qed

lemma ge_frombytes_ok:
  assumes "length s = 32"
  defines "y \<equiv> to_gf (le_int s mod 2 ^ 255)" and "b \<equiv> bit (s ! 31) 7"
  shows "case root_of y of
      None \<Rightarrow> fst (ge_frombytes_negate_vartime h s) = - 1
    | Some x \<Rightarrow> fst (ge_frombytes_negate_vartime h s) = 0 \<and>
        p3_rep (snd (ge_frombytes_negate_vartime h s)) (decode_x x b, y, 1, decode_x x b * y)"
proof -
  define Y where "Y = fe_frombytes s"
  define U where "U = fe_sub (fe_sq Y) fe_1"
  define V where "V = fe_add (fe_mul (fe_sq Y) ge_d) fe_1"
  define V3 where "V3 = fe_mul (fe_sq V) V"
  define X where "X = fe_mul (fe_mul (fe_pow22523 (fe_mul (fe_mul (fe_sq V3) V) U)) V3) U"
  define W where "W = fe_mul (fe_sq X) V"
  have y: "rep 1 Y y" unfolding Y_def y_def by (rule rep_frombytes [OF assms(1)])
  have yy: "rep 1 (fe_sq Y) (y * y)" by (rule rep_sq [OF y]) simp
  have u: "rep 2 U (root_u y)" unfolding U_def root_u_def using rep_sub [OF yy rep_1] by simp
  have v: "rep 2 V (root_v y)"
    unfolding V_def root_v_def using rep_add [OF rep_mul [OF yy rep_constants(1)] rep_1] by simp
  let ?u = "root_u y" and ?v = "root_v y"
  have v3: "rep 1 V3 (?v * ?v * ?v)" unfolding V3_def by (rule rep_mul [OF rep_sq [OF v] v]) simp_all
  have r: "rep 1 (fe_mul (fe_mul (fe_sq V3) V) U) (?v * ?v * ?v * (?v * ?v * ?v) * ?v * ?u)"
    by (rule rep_mul [OF rep_mul [OF rep_sq [OF v3] v] u]) simp_all
  have x: "rep 1 X (root_x y)"
    unfolding X_def root_x_def Let_def
    by (rule rep_mul [OF rep_mul [OF rep_pow22523 [OF r] v3] u]) simp_all
  have w: "rep 1 W (root_x y * root_x y * ?v)" unfolding W_def by (rule rep_mul [OF rep_sq [OF x] v]) simp_all
  note us = minus_one_small [OF yy, folded U_def root_u_def]
  note nz = check_wide [OF w us]
  let ?C = "fe_sub W U" and ?D = "fe_add W U"
  define X1 where "X1 = (if fe_isnonzero ?C then fe_mul X ge_sqrtm1 else X)"
  define X2 where "X2 = (if fe_isnegative X1 = ucast (drop_bit 7 (s ! 31)) then fe_neg X1 else X1)"
  have code: "ge_frombytes_negate_vartime h s =
      (if fe_isnonzero ?C \<and> fe_isnonzero ?D then (- 1, h\<lparr>p3_X := X, p3_Y := Y, p3_Z := fe_1\<rparr>)
       else (0, h\<lparr>p3_X := X2, p3_Y := Y, p3_Z := fe_1, p3_T := fe_mul X2 Y\<rparr>))"
    unfolding ge_frombytes_negate_vartime_def Let_def X2_def X1_def W_def X_def V3_def V_def U_def Y_def by (rule refl)
  show ?thesis
  proof (cases "root_of y")
    case None
    then have "fe_isnonzero ?C" "fe_isnonzero ?D"
      unfolding nz by (auto simp: root_of_def Let_def eq_neg_iff_add_eq_0 split: if_splits)
    with None show ?thesis by (simp add: code)
  next
    case (Some x')
    have ok: "\<not> (fe_isnonzero ?C \<and> fe_isnonzero ?D)" and x1: "rep 1 X1 x'"
      using Some rep_mul [OF x rep_constants(2)] x unfolding X1_def nz
      by (auto simp: root_of_def Let_def eq_neg_iff_add_eq_0 split: if_splits)
    have x2: "rep 1 X2 (decode_x x' b)"
      unfolding X2_def decode_x_def rep_isnegative [OF x1 order.trans [OF one_le_numeral order_refl]] sign_eq b_def
      using x1 rep_neg [OF x1] by simp
    show ?thesis using Some ok x2 y rep_mul [OF x2 y] rep_1 by (simp add: code)
  qed
qed

text \<open>A root found is a point of the curve.\<close>

lemma root_of_square: "root_of y = Some x \<Longrightarrow> x * x * root_v y = root_u y"
proof -
  assume r: "root_of y = Some x"
  let ?x = "root_x y"
  consider "?x * ?x * root_v y = root_u y" "x = ?x" | "?x * ?x * root_v y = - root_u y" "x = ?x * gf_i"
    using r by (auto simp: root_of_def Let_def split: if_splits)
  then show ?thesis
  proof cases
    case 2
    have "x * x * root_v y = (gf_i * gf_i) * (?x * ?x * root_v y)" unfolding 2(2) by (simp only: mult_ac)
    then show ?thesis unfolding gf_i_square 2(1) by simp
  qed simp
qed

lemma decode_x_square: "decode_x x b * decode_x x b = x * x"
  by (simp add: decode_x_def)

lemma decode_on_curve:
  assumes "root_of y = Some x"
  shows "on_curve (decode_x x b, y, 1, decode_x x b * y)"
proof -
  let ?x = "decode_x x b"
  have "?x * ?x * (y * y * gf_d + 1) = y * y - 1"
    using root_of_square [OF assms] unfolding root_v_def root_u_def decode_x_square .
  then have "y * y - ?x * ?x = 1 + gf_d * (?x * y * (?x * y))"
    by (simp add: algebra_simps)
  then show ?thesis by simp
qed

text \<open>The sign of the decoded \<open>x\<close>: the opposite of the encoded one, unless \<open>x\<close> is zero.\<close>

lemma gf_rep_neg: "x \<noteq> 0 \<Longrightarrow> gf_rep (- x) = fe_p - gf_rep x"
proof (transfer, goal_cases)
  case (1 x)
  then show ?case by (simp add: zmod_zminus1_eq_if)
qed

lemma decode_x_sign:
  assumes "x \<noteq> 0"
  shows "(gf_rep (decode_x x b) mod 2 = 1) = (\<not> b)"
proof -
  have p: "(fe_p - m) mod 2 = 1 \<longleftrightarrow> m mod 2 \<noteq> 1" for m
  proof -
    have fp: "fe_p = 2 * (2 ^ 254 - 10) + 1" by (simp add: fe_p_def)
    have odd: "(2 * k + 1 - m) mod 2 = 1 \<longleftrightarrow> m mod 2 \<noteq> 1" for k :: int by presburger
    show ?thesis unfolding fp by (rule odd)
  qed
  show ?thesis
    unfolding decode_x_def if_distrib [where f = gf_rep] gf_rep_neg [OF assms]
    by (cases b; cases "gf_rep x mod 2 = 1"; simp only: p if_True if_False simp_thms)
qed

section \<open>Encoding\<close>

text \<open>The encoding of an affine point: 255 bits of \<open>y\<close> and the parity of \<open>x\<close>.\<close>

definition encode :: "gf \<Rightarrow> gf \<Rightarrow> int" where
  "encode x y = gf_rep y + 2 ^ 255 * (gf_rep x mod 2)"

definition set_sign :: "u8 list \<Rightarrow> i32 \<Rightarrow> u8 list" where
  "set_sign s n = s[31 := s ! 31 XOR ucast (push_bit 7 n)]"

lemma set_sign_ok:
  assumes "length s = 32" "le_int s < 2 ^ 255" "v = 0 \<or> v = 1"
  shows "le_int (set_sign s (of_int v)) = le_int s + 2 ^ 255 * v"
proof -
  define t where "t = take 31 s"
  have st: "s = t @ [s ! 31]" "length t = 31"
    using assms(1) take_Suc_conv_app_nth [of 31 s] by (simp_all add: t_def)
  have v: "le_int s = le_int t + 2 ^ 248 * uint (s ! 31)"
    using arg_cong [OF st(1), of le_int] st(2) by (simp add: le_int_append)
  have "2 ^ 248 * uint (s ! 31) < 2 ^ 255" using v assms(2) le_int_bounds(1) [of t] by linarith
  then have "uint (s ! 31) < 2 ^ 7" by simp
  then have b: "\<not> bit (s ! 31) 7"
    using bit_uint_iff [of "s ! 31" 7] by (simp add: bit_iff_odd)
  have "uint (s ! 31 XOR ucast (push_bit 7 (of_int v :: i32))) = uint (s ! 31) + 128 * v"
  proof (cases "v = 0")
    case False
    then have v1: "v = 1" using assms(3) by simp
    have "uint (s ! 31 XOR 128) = uint (s ! 31) + 128"
    proof -
      have "x XOR 2 ^ k = x OR 2 ^ k" if "\<not> bit x k" for x :: int and k
        using that by (intro bit_eqI) (auto simp: bit_simps)
      from this [of "uint (s ! 31)" 7] have "uint (s ! 31) XOR 2 ^ 7 = uint (s ! 31) OR 2 ^ 7"
        using b by (simp add: bit_uint_iff)
      moreover have "uint (s ! 31) OR push_bit 7 1 = uint (s ! 31) + push_bit 7 1"
        using \<open>uint (s ! 31) < 2 ^ 7\<close> by (intro or_shift) simp_all
      ultimately show ?thesis by (simp add: unsigned_xor_eq)
    qed
    then show ?thesis using v1 by simp
  qed simp
  moreover have "set_sign s (of_int v) = t @ [s ! 31 XOR ucast (push_bit 7 (of_int v :: i32))]"
    unfolding set_sign_def using st by (metis length_list_update list_update_length nth_append_length append_Nil)
  ultimately show ?thesis using v st(2) by (simp add: le_int_append distrib_left)
qed

lemma tobytes_fields:
  assumes "rep 1 x a" "rep 1 y b"
  shows "le_int (set_sign (fe_tobytes y) (fe_isnegative x)) = encode a b"
    "length (set_sign (fe_tobytes y) (fe_isnegative x)) = 32"
proof -
  note y = rep_tobytes [OF assms(2)] and x = rep_isnegative [OF assms(1)]
  have "gf_rep b < 2 ^ 255" using gf_rep_bounds(2) [of b] by (simp add: fe_p_def)
  moreover have "gf_rep a mod 2 = 0 \<or> gf_rep a mod 2 = 1" by presburger
  ultimately show "le_int (set_sign (fe_tobytes y) (fe_isnegative x)) = encode a b"
    "length (set_sign (fe_tobytes y) (fe_isnegative x)) = 32"
    using set_sign_ok [of "fe_tobytes y" "gf_rep a mod 2"] y x by (simp_all add: encode_def set_sign_def)
qed

text \<open>The projective point is divided by its \<open>Z\<close>, through the power that inverts a unit.\<close>

definition gf_inv :: "gf \<Rightarrow> gf" where "gf_inv z = z ^ (2 ^ 255 - 21)"

lemma ge_tobytes_ok:
  assumes "p2_rep h (X, Y, Z, T)"
  shows "le_int (ge_tobytes h) = encode (X * gf_inv Z) (Y * gf_inv Z)" "length (ge_tobytes h) = 32"
proof -
  have h: "rep 1 (p2_X h) X" "rep 1 (p2_Y h) Y" "rep 1 (p2_Z h) Z" using assms by simp_all
  have z: "rep 1 (fe_invert (p2_Z h)) (gf_inv Z)" unfolding gf_inv_def by (rule rep_invert [OF h(3)]) simp
  note xy = rep_mul [OF h(1) z] rep_mul [OF h(2) z]
  have code: "ge_tobytes h = set_sign (fe_tobytes (fe_mul (p2_Y h) (fe_invert (p2_Z h))))
      (fe_isnegative (fe_mul (p2_X h) (fe_invert (p2_Z h))))"
    unfolding ge_tobytes_def set_sign_def Let_def by (rule refl)
  show "le_int (ge_tobytes h) = encode (X * gf_inv Z) (Y * gf_inv Z)" "length (ge_tobytes h) = 32"
    unfolding code using tobytes_fields xy by simp_all
qed

lemma ge_p3_tobytes_p2: "p3_rep h P \<Longrightarrow> ge_p3_tobytes h = ge_tobytes (ge_p3_to_p2 h)"
  by (cases P) (auto simp: ge_p3_tobytes_def ge_tobytes_def ge_p3_to_p2_def fe_copy_id rep_length)

end
