(* ===== verification/Ed25519.thy ===== *)
theory Ed25519
  imports Group_Select Group_Decode Scalar_Reduce Sha512_Ok
begin

text \<open>
  The operations of \<open>ed25519.h\<close>: \<open>ed25519_verify\<close> (\<open>verify.c\<close>), \<open>ed25519_sign\<close> (\<open>sign.c\<close>),
  \<open>ed25519_create_keypair\<close> (\<open>keypair.c\<close>) and \<open>ed25519_add_scalar\<close> (\<open>add_scalar.c\<close>). Locals that the
  source leaves uninitialised (the hash context, the digest, an unpacked point) are arguments.
\<close>

unbundle bit_operations_syntax

section \<open>The hash calls\<close>

text \<open>
  The callers ignore the results of the hash functions: a call that reports an error leaves the context,
  or the output, as it was.
\<close>

definition hash_init :: "sha512_context \<Rightarrow> sha512_context" where
  "hash_init md = (case sha512_init (Some md) of None \<Rightarrow> md | Some md' \<Rightarrow> md')"

definition hash_update :: "sha512_context \<Rightarrow> u8 list \<Rightarrow> sha512_context" where
  "hash_update md inp = (case sha512_update (Some md) (Some inp) of None \<Rightarrow> md | Some md' \<Rightarrow> md')"

definition hash_final :: "sha512_context \<Rightarrow> u8 list \<Rightarrow> u8 list" where
  "hash_final md out = (case sha512_final (Some md) of None \<Rightarrow> out | Some (md', out') \<Rightarrow> out')"

section \<open>The operations\<close>

definition consttime_equal :: "u8 list \<Rightarrow> u8 list \<Rightarrow> bool" where
  "consttime_equal x y = (foldl (\<lambda>r i. r OR (x ! i XOR y ! i)) (x ! 0 XOR y ! 0) [1..<32] = 0)"

definition ed25519_verify :: "sha512_context \<Rightarrow> u8 list \<Rightarrow> ge_p3 \<Rightarrow> u8 list \<Rightarrow> u8 list \<Rightarrow> u8 list \<Rightarrow> int option" where
  "ed25519_verify hash h A signature message public_key =
     (if signature ! 63 AND 224 \<noteq> 0 then Some 0
      else
        let (failed, A) = ge_frombytes_negate_vartime A public_key
        in if failed \<noteq> 0 then Some 0
           else do {
             let hash = hash_init hash;
             let hash = hash_update hash (take 32 signature);
             let hash = hash_update hash (take 32 public_key);
             let hash = hash_update hash message;
             let h = hash_final hash h;
             let h = sc_reduce h;
             R \<leftarrow> ge_double_scalarmult_vartime h A (drop 32 signature);
             let checker = ge_tobytes R;
             Some (if \<not> consttime_equal checker signature then 0 else 1)
           })"

definition ed25519_sign :: "sha512_context \<Rightarrow> u8 list \<Rightarrow> u8 list \<Rightarrow> u8 list \<Rightarrow> u8 list \<Rightarrow> u8 list \<Rightarrow> u8 list" where
  "ed25519_sign hash hram r message public_key private_key =
     (let hash = hash_init hash;
          hash = hash_update hash (take 32 (drop 32 private_key));
          hash = hash_update hash message;
          r = hash_final hash r;
          r = sc_reduce r;
          R = ge_scalarmult_base r;
          signature = ge_p3_tobytes R;
          hash = hash_init hash;
          hash = hash_update hash signature;
          hash = hash_update hash (take 32 public_key);
          hash = hash_update hash message;
          hram = hash_final hash hram;
          hram = sc_reduce hram
      in signature @ sc_muladd hram (take 32 private_key) r)"

definition clamp :: "u8 list \<Rightarrow> u8 list" where
  "clamp e = (let e = e[0 := e ! 0 AND 248]; e = e[31 := e ! 31 AND 63] in e[31 := e ! 31 OR 64])"

text \<open>The keys, public and private. The digest goes to the private key, whose old content an error would keep.\<close>

definition ed25519_create_keypair :: "sha512_context \<Rightarrow> u8 list \<Rightarrow> u8 list \<Rightarrow> u8 list \<times> u8 list" where
  "ed25519_create_keypair ctx private_key seed =
     (let private_key = (case sha512 ctx (Some (take 32 seed)) of None \<Rightarrow> private_key | Some out \<Rightarrow> out);
          private_key = clamp private_key;
          A = ge_scalarmult_base (take 32 private_key)
      in (ge_p3_tobytes A, private_key))"

definition SC_1 :: "u8 list" where "SC_1 = 1 # replicate 31 0"

definition ed25519_add_scalar ::
  "sha512_context \<Rightarrow> u8 list \<Rightarrow> ge_p3 \<Rightarrow> u8 list option \<Rightarrow> u8 list option \<Rightarrow> u8 list \<Rightarrow> u8 list option \<times> u8 list option" where
  "ed25519_add_scalar hash hashbuf unpacked public_key private_key scalar =
     (let n = take 31 scalar @ [scalar ! 31 AND 127];
          private_key = (case private_key of None \<Rightarrow> None
            | Some sk \<Rightarrow>
                let sk = sc_muladd SC_1 n (take 32 sk) @ drop 32 sk;
                    hash = hash_init hash;
                    hash = hash_update hash (take 32 (drop 32 sk));
                    hash = hash_update hash (take 32 scalar);
                    hashbuf = hash_final hash hashbuf
                in Some (take 32 sk @ take 32 hashbuf));
          public_key = (case public_key of None \<Rightarrow> None
            | Some pk \<Rightarrow>
                (case private_key of
                   Some sk \<Rightarrow> let A = ge_scalarmult_base (take 32 sk) in Some (ge_p3_tobytes A)
                 | None \<Rightarrow>
                     let (ignored, u) = ge_frombytes_negate_vartime unpacked pk;
                         u = u\<lparr>p3_X := fe_neg (p3_X u), p3_T := fe_neg (p3_T u)\<rparr>;
                         T = ge_p3_to_cached u;
                         nB = ge_scalarmult_base n;
                         A_p1p1 = ge_add nB T;
                         A = ge_p1p1_to_p3 A_p1p1
                     in Some (ge_p3_tobytes A)))
      in (public_key, private_key))"

section \<open>The digest\<close>

lemma hash_rep:
  "length (buf md) = 128 \<Longrightarrow> sha_rep (hash_init md) []"
  "sha_rep md m \<Longrightarrow> sha_rep (hash_update md inp) (m @ inp)"
  "sha_rep md m \<Longrightarrow> hash_final md out = sha512_spec m"
  using sha512_init_ok [of md] sha512_update_ok [of md m inp] sha512_final_ok [of md m]
  by (auto simp: hash_init_def hash_update_def hash_final_def)

lemma hash_two:
  "length (buf md) = 128 \<Longrightarrow> hash_final (hash_update (hash_update (hash_init md) a) b) out = sha512_spec (a @ b)"
  using hash_rep(3) [OF hash_rep(2) [OF hash_rep(2) [OF hash_rep(1)]]] by simp

lemma hash_three:
  "length (buf md) = 128 \<Longrightarrow>
    hash_final (hash_update (hash_update (hash_update (hash_init md) a) b) c) out = sha512_spec (a @ b @ c)"
  using hash_rep(3) [OF hash_rep(2) [OF hash_rep(2) [OF hash_rep(2) [OF hash_rep(1)]]]] by simp

lemma length_spec: "length (sha512_spec m) = 64"
  by (simp add: sha512_spec_def vars_list_def split: prod.split)

section \<open>Comparison and clamping\<close>

lemma or_zero: "(foldl (\<lambda>r i. r OR f i) s is = (0 :: u8)) \<longleftrightarrow> s = 0 \<and> (\<forall>i \<in> set is. f i = 0)"
  by (induction "is" arbitrary: s) (auto simp: or_eq_0_iff)

lemma consttime_equal_ok: "length x = 32 \<Longrightarrow> 32 \<le> length y \<Longrightarrow> consttime_equal x y \<longleftrightarrow> x = take 32 y"
proof -
  assume len: "length x = 32" "32 \<le> length y"
  have x0: "a XOR b = 0 \<longleftrightarrow> a = b" for a b :: u8 by (metis bit.xor_self xor.right_neutral xor.left_commute)
  have "consttime_equal x y \<longleftrightarrow> x ! 0 = y ! 0 \<and> (\<forall>i \<in> set [1..<32]. x ! i = y ! i)"
    unfolding consttime_equal_def or_zero x0 ..
  also have "\<dots> \<longleftrightarrow> (\<forall>i < 32. x ! i = y ! i)"
    by (rule all_less_first [symmetric]) simp
  also have "\<dots> \<longleftrightarrow> x = take 32 y" using len by (auto simp: list_eq_iff_nth_eq)
  finally show ?thesis .
qed

lemma le_int_top: "length s = 32 \<Longrightarrow> le_int s = le_int (take 31 s) + 2 ^ 248 * uint (s ! 31)"
proof -
  assume len: "length s = 32"
  have "s = take 31 s @ [s ! 31]" using len take_Suc_conv_app_nth [of 31 s] by simp
  then have "le_int s = le_int (take 31 s @ [s ! 31])" by simp
  then show ?thesis using len by (simp add: le_int_append)
qed

lemma le_int_less: "length s = 32 \<Longrightarrow> uint (s ! 31) < v \<Longrightarrow> le_int s < 2 ^ 248 * v"
proof -
  assume s: "length s = 32" "uint (s ! 31) < v"
  have "le_int (take 31 s) < 2 ^ 248" using le_int_bounds(2) [of "take 31 s"] s(1) by simp
  moreover have "2 ^ 248 * (uint (s ! 31) + 1) \<le> 2 ^ 248 * v" using s(2) by simp
  ultimately show ?thesis unfolding le_int_top [OF s(1)] distrib_left by linarith
qed

lemma byte_cases: "list_all P (map int [0..<256]) \<Longrightarrow> P (uint (x :: u8))"
proof -
  have "unat x < 2 ^ LENGTH(8)" by (rule unsigned_less)
  then have "uint x \<in> set (map int [0..<256])" by (auto simp: image_iff intro!: bexI [of _ "unat x"])
  then show "list_all P (map int [0..<256]) \<Longrightarrow> P (uint x)" unfolding list_all_iff by blast
qed

lemma top_bits: "x AND 224 = 0 \<longleftrightarrow> uint (x :: u8) < 32"
proof -
  have "list_all (\<lambda>v. ((of_int v :: u8) AND 224 = 0) = (v < 32)) (map int [0..<256])" by code_simp
  then have "((of_int (uint x) :: u8) AND 224 = 0) = (uint x < 32)" by (rule byte_cases)
  then show ?thesis by simp
qed

section \<open>What the operations compute\<close>

text \<open>The affine reading of a point, with \<open>Z\<close> inverted as the code inverts it, and its encoding.\<close>

definition encode_point :: "quad \<Rightarrow> int" where
  "encode_point P = (case P of (X, Y, Z, T) \<Rightarrow> encode (X * gf_inv Z) (Y * gf_inv Z))"

lemma ge_tobytes_point: "p2_rep h P \<Longrightarrow> le_int (ge_tobytes h) = encode_point P \<and> length (ge_tobytes h) = 32"
  by (cases P) (simp add: encode_point_def ge_tobytes_ok)

lemma ge_p3_tobytes_point: "p3_rep h P \<Longrightarrow> le_int (ge_p3_tobytes h) = encode_point P \<and> length (ge_p3_tobytes h) = 32"
  using ge_tobytes_point [OF p3_to_p2_rep] ge_p3_tobytes_p2 by metis

text \<open>
  The check that a verification makes. The key \<open>A\<close> is decoded and negated, \<open>h\<close> is the digest reduced
  modulo the group order, and the encoding of the point \<open>h * (- A) + S * B\<close> is compared with \<open>R\<close>.
\<close>

definition challenge :: "u8 list \<Rightarrow> u8 list \<Rightarrow> u8 list \<Rightarrow> u8 list" where
  "challenge R pk m = sc_reduce (sha512_spec (R @ pk @ m))"

definition key_point :: "u8 list \<Rightarrow> quad option" where
  "key_point pk =
     (let y = to_gf (le_int pk mod 2 ^ 255)
      in map_option (\<lambda>x. (decode_x x (bit (pk ! 31) 7), y, 1, decode_x x (bit (pk ! 31) 7) * y)) (root_of y))"

definition verify_spec :: "u8 list \<Rightarrow> u8 list \<Rightarrow> u8 list \<Rightarrow> bool" where
  "verify_spec signature m pk =
     (let R = take 32 signature; S = drop 32 signature
      in le_int S < 2 ^ 253 \<and>
         (case key_point pk of
            None \<Rightarrow> False
          | Some A \<Rightarrow> le_int R =
              encode_point (double_points (odd_multiple A) B_point (slide (challenge R pk m)) (slide S) 256 neutral)))"

lemma challenge_ok: "length (challenge R pk m) = 32" "le_int (challenge R pk m) = le_int (sha512_spec (R @ pk @ m)) mod sc_l"
  "le_int (challenge R pk m) \<le> 2 ^ 255"
proof -
  note r = sc_reduce_ok [of "sha512_spec (R @ pk @ m)", OF length_spec]
  show "length (challenge R pk m) = 32" "le_int (challenge R pk m) = le_int (sha512_spec (R @ pk @ m)) mod sc_l"
    unfolding challenge_def by (rule r)+
  have "(0 :: int) < sc_l" "sc_l \<le> 2 ^ 255" by (simp_all add: sc_l_def)
  then have "le_int (sha512_spec (R @ pk @ m)) mod sc_l \<le> 2 ^ 255"
    using pos_mod_bound [of sc_l "le_int (sha512_spec (R @ pk @ m))"] by linarith
  then show "le_int (challenge R pk m) \<le> 2 ^ 255" unfolding challenge_def r(1) .
qed

lemma decode_key:
  assumes "length pk = 32"
  shows "case key_point pk of
      None \<Rightarrow> fst (ge_frombytes_negate_vartime h pk) = - 1
    | Some P \<Rightarrow> fst (ge_frombytes_negate_vartime h pk) = 0 \<and> p3_rep (snd (ge_frombytes_negate_vartime h pk)) P \<and> on_curve P"
  using ge_frombytes_ok [OF assms, of h] decode_on_curve
  unfolding key_point_def Let_def by (auto split: option.splits)

lemma sig_top: "length signature = 64 \<Longrightarrow> signature ! 63 AND 224 = 0 \<longleftrightarrow> le_int (drop 32 signature) < 2 ^ 253"
proof -
  assume len: "length signature = 64"
  then have d: "length (drop 32 signature) = 32" "drop 32 signature ! 31 = signature ! 63" by simp_all
  show ?thesis unfolding top_bits
  proof
    assume "uint (signature ! 63) < 32"
    then show "le_int (drop 32 signature) < 2 ^ 253" using le_int_less [OF d(1), of 32] d(2) by simp
  next
    assume "le_int (drop 32 signature) < 2 ^ 253"
    moreover have "2 ^ 248 * uint (signature ! 63) \<le> le_int (drop 32 signature)"
      using le_int_top [OF d(1)] d(2) le_int_bounds(1) [of "take 31 (drop 32 signature)"] by simp
    ultimately show "uint (signature ! 63) < 32" by simp
  qed
qed

lemma ed25519_verify_ok:
  assumes "length (buf hash) = 128" "length signature = 64" "length pk = 32"
  shows "ed25519_verify hash h A signature m pk = Some (if verify_spec signature m pk then 1 else 0)"
proof (cases "signature ! 63 AND 224 = 0")
  case False
  then show ?thesis using sig_top [OF assms(2)] by (simp add: ed25519_verify_def verify_spec_def Let_def)
next
  case True
  then have S: "le_int (drop 32 signature) < 2 ^ 253" using sig_top [OF assms(2)] by simp
  let ?R = "take 32 signature" and ?S = "drop 32 signature"
  obtain f P where fP: "ge_frombytes_negate_vartime A pk = (f, P)" by force
  show ?thesis
  proof (cases "key_point pk")
    case None
    then show ?thesis using decode_key [OF assms(3), of A] True
      by (simp add: ed25519_verify_def verify_spec_def Let_def fP)
  next
    case (Some Q)
    then have dec: "f = 0" "p3_rep P Q" "on_curve Q" using decode_key [OF assms(3), of A] by (simp_all add: fP)
    have hh: "hash_final (hash_update (hash_update (hash_update (hash_init hash) ?R) (take 32 pk)) m) h = sha512_spec (?R @ pk @ m)"
      using hash_three [OF assms(1)] assms(3) by simp
    have "le_int ?S \<le> 2 ^ 255" using S by simp
    then obtain r where r: "ge_double_scalarmult_vartime (challenge ?R pk m) P ?S = Some r"
      "p2_rep r (double_points (odd_multiple Q) B_point (slide (challenge ?R pk m)) (slide ?S) 256 neutral)"
      using ge_double_scalarmult_ok(1) [OF dec(2,3) challenge_ok(1) _ challenge_ok(3), of ?S ?R pk m] assms(2) by auto
    note enc = ge_tobytes_point [OF r(2)]
    have "consttime_equal (ge_tobytes r) signature \<longleftrightarrow> le_int ?R = le_int (ge_tobytes r)"
      using consttime_equal_ok [of "ge_tobytes r" signature] enc assms(2) le_int_inject [of ?R "ge_tobytes r"] by auto
    then have "consttime_equal (ge_tobytes r) signature \<longleftrightarrow> verify_spec signature m pk"
      using enc S Some by (simp add: verify_spec_def Let_def)
    then show ?thesis
      using True by (simp add: ed25519_verify_def fP dec(1) hh r(1) flip: challenge_def)
  qed
qed

text \<open>Signing. The nonce and the challenge are digests modulo the order; \<open>S = h a + r\<close> modulo the order.\<close>

definition nonce :: "u8 list \<Rightarrow> u8 list \<Rightarrow> u8 list" where
  "nonce sk m = sc_reduce (sha512_spec (take 32 (drop 32 sk) @ m))"

lemma sc_l_bounds: "0 < sc_l" "sc_l < 2 ^ 253" "sc_l < 2 ^ 255"
  by (simp_all add: sc_l_def)

lemma nonce_ok: "length (nonce sk m) = 32" "le_int (nonce sk m) < 2 ^ 255"
proof -
  note r = sc_reduce_ok [of "sha512_spec (take 32 (drop 32 sk) @ m)", OF length_spec]
  show "length (nonce sk m) = 32" unfolding nonce_def by (rule r)
  have "le_int (nonce sk m) < sc_l" unfolding nonce_def r(1) by (rule pos_mod_bound [OF sc_l_bounds(1)])
  then show "le_int (nonce sk m) < 2 ^ 255" using sc_l_bounds(3) by (rule less_trans)
qed

lemma tobytes_sized: "p3_sized h \<Longrightarrow> length (ge_p3_tobytes h) = 32"
  using sized_rep ge_p3_tobytes_point by blast

lemma ed25519_sign_ok:
  fixes hash :: sha512_context and hram r m pk sk :: "u8 list"
  assumes "length (buf hash) = 128" "length pk = 32" "length sk = 64"
  defines "sig \<equiv> ed25519_sign hash hram r m pk sk"
  shows "length sig = 64" "take 32 sig = ge_p3_tobytes (ge_scalarmult_base (nonce sk m))"
    "le_int (drop 32 sig) = (le_int (challenge (take 32 sig) pk m) * le_int (take 32 sk) + le_int (nonce sk m)) mod sc_l"
proof -
  let ?R = "ge_p3_tobytes (ge_scalarmult_base (nonce sk m))"
  have R: "length ?R = 32" using tobytes_sized scalarmult_base_sized nonce_ok by blast
  have h: "hash_final (hash_update (hash_update (hash_update (hash_init md) ?R) (take 32 pk)) m) hram = sha512_spec (?R @ pk @ m)"
    if "length (buf md) = 128" for md using hash_three [OF that] assms(2) by simp
  have "length (buf (hash_update (hash_update (hash_init hash) (take 32 (drop 32 sk))) m)) = 128"
    using hash_rep(2) [OF hash_rep(2) [OF hash_rep(1) [OF assms(1)]]] by (auto simp: sha_rep_def sha_split_def)
  from h [OF this] have code: "sig = ?R @ sc_muladd (challenge ?R pk m) (take 32 sk) (nonce sk m)"
    unfolding sig_def ed25519_sign_def Let_def hash_two [OF assms(1)]
    by (simp add: nonce_def challenge_def)
  note s = sc_muladd_ok [of "challenge ?R pk m" "take 32 sk" "nonce sk m"]
  have t: "take 32 sig = ?R" "drop 32 sig = sc_muladd (challenge ?R pk m) (take 32 sk) (nonce sk m)"
    unfolding code using R by simp_all
  show "take 32 sig = ?R" by (rule t)
  show "length sig = 64"
    using R s(2) challenge_ok(1) nonce_ok(1) assms(3) unfolding code by simp
  show "le_int (drop 32 sig) =
      (le_int (challenge (take 32 sig) pk m) * le_int (take 32 sk) + le_int (nonce sk m)) mod sc_l"
    unfolding t using s(1) challenge_ok(1) nonce_ok(1) assms(3) by simp
qed

section \<open>Keys\<close>

lemma clamp_ok:
  assumes "32 \<le> length e"
  shows "length (clamp e) = length e" "le_int (take 32 (clamp e)) mod 8 = 0" "2 ^ 254 \<le> le_int (take 32 (clamp e))"
    "le_int (take 32 (clamp e)) < 2 ^ 255"
proof -
  let ?t = "take 32 (clamp e)"
  show l: "length (clamp e) = length e" by (simp add: clamp_def Let_def)
  then have t: "length ?t = 32" using assms by simp
  have b: "?t ! 31 = (e ! 31 AND 63) OR 64" "?t ! 0 = e ! 0 AND 248"
    using assms by (simp_all add: clamp_def Let_def nth_list_update flip: length_greater_0_conv)
  have all: "list_all (\<lambda>v. uint ((of_int v :: u8) AND 248) mod 8 = 0 \<and> 64 \<le> uint ((of_int v :: u8) AND 63 OR 64) \<and>
      uint ((of_int v :: u8) AND 63 OR 64) < 128) (map int [0..<256])" by code_simp
  have r: "uint (x AND 248) mod 8 = 0 \<and> 64 \<le> uint (x AND 63 OR 64) \<and> uint (x AND 63 OR 64) < 128" for x :: u8
  proof -
    from all have "uint ((of_int (uint x) :: u8) AND 248) mod 8 = 0 \<and> 64 \<le> uint ((of_int (uint x) :: u8) AND 63 OR 64) \<and>
      uint ((of_int (uint x) :: u8) AND 63 OR 64) < 128" by (rule byte_cases)
    then show ?thesis by simp
  qed
  have x: "64 \<le> uint (?t ! 31)" "uint (?t ! 31) < 128" "uint (?t ! 0) mod 8 = 0" unfolding b using r by simp_all
  show "le_int ?t < 2 ^ 255" using le_int_less [OF t x(2)] by simp
  show "2 ^ 254 \<le> le_int ?t"
  proof -
    have "2 ^ 248 * 64 \<le> 2 ^ 248 * uint (?t ! 31)" by (rule mult_left_mono [OF x(1)]) simp
    moreover have "(2 :: int) ^ 254 = 2 ^ 248 * 64" by simp
    ultimately show ?thesis
      using le_int_top [OF t] le_int_bounds(1) [of "take 31 ?t"] by linarith
  qed
  obtain c cs where c: "?t = c # cs" using t by (cases ?t) auto
  have "le_int ?t = uint c + 8 * (32 * le_int cs)" unfolding c by simp
  then show "le_int ?t mod 8 = 0" using x(3) unfolding c by (simp only: nth_Cons_0 mod_mult_self2)
qed

lemma create_keypair_ok:
  fixes ctx :: sha512_context and sk0 seed :: "u8 list"
  assumes "length (buf ctx) = 128"
  defines "ks \<equiv> ed25519_create_keypair ctx sk0 seed"
  shows "snd ks = clamp (sha512_spec (take 32 seed))" "fst ks = ge_p3_tobytes (ge_scalarmult_base (take 32 (snd ks)))"
    "length (fst ks) = 32" "length (snd ks) = 64"
proof -
  have k: "snd ks = clamp (sha512_spec (take 32 seed))" "fst ks = ge_p3_tobytes (ge_scalarmult_base (take 32 (snd ks)))"
    unfolding ks_def ed25519_create_keypair_def sha512_ok [OF assms(1)] Let_def by simp_all
  then show "snd ks = clamp (sha512_spec (take 32 seed))" "fst ks = ge_p3_tobytes (ge_scalarmult_base (take 32 (snd ks)))"
    by simp_all
  have l: "32 \<le> length (sha512_spec (take 32 seed))" by (simp add: length_spec)
  show "length (snd ks) = 64" unfolding k(1) clamp_ok(1) [OF l] by (rule length_spec)
  then show "length (fst ks) = 32"
    unfolding k(2) using clamp_ok(4) [OF l] unfolding k(1) by (intro tobytes_sized scalarmult_base_sized) simp_all
qed

text \<open>Adding a scalar to a private key: the secret scalar moves by \<open>n\<close>, the low 255 bits of the argument.\<close>

lemma SC_1_ok: "length SC_1 = 32" "le_int SC_1 = 1"
proof -
  have "le_int (replicate n 0) = 0" for n by (induction n) simp_all
  then show "length SC_1 = 32" "le_int SC_1 = 1" by (simp_all add: SC_1_def)
qed

lemma low_255:
  assumes "length s = 32"
  shows "le_int (take 31 s @ [s ! 31 AND 127]) = le_int s mod 2 ^ 255"
proof -
  have "s ! 31 AND 127 = take_bit 7 (s ! 31)" by (simp add: take_bit_eq_mask mask_eq_exp_minus_1)
  then have u: "uint (s ! 31 AND 127) = uint (s ! 31) mod 128" by (simp add: take_bit_eq_mod uint_mod)
  have "(le_int (take 31 s) + uint (s ! 31) * 2 ^ 248) mod (128 * 2 ^ 248) = le_int (take 31 s) + uint (s ! 31) mod 128 * 2 ^ 248"
    using le_int_bounds [of "take 31 s"] assms by (intro mod_split) simp_all
  then show ?thesis
    using le_int_top [OF assms] assms u by (simp add: le_int_append mult.commute)
qed

lemma add_scalar_private:
  assumes "length (buf hash) = 128" "length sk = 64" "length scalar = 32"
  obtains pk' sk' where "ed25519_add_scalar hash hb u pk (Some sk) scalar = (pk', Some sk')"
    "le_int (take 32 sk') = (le_int scalar mod 2 ^ 255 + le_int (take 32 sk)) mod sc_l"
    "drop 32 sk' = take 32 (sha512_spec (drop 32 sk @ scalar))" "length sk' = 64"
    "pk' = map_option (\<lambda>_. ge_p3_tobytes (ge_scalarmult_base (take 32 sk'))) pk"
proof -
  let ?n = "take 31 scalar @ [scalar ! 31 AND 127]"
  define k where "k = sc_muladd SC_1 ?n (take 32 sk)"
  have k: "length k = 32" "le_int k = (le_int scalar mod 2 ^ 255 + le_int (take 32 sk)) mod sc_l"
    unfolding k_def using sc_muladd_ok [of SC_1 ?n "take 32 sk"] assms low_255 [OF assms(3)] by (simp_all add: SC_1_ok)
  define sk' where "sk' = k @ take 32 (sha512_spec (drop 32 sk @ scalar))"
  have "hash_final (hash_update (hash_update (hash_init hash) (drop 32 sk)) scalar) hb = sha512_spec (drop 32 sk @ scalar)"
    by (rule hash_two [OF assms(1)])
  then have "ed25519_add_scalar hash hb u pk (Some sk) scalar =
      (map_option (\<lambda>_. ge_p3_tobytes (ge_scalarmult_base (take 32 sk'))) pk, Some sk')"
    using k(1) assms unfolding ed25519_add_scalar_def Let_def option.case
    unfolding k_def [symmetric] sk'_def by (simp split: option.split)
  then show ?thesis using that k by (simp add: sk'_def length_spec)
qed

end
