(* ===== verification/Key_Exchange.thy ===== *)
theory Key_Exchange
  imports Ed25519
begin

text \<open>
  \<open>ed25519_key_exchange\<close> of \<open>key_exchange.c\<close>: the public key is taken to the Montgomery curve and
  multiplied by the clamped private key with a ladder. The specification is the ladder of RFC 7748.
\<close>

unbundle bit_operations_syntax

definition ladder_bit :: "u8 list \<Rightarrow> nat \<Rightarrow> u32" where
  "ladder_bit e pos = drop_bit (pos mod 8) (ucast (e ! (pos div 8))) AND 1"

text \<open>One turn of the loop on \<open>(x2, z2, x3, z3, swap)\<close>.\<close>

type_synonym ladder = "fe \<times> fe \<times> fe \<times> fe \<times> u32"

definition ladder_step :: "fe \<Rightarrow> u8 list \<Rightarrow> ladder \<Rightarrow> nat \<Rightarrow> ladder" where
  "ladder_step x1 e s pos =
     (case s of (x2, z2, x3, z3, swap) \<Rightarrow>
        let b = ladder_bit e pos;
            swap = swap XOR b;
            (x2, x3) = fe_cswap x2 x3 swap;
            (z2, z3) = fe_cswap z2 z3 swap;
            swap = b;
            tmp0 = fe_sub x3 z3;
            tmp1 = fe_sub x2 z2;
            x2 = fe_add x2 z2;
            z2 = fe_add x3 z3;
            z3 = fe_mul tmp0 x2;
            z2 = fe_mul z2 tmp1;
            tmp0 = fe_sq tmp1;
            tmp1 = fe_sq x2;
            x3 = fe_add z3 z2;
            z2 = fe_sub z3 z2;
            x2 = fe_mul tmp1 tmp0;
            tmp1 = fe_sub tmp1 tmp0;
            z2 = fe_sq z2;
            z3 = fe_mul121666 tmp1;
            x3 = fe_sq x3;
            tmp0 = fe_add tmp0 z3;
            z3 = fe_mul x1 z2;
            z2 = fe_mul tmp1 tmp0
        in (x2, z2, x3, z3, swap))"

definition ed25519_key_exchange :: "u8 list \<Rightarrow> u8 list \<Rightarrow> u8 list" where
  "ed25519_key_exchange public_key private_key =
     (let e = clamp (take 32 private_key);
          x1 = fe_frombytes public_key;
          tmp1 = fe_1;
          tmp0 = fe_add x1 tmp1;
          tmp1 = fe_sub tmp1 x1;
          tmp1 = fe_invert tmp1;
          x1 = fe_mul tmp0 tmp1;
          s = (fe_1, fe_0, fe_copy x1, fe_1, 0)
      in case foldl (ladder_step x1 e) s (rev [0..<255]) of
           (x2, z2, x3, z3, swap) \<Rightarrow>
             let (x2, x3) = fe_cswap x2 x3 swap;
                 (z2, z3) = fe_cswap z2 z3 swap;
                 z2 = fe_invert z2;
                 x2 = fe_mul x2 z2
             in fe_tobytes x2)"

section \<open>The ladder of RFC 7748\<close>

text \<open>Section 5, with \<open>a24 = 121665\<close>; the conditional swap is one step on a pair of points.\<close>

type_synonym rfc_ladder = "gf \<times> gf \<times> gf \<times> gf \<times> bool"

definition cond_swap :: "bool \<Rightarrow> 'a \<times> 'a \<Rightarrow> 'a \<times> 'a" where
  "cond_swap c p = (if c then (snd p, fst p) else p)"

definition rfc_step :: "gf \<Rightarrow> int \<Rightarrow> rfc_ladder \<Rightarrow> nat \<Rightarrow> rfc_ladder" where
  "rfc_step x_1 k s t =
     (case s of (x_2, z_2, x_3, z_3, swap) \<Rightarrow>
        let k_t = bit k t;
            swap = (swap \<noteq> k_t);
            (x_2, x_3) = cond_swap swap (x_2, x_3);
            (z_2, z_3) = cond_swap swap (z_2, z_3);
            A = x_2 + z_2; AA = A * A;
            B = x_2 - z_2; BB = B * B;
            E = AA - BB;
            C = x_3 + z_3; D = x_3 - z_3;
            DA = D * A; CB = C * B
        in (AA * BB, E * (AA + 121665 * E), (DA + CB) * (DA + CB), x_1 * ((DA - CB) * (DA - CB)), k_t))"

definition rfc_x25519 :: "int \<Rightarrow> gf \<Rightarrow> gf" where
  "rfc_x25519 k u =
     (case foldl (rfc_step u k) (1, 0, u, 1, False) (rev [0..<255]) of
        (x_2, z_2, x_3, z_3, swap) \<Rightarrow>
          fst (cond_swap swap (x_2, x_3)) * gf_inv (fst (cond_swap swap (z_2, z_3))))"

section \<open>The code follows it\<close>

fun ladder_rep :: "ladder \<Rightarrow> rfc_ladder \<Rightarrow> bool" where
  "ladder_rep (x2, z2, x3, z3, w) (X2, Z2, X3, Z3, b) \<longleftrightarrow>
     rep 1 x2 X2 \<and> rep 1 z2 Z2 \<and> rep 1 x3 X3 \<and> rep 1 z3 Z3 \<and> w = of_bool b"

lemma ladder_bit_ok:
  assumes "length e = 32" "pos < 256"
  shows "ladder_bit e pos = of_bool (bit (le_int e) pos)"
proof -
  let ?b = "e ! (pos div 8)" and ?k = "pos mod 8"
  have "bit ?b ?k \<longleftrightarrow> odd (uint ?b div 2 ^ ?k)"
    using bit_uint_iff [of ?b ?k] by (simp add: bit_iff_odd)
  also have "\<dots> \<longleftrightarrow> bit (le_int e) pos"
    using bit_of_bytes [of pos e] assms by (simp add: bit_iff_odd odd_iff_mod_2_eq_one)
  finally have b: "bit ?b ?k \<longleftrightarrow> bit (le_int e) pos" .
  have "?k < 32" by (rule less_trans [OF mod_less_divisor]) simp_all
  then have "bit (ucast ?b :: u32) ?k \<longleftrightarrow> bit ?b ?k" by (simp add: bit_ucast_iff)
  then show ?thesis
    unfolding ladder_bit_def b [symmetric] and_one_eq by (simp add: bit_iff_odd_drop_bit mod_2_eq_odd)
qed

lemma cswap_rep:
  assumes "rep k f x" "rep k g y"
  shows "fe_cswap f g (of_bool c) = cond_swap c (f, g)"
    "rep k (fst (cond_swap c (f, g))) (fst (cond_swap c (x, y)))" "rep k (snd (cond_swap c (f, g))) (snd (cond_swap c (x, y)))"
  using assms fe_cswap_cases [OF rep_length [OF assms(1)] rep_length [OF assms(2)]]
  by (simp_all add: cond_swap_def)

lemma xor_of_bool: "(of_bool a XOR of_bool b :: u32) = of_bool (a \<noteq> b)"
  by (cases a; cases b) simp_all

lemma ladder_step_rep:
  assumes s: "ladder_rep s S" and x1: "rep 1 x1 U" and e: "length e = 32" "pos < 256"
  shows "ladder_rep (ladder_step x1 e s pos) (rfc_step U (le_int e) S pos)"
proof -
  obtain x2 z2 x3 z3 w where s_eq: "s = (x2, z2, x3, z3, w)" by (cases s) force
  obtain X2 Z2 X3 Z3 b where S_eq: "S = (X2, Z2, X3, Z3, b)" by (cases S) force
  let ?k = "bit (le_int e) pos"
  define c where "c = (b \<noteq> ?k)"
  have r: "rep 1 x2 X2" "rep 1 z2 Z2" "rep 1 x3 X3" "rep 1 z3 Z3" "w XOR ladder_bit e pos = of_bool c"
    using s by (simp_all add: s_eq S_eq ladder_bit_ok [OF e] xor_of_bool c_def)
  obtain p2 p3 where p: "cond_swap c (x2, x3) = (p2, p3)" by force
  obtain q2 q3 where q: "cond_swap c (z2, z3) = (q2, q3)" by force
  obtain P2 P3 where P: "cond_swap c (X2, X3) = (P2, P3)" by force
  obtain Q2 Q3 where Q: "cond_swap c (Z2, Z3) = (Q2, Q3)" by force
  note sw = cswap_rep [OF r(1,3), of c, unfolded p P fst_conv snd_conv] cswap_rep [OF r(2,4), of c, unfolded q Q fst_conv snd_conv]
  define A where "A = fe_add p2 q2"
  define B where "B = fe_sub p2 q2"
  define C where "C = fe_add p3 q3"
  define D where "D = fe_sub p3 q3"
  have abcd: "rep 2 A (P2 + Q2)" "rep 2 B (P2 - Q2)" "rep 2 C (P3 + Q3)" "rep 2 D (P3 - Q3)"
    unfolding A_def B_def C_def D_def
    using rep_add [OF sw(2,5)] rep_sub [OF sw(2,5)] rep_add [OF sw(3,6)] rep_sub [OF sw(3,6)] by simp_all
  define DA where "DA = fe_mul D A"
  define CB where "CB = fe_mul C B"
  define AA where "AA = fe_sq A"
  define BB where "BB = fe_sq B"
  have prods: "rep 1 DA ((P3 - Q3) * (P2 + Q2))" "rep 1 CB ((P3 + Q3) * (P2 - Q2))"
    "rep 1 AA ((P2 + Q2) * (P2 + Q2))" "rep 1 BB ((P2 - Q2) * (P2 - Q2))"
    unfolding DA_def CB_def AA_def BB_def using abcd by (auto intro: rep_mul rep_sq)
  define E where "E = fe_sub AA BB"
  have E: "rep 2 E ((P2 + Q2) * (P2 + Q2) - (P2 - Q2) * (P2 - Q2))" (is "rep 2 E ?E")
    unfolding E_def using rep_sub [OF prods(3,4)] by simp
  have F: "rep 2 (fe_add BB (fe_mul121666 E)) ((P2 - Q2) * (P2 - Q2) + 121666 * ?E)"
    using rep_add [OF prods(4) rep_mul121666 [OF E]] by simp
  have GH: "rep 2 (fe_add DA CB) ((P3 - Q3) * (P2 + Q2) + (P3 + Q3) * (P2 - Q2))"
    "rep 2 (fe_sub DA CB) ((P3 - Q3) * (P2 + Q2) - (P3 + Q3) * (P2 - Q2))"
    using rep_add [OF prods(1,2)] rep_sub [OF prods(1,2)] by simp_all
  have code: "ladder_step x1 e s pos =
      (fe_mul AA BB, fe_mul E (fe_add BB (fe_mul121666 E)), fe_sq (fe_add DA CB), fe_mul x1 (fe_sq (fe_sub DA CB)), ladder_bit e pos)"
    unfolding ladder_step_def s_eq prod.case Let_def r(5) sw(1,4) A_def B_def C_def D_def DA_def CB_def AA_def BB_def E_def
    by (rule refl)
  have spec: "rfc_step U (le_int e) S pos =
      ((P2 + Q2) * (P2 + Q2) * ((P2 - Q2) * (P2 - Q2)), ?E * ((P2 - Q2) * (P2 - Q2) + 121666 * ?E),
       ((P3 - Q3) * (P2 + Q2) + (P3 + Q3) * (P2 - Q2)) * ((P3 - Q3) * (P2 + Q2) + (P3 + Q3) * (P2 - Q2)),
       U * (((P3 - Q3) * (P2 + Q2) - (P3 + Q3) * (P2 - Q2)) * ((P3 - Q3) * (P2 + Q2) - (P3 + Q3) * (P2 - Q2))), ?k)"
  proof -
    have e: "AA * BB = AA * BB" "BB + 121666 * (AA - BB) = AA + 121665 * (AA - BB)" for AA BB :: gf
      by (simp_all add: algebra_simps)
    show ?thesis unfolding rfc_step_def S_eq prod.case Let_def c_def [symmetric] P Q e(2) by (rule refl)
  qed
  show ?thesis unfolding code spec ladder_rep.simps ladder_bit_ok [OF e]
    using rep_mul [OF prods(3,4)] rep_mul [OF E F] rep_sq [OF GH(1)] rep_mul [OF x1 rep_sq [OF GH(2)]] by simp
qed

lemma ladder_fold_rep:
  assumes "rep 1 x1 U" "length e = 32"
  shows "ladder_rep s S \<Longrightarrow> \<forall>t \<in> set ts. t < 256 \<Longrightarrow>
    ladder_rep (foldl (ladder_step x1 e) s ts) (foldl (rfc_step U (le_int e)) S ts)"
  by (induction ts arbitrary: s S) (simp_all add: ladder_step_rep [OF _ assms])

text \<open>The Montgomery coordinate of the point with the given \<open>y\<close>.\<close>

definition montgomery_u :: "gf \<Rightarrow> gf" where "montgomery_u y = (y + 1) * gf_inv (1 - y)"

lemma key_exchange_ok:
  assumes "length pk = 32" "32 \<le> length sk"
  shows "le_int (ed25519_key_exchange pk sk) =
    gf_rep (rfc_x25519 (le_int (clamp (take 32 sk))) (montgomery_u (to_gf (le_int pk mod 2 ^ 255))))"
    "length (ed25519_key_exchange pk sk) = 32"
proof -
  let ?y = "to_gf (le_int pk mod 2 ^ 255)"
  define e where "e = clamp (take 32 sk)"
  have e: "length e = 32" using assms(2) clamp_ok(1) [of "take 32 sk"] by (simp add: e_def)
  define f where "f = fe_frombytes pk"
  define x1 where "x1 = fe_mul (fe_add f fe_1) (fe_invert (fe_sub fe_1 f))"
  have f: "rep 1 f ?y" unfolding f_def by (rule rep_frombytes [OF assms(1)])
  have x1: "rep 1 x1 (montgomery_u ?y)"
    unfolding x1_def montgomery_u_def gf_inv_def
    by (rule rep_mul [OF rep_add [OF f rep_1] rep_invert [OF rep_sub [OF rep_1 f]]]) simp_all
  have "ladder_rep (fe_1, fe_0, fe_copy x1, fe_1, 0) (1, 0, montgomery_u ?y, 1, False)"
    using x1 by (simp add: rep_0 rep_1 rep_copy)
  from ladder_fold_rep [OF x1 e this, of "rev [0..<255]"]
  have r: "ladder_rep (foldl (ladder_step x1 e) (fe_1, fe_0, fe_copy x1, fe_1, 0) (rev [0..<255]))
      (foldl (rfc_step (montgomery_u ?y) (le_int e)) (1, 0, montgomery_u ?y, 1, False) (rev [0..<255]))"
    (is "ladder_rep ?s ?S") by simp
  obtain x2 z2 x3 z3 w where s: "?s = (x2, z2, x3, z3, w)" by (cases ?s) force
  obtain X2 Z2 X3 Z3 b where S: "?S = (X2, Z2, X3, Z3, b)" by (cases ?S) force
  have rr: "rep 1 x2 X2" "rep 1 z2 Z2" "rep 1 x3 X3" "rep 1 z3 Z3" "w = of_bool b"
    using r unfolding s S by simp_all
  note sx = cswap_rep [OF rr(1,3), of b] and sz = cswap_rep [OF rr(2,4), of b]
  have code: "ed25519_key_exchange pk sk =
      fe_tobytes (fe_mul (fst (cond_swap b (x2, x3))) (fe_invert (fst (cond_swap b (z2, z3)))))"
    unfolding ed25519_key_exchange_def Let_def e_def [symmetric] f_def [symmetric] x1_def [symmetric] s prod.case
    by (simp only: rr(5) sx(1) sz(1) case_prod_beta)
  have "rfc_x25519 (le_int e) (montgomery_u ?y) = fst (cond_swap b (X2, X3)) * gf_inv (fst (cond_swap b (Z2, Z3)))"
    unfolding rfc_x25519_def S prod.case ..
  then show "le_int (ed25519_key_exchange pk sk) = gf_rep (rfc_x25519 (le_int (clamp (take 32 sk))) (montgomery_u ?y))"
    "length (ed25519_key_exchange pk sk) = 32"
    unfolding code e_def [symmetric] gf_inv_def
    using rep_tobytes [OF rep_mul [OF sx(2) rep_invert [OF sz(2)]]] by simp_all
qed

end
