(* ===== verification/Sign_Props.thy ===== *)
theory Sign_Props
  imports Key_Exchange
begin

text \<open>
  Properties of the signature scheme: the point routines of \<open>ge.c\<close>, the digits of a scalar, decoding,
  and the operations of \<open>ed25519.h\<close>.
\<close>

section \<open>Points\<close>

text \<open>C26: The point routines compute the addition law of the twisted Edwards curve: with operands of the
  documented sizes nothing overflows, the completed result has the law's numerators and denominators
  (for a subtraction those of the opposite point; for a doubling those of the sum of the point with
  itself, up to the factor 2), and sums of points of the curve are points of the curve.\<close>

theorem point_routines_add:
  assumes "p3_rep p P" "cached_rep q Q" "precomp_rep e R" "on_curve P" "on_curve Q" "on_curve R"
  shows "p1_rep (ge_add p q) (edwards P Q) \<and> p1_rep (ge_sub p q) (edwards P (opposite Q)) \<and>
    p1_rep (ge_madd p e) (edwards P R) \<and> p1_rep (ge_msub p e) (edwards P (opposite R)) \<and>
    p1_rep (ge_p3_dbl p) (edwards_dbl P) \<and> edwards P P = scale 2 (edwards_dbl P) \<and>
    on_curve (complete (edwards P Q)) \<and> on_curve (complete (edwards P (opposite Q))) \<and>
    on_curve (complete (edwards P R)) \<and> on_curve (complete (edwards_dbl P))"
  using ge_add_rep [OF assms(1,2)] ge_madd_rep [OF assms(1,3)] ge_p3_dbl_rep [OF assms(1)] assms
  by (simp add: edwards_self on_curve_edwards on_curve_opposite on_curve_dbl)

theorem point_routines_add_witness:
  "p1_rep (ge_madd ge_p3_0 (Bi ! 0)) (edwards neutral (B_point 0)) \<and> on_curve (complete (edwards neutral (B_point 0)))"
proof -
  have "precomp_rep (Bi ! 0) (B_point 0)" "on_curve (B_point 0)"
    using Bi_curve [of 0] by (simp_all add: Bi_rep curve_entry_def B_point_def)
  then show ?thesis
    using point_routines_add [OF neutral_rep(2) p3_to_cached_rep [OF neutral_rep(2)] _ on_curve_neutral on_curve_neutral]
    by blast
qed

text \<open>C25: The double multiplication of the signature check never reads outside its tables, and returns
  the point that doubling and adding the odd multiples named by the digits of the two scalars gives; it
  is a point of the curve.\<close>

theorem double_scalarmult_points:
  assumes "p3_rep A P" "on_curve P" "length a = 32" "length b = 32" "le_int a \<le> 2 ^ 255" "le_int b \<le> 2 ^ 255"
  shows "\<exists>r. ge_double_scalarmult_vartime a A b = Some r \<and>
    p2_rep r (double_points (odd_multiple P) B_point (slide a) (slide b) 256 neutral) \<and>
    on_curve (double_points (odd_multiple P) B_point (slide a) (slide b) 256 neutral)"
  using ge_double_scalarmult_ok [OF assms] by blast

theorem double_scalarmult_points_witness:
  "\<exists>r. ge_double_scalarmult_vartime (replicate 32 0) ge_p3_0 (5 # replicate 31 7) = Some r"
proof -
  have "length (replicate 32 (0 :: u8)) = 32" "length (5 # replicate 31 (7 :: u8)) = 32" by simp_all
  moreover have "le_int (replicate 32 0) \<le> 2 ^ 255" "le_int (5 # replicate 31 7) \<le> 2 ^ 255" by code_simp+
  ultimately show ?thesis
    using double_scalarmult_points [OF neutral_rep(2) on_curve_neutral] by blast
qed

text \<open>The sliding window recodes a scalar below \<open>2^255\<close> into 256 digits, each zero or odd and at
  most 15 in absolute value, that stand for the same integer: no carry leaves the array.\<close>

theorem slide_digits:
  assumes "length a = 32" "le_int a \<le> 2 ^ 255"
  shows "length (slide a) = 256 \<and> (\<forall>x \<in> set (slide a). digit x) \<and> radix 2 (digits_of (slide a)) = le_int a"
  using slide_ok [OF assms] by (auto simp: in_set_conv_nth)

theorem slide_digits_witness: "radix 2 (digits_of (slide (replicate 31 255 @ [127]))) = 2 ^ 255 - 1"
proof -
  have "length (replicate 31 (255 :: u8) @ [127]) = 32" "le_int (replicate 31 255 @ [127]) = 2 ^ 255 - 1"
    by code_simp+
  then show ?thesis using slide_digits [of "replicate 31 255 @ [127]"] by simp
qed

text \<open>C27: The recoding for the fixed base gives 64 digits between \<open>-8\<close> and \<open>8\<close> of the same value, the
  constant-time selection yields for each the table entry of its absolute value, negated for a negative
  digit, and the result has limbs of the sizes that the other routines ask for.\<close>

theorem base_multiplication_digits:
  assumes "length a = 32" "le_int a < 2 ^ 255"
  shows "radix 16 (digits_of (recode a)) = le_int a \<and> (\<forall>i < 64. \<bar>sint (recode a ! i)\<bar> \<le> 8 \<and>
      ge_select (i div 2) (recode a ! i) = digit_entry (base ! (i div 2)) (sint (recode a ! i))) \<and>
    length (recode a) = 64 \<and> p3_sized (ge_scalarmult_base a)"
  using recode_ok [OF assms] scalarmult_base_sized [OF assms] by (simp add: ge_select_ok)

theorem base_multiplication_digits_witness: "radix 16 (digits_of (recode (replicate 32 0x7f))) = le_int (replicate 32 0x7f)"
proof -
  have "length (replicate 32 (0x7f :: u8)) = 32" "le_int (replicate 32 0x7f) < 2 ^ 255" by code_simp+
  then show ?thesis using base_multiplication_digits by blast
qed

text \<open>C28: Decoding a public key fails exactly when the candidate root misses both signs, and otherwise
  returns a point of the curve with the encoded \<open>y\<close>, the negated \<open>x\<close>, and \<open>Z = 1\<close>.\<close>

theorem decode_point:
  assumes "length s = 32"
  shows "case key_point s of
      None \<Rightarrow> fst (ge_frombytes_negate_vartime h s) = - 1
    | Some (X, Y, Z, T) \<Rightarrow> fst (ge_frombytes_negate_vartime h s) = 0 \<and>
        p3_rep (snd (ge_frombytes_negate_vartime h s)) (X, Y, Z, T) \<and> on_curve (X, Y, Z, T) \<and>
        Y = to_gf (le_int s mod 2 ^ 255) \<and> Z = 1 \<and> (X \<noteq> 0 \<longrightarrow> (gf_rep X mod 2 = 1) = (\<not> bit (s ! 31) 7))"
proof (cases "key_point s")
  case None
  with decode_key [OF assms, of h] show ?thesis by simp
next
  case (Some P)
  then obtain x where x: "P = (decode_x x (bit (s ! 31) 7), to_gf (le_int s mod 2 ^ 255), 1,
      decode_x x (bit (s ! 31) 7) * to_gf (le_int s mod 2 ^ 255))"
    by (auto simp: key_point_def Let_def)
  have "decode_x x b \<noteq> 0 \<Longrightarrow> x \<noteq> 0" for b by (auto simp: decode_x_def split: if_splits)
  with Some decode_key [OF assms, of h] decode_x_sign [of x "bit (s ! 31) 7"] show ?thesis by (auto simp: x)
qed

theorem decode_point_witness: "fst (ge_frombytes_negate_vartime ge_p3_0 (1 # replicate 31 0)) = 0"
proof -
  have "le_int (replicate n 0) = 0" for n by (induction n) simp_all
  then have "key_point (1 # replicate 31 0) \<noteq> None"
    by (simp add: key_point_def Let_def root_of_def root_x_def root_u_def to_gf_ring)
  then show ?thesis using decode_point [of "1 # replicate 31 0" ge_p3_0] by (auto split: option.splits)
qed

section \<open>Signatures and keys\<close>

text \<open>C23: A signature is accepted exactly when its scalar is below \<open>2^253\<close>, the public key decodes, and
  the encoding of \<open>h * (- A) + S * B\<close>, with \<open>h\<close> the digest of \<open>R\<close>, the key and the message modulo the
  group order, is the signature's first half; the check always returns.\<close>

theorem verify_implements_spec:
  assumes "length (buf hash) = 128" "length signature = 64" "length pk = 32"
  shows "ed25519_verify hash h A signature m pk = Some (if verify_spec signature m pk then 1 else 0)"
  by (rule ed25519_verify_ok [OF assms])

definition demo_context :: sha512_context where
  "demo_context = \<lparr>length64 = 0, state = replicate 8 0, curlen = 0, buf = replicate 128 0\<rparr>"

theorem verify_implements_spec_witness:
  "ed25519_verify demo_context [] ge_p3_0 (replicate 64 255) [1, 2, 3] (replicate 32 0) = Some 0"
proof -
  have "length (buf demo_context) = 128" "length (replicate 64 (255 :: u8)) = 64" "length (replicate 32 (0 :: u8)) = 32"
    by (simp_all add: demo_context_def)
  moreover have "\<not> le_int (drop 32 (replicate 64 255)) < 2 ^ 253" by code_simp
  then have "\<not> verify_spec (replicate 64 255) [1, 2, 3] (replicate 32 0)" by (simp add: verify_spec_def Let_def)
  ultimately show ?thesis using verify_implements_spec by simp
qed

text \<open>C24: A signature is the encoding of the nonce's multiple of the base point, followed by the scalar
  \<open>h a + r\<close> modulo the group order, which the verification's size check always accepts.\<close>

theorem sign_response:
  assumes "length (buf hash) = 128" "length pk = 32" "length sk = 64"
  shows "length (ed25519_sign hash hram r m pk sk) = 64 \<and>
    take 32 (ed25519_sign hash hram r m pk sk) = ge_p3_tobytes (ge_scalarmult_base (nonce sk m)) \<and>
    le_int (drop 32 (ed25519_sign hash hram r m pk sk)) =
      (le_int (challenge (take 32 (ed25519_sign hash hram r m pk sk)) pk m) * le_int (take 32 sk) + le_int (nonce sk m)) mod sc_l \<and>
    ed25519_sign hash hram r m pk sk ! 63 AND 224 = 0"
proof -
  note s = ed25519_sign_ok [OF assms, of hram r m]
  have "le_int (drop 32 (ed25519_sign hash hram r m pk sk)) < 2 ^ 253"
    unfolding s(3) using pos_mod_bound [OF sc_l_bounds(1)] sc_l_bounds(2) by (rule less_trans)
  then have "ed25519_sign hash hram r m pk sk ! 63 AND 224 = 0" using sig_top [OF s(1)] by blast
  then show ?thesis using s by blast
qed

theorem sign_response_witness:
  "length (ed25519_sign demo_context [] [] [1, 2, 3] (replicate 32 4) (replicate 64 5)) = 64"
proof -
  have "length (buf demo_context) = 128" "length (replicate 32 (4 :: u8)) = 32" "length (replicate 64 (5 :: u8)) = 64"
    by (simp_all add: demo_context_def)
  then show ?thesis using sign_response by blast
qed

text \<open>The private key of a new pair is the digest of the seed, clamped: a multiple of 8 between
  \<open>2^254\<close> and \<open>2^255\<close>, within what the base multiplication asks for; the public key is the encoding
  of its multiple of the base point.\<close>

theorem keypair_clamped:
  assumes "length (buf ctx) = 128"
  shows "case ed25519_create_keypair ctx sk0 seed of
    (pk, sk) \<Rightarrow> length pk = 32 \<and> length sk = 64 \<and> sk = clamp (sha512_spec (take 32 seed)) \<and>
      le_int (take 32 sk) mod 8 = 0 \<and> 2 ^ 254 \<le> le_int (take 32 sk) \<and> le_int (take 32 sk) < 2 ^ 255 \<and>
      pk = ge_p3_tobytes (ge_scalarmult_base (take 32 sk))"
proof -
  have l: "32 \<le> length (sha512_spec (take 32 seed))" by (simp add: length_spec)
  show ?thesis
    using create_keypair_ok [OF assms, of sk0 seed] clamp_ok [OF l] by (auto simp: case_prod_beta)
qed

theorem keypair_clamped_witness:
  "2 ^ 254 \<le> le_int (take 32 (snd (ed25519_create_keypair demo_context [] (replicate 32 9))))"
proof -
  have "length (buf demo_context) = 128" by (simp add: demo_context_def)
  from keypair_clamped [OF this, where seed = "replicate 32 9" and ?sk0.0 = "[]"] show ?thesis by (auto simp: case_prod_beta)
qed

text \<open>C29: The key exchange computes the ladder of RFC 7748 with the clamped private key, on the
  Montgomery coordinate of the public key, and writes the least residue of the result.\<close>

theorem key_exchange_is_x25519:
  assumes "length pk = 32" "32 \<le> length sk"
  shows "le_int (ed25519_key_exchange pk sk) =
      gf_rep (rfc_x25519 (le_int (clamp (take 32 sk))) (montgomery_u (to_gf (le_int pk mod 2 ^ 255)))) \<and>
    length (ed25519_key_exchange pk sk) = 32"
  using key_exchange_ok [OF assms] by blast

theorem key_exchange_is_x25519_witness: "length (ed25519_key_exchange (replicate 32 9) (replicate 64 5)) = 32"
proof -
  have "length (replicate 32 (9 :: u8)) = 32" "32 \<le> length (replicate 64 (5 :: u8))" by simp_all
  then show ?thesis using key_exchange_is_x25519 by blast
qed

text \<open>Adding a scalar to a key pair moves the secret scalar by the low 255 bits of the argument
  modulo the group order, replaces the second half by a digest of it and the argument, and derives the
  public key from the new secret.\<close>

theorem add_scalar_moves_secret:
  assumes "length (buf hash) = 128" "length sk = 64" "length scalar = 32"
  shows "\<exists>sk'. ed25519_add_scalar hash hb u pk (Some sk) scalar =
      (map_option (\<lambda>_. ge_p3_tobytes (ge_scalarmult_base (take 32 sk'))) pk, Some sk') \<and>
    le_int (take 32 sk') = (le_int scalar mod 2 ^ 255 + le_int (take 32 sk)) mod sc_l \<and>
    drop 32 sk' = take 32 (sha512_spec (drop 32 sk @ scalar)) \<and> length sk' = 64"
  by (rule add_scalar_private [OF assms, of hb u pk]) blast

theorem add_scalar_moves_secret_witness:
  "\<exists>sk'. snd (ed25519_add_scalar demo_context [] ge_p3_0 None (Some (replicate 64 0)) (2 # replicate 31 0)) = Some sk' \<and>
    le_int (take 32 sk') = 2"
proof -
  have z: "le_int (replicate n 0) = 0" for n by (induction n) simp_all
  have "length (buf demo_context) = 128" "length (replicate 64 (0 :: u8)) = 64" "length (2 # replicate 31 (0 :: u8)) = 32"
    by (simp_all add: demo_context_def)
  from add_scalar_moves_secret [OF this, of "[]" ge_p3_0 None] show ?thesis by (auto simp: z sc_l_def)
qed

end
