(* ===== verification/Driver_State.thy ===== *)
theory Driver_State
  imports Engine_Config
begin

text \<open>
  The kernel driver of \<open>ntfwkm/driver.cpp\<close>: filter modules, the handlers NDIS calls on them, and the
  suspension of all filtering around a reconfiguration. Modules live in the array \<open>FltModules\<close>; a
  module pointer is its index. The intrusive lists \<open>FltModuleList\<close> and \<open>FltModuleFreeList\<close> are the
  lists of the indices linked in them. \<open>None\<close> stands for a call that never returns (a lock that is
  already held, an event that is not signalled) or that leaves the module array.
\<close>

section \<open>Data\<close>

datatype FILTER_STATE =
    FilterStateUndefined
  | FilterStateAttached
  | FilterStatePausing
  | FilterStatePaused
  | FilterStateRestarting
  | FilterStateSuspended
  | FilterStateRunning
  | FilterStateDetaching
  | FilterStateDetached

text \<open>The NDIS and NT status codes the driver names; both kinds of success are zero.\<close>

datatype STATUS =
    STATUS_SUCCESS
  | NDIS_STATUS_FAILURE
  | NDIS_STATUS_PENDING
  | STATUS_INTERNAL_ERROR
  | STATUS_INVALID_DEVICE_REQUEST
  | STATUS_FILE_TOO_LARGE
  | STATUS_IO_DEVICE_INVALID_DATA
  | STATUS_OTHER u32

datatype NDIS_MEDIUM = NdisMedium802_3 | NdisMediumWan | NdisMediumOther u32

type_synonym NDIS_HANDLE = u64

definition MAX_FILTER_MODULES :: nat where "MAX_FILTER_MODULES = 8"

definition SupportedNdisMedia :: "NDIS_MEDIUM list" where
  "SupportedNdisMedia = [NdisMedium802_3, NdisMediumWan]"

record FLT_MODULE =
  FilterModuleHandle :: NDIS_HANDLE
  State :: FILTER_STATE

record driver =
  FltModules :: "FLT_MODULE list"
  FltModuleList :: "nat list"
  FltModuleFreeList :: "nat list"
  RunningModuleCount :: u32
  SuspendSignal :: bool
  SuspendCompleteEvent :: bool
  DriverLock :: bool

text \<open>What the driver asks of NDIS.\<close>

datatype ndis_call =
    NdisFRestartFilter NDIS_HANDLE
  | NdisFRestartComplete NDIS_HANDLE STATUS

section \<open>The driver lock and module states\<close>

text \<open>Every section under the lock is one step, so a lock found held is never released.\<close>

definition ACQUIRE_DRIVER_LOCK :: "driver \<Rightarrow> driver option" where
  "ACQUIRE_DRIVER_LOCK d = (if DriverLock d then None else Some (d\<lparr>DriverLock := True\<rparr>))"

definition RELEASE_DRIVER_LOCK :: "driver \<Rightarrow> driver" where
  "RELEASE_DRIVER_LOCK d = d\<lparr>DriverLock := False\<rparr>"

definition SetModuleState :: "nat \<Rightarrow> FILTER_STATE \<Rightarrow> driver \<Rightarrow> driver option" where
  "SetModuleState i NewState d = do {
     m \<leftarrow> cell (FltModules d) i;
     Some (d\<lparr>FltModules := (FltModules d)[i := m\<lparr>State := NewState\<rparr>]\<rparr>) }"

section \<open>The handlers NDIS calls\<close>

fun media_supported :: "NDIS_MEDIUM \<Rightarrow> NDIS_MEDIUM list \<Rightarrow> bool" where
  "media_supported m [] = False"
| "media_supported m (x # xs) = (if m = x then True else media_supported m xs)"

text \<open>
  \<open>set_attr\<close> is what \<open>NdisFSetAttributes\<close> returns for a handle and the module given as its context.
  An empty free list leaves through \<open>done\<close> with the lock still held.
\<close>

definition FilterAttach ::
  "NDIS_MEDIUM \<Rightarrow> NDIS_HANDLE \<Rightarrow> (NDIS_HANDLE \<Rightarrow> nat \<Rightarrow> STATUS) \<Rightarrow> driver \<Rightarrow> (STATUS \<times> driver) option" where
  "FilterAttach medium h set_attr d =
     (if \<not> media_supported medium SupportedNdisMedia then Some (NDIS_STATUS_FAILURE, d)
      else do {
        d1 \<leftarrow> ACQUIRE_DRIVER_LOCK d;
        case FltModuleFreeList d1 of
          [] \<Rightarrow> Some (NDIS_STATUS_FAILURE, d1)
        | i # free \<Rightarrow> do {
            let d2 = d1\<lparr>FltModuleFreeList := free, FltModuleList := FltModuleList d1 @ [i]\<rparr>;
            m \<leftarrow> cell (FltModules d2) i;
            let d3 = d2\<lparr>FltModules := (FltModules d2)[i := m\<lparr>FilterModuleHandle := h\<rparr>]\<rparr>;
            d4 \<leftarrow> SetModuleState i FilterStateAttached d3;
            let d5 = RELEASE_DRIVER_LOCK d4;
            if set_attr h i \<noteq> STATUS_SUCCESS then Some (NDIS_STATUS_FAILURE, d5)
            else Some (STATUS_SUCCESS, d5) } })"

text \<open>Unlinking an entry that is not in the list is undefined.\<close>

definition FilterDetach :: "nat \<Rightarrow> driver \<Rightarrow> driver option" where
  "FilterDetach i d = do {
     d1 \<leftarrow> ACQUIRE_DRIVER_LOCK d;
     d2 \<leftarrow> SetModuleState i FilterStateDetached d1;
     if i \<notin> set (FltModuleList d2) then None
     else Some (RELEASE_DRIVER_LOCK (d2\<lparr>FltModuleList := remove1 i (FltModuleList d2),
                  FltModuleFreeList := i # FltModuleFreeList d2\<rparr>)) }"

definition FilterPause :: "nat \<Rightarrow> driver \<Rightarrow> (STATUS \<times> driver) option" where
  "FilterPause i d = do {
     d1 \<leftarrow> ACQUIRE_DRIVER_LOCK d;
     m \<leftarrow> cell (FltModules d1) i;
     let d2 = (if State m = FilterStateRunning
               then let d' = d1\<lparr>RunningModuleCount := RunningModuleCount d1 - 1\<rparr>
                    in if RunningModuleCount d' = 0 then d'\<lparr>SuspendCompleteEvent := True\<rparr> else d'
               else d1);
     d3 \<leftarrow> SetModuleState i FilterStatePaused d2;
     Some (STATUS_SUCCESS, RELEASE_DRIVER_LOCK d3) }"

definition FilterRestart :: "nat \<Rightarrow> driver \<Rightarrow> (STATUS \<times> driver) option" where
  "FilterRestart i d = do {
     d1 \<leftarrow> ACQUIRE_DRIVER_LOCK d;
     d2 \<leftarrow> SetModuleState i FilterStateRestarting d1;
     if SuspendSignal d2 then do {
       d3 \<leftarrow> SetModuleState i FilterStateSuspended d2;
       Some (NDIS_STATUS_PENDING, RELEASE_DRIVER_LOCK d3) }
     else do {
       d3 \<leftarrow> SetModuleState i FilterStateRunning
               (d2\<lparr>RunningModuleCount := RunningModuleCount d2 + 1\<rparr>);
       Some (STATUS_SUCCESS, RELEASE_DRIVER_LOCK d3) } }"

section \<open>Suspension and resumption\<close>

text \<open>The walks over the module list, which call NDIS for the modules in one state.\<close>

fun call_modules :: "FLT_MODULE list \<Rightarrow> FILTER_STATE \<Rightarrow> (NDIS_HANDLE \<Rightarrow> ndis_call) \<Rightarrow> nat list \<Rightarrow>
    ndis_call list option" where
  "call_modules ms st call [] = Some []"
| "call_modules ms st call (i # is) = do {
     m \<leftarrow> cell ms i;
     rest \<leftarrow> call_modules ms st call is;
     Some (if State m = st then call (FilterModuleHandle m) # rest else rest) }"

text \<open>\<open>Suspend\<close> up to the release of the lock, and its wait for the event, which stays signalled.\<close>

definition Suspend_request :: "driver \<Rightarrow> (ndis_call list \<times> driver) option" where
  "Suspend_request d = do {
     d1 \<leftarrow> ACQUIRE_DRIVER_LOCK d;
     let d2 = d1\<lparr>SuspendSignal := True\<rparr>;
     if RunningModuleCount d2 \<noteq> 0 then do {
       let d3 = d2\<lparr>SuspendCompleteEvent := False\<rparr>;
       calls \<leftarrow> call_modules (FltModules d3) FilterStateRunning NdisFRestartFilter (FltModuleList d3);
       Some (calls, RELEASE_DRIVER_LOCK d3) }
     else Some ([], RELEASE_DRIVER_LOCK d2) }"

definition Suspend_wait :: "driver \<Rightarrow> driver option" where
  "Suspend_wait d = (if SuspendCompleteEvent d then Some d else None)"

definition Resume :: "driver \<Rightarrow> (ndis_call list \<times> driver) option" where
  "Resume d = do {
     d1 \<leftarrow> ACQUIRE_DRIVER_LOCK d;
     let d2 = d1\<lparr>SuspendSignal := False\<rparr>;
     calls \<leftarrow> call_modules (FltModules d2) FilterStateSuspended
               (\<lambda>h. NdisFRestartComplete h STATUS_SUCCESS) (FltModuleList d2);
     Some (calls, RELEASE_DRIVER_LOCK d2) }"

lemmas driver_lock_defs = ACQUIRE_DRIVER_LOCK_def RELEASE_DRIVER_LOCK_def SetModuleState_def
lemmas handler_defs = FilterAttach_def FilterDetach_def FilterPause_def FilterRestart_def
lemmas suspension_defs = Suspend_request_def Suspend_wait_def Resume_def

declare driver_lock_defs [ntfw_eval] handler_defs [ntfw_eval] suspension_defs [ntfw_eval]
  media_supported.simps [ntfw_eval] call_modules.simps [ntfw_eval]

section \<open>Start\<close>

text \<open>
  \<open>DriverEntry\<close> before it registers anything: the zeroed globals, and the free list pushed from the
  last module down to the first.
\<close>

definition driver_init :: driver where
  "driver_init =
     \<lparr>FltModules = replicate MAX_FILTER_MODULES \<lparr>FilterModuleHandle = 0, State = FilterStateUndefined\<rparr>,
      FltModuleList = [],
      FltModuleFreeList = fold (\<lambda>i free. i # free) (rev [0..<MAX_FILTER_MODULES]) [],
      RunningModuleCount = 0, SuspendSignal = False, SuspendCompleteEvent = False,
      DriverLock = False\<rparr>"

lemma driver_init_free: "FltModuleFreeList driver_init = [0..<MAX_FILTER_MODULES]"
proof -
  have "fold (\<lambda>i free. i # free) xs ys = rev xs @ ys" for xs ys :: "nat list"
    by (induction xs arbitrary: ys) simp_all
  then show ?thesis by (simp add: driver_init_def)
qed

section \<open>The driver's own bookkeeping\<close>

text \<open>
  \<open>driver_inv\<close> at the points where no handler runs: the eight modules are split between the two
  lists, only linked modules run, and the counter counts them.
\<close>

definition state_of :: "driver \<Rightarrow> nat \<Rightarrow> FILTER_STATE" where
  "state_of d i = State (FltModules d ! i)"

definition handle_of :: "driver \<Rightarrow> nat \<Rightarrow> NDIS_HANDLE" where
  "handle_of d i = FilterModuleHandle (FltModules d ! i)"

definition running :: "driver \<Rightarrow> nat set" where
  "running d = {i. i < MAX_FILTER_MODULES \<and> state_of d i = FilterStateRunning}"

definition driver_inv :: "driver \<Rightarrow> bool" where
  "driver_inv d \<longleftrightarrow> length (FltModules d) = MAX_FILTER_MODULES \<and>
     distinct (FltModuleList d @ FltModuleFreeList d) \<and>
     set (FltModuleList d) \<union> set (FltModuleFreeList d) = {..<MAX_FILTER_MODULES} \<and>
     running d \<subseteq> set (FltModuleList d) \<and>
     unat (RunningModuleCount d) = card (running d)"

lemma driver_invD:
  assumes "driver_inv d"
  shows "length (FltModules d) = MAX_FILTER_MODULES" "distinct (FltModuleList d)"
    "distinct (FltModuleFreeList d)" "set (FltModuleList d) \<inter> set (FltModuleFreeList d) = {}"
    "set (FltModuleList d) \<union> set (FltModuleFreeList d) = {..<MAX_FILTER_MODULES}"
    "running d \<subseteq> set (FltModuleList d)" "unat (RunningModuleCount d) = card (running d)"
  using assms by (auto simp: driver_inv_def)

lemma finite_running [simp, intro]: "finite (running d)"
  by (simp add: running_def)

lemma card_running: "card (running d) \<le> MAX_FILTER_MODULES"
  using card_mono [of "{..<MAX_FILTER_MODULES}" "running d"] by (force simp: running_def)

lemma driver_inv_init: "driver_inv driver_init"
  by (simp add: driver_inv_def driver_init_free)
    (auto simp: driver_init_def running_def state_of_def)

text \<open>A change of one module's state, seen from the set of running modules.\<close>

lemma running_set_state:
  assumes "length (FltModules d) = MAX_FILTER_MODULES" "i < MAX_FILTER_MODULES"
    and "FltModules d' = (FltModules d)[i := m]"
  shows "running d' = (if State m = FilterStateRunning then insert i (running d) else running d - {i})"
  using assms by (auto simp: running_def state_of_def nth_list_update)

lemma cell_module:
  "length (FltModules d) = MAX_FILTER_MODULES \<Longrightarrow> i < MAX_FILTER_MODULES \<Longrightarrow>
   cell (FltModules d) i = Some (FltModules d ! i)"
  by (simp add: cell_def)

lemma call_modules_eq:
  assumes "\<forall>i\<in>set is. i < length ms"
  shows "call_modules ms st call is =
    Some (map (\<lambda>i. call (FilterModuleHandle (ms ! i))) (filter (\<lambda>i. State (ms ! i) = st) is))"
  using assms by (induction "is") (auto simp: cell_def)

end
