(* ===== verification/Driver_Control.thy ===== *)
theory Driver_Control
  imports Driver_State Config_Load
begin

text \<open>
  The rest of \<open>ntfwkm/driver.cpp\<close>: reading the configuration file, user requests, loading and unloading
  of the driver, and the data path. What the operating system answers is a record of results; the calls
  made to it are returned as a list, in the order they are made.
\<close>

section \<open>Reading the configuration file\<close>

definition MAX_NTFE_CFG_SZ :: int where "MAX_NTFE_CFG_SZ = 0x4000"

text \<open>
  The results of the calls in the order they are made, the size of the file, whether the pool has room
  for it, and the bytes of the buffer once read.
\<close>

record cfg_io =
  io_param :: STATUS
  io_open :: STATUS
  io_query :: STATUS
  io_end_of_file :: u64
  io_pool :: bool
  io_read :: STATUS
  io_data :: "u8 list"

datatype os_call = ZwOpenFile | ExAllocatePool | ZwClose | ExFreePool

text \<open>The common exit: what was opened and allocated is given back.\<close>

definition cfg_done :: "STATUS \<Rightarrow> gs \<Rightarrow> os_call list \<Rightarrow> STATUS \<times> gs \<times> os_call list" where
  "cfg_done st g held = (st, g, held @ (if ZwOpenFile \<in> set held then [ZwClose] else []) @
     (if ExAllocatePool \<in> set held then [ExFreePool] else []))"

definition ConfigureFirewallEngine :: "cfg_io \<Rightarrow> env \<Rightarrow> gs \<Rightarrow> (STATUS \<times> gs \<times> os_call list) option" where
  "ConfigureFirewallEngine io e g =
     (if io_param io \<noteq> STATUS_SUCCESS then Some (cfg_done (io_param io) g [])
      else if io_open io \<noteq> STATUS_SUCCESS then Some (cfg_done (io_open io) g [])
      else if io_query io \<noteq> STATUS_SUCCESS then Some (cfg_done (io_query io) g [ZwOpenFile])
      else if MAX_NTFE_CFG_SZ < sint (io_end_of_file io)
        then Some (cfg_done STATUS_FILE_TOO_LARGE g [ZwOpenFile])
      else if \<not> io_pool io then Some (cfg_done (io_query io) g [ZwOpenFile])
      else if io_read io \<noteq> STATUS_SUCCESS
        then Some (cfg_done (io_read io) g [ZwOpenFile, ExAllocatePool])
      else do {
        let low = (ucast (io_end_of_file io) :: u32);
        valid \<leftarrow> ntfe_validate_configuration g (io_data io) low;
        if \<not> valid then Some (cfg_done STATUS_IO_DEVICE_INVALID_DATA g [ZwOpenFile, ExAllocatePool])
        else do {
          (ok, g') \<leftarrow> ntfe_configure e g (io_data io) low;
          if \<not> ok then Some (cfg_done STATUS_INTERNAL_ERROR g' [ZwOpenFile, ExAllocatePool])
          else Some (cfg_done (io_read io) g' [ZwOpenFile, ExAllocatePool]) } })"

section \<open>User requests\<close>

text \<open>The control codes of \<open>ntfwkm/shared.h\<close>; \<open>FILE_DEVICE_PHYSICAL_NETCARD\<close> is \<open>0x17\<close>, both of
  \<open>METHOD_BUFFERED\<close> and \<open>FILE_ANY_ACCESS\<close> are 0.\<close>

definition NTFW_IOCTL :: "u32 \<Rightarrow> u32" where
  "NTFW_IOCTL req = push_bit 16 0x17 OR push_bit 14 0 OR push_bit 2 req OR 0"

definition IOCTL_NTFW_QUERY_COUNTERS :: u32 where "IOCTL_NTFW_QUERY_COUNTERS = NTFW_IOCTL 0"
definition IOCTL_NTFW_ENGINE_RESTART :: u32 where "IOCTL_NTFW_ENGINE_RESTART = NTFW_IOCTL 1"

definition DISPATCH_LEVEL :: nat where "DISPATCH_LEVEL = 2"

record irp =
  MajorFunction_is_control :: bool
  IoControlCode :: u32

record device =
  dev_driver :: driver
  dev_engine :: gs
  UserMutex :: bool

text \<open>
  \<open>RequestDispatch\<close>. \<open>during\<close> is what the handlers NDIS calls between the two halves of \<open>Suspend\<close> make
  of the driver's state; the request's status is both returned and stored in the completed packet.
\<close>

definition RequestDispatch ::
  "nat \<Rightarrow> irp \<Rightarrow> cfg_io \<Rightarrow> env \<Rightarrow> (driver \<Rightarrow> driver) \<Rightarrow> device \<Rightarrow>
     (STATUS \<times> ndis_call list \<times> device) option" where
  "RequestDispatch irql irp io e during dv =
     (if \<not> MajorFunction_is_control irp then Some (STATUS_SUCCESS, [], dv)
      else if DISPATCH_LEVEL \<le> irql then Some (STATUS_INTERNAL_ERROR, [], dv)
      else if UserMutex dv then None
      else do {
        let dv1 = dv\<lparr>UserMutex := True\<rparr>;
        (st, calls, dv2) \<leftarrow>
          (if IoControlCode irp = IOCTL_NTFW_ENGINE_RESTART then do {
             (restarts, d1) \<leftarrow> Suspend_request (dev_driver dv1);
             d2 \<leftarrow> Suspend_wait (during d1);
             (st, g, _) \<leftarrow> ConfigureFirewallEngine io e (dev_engine dv1);
             (completes, d3) \<leftarrow> Resume d2;
             Some (st, restarts @ completes, dv1\<lparr>dev_driver := d3, dev_engine := g\<rparr>) }
           else Some (STATUS_INVALID_DEVICE_REQUEST, [], dv1));
        Some (st, calls, dv2\<lparr>UserMutex := False\<rparr>) })"

section \<open>Loading and unloading\<close>

text \<open>The handles that are not NULL.\<close>

record registration =
  FltDriverHandle :: bool
  NdisCfgHandle :: bool
  FltDeviceHandle :: bool

datatype reg_call =
    NdisFRegisterFilterDriver
  | NdisOpenConfigurationEx
  | NdisRegisterDeviceEx
  | NdisFDeregisterFilterDriver
  | NdisCloseConfiguration
  | NdisDeregisterDeviceEx
  | Ntfe_cleanup

definition no_registration :: registration where
  "no_registration = \<lparr>FltDriverHandle = False, NdisCfgHandle = False, FltDeviceHandle = False\<rparr>"

text \<open>
  \<open>DriverEntry\<close>: \<open>register\<close>, \<open>openc\<close> and \<open>device\<close> are what the three NDIS calls return; a call is in the
  list when it succeeded.
\<close>

definition DriverEntry ::
  "(nat \<Rightarrow> host_state) option \<Rightarrow> STATUS \<Rightarrow> STATUS \<Rightarrow> STATUS \<Rightarrow> env \<Rightarrow> gs \<Rightarrow>
     (STATUS \<times> registration \<times> reg_call list \<times> driver \<times> gs) option" where
  "DriverEntry region register openc device e g =
     map_option (\<lambda>(ok, g1).
        if \<not> ok then (STATUS_INTERNAL_ERROR, no_registration, [], driver_init, g1)
        else if register \<noteq> STATUS_SUCCESS then (STATUS_INTERNAL_ERROR, no_registration, [], driver_init, g1)
        else let r1 = no_registration\<lparr>FltDriverHandle := True\<rparr>
          in if openc \<noteq> STATUS_SUCCESS
             then (STATUS_INTERNAL_ERROR, r1, [NdisFRegisterFilterDriver], driver_init, g1)
          else let r2 = r1\<lparr>NdisCfgHandle := True\<rparr>
          in if device \<noteq> STATUS_SUCCESS
             then (STATUS_INTERNAL_ERROR, r2,
               [NdisFRegisterFilterDriver, NdisOpenConfigurationEx, NdisFDeregisterFilterDriver], driver_init, g1)
          else (STATUS_SUCCESS, r2\<lparr>FltDeviceHandle := True\<rparr>,
               [NdisFRegisterFilterDriver, NdisOpenConfigurationEx, NdisRegisterDeviceEx], driver_init, g1))
       (ntfe_init e region g)"

definition DriverUnload :: "registration \<Rightarrow> gs \<Rightarrow> registration \<times> reg_call list \<times> gs" where
  "DriverUnload r g =
     (let g1 = ntfe_cleanup g;
          calls = [Ntfe_cleanup] @ (if NdisCfgHandle r then [NdisCloseConfiguration] else []) @
            (if FltDeviceHandle r then [NdisDeregisterDeviceEx] else []) @
            (if FltDriverHandle r then [NdisFDeregisterFilterDriver] else [])
      in (r\<lparr>FltDeviceHandle := False, FltDriverHandle := False\<rparr>, calls, g1))"

section \<open>The data path\<close>

text \<open>
  A buffer has its data length and what \<open>NdisGetDataBuffer\<close> gives for the first bytes of it: the bytes
  that can be read there, or NULL. A buffer list has at least its first buffer.
\<close>

record NET_BUFFER =
  DataLength :: u32
  HeaderPtr :: "u8 list option"

record NET_BUFFER_LIST =
  FirstNetBuffer :: NET_BUFFER
  NextNetBuffers :: "NET_BUFFER list"

record io_flags =
  FLAGS_DISPATCH_LEVEL :: bool
  FLAGS_RESOURCES :: bool
  FLAGS_PERFECT_FILTERED :: bool

datatype data_call =
    NdisFIndicateReceiveNetBufferLists NDIS_HANDLE "NET_BUFFER_LIST list" u32 u32 io_flags
  | NdisFReturnNetBufferLists NDIS_HANDLE "NET_BUFFER_LIST list" io_flags
  | NdisFSendNetBufferLists NDIS_HANDLE "NET_BUFFER_LIST list" u32 io_flags
  | KeRaiseIrqlToDpcLevel
  | KeLowerIrql

text \<open>The handlers as they run: they pass everything on and return.\<close>

definition FilterReceive ::
  "FLT_MODULE \<Rightarrow> NET_BUFFER_LIST list \<Rightarrow> u32 \<Rightarrow> u32 \<Rightarrow> io_flags \<Rightarrow> data_call list" where
  "FilterReceive m nbls port n flags =
     [NdisFIndicateReceiveNetBufferLists (FilterModuleHandle m) nbls port n flags]"

definition FilterSend :: "FLT_MODULE \<Rightarrow> NET_BUFFER_LIST list \<Rightarrow> u32 \<Rightarrow> io_flags \<Rightarrow> data_call list" where
  "FilterSend m nbls port flags = [NdisFSendNetBufferLists (FilterModuleHandle m) nbls port flags]"

text \<open>
  The code behind the early return, which calls the engine: \<open>rx_segregate\<close> is its loop with the accepted
  list, the dropped list and the count; \<open>xsave\<close> tells whether the extended processor state was saved.
\<close>

fun rx_segregate :: "env \<Rightarrow> gs \<Rightarrow> NET_BUFFER_LIST list \<Rightarrow> NET_BUFFER_LIST list \<Rightarrow> NET_BUFFER_LIST list \<Rightarrow>
    u32 \<Rightarrow> (NET_BUFFER_LIST list \<times> NET_BUFFER_LIST list \<times> u32 \<times> gs) option" where
  "rx_segregate e g [] accept dropped n = Some (accept, dropped, n, g)"
| "rx_segregate e g (nbl # nbls) accept dropped n = do {
     let nb = FirstNetBuffer nbl;
     (ok, g') \<leftarrow> (case HeaderPtr nb of None \<Rightarrow> Some (True, g)
                  | Some f \<Rightarrow> ntfe_rx e g f (ucast (DataLength nb)));
     if ok then rx_segregate e g' nbls (accept @ [nbl]) dropped (n + 1)
     else rx_segregate e g' nbls accept (dropped @ [nbl]) n }"

definition FilterReceive_filtering :: "FLT_MODULE \<Rightarrow> NET_BUFFER_LIST list \<Rightarrow> u32 \<Rightarrow> u32 \<Rightarrow> io_flags \<Rightarrow> bool \<Rightarrow>
    env \<Rightarrow> gs \<Rightarrow> (data_call list \<times> gs) option" where
  "FilterReceive_filtering m nbls port n flags xsave e g =
     (if FLAGS_RESOURCES flags then Some ([], g)
      else do {
        let raise = (if FLAGS_DISPATCH_LEVEL flags then [] else [KeRaiseIrqlToDpcLevel]);
        let lower = (if FLAGS_DISPATCH_LEVEL flags then [] else [KeLowerIrql]);
        g1 \<leftarrow> ntfe_rx_prepare e g;
        if \<not> xsave then
          Some (raise @ [NdisFIndicateReceiveNetBufferLists (FilterModuleHandle m) nbls port n flags] @ lower, g1)
        else do {
          (accept, dropped, count, g2) \<leftarrow> rx_segregate e g1 nbls [] [] 0;
          let flags' = flags\<lparr>FLAGS_PERFECT_FILTERED := False\<rparr>;
          Some (raise @ lower @
            (if dropped \<noteq> [] then [NdisFReturnNetBufferLists (FilterModuleHandle m) dropped flags'] else []) @
            (if accept \<noteq> [] then [NdisFIndicateReceiveNetBufferLists (FilterModuleHandle m) accept port count flags']
             else []), g2) } })"

fun tx_buffers :: "env \<Rightarrow> gs \<Rightarrow> NET_BUFFER list \<Rightarrow> gs option" where
  "tx_buffers e g [] = Some g"
| "tx_buffers e g (nb # nbs) = (case HeaderPtr nb of
     None \<Rightarrow> tx_buffers e g nbs
   | Some f \<Rightarrow> do {
       g' \<leftarrow> ntfe_tx e g f (ucast (DataLength nb));
       tx_buffers e g' nbs })"

fun tx_inspect :: "env \<Rightarrow> gs \<Rightarrow> NET_BUFFER_LIST list \<Rightarrow> gs option" where
  "tx_inspect e g [] = Some g"
| "tx_inspect e g (nbl # nbls) = do {
     g' \<leftarrow> tx_buffers e g (FirstNetBuffer nbl # NextNetBuffers nbl);
     tx_inspect e g' nbls }"

definition FilterSend_filtering :: "FLT_MODULE \<Rightarrow> NET_BUFFER_LIST list \<Rightarrow> u32 \<Rightarrow> io_flags \<Rightarrow> bool \<Rightarrow>
    env \<Rightarrow> gs \<Rightarrow> (data_call list \<times> gs) option" where
  "FilterSend_filtering m nbls port flags xsave e g = do {
     let raise = (if FLAGS_DISPATCH_LEVEL flags then [] else [KeRaiseIrqlToDpcLevel]);
     let lower = (if FLAGS_DISPATCH_LEVEL flags then [] else [KeLowerIrql]);
     g1 \<leftarrow> ntfe_tx_prepare e g;
     g2 \<leftarrow> (if xsave then tx_inspect e g1 nbls else Some g1);
     Some (raise @ lower @ [NdisFSendNetBufferLists (FilterModuleHandle m) nbls port flags], g2) }"

end
