(* ===== verification/Driver_Steps.thy ===== *)
theory Driver_Steps
  imports Driver_State
begin

text \<open>
  The driver under NDIS and its user requests: a step relation whose steps are whole handlers, enabled
  as NDIS documents them, with what NDIS believes about every module beside the driver's own books.
  \<open>reachable\<close> are the states after any sequence of steps; \<open>world_inv\<close> holds in all of them.
\<close>

section \<open>What each handler does\<close>

lemma unat_pred: "x \<noteq> 0 \<Longrightarrow> unat (x - 1 :: u32) = unat x - 1"
  by (metis unat_minus_one)

lemma unat_succ: "unat x < 4294967295 \<Longrightarrow> unat (x + 1 :: u32) = unat x + 1"
  by (simp add: unat_word_ariths)

lemma set_state_fields:
  assumes "i < length (FltModules d)"
  shows "SetModuleState i st d =
    Some (d\<lparr>FltModules := (FltModules d)[i := (FltModules d ! i)\<lparr>State := st\<rparr>]\<rparr>)"
  using assms by (simp add: SetModuleState_def cell_def)

text \<open>\<open>moved d i st d'\<close>: only the state of module \<open>i\<close> changed in the array.\<close>

definition moved :: "driver \<Rightarrow> nat \<Rightarrow> FILTER_STATE \<Rightarrow> driver \<Rightarrow> bool" where
  "moved d i st d' \<longleftrightarrow> FltModules d' = (FltModules d)[i := (FltModules d ! i)\<lparr>State := st\<rparr>]"

lemma moved_state:
  "moved d i st d' \<Longrightarrow> i < length (FltModules d) \<Longrightarrow> j < length (FltModules d) \<Longrightarrow>
   state_of d' j = (if j = i then st else state_of d j)"
  by (simp add: moved_def state_of_def nth_list_update)

lemma moved_handle:
  "moved d i st d' \<Longrightarrow> j < length (FltModules d) \<Longrightarrow> handle_of d' j = handle_of d j"
  by (cases "i = j") (simp_all add: moved_def handle_of_def)

lemma moved_running:
  "moved d i st d' \<Longrightarrow> length (FltModules d) = MAX_FILTER_MODULES \<Longrightarrow> i < MAX_FILTER_MODULES \<Longrightarrow>
   running d' = (if st = FilterStateRunning then insert i (running d) else running d - {i})"
  by (auto simp: moved_def running_set_state)

lemma moved_length: "moved d i st d' \<Longrightarrow> length (FltModules d') = length (FltModules d)"
  by (simp add: moved_def)

lemma pause_effect:
  assumes "FilterPause i d = Some (st, d')"
  shows "i < length (FltModules d)" "st = STATUS_SUCCESS" "moved d i FilterStatePaused d'"
    "FltModuleList d' = FltModuleList d" "FltModuleFreeList d' = FltModuleFreeList d"
    "SuspendSignal d' = SuspendSignal d" "\<not> DriverLock d" "\<not> DriverLock d'"
    "RunningModuleCount d' = (if state_of d i = FilterStateRunning then RunningModuleCount d - 1 else RunningModuleCount d)"
    "SuspendCompleteEvent d' \<longleftrightarrow> SuspendCompleteEvent d \<or>
       state_of d i = FilterStateRunning \<and> RunningModuleCount d' = 0"
  using assms
  by (auto simp: FilterPause_def driver_lock_defs moved_def state_of_def Let_def
      split: option.splits if_splits bind_splits)

lemma restart_effect:
  assumes "FilterRestart i d = Some (st, d')"
  shows "i < length (FltModules d)"
    "st = (if SuspendSignal d then NDIS_STATUS_PENDING else STATUS_SUCCESS)"
    "moved d i (if SuspendSignal d then FilterStateSuspended else FilterStateRunning) d'"
    "FltModuleList d' = FltModuleList d" "FltModuleFreeList d' = FltModuleFreeList d"
    "SuspendSignal d' = SuspendSignal d" "\<not> DriverLock d" "\<not> DriverLock d'"
    "RunningModuleCount d' = (if SuspendSignal d then RunningModuleCount d else RunningModuleCount d + 1)"
    "SuspendCompleteEvent d' = SuspendCompleteEvent d"
  using assms
  by (auto simp: FilterRestart_def driver_lock_defs moved_def Let_def
      split: option.splits if_splits bind_splits)

lemma detach_effect:
  assumes "FilterDetach i d = Some d'"
  shows "i < length (FltModules d)" "moved d i FilterStateDetached d'" "i \<in> set (FltModuleList d)"
    "FltModuleList d' = remove1 i (FltModuleList d)" "FltModuleFreeList d' = i # FltModuleFreeList d"
    "SuspendSignal d' = SuspendSignal d" "\<not> DriverLock d" "\<not> DriverLock d'"
    "RunningModuleCount d' = RunningModuleCount d" "SuspendCompleteEvent d' = SuspendCompleteEvent d"
  using assms
  by (auto simp: FilterDetach_def driver_lock_defs moved_def Let_def
      split: option.splits if_splits bind_splits)

text \<open>An attach links the first free module, or leaves everything but the lock as it was.\<close>

definition attached :: "NDIS_HANDLE \<Rightarrow> driver \<Rightarrow> driver \<Rightarrow> bool" where
  "attached h d d' \<longleftrightarrow> (\<exists>i free. FltModuleFreeList d = i # free \<and> i < length (FltModules d) \<and>
     d' = d\<lparr>FltModuleFreeList := free, FltModuleList := FltModuleList d @ [i],
            FltModules := (FltModules d)[i := (FltModules d ! i)
              \<lparr>FilterModuleHandle := h, State := FilterStateAttached\<rparr>],
            DriverLock := False\<rparr>)"

lemma attach_effect:
  assumes "FilterAttach medium h sa d = Some (st, d')"
  shows "media_supported medium SupportedNdisMedia \<and> \<not> DriverLock d \<and> attached h d d' \<and>
      (st = STATUS_SUCCESS \<longleftrightarrow> sa h (hd (FltModuleFreeList d)) = STATUS_SUCCESS)
    \<or> st \<noteq> STATUS_SUCCESS \<and> d' = d
    \<or> st \<noteq> STATUS_SUCCESS \<and> FltModuleFreeList d = [] \<and> d' = d\<lparr>DriverLock := True\<rparr>"
  using assms
  by (auto simp: FilterAttach_def driver_lock_defs attached_def Let_def
      split: option.splits if_splits bind_splits list.splits)

lemma suspend_effect:
  assumes "Suspend_request d = Some (calls, d')"
  shows "FltModules d' = FltModules d" "FltModuleList d' = FltModuleList d"
    "FltModuleFreeList d' = FltModuleFreeList d" "SuspendSignal d'" "\<not> DriverLock d" "\<not> DriverLock d'"
    "RunningModuleCount d' = RunningModuleCount d"
    "SuspendCompleteEvent d' \<longleftrightarrow> SuspendCompleteEvent d \<and> RunningModuleCount d = 0"
    "RunningModuleCount d \<noteq> 0 \<Longrightarrow> call_modules (FltModules d) FilterStateRunning NdisFRestartFilter
       (FltModuleList d) = Some calls"
    "RunningModuleCount d = 0 \<Longrightarrow> calls = []"
  using assms
  by (auto simp: Suspend_request_def driver_lock_defs Let_def split: if_splits bind_splits)

lemma resume_effect:
  assumes "Resume d = Some (calls, d')"
  shows "d' = d\<lparr>SuspendSignal := False\<rparr>" "\<not> DriverLock d"
    "call_modules (FltModules d) FilterStateSuspended (\<lambda>h. NdisFRestartComplete h STATUS_SUCCESS)
       (FltModuleList d) = Some calls"
  using assms
  by (auto simp: Resume_def driver_lock_defs Let_def split: if_splits bind_splits)

section \<open>The handlers keep the books\<close>

lemma card_less_u32: "card (running d) < 4294967295"
  using card_running [of d] by (simp add: MAX_FILTER_MODULES_def)

lemma pause_inv:
  assumes "FilterPause i d = Some (st, d')" "driver_inv d"
  shows "driver_inv d'"
proof -
  note e = pause_effect [OF assms(1)] and v = driver_invD [OF assms(2)]
  have r: "running d' = running d - {i}" using moved_running [OF e(3)] e(1) v(1) by simp
  have c: "state_of d i = FilterStateRunning \<longleftrightarrow> i \<in> running d" using e(1) v(1) by (simp add: running_def)
  have "unat (RunningModuleCount d') = card (running d')"
  proof (cases "i \<in> running d")
    case True
    then have "RunningModuleCount d \<noteq> 0" using v(7) by (auto simp: card_eq_0_iff)
    then show ?thesis using True e(9) c r v(7) by (simp add: unat_pred)
  next
    case False
    then show ?thesis using e(9) c r v(7) by simp
  qed
  then show ?thesis using v e r moved_length [OF e(3)] by (auto simp: driver_inv_def)
qed

lemma restart_inv:
  assumes "FilterRestart i d = Some (st, d')" "driver_inv d" "i \<in> set (FltModuleList d)" "i \<notin> running d"
  shows "driver_inv d'"
proof -
  note e = restart_effect [OF assms(1)] and v = driver_invD [OF assms(2)]
  have r: "running d' = (if SuspendSignal d then running d else insert i (running d))"
    using moved_running [OF e(3)] e(1) v(1) assms(4) by auto
  have "unat (RunningModuleCount d') = card (running d')"
    using e(9) r v(7) assms(4) card_less_u32 [of d] by (simp add: unat_succ)
  then show ?thesis using v e(4,5) r moved_length [OF e(3)] assms(3) by (auto simp: driver_inv_def)
qed

lemma detach_inv:
  assumes "FilterDetach i d = Some d'" "driver_inv d" "i \<notin> running d"
  shows "driver_inv d'"
proof -
  note e = detach_effect [OF assms(1)] and v = driver_invD [OF assms(2)]
  have r: "running d' = running d" using moved_running [OF e(2)] e(1) v(1) assms(3) by simp
  show ?thesis using v e r moved_length [OF e(2)] assms(3) by (auto simp: driver_inv_def)
qed

lemma attached_running:
  assumes "attached h d d'" "driver_inv d"
  shows "running d' = running d"
proof -
  note v = driver_invD [OF assms(2)]
  obtain i free where i: "FltModuleFreeList d = i # free"
    "FltModules d' = (FltModules d)[i := (FltModules d ! i)
       \<lparr>FilterModuleHandle := h, State := FilterStateAttached\<rparr>]"
    "i < length (FltModules d)" using assms(1) by (auto simp: attached_def)
  have "i \<notin> running d" using i(1) v(4,6) by auto
  then show ?thesis using running_set_state [OF v(1) _ i(2)] i(3) v(1) by simp
qed

lemma attached_inv:
  assumes "attached h d d'" "driver_inv d"
  shows "driver_inv d'"
  using assms(1) driver_invD [OF assms(2)] attached_running [OF assms]
  by (auto simp: driver_inv_def attached_def)

lemma driver_inv_frame:
  assumes "FltModules d' = FltModules d" "FltModuleList d' = FltModuleList d"
    "FltModuleFreeList d' = FltModuleFreeList d" "RunningModuleCount d' = RunningModuleCount d"
  shows "driver_inv d' = driver_inv d"
  using assms by (simp add: driver_inv_def running_def state_of_def)

end
