(* ===== verification/Driver_World.thy ===== *)
theory Driver_World
  imports Driver_Steps
begin

text \<open>
  The driver among its callers. NDIS attaches, restarts, pauses and detaches modules, each handler only
  in the states its documentation allows; a user request runs \<open>Suspend\<close>, the configuration and
  \<open>Resume\<close> one after the other, alone under \<open>UserMutex\<close>, with handlers between them. \<open>world_inv\<close>
  relates what NDIS believes to the driver's books, and holds in every reachable state.
\<close>

section \<open>What NDIS believes\<close>

datatype ndis_state = NdisPaused | NdisRestarting | NdisRunning

text \<open>Where the one admitted user request is.\<close>

datatype phase = Idle | Waiting | Configuring

text \<open>\<open>view\<close>: for a handle, the context registered with it and the module's state for NDIS.\<close>

record world =
  drv :: driver
  view :: "NDIS_HANDLE \<Rightarrow> (nat \<times> ndis_state) option"
  request :: phase

definition world_init :: world where
  "world_init = \<lparr>drv = driver_init, view = (\<lambda>_. None), request = Idle\<rparr>"

text \<open>
  The effect of the driver's calls: a requested restart is carried out later through the handlers; a
  completed one makes a pending module run.
\<close>

definition ndis_apply :: "ndis_call \<Rightarrow> (NDIS_HANDLE \<Rightarrow> (nat \<times> ndis_state) option) \<Rightarrow>
    NDIS_HANDLE \<Rightarrow> (nat \<times> ndis_state) option" where
  "ndis_apply c v = (case c of
     NdisFRestartFilter h \<Rightarrow> v
   | NdisFRestartComplete h st \<Rightarrow> (case v h of
       Some (i, NdisRestarting) \<Rightarrow> v(h \<mapsto> (i, if st = STATUS_SUCCESS then NdisRunning else NdisPaused))
     | _ \<Rightarrow> v))"

inductive drv_step :: "world \<Rightarrow> world \<Rightarrow> bool" where
  attach: "view w h = None \<Longrightarrow> FilterAttach medium h sa (drv w) = Some (STATUS_SUCCESS, d) \<Longrightarrow>
    drv_step w (w\<lparr>drv := d, view := (view w)(h \<mapsto> (last (FltModuleList d), NdisPaused))\<rparr>)"
| attach_failed: "view w h = None \<Longrightarrow> FilterAttach medium h sa (drv w) = Some (st, d) \<Longrightarrow>
    st \<noteq> STATUS_SUCCESS \<Longrightarrow> drv_step w (w\<lparr>drv := d\<rparr>)"
| restarted: "view w h = Some (i, NdisPaused) \<Longrightarrow> FilterRestart i (drv w) = Some (STATUS_SUCCESS, d) \<Longrightarrow>
    drv_step w (w\<lparr>drv := d, view := (view w)(h \<mapsto> (i, NdisRunning))\<rparr>)"
| restart_pending: "view w h = Some (i, NdisPaused) \<Longrightarrow>
    FilterRestart i (drv w) = Some (NDIS_STATUS_PENDING, d) \<Longrightarrow>
    drv_step w (w\<lparr>drv := d, view := (view w)(h \<mapsto> (i, NdisRestarting))\<rparr>)"
| pause: "view w h = Some (i, NdisRunning) \<Longrightarrow> FilterPause i (drv w) = Some (STATUS_SUCCESS, d) \<Longrightarrow>
    drv_step w (w\<lparr>drv := d, view := (view w)(h \<mapsto> (i, NdisPaused))\<rparr>)"
| detach: "view w h = Some (i, NdisPaused) \<Longrightarrow> FilterDetach i (drv w) = Some d \<Longrightarrow>
    drv_step w (w\<lparr>drv := d, view := (view w)(h := None)\<rparr>)"
| suspend: "request w = Idle \<Longrightarrow> Suspend_request (drv w) = Some (calls, d) \<Longrightarrow>
    drv_step w (w\<lparr>drv := d, view := fold ndis_apply calls (view w), request := Waiting\<rparr>)"
| suspended: "request w = Waiting \<Longrightarrow> Suspend_wait (drv w) = Some d \<Longrightarrow>
    drv_step w (w\<lparr>drv := d, request := Configuring\<rparr>)"
| resume: "request w = Configuring \<Longrightarrow> Resume (drv w) = Some (calls, d) \<Longrightarrow>
    drv_step w (w\<lparr>drv := d, view := fold ndis_apply calls (view w), request := Idle\<rparr>)"

inductive reachable :: "world \<Rightarrow> bool" where
  start: "reachable world_init"
| step: "reachable w \<Longrightarrow> drv_step w w' \<Longrightarrow> reachable w'"

section \<open>The invariant\<close>

text \<open>Which states of the driver go with a state for NDIS.\<close>

definition agrees :: "ndis_state \<Rightarrow> FILTER_STATE \<Rightarrow> bool" where
  "agrees s st \<longleftrightarrow> (case s of
     NdisPaused \<Rightarrow> st = FilterStateAttached \<or> st = FilterStatePaused
   | NdisRestarting \<Rightarrow> st = FilterStateSuspended
   | NdisRunning \<Rightarrow> st = FilterStateRunning \<or> st = FilterStateSuspended)"

definition view_inv :: "driver \<Rightarrow> (NDIS_HANDLE \<Rightarrow> (nat \<times> ndis_state) option) \<Rightarrow> bool" where
  "view_inv d v \<longleftrightarrow>
     (\<forall>h i s. v h = Some (i, s) \<longrightarrow>
        i \<in> set (FltModuleList d) \<and> handle_of d i = h \<and> agrees s (state_of d i)) \<and>
     (\<forall>i\<in>running d. \<exists>h. v h = Some (i, NdisRunning))"

definition request_inv :: "driver \<Rightarrow> phase \<Rightarrow> bool" where
  "request_inv d p \<longleftrightarrow> (SuspendSignal d \<longleftrightarrow> p \<noteq> Idle) \<and>
     (p = Waiting \<and> SuspendCompleteEvent d \<longrightarrow> RunningModuleCount d = 0) \<and>
     (p = Configuring \<longrightarrow> RunningModuleCount d = 0 \<and> SuspendCompleteEvent d)"

definition world_inv :: "world \<Rightarrow> bool" where
  "world_inv w \<longleftrightarrow> driver_inv (drv w) \<and> view_inv (drv w) (view w) \<and> request_inv (drv w) (request w) \<and>
     (request w = Idle \<longrightarrow> (\<forall>h i. view w h \<noteq> Some (i, NdisRestarting)))"

lemma world_invD:
  assumes "world_inv w"
  shows "driver_inv (drv w)" "view_inv (drv w) (view w)" "request_inv (drv w) (request w)"
    "request w = Idle \<Longrightarrow> view w h \<noteq> Some (i, NdisRestarting)"
  using assms by (simp_all add: world_inv_def)

lemma view_invD:
  assumes "view_inv d v" "v h = Some (i, s)"
  shows "i \<in> set (FltModuleList d)" "handle_of d i = h" "agrees s (state_of d i)"
  using assms by (auto simp: view_inv_def)

lemma linked_less: "driver_inv d \<Longrightarrow> i \<in> set (FltModuleList d) \<Longrightarrow> i < MAX_FILTER_MODULES"
  using driver_invD(5) by blast

text \<open>One module moves to another state, for the driver and for NDIS.\<close>

lemma view_inv_moved:
  assumes v: "view_inv d v" and d: "driver_inv d" and h: "v h = Some (i, s)"
    and m: "moved d i st d'" and l: "FltModuleList d' = FltModuleList d"
    and a: "agrees s' st" and r: "st = FilterStateRunning \<Longrightarrow> s' = NdisRunning"
  shows "view_inv d' (v(h \<mapsto> (i, s')))"
proof -
  note vd = view_invD [OF v] and len = driver_invD(1) [OF d]
  have i: "i \<in> set (FltModuleList d)" "handle_of d i = h" by (rule vd [OF h])+
  have il: "i < MAX_FILTER_MODULES" by (rule linked_less [OF d i(1)])
  have one: "h' = h" if "v h' = Some (i, t)" for h' t using vd(2) [OF that] i(2) by simp
  have st: "state_of d' j = (if j = i then st else state_of d j)" if "j < MAX_FILTER_MODULES" for j
    using moved_state [OF m] il len that by simp
  have hd: "handle_of d' j = handle_of d j" if "j < MAX_FILTER_MODULES" for j
    using moved_handle [OF m] len that by simp
  have "j \<in> set (FltModuleList d') \<and> handle_of d' j = h' \<and> agrees t (state_of d' j)"
    if e: "(v(h \<mapsto> (i, s'))) h' = Some (j, t)" for h' j t
  proof (cases "h' = h")
    case True
    then show ?thesis using e i hd [OF il] st [OF il] a l by simp
  next
    case False
    then have e': "v h' = Some (j, t)" using e by simp
    have jl: "j < MAX_FILTER_MODULES" by (rule linked_less [OF d vd(1) [OF e']])
    have "j \<noteq> i" using one e' False by blast
    then show ?thesis using vd [OF e'] hd [OF jl] st [OF jl] l by simp
  qed
  moreover have "\<exists>h'. (v(h \<mapsto> (i, s'))) h' = Some (j, NdisRunning)" if j: "j \<in> running d'" for j
  proof (cases "j = i")
    case True
    then have "st = FilterStateRunning" using j moved_running [OF m len il] by (auto split: if_splits)
    then show ?thesis using r True by auto
  next
    case False
    then have "j \<in> running d" using j moved_running [OF m len il] by (auto split: if_splits)
    then obtain h' where "v h' = Some (j, NdisRunning)" using v by (auto simp: view_inv_def)
    moreover have "h' \<noteq> h" using calculation h False by auto
    ultimately show ?thesis by auto
  qed
  ultimately show ?thesis by (simp add: view_inv_def)
qed

lemma not_running_paused:
  assumes "view_inv d v" "v h = Some (i, NdisPaused)"
  shows "i \<notin> running d"
  using view_invD(3) [OF assms] by (auto simp: agrees_def running_def)

text \<open>A completed restart is the only change \<open>Resume\<close> asks for.\<close>

definition completions :: "driver \<Rightarrow> NDIS_HANDLE set" where
  "completions d = {handle_of d i | i. i \<in> set (FltModuleList d) \<and> state_of d i = FilterStateSuspended}"

lemma apply_completions:
  "fold ndis_apply (map (\<lambda>h. NdisFRestartComplete h STATUS_SUCCESS) hs) v h =
    (case v h of Some (i, NdisRestarting) \<Rightarrow> if h \<in> set hs then Some (i, NdisRunning) else v h | _ \<Rightarrow> v h)"
  by (induction hs arbitrary: v)
    (auto simp: ndis_apply_def split: option.splits ndis_state.splits prod.splits)

lemma apply_restarts: "fold ndis_apply (map NdisFRestartFilter hs) v = v"
  by (induction hs arbitrary: v) (simp_all add: ndis_apply_def)

lemma call_modules_linked:
  assumes "driver_inv d"
  shows "call_modules (FltModules d) st call (FltModuleList d) =
    Some (map call (map (handle_of d) (filter (\<lambda>i. state_of d i = st) (FltModuleList d))))"
proof -
  have "\<forall>i\<in>set (FltModuleList d). i < length (FltModules d)"
    using driver_invD(1,5) [OF assms] by auto
  then show ?thesis by (simp add: call_modules_eq handle_of_def state_of_def comp_def)
qed

text \<open>After \<open>Resume\<close> NDIS holds every module that was pending for running.\<close>

lemma resumed_view:
  assumes r: "Resume d = Some (calls, d')" and d: "driver_inv d" and v: "view_inv d v"
  shows "fold ndis_apply calls v h =
    (case v h of Some (i, NdisRestarting) \<Rightarrow> Some (i, NdisRunning) | _ \<Rightarrow> v h)"
proof -
  let ?hs = "map (handle_of d) (filter (\<lambda>i. state_of d i = FilterStateSuspended) (FltModuleList d))"
  have c: "calls = map (\<lambda>h. NdisFRestartComplete h STATUS_SUCCESS) ?hs"
    using resume_effect(3) [OF r] call_modules_linked [OF d] by simp
  have "h \<in> set ?hs" if "v h = Some (i, NdisRestarting)" for i
    using view_invD [OF v that] by (auto simp: agrees_def)
  then show ?thesis by (simp only: c apply_completions) (auto split: option.splits ndis_state.splits)
qed

end
