(* ===== verification/Driver_Inv.thy ===== *)
theory Driver_Inv
  imports Driver_World
begin

text \<open>
  Every step of the driver keeps \<open>world_inv\<close>: one lemma per step, and the rule induction over the
  reachable states.
\<close>

lemma count_zero:
  assumes "driver_inv d"
  shows "RunningModuleCount d = 0 \<longleftrightarrow> running d = {}"
  using driver_invD(7) [OF assms] by (simp add: unat_eq_0 [symmetric])

lemma world_inv_init: "world_inv world_init"
  by (simp add: world_inv_def world_init_def driver_inv_init view_inv_def request_inv_def)
    (simp add: driver_init_def running_def state_of_def)

lemma world_invI:
  assumes "driver_inv (drv w)" "view_inv (drv w) (view w)" "request_inv (drv w) (request w)"
    and "request w = Idle \<Longrightarrow> \<forall>h i. view w h \<noteq> Some (i, NdisRestarting)"
  shows "world_inv w"
  using assms by (simp add: world_inv_def)

lemma attached_view:
  assumes a: "attached h d d'" and d: "driver_inv d" and v: "view_inv d v"
  shows "view_inv d' v" "v h = None \<Longrightarrow> view_inv d' (v(h \<mapsto> (last (FltModuleList d'), NdisPaused)))"
proof -
  obtain i free where i: "FltModuleFreeList d = i # free" "i < length (FltModules d)"
    "d' = d\<lparr>FltModuleFreeList := free, FltModuleList := FltModuleList d @ [i],
       FltModules := (FltModules d)[i := (FltModules d ! i)
              \<lparr>FilterModuleHandle := h, State := FilterStateAttached\<rparr>], DriverLock := False\<rparr>"
    using a by (auto simp: attached_def)
  have fresh: "i \<notin> set (FltModuleList d)" using i(1) driver_invD(4) [OF d] by auto
  have same: "handle_of d' j = handle_of d j \<and> state_of d' j = state_of d j"
    if "j \<in> set (FltModuleList d)" for j
    using that fresh by (cases "j = i") (auto simp: i(3) handle_of_def state_of_def)
  have new: "handle_of d' i = h" "state_of d' i = FilterStateAttached" "last (FltModuleList d') = i"
    using i(2) by (simp_all add: i(3) handle_of_def state_of_def)
  have l: "set (FltModuleList d') = insert i (set (FltModuleList d))" by (simp add: i(3))
  note r = attached_running [OF a d]
  show v': "view_inv d' v"
    using v same l r by (simp add: view_inv_def)
  show "view_inv d' (v(h \<mapsto> (last (FltModuleList d'), NdisPaused)))" if "v h = None"
    using v' that new l unfolding view_inv_def by (auto simp: agrees_def) (metis option.distinct(1))
qed

lemma request_inv_frame:
  assumes "SuspendSignal d' = SuspendSignal d" "RunningModuleCount d' = RunningModuleCount d"
    "SuspendCompleteEvent d' = SuspendCompleteEvent d"
  shows "request_inv d' p = request_inv d p"
  using assms by (simp add: request_inv_def)

lemma attached_request: "attached h d d' \<Longrightarrow> request_inv d' p = request_inv d p"
  by (rule request_inv_frame) (auto simp: attached_def)

lemma pause_request:
  assumes p: "FilterPause i d = Some (st, d')" and d: "driver_inv d" and r: "request_inv d ph"
  shows "request_inv d' ph"
proof (cases "state_of d i = FilterStateRunning")
  case True
  note e = pause_effect [OF p]
  have "i \<in> running d" using True e(1) driver_invD(1) [OF d] by (simp add: running_def)
  then have "RunningModuleCount d \<noteq> 0" using count_zero [OF d] by auto
  then show ?thesis using r e(6,9,10) True by (auto simp: request_inv_def)
next
  case False
  then show ?thesis using r pause_effect(6,9,10) [OF p] by (auto simp: request_inv_def)
qed

lemma restart_request:
  assumes "FilterRestart i d = Some (st, d')" and "request_inv d ph"
  shows "request_inv d' ph"
  using restart_effect(6,9,10) [OF assms(1)] assms(2) by (auto simp: request_inv_def)

text \<open>The steps.\<close>

lemma step_detach:
  assumes w: "world_inv w" and h: "view w h = Some (i, NdisPaused)" and s: "FilterDetach i (drv w) = Some d"
  shows "world_inv (w\<lparr>drv := d, view := (view w)(h := None)\<rparr>)"
proof -
  note inv = world_invD [OF w] and e = detach_effect [OF s]
  have nr: "i \<notin> running (drv w)" by (rule not_running_paused [OF inv(2) h])
  have d: "driver_inv d" by (rule detach_inv [OF s inv(1) nr])
  note v = view_invD [OF inv(2)] and len = driver_invD(1) [OF inv(1)]
  have il: "i < length (FltModules (drv w))" by (rule e(1))
  have "running d = running (drv w)" using moved_running [OF e(2) len] il len nr by simp
  then have run: "\<forall>j\<in>running d. \<exists>h'. ((view w)(h := None)) h' = Some (j, NdisRunning)"
    using inv(2) nr h by (auto simp: view_inv_def) (metis Pair_inject ndis_state.distinct(3) option.inject)
  have "j \<in> set (FltModuleList d) \<and> handle_of d j = h' \<and> agrees t (state_of d j)"
    if e': "((view w)(h := None)) h' = Some (j, t)" for h' j t
  proof -
    have hv: "view w h' = Some (j, t)" "h' \<noteq> h" using e' by (auto split: if_splits)
    have "j \<noteq> i" using v(2) [OF hv(1)] v(2) [OF h] hv(2) by auto
    moreover have "j < length (FltModules (drv w))" using linked_less [OF inv(1) v(1) [OF hv(1)]] len by simp
    ultimately show ?thesis
      using v [OF hv(1)] moved_state [OF e(2) il] moved_handle [OF e(2)] e(4) by simp
  qed
  with run have "view_inv d ((view w)(h := None))" by (simp add: view_inv_def)
  moreover have "request_inv d (request w)"
    using inv(3) request_inv_frame [OF e(6,9,10)] by simp
  ultimately show ?thesis
    using d by (intro world_invI) (auto simp: inv(4))
qed

lemma step_pause:
  assumes w: "world_inv w" and h: "view w h = Some (i, NdisRunning)"
    and s: "FilterPause i (drv w) = Some (STATUS_SUCCESS, d)"
  shows "world_inv (w\<lparr>drv := d, view := (view w)(h \<mapsto> (i, NdisPaused))\<rparr>)"
proof -
  note inv = world_invD [OF w] and e = pause_effect [OF s]
  have "view_inv d ((view w)(h \<mapsto> (i, NdisPaused)))"
    by (rule view_inv_moved [OF inv(2,1) h e(3,4)]) (simp_all add: agrees_def)
  then show ?thesis
    using pause_inv [OF s inv(1)] pause_request [OF s inv(1,3)] inv(4)
    by (intro world_invI) auto
qed

lemma step_restart:
  assumes w: "world_inv w" and h: "view w h = Some (i, NdisPaused)"
    and s: "FilterRestart i (drv w) = Some (st, d)"
    and n: "n = (if st = STATUS_SUCCESS then NdisRunning else NdisRestarting)"
  shows "world_inv (w\<lparr>drv := d, view := (view w)(h \<mapsto> (i, n))\<rparr>)"
proof -
  note inv = world_invD [OF w] and e = restart_effect [OF s]
  have "view_inv d ((view w)(h \<mapsto> (i, n)))"
    by (rule view_inv_moved [OF inv(2,1) h e(3,4)]) (auto simp: agrees_def n e(2))
  moreover have "driver_inv d"
    by (rule restart_inv [OF s inv(1) view_invD(1) [OF inv(2) h] not_running_paused [OF inv(2) h]])
  moreover have "n = NdisRunning" if "request w = Idle" using that inv(3) e(2) n by (simp add: request_inv_def)
  ultimately show ?thesis
    using restart_request [OF s inv(3)] inv(4) by (intro world_invI) auto
qed

lemma step_suspend:
  assumes w: "world_inv w" and s: "Suspend_request (drv w) = Some (calls, d)"
  shows "world_inv (w\<lparr>drv := d, view := fold ndis_apply calls (view w), request := Waiting\<rparr>)"
proof -
  note inv = world_invD [OF w] and e = suspend_effect [OF s]
  have "\<exists>hs. calls = map NdisFRestartFilter hs"
  proof (cases "RunningModuleCount (drv w) = 0")
    case False
    then show ?thesis
      using e(9) unfolding call_modules_linked [OF inv(1)] by blast
  qed (simp add: e(10))
  then have "fold ndis_apply calls (view w) = view w" using apply_restarts by fastforce
  moreover have "driver_inv d" using inv(1) driver_inv_frame [OF e(1-3,7)] by simp
  moreover have "view_inv d (view w)" using inv(2) e(1,2) by (simp add: view_inv_def handle_of_def state_of_def running_def)
  moreover have "request_inv d Waiting" using e(4,7,8) by (auto simp: request_inv_def)
  ultimately show ?thesis by (intro world_invI) auto
qed

lemma step_resume:
  assumes w: "world_inv w" and s: "Resume (drv w) = Some (calls, d)"
  shows "world_inv (w\<lparr>drv := d, view := fold ndis_apply calls (view w), request := Idle\<rparr>)"
proof -
  note inv = world_invD [OF w] and e = resume_effect [OF s]
  let ?v = "fold ndis_apply calls (view w)"
  note v = resumed_view [OF s inv(1,2)]
  have ag: "agrees NdisRunning st" if "agrees NdisRestarting st" for st using that by (simp add: agrees_def)
  have fr: "handle_of d = handle_of (drv w)" "state_of d = state_of (drv w)" "running d = running (drv w)"
    "FltModuleList d = FltModuleList (drv w)"
    by (simp_all add: fun_eq_iff handle_of_def state_of_def running_def e(1))
  have "view_inv d ?v"
    unfolding view_inv_def fr
  proof (intro conjI allI impI ballI)
    fix h i t assume a: "?v h = Some (i, t)"
    then consider "view w h = Some (i, t)" | "view w h = Some (i, NdisRestarting)" "t = NdisRunning"
      by (auto simp: v split: option.splits ndis_state.splits)
    then have "i \<in> set (FltModuleList (drv w)) \<and> handle_of (drv w) i = h \<and> agrees t (state_of (drv w) i)"
      using view_invD [OF inv(2)] ag by cases auto
    then show "i \<in> set (FltModuleList (drv w))" "handle_of (drv w) i = h" "agrees t (state_of (drv w) i)"
      by simp_all
  next
    fix i assume "i \<in> running (drv w)"
    then obtain h where "view w h = Some (i, NdisRunning)" using inv(2) by (auto simp: view_inv_def)
    then have "?v h = Some (i, NdisRunning)" by (simp add: v)
    then show "\<exists>h. ?v h = Some (i, NdisRunning)" by blast
  qed
  moreover have "driver_inv d" using inv(1) driver_inv_frame [of d "drv w"] by (simp add: e(1))
  moreover have "request_inv d Idle" by (simp add: e(1) request_inv_def)
  moreover have "?v h \<noteq> Some (i, NdisRestarting)" for h i
    by (auto simp: v split: option.splits ndis_state.splits)
  ultimately show ?thesis by (intro world_invI) auto
qed

lemma step_attach:
  assumes w: "world_inv w" and h: "view w h = None"
    and s: "FilterAttach medium h sa (drv w) = Some (st, d)"
  shows "world_inv (w\<lparr>drv := d\<rparr>)"
    "st = STATUS_SUCCESS \<Longrightarrow>
       world_inv (w\<lparr>drv := d, view := (view w)(h \<mapsto> (last (FltModuleList d), NdisPaused))\<rparr>)"
proof -
  note inv = world_invD [OF w]
  consider (link) "attached h (drv w) d" | (same) "st \<noteq> STATUS_SUCCESS" "d = drv w"
    | (leak) "st \<noteq> STATUS_SUCCESS" "d = drv w\<lparr>DriverLock := True\<rparr>"
    using attach_effect [OF s] by blast
  then show "world_inv (w\<lparr>drv := d\<rparr>)"
  proof cases
    case link
    then show ?thesis
      using attached_inv [OF link inv(1)] attached_view(1) [OF link inv(1,2)] attached_request [OF link] inv
      by (intro world_invI) simp_all
  next
    case same
    then show ?thesis using w by simp
  next
    case leak
    have "driver_inv d = driver_inv (drv w)" "request_inv d p = request_inv (drv w) p" for p
      by (rule driver_inv_frame request_inv_frame; simp add: leak)+
    moreover have "view_inv d v = view_inv (drv w) v" for v
      by (simp add: leak view_inv_def handle_of_def state_of_def running_def)
    ultimately show ?thesis using inv by (intro world_invI) simp_all
  qed
  assume "st = STATUS_SUCCESS"
  then have link: "attached h (drv w) d" using attach_effect [OF s] by blast
  then show "world_inv (w\<lparr>drv := d, view := (view w)(h \<mapsto> (last (FltModuleList d), NdisPaused))\<rparr>)"
   
    using attached_inv [OF link inv(1)] attached_view(2) [OF link inv(1,2) h] attached_request [OF link] inv
    by (intro world_invI) auto
qed

lemma step_suspended:
  assumes w: "world_inv w" and q: "request w = Waiting" and s: "Suspend_wait (drv w) = Some d"
  shows "world_inv (w\<lparr>drv := d, request := Configuring\<rparr>)"
proof -
  have d: "d = drv w" "SuspendCompleteEvent (drv w)" using s by (auto simp: Suspend_wait_def split: if_splits)
  note inv = world_invD [OF w]
  have "request_inv d Configuring" using inv(3) d q by (simp add: request_inv_def)
  then show ?thesis using inv d by (intro world_invI) simp_all
qed

lemma drv_step_inv: "drv_step w w' \<Longrightarrow> world_inv w \<Longrightarrow> world_inv w'"
proof (induction rule: drv_step.induct)
  case (attach w h medium sa d)
  then show ?case using step_attach(2) by blast
next
  case (attach_failed w h medium sa st d)
  then show ?case using step_attach(1) by blast
next
  case (restarted w h i d)
  then show ?case by (intro step_restart [where st = STATUS_SUCCESS]) simp_all
next
  case (restart_pending w h i d)
  then show ?case by (intro step_restart [where st = NDIS_STATUS_PENDING]) simp_all
next
  case (pause w h i d)
  then show ?case using step_pause by blast
next
  case (detach w h i d)
  then show ?case using step_detach by blast
next
  case (suspend w calls d)
  then show ?case using step_suspend by blast
next
  case (suspended w d)
  then show ?case using step_suspended by blast
next
  case (resume w calls d)
  then show ?case using step_resume by blast
qed

lemma reachable_inv: "reachable w \<Longrightarrow> world_inv w"
  by (induction rule: reachable.induct) (auto intro: world_inv_init drv_step_inv)

end
