(* ===== verification/Driver_Props.thy ===== *)
theory Driver_Props
  imports Driver_Inv "HOL-Library.Multiset"
begin

text \<open>
  Properties of the kernel driver's module handling and of suspension: what holds in every reachable
  state, when a suspension ends, and what a reconfiguration can rely on.
\<close>

section \<open>A run of the driver\<close>

text \<open>One adapter is attached and restarted; a request suspends it, and finds it again afterwards.\<close>

definition ok_attr :: "NDIS_HANDLE \<Rightarrow> nat \<Rightarrow> STATUS" where "ok_attr h i = STATUS_SUCCESS"

definition demo_module :: "NDIS_HANDLE \<Rightarrow> FILTER_STATE \<Rightarrow> FLT_MODULE list" where
  "demo_module h st = (FltModules driver_init)[0 := \<lparr>FilterModuleHandle = h, State = st\<rparr>]"

text \<open>The driver with one module linked, by its state, counter, signal and event.\<close>

definition demo_driver :: "FILTER_STATE \<Rightarrow> u32 \<Rightarrow> bool \<Rightarrow> bool \<Rightarrow> driver" where
  "demo_driver st n sig ev =
     \<lparr>FltModules = demo_module 1 st, FltModuleList = [0], FltModuleFreeList = [1..<8],
      RunningModuleCount = n, SuspendSignal = sig, SuspendCompleteEvent = ev, DriverLock = False\<rparr>"

definition demo_world :: "FILTER_STATE \<Rightarrow> u32 \<Rightarrow> bool \<Rightarrow> bool \<Rightarrow> ndis_state \<Rightarrow> phase \<Rightarrow> world" where
  "demo_world st n sig ev s p = \<lparr>drv = demo_driver st n sig ev, view = [1 \<mapsto> (0, s)], request = p\<rparr>"

lemma demo_cell: "cell (demo_module 1 st) 0 = Some \<lparr>FilterModuleHandle = 1, State = st\<rparr>"
  by (simp add: demo_module_def driver_init_def MAX_FILTER_MODULES_def cell_def)

lemma demo_update: "(demo_module 1 st)[0 := \<lparr>FilterModuleHandle = 1, State = st'\<rparr>] = demo_module 1 st'"
  by (simp add: demo_module_def)

lemmas demo_defs = demo_driver_def demo_cell demo_update driver_lock_defs Let_def

lemma demo_handlers:
  "FilterRestart 0 (demo_driver st n False ev) =
     Some (STATUS_SUCCESS, demo_driver FilterStateRunning (n + 1) False ev)"
  "FilterRestart 0 (demo_driver st n True ev) =
     Some (NDIS_STATUS_PENDING, demo_driver FilterStateSuspended n True ev)"
  "FilterPause 0 (demo_driver FilterStateRunning 1 sig ev) =
     Some (STATUS_SUCCESS, demo_driver FilterStatePaused 0 sig True)"
  "Suspend_request (demo_driver FilterStateRunning 1 sig ev) =
     Some ([NdisFRestartFilter 1], demo_driver FilterStateRunning 1 True False)"
  "Suspend_request (demo_driver st 0 sig ev) = Some ([], demo_driver st 0 True ev)"
  "Suspend_wait (demo_driver st n sig True) = Some (demo_driver st n sig True)"
  "Resume (demo_driver FilterStateSuspended n sig ev) =
     Some ([NdisFRestartComplete 1 STATUS_SUCCESS], demo_driver FilterStateSuspended n False ev)"
  by (simp_all add: FilterRestart_def FilterPause_def suspension_defs demo_defs)

lemma demo_attach: "FilterAttach NdisMedium802_3 1 ok_attr driver_init =
   Some (STATUS_SUCCESS, demo_driver FilterStateAttached 0 False False)"
proof -
  have "FltModuleFreeList driver_init = 0 # [1..<8]" "length (FltModules driver_init) = 8"
    by (simp add: driver_init_free MAX_FILTER_MODULES_def upt_rec)
      (simp add: driver_init_def MAX_FILTER_MODULES_def)
  then show ?thesis
    by (simp add: FilterAttach_def SupportedNdisMedia_def driver_lock_defs cell_def ok_attr_def
        demo_driver_def demo_module_def Let_def) (simp add: driver_init_def)
qed

lemma step_to: "reachable w \<Longrightarrow> drv_step w w' \<Longrightarrow> w' = w'' \<Longrightarrow> reachable w''"
  by (auto intro: reachable.step)

lemma demo_reach_attached: "reachable (demo_world FilterStateAttached 0 False False NdisPaused Idle)"
  by (rule step_to [OF reachable.start drv_step.attach [where h = 1 and medium = NdisMedium802_3 and sa = ok_attr]])
    (auto simp: world_init_def demo_attach demo_world_def demo_driver_def)

lemma demo_reach_running: "reachable (demo_world FilterStateRunning 1 False False NdisRunning Idle)"
  by (rule step_to [OF demo_reach_attached drv_step.restarted [where h = 1 and i = 0]])
    (auto simp: demo_world_def demo_handlers)

lemma demo_reach_waiting: "reachable (demo_world FilterStateRunning 1 True False NdisRunning Waiting)"
  by (rule step_to [OF demo_reach_running drv_step.suspend])
    (auto simp: demo_world_def demo_handlers ndis_apply_def)

lemma demo_reach_paused: "reachable (demo_world FilterStatePaused 0 True True NdisPaused Waiting)"
  by (rule step_to [OF demo_reach_waiting drv_step.pause [where h = 1 and i = 0]])
    (auto simp: demo_world_def demo_handlers)

lemma demo_reach_pending: "reachable (demo_world FilterStateSuspended 0 True True NdisRestarting Waiting)"
  by (rule step_to [OF demo_reach_paused drv_step.restart_pending [where h = 1 and i = 0]])
    (auto simp: demo_world_def demo_handlers)

lemma demo_reach_configuring:
  "reachable (demo_world FilterStateSuspended 0 True True NdisRestarting Configuring)"
  by (rule step_to [OF demo_reach_pending drv_step.suspended])
    (auto simp: demo_world_def demo_handlers)

section \<open>What holds in every reachable state\<close>

text \<open>
  C30: In every state the driver can reach, its eight modules are split without overlap between the list
  of modules and the free list, \<open>RunningModuleCount\<close> is the number of modules in state Running and never
  wraps, every module NDIS knows is linked under its handle in a state that fits, and no restart is left
  pending while no request is being served.
\<close>

theorem driver_books_balance:
  assumes "reachable w"
  shows "distinct (FltModuleList (drv w) @ FltModuleFreeList (drv w)) \<and>
    set (FltModuleList (drv w)) \<union> set (FltModuleFreeList (drv w)) = {..<MAX_FILTER_MODULES} \<and>
    unat (RunningModuleCount (drv w)) = card (running (drv w)) \<and> card (running (drv w)) \<le> MAX_FILTER_MODULES \<and>
    (\<forall>h i s. view w h = Some (i, s) \<longrightarrow> i \<in> set (FltModuleList (drv w)) \<and> handle_of (drv w) i = h \<and>
      agrees s (state_of (drv w) i)) \<and>
    (request w = Idle \<longrightarrow> (\<forall>h i. view w h \<noteq> Some (i, NdisRestarting)))"
  using world_invD [OF reachable_inv [OF assms]] card_running [of "drv w"]
  by (simp add: driver_inv_def view_inv_def)

theorem driver_books_balance_witness:
  "unat (RunningModuleCount (drv (demo_world FilterStateRunning 1 False False NdisRunning Idle))) =
     card (running (drv (demo_world FilterStateRunning 1 False False NdisRunning Idle))) \<and>
   handle_of (demo_driver FilterStateRunning 1 False False) 0 = 1 \<and>
   agrees NdisRunning (state_of (demo_driver FilterStateRunning 1 False False) 0)"
  using driver_books_balance [OF demo_reach_running] by (simp add: demo_world_def)

text \<open>
  While the engine is being configured the driver records no module as Running, its counter is zero, and
  a module that NDIS restarts now is held pending. What NDIS believes may differ
  (\<open>resumed_module_escapes_suspend\<close>).
\<close>

theorem configuring_none_running:
  assumes "reachable w" "request w = Configuring"
  shows "running (drv w) = {} \<and> RunningModuleCount (drv w) = 0 \<and>
    (\<forall>i st d. FilterRestart i (drv w) = Some (st, d) \<longrightarrow> st = NDIS_STATUS_PENDING \<and> running d = {})"
proof -
  note inv = world_invD [OF reachable_inv [OF assms(1)]]
  have z: "RunningModuleCount (drv w) = 0" "SuspendSignal (drv w)"
    using inv(3) assms(2) by (simp_all add: request_inv_def)
  then have e: "running (drv w) = {}" using count_zero [OF inv(1)] by simp
  have "st = NDIS_STATUS_PENDING \<and> running d = {}" if r: "FilterRestart i (drv w) = Some (st, d)" for i st d
  proof -
    note x = restart_effect [OF r]
    show ?thesis using x(1-3) moved_running [OF x(3)] driver_invD(1) [OF inv(1)] e z by simp
  qed
  with z e show ?thesis by blast
qed

theorem configuring_none_running_witness:
  "running (demo_driver FilterStateSuspended 0 True True) = {} \<and>
   FilterRestart 0 (demo_driver FilterStateSuspended 0 True True) =
     Some (NDIS_STATUS_PENDING, demo_driver FilterStateSuspended 0 True True)"
  using configuring_none_running [OF demo_reach_configuring] by (simp add: demo_world_def demo_handlers)

section \<open>When a suspension ends\<close>

text \<open>The pauses NDIS carries out for the restarts it was asked for.\<close>

definition pause_one :: "driver \<Rightarrow> nat \<Rightarrow> driver option" where
  "pause_one d i = map_option snd (FilterPause i d)"

lemma pause_works:
  assumes "\<not> DriverLock d" "i < length (FltModules d)"
  shows "\<exists>d'. FilterPause i d = Some (STATUS_SUCCESS, d')"
  using assms by (auto simp: FilterPause_def driver_lock_defs cell_def Let_def)

lemma pause_all:
  assumes "driver_inv d" "\<not> DriverLock d" "set is = running d" "distinct is" "is \<noteq> []"
  shows "\<exists>d'. fold_opt pause_one d is = Some d' \<and> SuspendCompleteEvent d' \<and> driver_inv d' \<and>
    running d' = {} \<and> \<not> DriverLock d'"
  using assms
proof (induction "is" arbitrary: d)
  case Nil
  then show ?case by simp
next
  case (Cons i "is")
  have len: "length (FltModules d) = MAX_FILTER_MODULES" by (rule driver_invD(1) [OF Cons.prems(1)])
  have i: "i \<in> running d" using Cons.prems(3) by auto
  then have il: "i < length (FltModules d)" and st: "state_of d i = FilterStateRunning"
    using len by (simp_all add: running_def)
  obtain d' where p: "FilterPause i d = Some (STATUS_SUCCESS, d')"
    using pause_works [OF Cons.prems(2) il] by blast
  note e = pause_effect [OF p] and v = pause_inv [OF p Cons.prems(1)]
  have r: "running d' = set is"
    using moved_running [OF e(3) len] il len Cons.prems(3,4) by auto
  have one: "pause_one d i = Some d'" by (simp add: pause_one_def p)
  show ?case
  proof (cases "is = []")
    case True
    then have "RunningModuleCount d' = 0" using count_zero [OF v] r by simp
    then show ?thesis using e(8,10) st v r True one by auto
  next
    case False
    then show ?thesis using Cons.IH [OF v e(8) r [symmetric]] Cons.prems(4) one by auto
  qed
qed

text \<open>
  C31: A suspension of running modules ends: the driver asks NDIS to restart each of them exactly once,
  and once all of them have been paused, in whatever order, the wait returns with none running.
\<close>

theorem suspend_returns:
  assumes "reachable w" "RunningModuleCount (drv w) \<noteq> 0"
    and "Suspend_request (drv w) = Some (calls, d)" and "set is = running (drv w)" "distinct is"
  shows "mset calls = image_mset (NdisFRestartFilter \<circ> handle_of (drv w)) (mset_set (running (drv w))) \<and>
    (\<exists>d'. fold_opt pause_one d is = Some d' \<and> Suspend_wait d' = Some d' \<and> running d' = {})"
proof -
  note inv = world_invD [OF reachable_inv [OF assms(1)]] and e = suspend_effect [OF assms(3)]
  let ?run = "filter (\<lambda>i. state_of (drv w) i = FilterStateRunning) (FltModuleList (drv w))"
  have "set ?run = running (drv w)"
    using driver_invD(5,6) [OF inv(1)] by (auto simp: running_def)
  moreover have "distinct ?run" using driver_invD(2) [OF inv(1)] by simp
  ultimately have m: "mset ?run = mset_set (running (drv w))" using mset_set_set by metis
  have "calls = map NdisFRestartFilter (map (handle_of (drv w)) ?run)"
    using e(9) [OF assms(2)] unfolding call_modules_linked [OF inv(1)] by simp
  then have calls: "mset calls = image_mset (NdisFRestartFilter \<circ> handle_of (drv w)) (mset_set (running (drv w)))"
    by (simp only: map_map m [symmetric] mset_map comp_assoc)
  have d: "driver_inv d" "running d = running (drv w)"
    using driver_inv_frame [OF e(1-3,7)] inv(1) by (simp_all add: running_def state_of_def e(1))
  have "is \<noteq> []" using assms(2,4) count_zero [OF inv(1)] by auto
  then have "\<exists>d'. fold_opt pause_one d is = Some d' \<and> Suspend_wait d' = Some d' \<and> running d' = {}"
    using pause_all [OF d(1) e(6) _ assms(5)] d(2) assms(4) by (auto simp: Suspend_wait_def)
  with calls show ?thesis by blast
qed

theorem suspend_returns_witness:
  "\<exists>d'. fold_opt pause_one (demo_driver FilterStateRunning 1 True False) [0] = Some d' \<and>
     Suspend_wait d' = Some d' \<and> running d' = {}"
proof -
  have "running (demo_driver FilterStateRunning 1 False False) = {0}"
    by (auto simp: running_def state_of_def demo_driver_def demo_module_def driver_init_def
        MAX_FILTER_MODULES_def nth_list_update split: if_splits)
  moreover have "RunningModuleCount (demo_driver FilterStateRunning 1 False False) \<noteq> 0"
    by (simp add: demo_driver_def)
  ultimately show ?thesis
    using suspend_returns [OF demo_reach_running, of "[NdisFRestartFilter 1]" _ "[0]"]
    by (simp add: demo_world_def demo_handlers)
qed

definition stuck_waiting :: "world \<Rightarrow> bool" where
  "stuck_waiting w \<longleftrightarrow> world_inv w \<and> request w = Waiting \<and> \<not> SuspendCompleteEvent (drv w) \<and> running (drv w) = {}"

lemma stuck_waiting_step: "drv_step w w' \<Longrightarrow> stuck_waiting w \<Longrightarrow> stuck_waiting w'"
proof -
  assume s: "drv_step w w'" and k: "stuck_waiting w"
  have inv: "world_inv w" and inv': "world_inv w'" using drv_step_inv [OF s] k by (auto simp: stuck_waiting_def)
  note d = world_invD [OF inv]
  have ne: "running (drv w) = {}" "\<not> SuspendCompleteEvent (drv w)" "request w = Waiting"
    using k by (auto simp: stuck_waiting_def)
  have sig: "SuspendSignal (drv w)" using d(3) ne by (simp add: request_inv_def)
  have cnt: "RunningModuleCount (drv w) = 0" using count_zero [OF d(1)] ne by simp
  have "request w' = Waiting \<and> \<not> SuspendCompleteEvent (drv w') \<and> RunningModuleCount (drv w') = 0"
    using s
  proof cases
    case (attach h medium sa d)
    then show ?thesis using attach_effect [of medium h sa "drv w"] ne cnt by (fastforce simp: attached_def)
  next
    case (attach_failed h medium sa st d)
    then show ?thesis using attach_effect [of medium h sa "drv w"] ne cnt by (fastforce simp: attached_def)
  next
    case (restarted h i d)
    then show ?thesis using restart_effect [of i "drv w"] sig by fastforce
  next
    case (restart_pending h i d)
    then show ?thesis using restart_effect(9,10) [of i "drv w"] sig ne cnt by simp
  next
    case (pause h i e)
    note p = pause_effect [OF pause(3)]
    have "state_of (drv w) i \<noteq> FilterStateRunning"
      using p(1) driver_invD(1) [OF d(1)] ne(1) by (auto simp: running_def)
    then show ?thesis using p(9,10) pause ne cnt by simp
  next
    case (detach h i d)
    then show ?thesis using detach_effect(9,10) [of i "drv w"] ne cnt by simp
  qed (use ne in \<open>auto simp: Suspend_wait_def\<close>)
  then show ?thesis using inv' count_zero [OF world_invD(1) [OF inv']] by (simp add: stuck_waiting_def)
qed

text \<open>
  C32: A suspension that starts with no running module and an event that was never signalled does not
  return: in every state reachable from it the request is still waiting. A freshly loaded driver is in
  such a state.
\<close>

theorem idle_suspend_never_returns:
  assumes "reachable w" "request w = Idle" "RunningModuleCount (drv w) = 0"
    and "\<not> SuspendCompleteEvent (drv w)" "\<not> DriverLock (drv w)"
  shows "\<exists>d. Suspend_request (drv w) = Some ([], d) \<and>
    (\<forall>w'. drv_step\<^sup>*\<^sup>* (w\<lparr>drv := d, request := Waiting\<rparr>) w' \<longrightarrow> request w' = Waiting \<and> Suspend_wait (drv w') = None)"
proof -
  define d where "d = drv w\<lparr>SuspendSignal := True, DriverLock := False\<rparr>"
  have r: "Suspend_request (drv w) = Some ([], d)"
    using assms(3,5) by (simp add: Suspend_request_def driver_lock_defs Let_def d_def)
  have inv: "world_inv w" by (rule reachable_inv [OF assms(1)])
  have "drv_step w (w\<lparr>drv := d, view := fold ndis_apply [] (view w), request := Waiting\<rparr>)"
    by (rule drv_step.suspend [OF assms(2) r])
  moreover have "w\<lparr>drv := d, view := fold ndis_apply [] (view w), request := Waiting\<rparr> =
      w\<lparr>drv := d, request := Waiting\<rparr>" by (rule world.equality) simp_all
  ultimately have s: "drv_step w (w\<lparr>drv := d, request := Waiting\<rparr>)" by (simp only:)
  have "running d = {}"
    using count_zero [OF world_invD(1) [OF inv]] assms(3) by (simp add: d_def running_def state_of_def)
  then have k: "stuck_waiting (w\<lparr>drv := d, request := Waiting\<rparr>)"
    using drv_step_inv [OF s inv] assms(4) by (simp add: stuck_waiting_def) (simp add: d_def)
  have "stuck_waiting w'" if "drv_step\<^sup>*\<^sup>* (w\<lparr>drv := d, request := Waiting\<rparr>) w'" for w'
    using that k by (induction rule: rtranclp_induct) (auto intro: stuck_waiting_step)
  then show ?thesis using r by (auto simp: stuck_waiting_def Suspend_wait_def)
qed

theorem idle_suspend_never_returns_witness:
  "\<exists>d. Suspend_request driver_init = Some ([], d) \<and>
    (\<forall>w'. drv_step\<^sup>*\<^sup>* (world_init\<lparr>drv := d, request := Waiting\<rparr>) w' \<longrightarrow> request w' = Waiting \<and> Suspend_wait (drv w') = None)"
  using idle_suspend_never_returns [OF reachable.start] by (simp add: world_init_def driver_init_def)

section \<open>After a resumption\<close>

text \<open>
  C33: \<open>Resume\<close> completes every pending restart, so NDIS runs the module again, but leaves it in state
  Suspended and uncounted: the next suspension asks NDIS for nothing, returns at once, and the engine is
  configured while the module passes traffic.
\<close>

theorem resumed_module_escapes_suspend:
  assumes "reachable w" "request w = Configuring" "view w h = Some (i, NdisRestarting)" "\<not> DriverLock (drv w)"
  shows "\<exists>w'. reachable w' \<and> drv_step\<^sup>*\<^sup>* w w' \<and> request w' = Configuring \<and> view w' h = Some (i, NdisRunning) \<and>
    state_of (drv w') i = FilterStateSuspended \<and> RunningModuleCount (drv w') = 0"
proof -
  note inv = world_invD [OF reachable_inv [OF assms(1)]]
  define d1 where "d1 = drv w\<lparr>SuspendSignal := False\<rparr>"
  obtain calls where r: "Resume (drv w) = Some (calls, d1)"
    unfolding Resume_def driver_lock_defs Let_def d1_def
    using assms(4) call_modules_linked [OF inv(1)] by simp
  define w1 where "w1 = w\<lparr>drv := d1, view := fold ndis_apply calls (view w), request := Idle\<rparr>"
  have s1: "drv_step w w1" unfolding w1_def by (rule drv_step.resume [OF assms(2) r])
  have q: "RunningModuleCount (drv w) = 0" "SuspendCompleteEvent (drv w)"
    using inv(3) assms(2) by (simp_all add: request_inv_def)
  define d2 where "d2 = d1\<lparr>SuspendSignal := True\<rparr>"
  have s: "Suspend_request d1 = Some ([], d2)"
    using q assms(4) by (simp add: Suspend_request_def driver_lock_defs d1_def d2_def Let_def)
  define w2 where "w2 = w1\<lparr>drv := d2, view := fold ndis_apply [] (view w1), request := Waiting\<rparr>"
  have s2: "drv_step w1 w2" unfolding w2_def
    by (rule drv_step.suspend) (simp_all add: w1_def s)
  have "Suspend_wait d2 = Some d2" using q by (simp add: Suspend_wait_def d2_def d1_def)
  then have s3: "drv_step w2 (w2\<lparr>drv := d2, request := Configuring\<rparr>)"
    by (intro drv_step.suspended) (simp_all add: w2_def)
  have all: "drv_step\<^sup>*\<^sup>* w (w2\<lparr>drv := d2, request := Configuring\<rparr>)"
    using s1 s2 s3 by (meson r_into_rtranclp rtranclp_trans)
  moreover have "reachable (w2\<lparr>drv := d2, request := Configuring\<rparr>)"
    using reachable.step [OF reachable.step [OF reachable.step [OF assms(1) s1] s2] s3] .
  moreover have "view w2 h = Some (i, NdisRunning)"
    using resumed_view [OF r inv(1,2), of h] assms(3) by (simp add: w2_def w1_def)
  moreover have "state_of d2 i = FilterStateSuspended"
    using view_invD(3) [OF inv(2) assms(3)] by (simp add: agrees_def d2_def d1_def state_of_def)
  ultimately show ?thesis using q by (intro exI [of _ "w2\<lparr>drv := d2, request := Configuring\<rparr>"])
      (simp add: d2_def d1_def)
qed

theorem resumed_module_escapes_suspend_witness:
  "\<exists>w'. reachable w' \<and> request w' = Configuring \<and> view w' 1 = Some (0, NdisRunning)"
  using resumed_module_escapes_suspend [OF demo_reach_configuring, of 1 0]
  by (auto simp: demo_world_def demo_driver_def)

section \<open>Attaching\<close>

text \<open>
  An attach that finds the free list empty fails with the driver lock held; after it no handler, no
  suspension and no resumption gets past the lock.
\<close>

theorem full_attach_keeps_lock:
  assumes "FltModuleFreeList d = []" "\<not> DriverLock d" "media_supported medium SupportedNdisMedia"
  shows "\<exists>d'. FilterAttach medium h sa d = Some (NDIS_STATUS_FAILURE, d') \<and> d' = d\<lparr>DriverLock := True\<rparr> \<and>
    FilterAttach medium h' sa d' = None \<and> FilterDetach i d' = None \<and> FilterPause i d' = None \<and>
    FilterRestart i d' = None \<and> Suspend_request d' = None \<and> Resume d' = None"
  using assms
  by (simp add: handler_defs suspension_defs driver_lock_defs)

text \<open>Eight attaches use up the modules.\<close>

definition attach_ok :: "driver \<Rightarrow> NDIS_HANDLE \<Rightarrow> driver option" where
  "attach_ok d h = map_option snd (FilterAttach NdisMediumWan h ok_attr d)"

theorem full_attach_keeps_lock_witness:
  "case fold_opt attach_ok driver_init [1, 2, 3, 4, 5, 6, 7, 8] of None \<Rightarrow> False
   | Some d \<Rightarrow> length (FltModuleList d) = 8 \<and> FilterAttach NdisMediumWan 9 ok_attr d = Some (NDIS_STATUS_FAILURE, d\<lparr>DriverLock := True\<rparr>) \<and>
       FilterPause 0 (d\<lparr>DriverLock := True\<rparr>) = None"
proof -
  have ok: "case fold_opt attach_ok driver_init [1, 2, 3, 4, 5, 6, 7, 8] of None \<Rightarrow> False
    | Some d \<Rightarrow> length (FltModuleList d) = 8 \<and> FltModuleFreeList d = [] \<and> \<not> DriverLock d"
    by code_simp
  have m: "media_supported NdisMediumWan SupportedNdisMedia" by code_simp
  show ?thesis
    using ok full_attach_keeps_lock [OF _ _ m, of _ 9 ok_attr 0 0] by (auto split: option.splits)
qed

text \<open>A module that is linked but that NDIS does not know.\<close>

definition leaked :: "nat \<Rightarrow> world \<Rightarrow> bool" where
  "leaked i w \<longleftrightarrow> world_inv w \<and> i \<in> set (FltModuleList (drv w)) \<and> (\<forall>h s. view w h \<noteq> Some (i, s))"

lemma apply_context: "fold ndis_apply calls v h = Some (i, s) \<Longrightarrow> \<exists>s'. v h = Some (i, s')"
proof (induction calls arbitrary: v s)
  case (Cons c calls)
  then obtain s' where "ndis_apply c v h = Some (i, s')" by fastforce
  then show ?case by (auto simp: ndis_apply_def split: ndis_call.splits option.splits ndis_state.splits if_splits)
qed auto

lemma leaked_step:
  assumes s: "drv_step w w'" and l: "leaked i w"
  shows "leaked i w'"
proof -
  have inv: "world_inv w" and inv': "world_inv w'" using drv_step_inv [OF s] l by (auto simp: leaked_def)
  have i: "i \<in> set (FltModuleList (drv w))" "view w h \<noteq> Some (i, s)" for h s
    using l by (auto simp: leaked_def)
  note d = world_invD [OF inv]
  have "i \<in> set (FltModuleList (drv w')) \<and> (\<forall>h s. view w' h \<noteq> Some (i, s))"
    using s
  proof cases
    case (attach h medium sa e)
    then have "attached h (drv w) e" using attach_effect [of medium h sa "drv w"] by blast
    then have "i \<in> set (FltModuleList e)" "last (FltModuleList e) \<noteq> i"
      using driver_invD(4) [OF d(1)] i(1) by (auto simp: attached_def)
    then show ?thesis using attach i(2) by auto
  next
    case (attach_failed h medium sa st e)
    then show ?thesis using attach_effect [of medium h sa "drv w" st e] i by (auto simp: attached_def)
  next
    case (restarted h j e)
    then show ?thesis using restart_effect(4) [of j "drv w"] i by auto
  next
    case (restart_pending h j e)
    then show ?thesis using restart_effect(4) [of j "drv w"] i by auto
  next
    case (pause h j e)
    then show ?thesis using pause_effect(4) [of j "drv w"] i by auto
  next
    case (detach h j e)
    then show ?thesis using detach_effect(4) [of j "drv w"] i by (cases "i = j") auto
  next
    case (suspend calls e)
    then show ?thesis using suspend_effect(2) [of "drv w"] i apply_context [of calls "view w"] by simp blast
  next
    case (suspended e)
    then show ?thesis using i by (auto simp: Suspend_wait_def split: if_splits)
  next
    case (resume calls e)
    then show ?thesis using resume_effect(1) [of "drv w"] i apply_context [of calls "view w"] by simp blast
  qed
  then show ?thesis using inv' by (simp add: leaked_def)
qed

text \<open>
  When \<open>NdisFSetAttributes\<close> fails, the attach is refused but its module stays linked: it is not freed
  in any state that can follow.
\<close>

theorem refused_attach_leaks_module:
  assumes "reachable w" "view w h = None" "\<not> DriverLock (drv w)" "media_supported medium SupportedNdisMedia"
    and "FltModuleFreeList (drv w) = i # free" "sa h i \<noteq> STATUS_SUCCESS"
  shows "\<exists>d. FilterAttach medium h sa (drv w) = Some (NDIS_STATUS_FAILURE, d) \<and>
    (\<forall>w'. drv_step\<^sup>*\<^sup>* (w\<lparr>drv := d\<rparr>) w' \<longrightarrow> i \<in> set (FltModuleList (drv w')) \<and> i \<notin> set (FltModuleFreeList (drv w')))"
proof -
  note inv = world_invD [OF reachable_inv [OF assms(1)]]
  have il: "i < length (FltModules (drv w))"
    using driver_invD(1,5) [OF inv(1)] assms(5) by auto
  obtain d where r: "FilterAttach medium h sa (drv w) = Some (NDIS_STATUS_FAILURE, d)"
    and l: "FltModuleList d = FltModuleList (drv w) @ [i]"
    using assms(3-6) il by (auto simp: FilterAttach_def driver_lock_defs cell_def Let_def)
  have "drv_step w (w\<lparr>drv := d\<rparr>)" by (rule drv_step.attach_failed [OF assms(2) r]) simp
  then have w: "world_inv (w\<lparr>drv := d\<rparr>)" using drv_step_inv reachable_inv [OF assms(1)] by blast
  have "i \<notin> set (FltModuleList (drv w))" using driver_invD(4) [OF inv(1)] assms(5) by auto
  then have "view w h' \<noteq> Some (i, s)" for h' s using view_invD(1) [OF inv(2)] by blast
  then have k: "leaked i (w\<lparr>drv := d\<rparr>)" using w l by (simp add: leaked_def)
  have "leaked i w'" if "drv_step\<^sup>*\<^sup>* (w\<lparr>drv := d\<rparr>) w'" for w'
    using that k by (induction rule: rtranclp_induct) (auto intro: leaked_step)
  then have "i \<in> set (FltModuleList (drv w')) \<and> i \<notin> set (FltModuleFreeList (drv w'))"
    if "drv_step\<^sup>*\<^sup>* (w\<lparr>drv := d\<rparr>) w'" for w'
    using that driver_invD(4) [OF world_invD(1)] by (force simp: leaked_def)
  with r show ?thesis by blast
qed

theorem refused_attach_leaks_module_witness:
  "\<exists>d. FilterAttach NdisMedium802_3 7 (\<lambda>_ _. STATUS_OTHER 1) driver_init = Some (NDIS_STATUS_FAILURE, d) \<and>
    (\<forall>w'. drv_step\<^sup>*\<^sup>* (world_init\<lparr>drv := d\<rparr>) w' \<longrightarrow> 0 \<in> set (FltModuleList (drv w')) \<and> 0 \<notin> set (FltModuleFreeList (drv w')))"
proof -
  have "FltModuleFreeList driver_init = 0 # [1..<8]"
    by (simp add: driver_init_free MAX_FILTER_MODULES_def upt_rec)
  moreover have "\<not> DriverLock driver_init" by (simp add: driver_init_def)
  moreover have "media_supported NdisMedium802_3 SupportedNdisMedia" by code_simp
  ultimately show ?thesis
    using refused_attach_leaks_module [OF reachable.start, of 7 NdisMedium802_3 0 "[1..<8]" "\<lambda>_ _. STATUS_OTHER 1"]
    by (simp add: world_init_def)
qed

end
