(* ===== verification/Driver_Run.thy ===== *)
theory Driver_Run
  imports Driver_Control Driver_Props Engine_Props
begin

text \<open>
  Properties of the driver with the engine behind it: the outcome of a reconfiguration request, what a
  received batch becomes in the filtering path and in the path that runs, loading and unloading.
\<close>

section \<open>The outcome of a configuration\<close>

lemma cfg_done_simps [simp]:
  "fst (cfg_done st g h) = st" "fst (snd (cfg_done st g h)) = g"
  by (simp_all add: cfg_done_def)

definition balanced :: "os_call list \<Rightarrow> bool" where
  "balanced calls \<longleftrightarrow> count_list calls ZwClose = count_list calls ZwOpenFile \<and>
     count_list calls ExFreePool = count_list calls ExAllocatePool"

lemma cfg_done_balanced [simp]:
  "balanced (snd (snd (cfg_done st g [])))" "balanced (snd (snd (cfg_done st g [ZwOpenFile])))"
  "balanced (snd (snd (cfg_done st g [ZwOpenFile, ExAllocatePool])))"
  by (simp_all add: cfg_done_def balanced_def)

text \<open>The file could be read into memory.\<close>

definition file_read :: "cfg_io \<Rightarrow> bool" where
  "file_read io \<longleftrightarrow> io_param io = STATUS_SUCCESS \<and> io_open io = STATUS_SUCCESS \<and> io_query io = STATUS_SUCCESS \<and>
     sint (io_end_of_file io) \<le> MAX_NTFE_CFG_SZ \<and> io_pool io \<and> io_read io = STATUS_SUCCESS"

definition no_memory :: "cfg_io \<Rightarrow> bool" where
  "no_memory io \<longleftrightarrow> io_param io = STATUS_SUCCESS \<and> io_open io = STATUS_SUCCESS \<and> io_query io = STATUS_SUCCESS \<and>
     sint (io_end_of_file io) \<le> MAX_NTFE_CFG_SZ \<and> \<not> io_pool io"

definition file_size :: "cfg_io \<Rightarrow> u32" where
  "file_size io = ucast (io_end_of_file io)"

text \<open>How the request ends before the engine sees the file.\<close>

definition early_exit :: "cfg_io \<Rightarrow> (STATUS \<times> os_call list) option" where
  "early_exit io =
     (if io_param io \<noteq> STATUS_SUCCESS then Some (io_param io, [])
      else if io_open io \<noteq> STATUS_SUCCESS then Some (io_open io, [])
      else if io_query io \<noteq> STATUS_SUCCESS then Some (io_query io, [ZwOpenFile])
      else if MAX_NTFE_CFG_SZ < sint (io_end_of_file io) then Some (STATUS_FILE_TOO_LARGE, [ZwOpenFile])
      else if \<not> io_pool io then Some (io_query io, [ZwOpenFile])
      else if io_read io \<noteq> STATUS_SUCCESS then Some (io_read io, [ZwOpenFile, ExAllocatePool])
      else None)"

lemma early_exit_None: "early_exit io = None \<longleftrightarrow> file_read io"
  by (simp add: early_exit_def file_read_def not_less)

lemma early_exit_Some:
  assumes "early_exit io = Some (st, h)"
  shows "balanced (snd (snd (cfg_done st g h)))" "st = STATUS_SUCCESS \<longleftrightarrow> no_memory io" "\<not> file_read io"
  using assms by (auto simp: early_exit_def no_memory_def file_read_def not_less split: if_splits)

lemma ConfigureFirewallEngine_early:
  "early_exit io = Some (st, h) \<Longrightarrow> ConfigureFirewallEngine io e g = Some (cfg_done st g h)"
  by (auto simp: early_exit_def ConfigureFirewallEngine_def split: if_splits)

lemma ConfigureFirewallEngine_read:
  assumes "file_read io" "ntfe_validate_configuration g (io_data io) (file_size io) = Some True"
    and "ntfe_configure e g (io_data io) (file_size io) = Some (True, g')"
  shows "ConfigureFirewallEngine io e g = Some (cfg_done STATUS_SUCCESS g' [ZwOpenFile, ExAllocatePool])"
  using assms unfolding file_size_def by (simp add: ConfigureFirewallEngine_def file_read_def Let_def)

lemma ConfigureFirewallEngine_ok:
  assumes "control_inv g" "length (io_data io) = unat (file_size io)"
    and "unat (im_hashsz (image_of (io_data io))) mod 32 \<noteq> 31"
  shows "\<exists>st g' calls. ConfigureFirewallEngine io e g = Some (st, g', calls) \<and> control_inv g' \<and> balanced calls \<and>
    (st = STATUS_SUCCESS \<longleftrightarrow> no_memory io \<and> g' = g \<or>
       file_read io \<and> ntfe_configure e g (io_data io) (file_size io) = Some (True, g')) \<and>
    (st \<noteq> STATUS_SUCCESS \<longrightarrow> st \<noteq> STATUS_INTERNAL_ERROR \<longrightarrow> g' = g)"
proof (cases "early_exit io")
  case None
  then have True: "file_read io" by (simp add: early_exit_None)
  obtain ok g' where c: "ntfe_configure e g (io_data io) (file_size io) = Some (ok, g')" "control_inv g'"
    using configure_ok [OF assms] by blast
  then obtain valid where v: "ntfe_validate_configuration g (io_data io) (file_size io) = Some valid"
    by (auto simp: ntfe_configure_def split: bind_splits)
  have run: "ConfigureFirewallEngine io e g =
    Some (if \<not> valid then cfg_done STATUS_IO_DEVICE_INVALID_DATA g [ZwOpenFile, ExAllocatePool]
      else if \<not> ok then cfg_done STATUS_INTERNAL_ERROR g' [ZwOpenFile, ExAllocatePool]
      else cfg_done STATUS_SUCCESS g' [ZwOpenFile, ExAllocatePool])"
    using True v c(1) unfolding file_size_def
    by (simp add: ConfigureFirewallEngine_def file_read_def Let_def)
  have inv: "\<not> valid \<Longrightarrow> \<not> ok" using c(1) v by (auto simp: ntfe_configure_def)
  have "\<not> no_memory io" using True by (simp add: file_read_def no_memory_def)
  then show ?thesis using run c v inv assms(1) True
    by (cases valid; cases ok) (simp_all add: cfg_done_def balanced_def)
next
  case (Some x)
  obtain st h where x: "x = (st, h)" by (cases x)
  note e = early_exit_Some [OF Some [unfolded x]] and r = ConfigureFirewallEngine_early [OF Some [unfolded x]]
  show ?thesis using e(1) [of g] e(2,3) r [of e g] assms(1) by (auto simp: cfg_done_def)
qed

text \<open>
  A configuration request always comes to an end, gives back every file and buffer it took, keeps what
  the engine relies on, and leaves the engine alone unless it ends in success or an internal error. It
  reports success exactly when the engine took the file's configuration, or when there was no memory
  to read the file and nothing was configured.
\<close>

theorem configure_request_outcome:
  assumes "control_inv g" "length (io_data io) = unat (file_size io)"
    and "unat (im_hashsz (image_of (io_data io))) mod 32 \<noteq> 31"
  shows "\<exists>st g' calls. ConfigureFirewallEngine io e g = Some (st, g', calls) \<and> control_inv g' \<and> balanced calls \<and>
    (st = STATUS_SUCCESS \<longleftrightarrow> no_memory io \<and> g' = g \<or>
       file_read io \<and> ntfe_configure e g (io_data io) (file_size io) = Some (True, g')) \<and>
    (st \<noteq> STATUS_SUCCESS \<longrightarrow> st \<noteq> STATUS_INTERNAL_ERROR \<longrightarrow> g' = g)"
  by (rule ConfigureFirewallEngine_ok [OF assms])

definition demo_io :: "bool \<Rightarrow> cfg_io" where
  "demo_io pool = \<lparr>io_param = STATUS_SUCCESS, io_open = STATUS_SUCCESS, io_query = STATUS_SUCCESS,
     io_end_of_file = 174, io_pool = pool, io_read = STATUS_SUCCESS, io_data = demo_image\<rparr>"

lemma demo_io_fields: "file_size (demo_io p) = 174" "no_memory (demo_io p) \<longleftrightarrow> \<not> p" "file_read (demo_io p) \<longleftrightarrow> p"
  "io_data (demo_io p) = demo_image"
  by (simp_all add: file_size_def no_memory_def file_read_def demo_io_def MAX_NTFE_CFG_SZ_def)

theorem configure_request_outcome_witness:
  "(\<exists>g' calls. ConfigureFirewallEngine (demo_io True) demo_env ready_gs = Some (STATUS_SUCCESS, g', calls) \<and>
     ntfe_configure demo_env ready_gs demo_image 174 = Some (True, g')) \<and>
   (\<exists>calls. ConfigureFirewallEngine (demo_io False) demo_env ready_gs = Some (STATUS_SUCCESS, ready_gs, calls))"
proof -
  obtain g' where c: "ntfe_configure demo_env ready_gs demo_image 174 = Some (True, g')"
    using ready_configure by blast
  have l: "length (io_data (demo_io p)) = unat (file_size (demo_io p))"
    "unat (im_hashsz (image_of (io_data (demo_io p)))) mod 32 \<noteq> 31" for p
    by (simp_all add: demo_io_fields demo_image_fields)
  obtain st g1 calls where a: "ConfigureFirewallEngine (demo_io True) demo_env ready_gs = Some (st, g1, calls)"
    "st = STATUS_SUCCESS \<longleftrightarrow> ntfe_configure demo_env ready_gs demo_image 174 = Some (True, g1)"
    using configure_request_outcome [OF ready_inv l, of True demo_env] unfolding demo_io_fields by auto
  have v: "ntfe_validate_configuration ready_gs demo_image 174 = Some True"
    by (rule demo_validates) (simp add: ready_fields)
  have "ConfigureFirewallEngine (demo_io True) demo_env ready_gs =
      Some (cfg_done STATUS_SUCCESS g' [ZwOpenFile, ExAllocatePool])"
    using ConfigureFirewallEngine_read [of "demo_io True" ready_gs demo_env g'] v c
    unfolding demo_io_fields by blast
  then have st: "st = STATUS_SUCCESS" using a(1) by (simp add: cfg_done_def)
  have "early_exit (demo_io False) = Some (STATUS_SUCCESS, [ZwOpenFile])"
    by (simp add: early_exit_def demo_io_def MAX_NTFE_CFG_SZ_def)
  note b = ConfigureFirewallEngine_early [OF this, of demo_env ready_gs]
  obtain st' g2 calls' where
    "ConfigureFirewallEngine (demo_io False) demo_env ready_gs = Some (st', g2, calls')"
    "st' = STATUS_SUCCESS \<longleftrightarrow> g2 = ready_gs"
    using configure_request_outcome [OF ready_inv l, of False demo_env] unfolding demo_io_fields by auto
  then have "\<exists>calls. ConfigureFirewallEngine (demo_io False) demo_env ready_gs = Some (STATUS_SUCCESS, ready_gs, calls)"
    using b by (simp add: cfg_done_def)
  then show ?thesis using a st by blast
qed

section \<open>A restart request\<close>

lemma resume_works:
  assumes "driver_inv d" "\<not> DriverLock d"
  shows "\<exists>calls. Resume d = Some (calls, d\<lparr>SuspendSignal := False\<rparr>)"
  using assms(2) call_modules_linked [OF assms(1)]
  by (simp add: Resume_def driver_lock_defs Let_def)

text \<open>
  C34: A restart request at passive level, with modules running and a driver whose books balance, ends: if
  NDIS pauses the running modules while it waits, the engine is configured once, the lock, the signal and
  the user mutex are given back, and the status is success exactly when the new configuration is
  installed, or nothing was configured for want of memory. A request of another kind changes nothing.
\<close>

theorem restart_request_completes:
  assumes "driver_inv (dev_driver dv)" "\<not> DriverLock (dev_driver dv)" "RunningModuleCount (dev_driver dv) \<noteq> 0"
    and "\<not> UserMutex dv" "irql < DISPATCH_LEVEL" "set ks = running (dev_driver dv)" "distinct ks"
    and "\<forall>calls d. Suspend_request (dev_driver dv) = Some (calls, d) \<longrightarrow>
          fold_opt pause_one d ks = Some (during d)"
    and "control_inv (dev_engine dv)" "length (io_data io) = unat (file_size io)"
    and "unat (im_hashsz (image_of (io_data io))) mod 32 \<noteq> 31"
  shows "(\<exists>st calls dv'. RequestDispatch irql \<lparr>MajorFunction_is_control = True, IoControlCode = IOCTL_NTFW_ENGINE_RESTART\<rparr>
        io e during dv = Some (st, calls, dv') \<and> \<not> UserMutex dv' \<and>
      driver_inv (dev_driver dv') \<and> \<not> DriverLock (dev_driver dv') \<and> \<not> SuspendSignal (dev_driver dv') \<and>
      running (dev_driver dv') = {} \<and> control_inv (dev_engine dv') \<and>
      (st = STATUS_SUCCESS \<longleftrightarrow> no_memory io \<and> dev_engine dv' = dev_engine dv \<or>
        file_read io \<and> ntfe_configure e (dev_engine dv) (io_data io) (file_size io) = Some (True, dev_engine dv'))) \<and>
    (code \<noteq> IOCTL_NTFW_ENGINE_RESTART \<longrightarrow>
      RequestDispatch irql \<lparr>MajorFunction_is_control = True, IoControlCode = code\<rparr> io e during dv =
        Some (STATUS_INVALID_DEVICE_REQUEST, [], dv))"
proof -
  let ?d = "dev_driver dv"
  obtain calls d1 where s: "Suspend_request ?d = Some (calls, d1)"
    using assms(2,3) call_modules_linked [OF assms(1)]
    by (simp add: Suspend_request_def driver_lock_defs Let_def)
  note e = suspend_effect [OF s]
  have d1: "driver_inv d1" "running d1 = running ?d"
    using driver_inv_frame [OF e(1-3,7)] assms(1) by (simp_all add: running_def state_of_def e(1))
  have "ks \<noteq> []" using assms(3,6) count_zero [OF assms(1)] by auto
  then obtain d2 where d2: "fold_opt pause_one d1 ks = Some d2" "SuspendCompleteEvent d2" "driver_inv d2"
    "running d2 = {}" "\<not> DriverLock d2"
    using pause_all [OF d1(1) e(6) _ assms(7)] d1(2) assms(6) by auto
  have during: "during d1 = d2" using assms(8) s d2(1) by simp
  then have w: "Suspend_wait (during d1) = Some d2" using d2(2) by (simp add: Suspend_wait_def)
  obtain st g' oc where c: "ConfigureFirewallEngine io e (dev_engine dv) = Some (st, g', oc)" "control_inv g'"
    "st = STATUS_SUCCESS \<longleftrightarrow> no_memory io \<and> g' = dev_engine dv \<or>
       file_read io \<and> ntfe_configure e (dev_engine dv) (io_data io) (file_size io) = Some (True, g')"
    using ConfigureFirewallEngine_ok [OF assms(9-11), of e] by blast
  obtain rc where r: "Resume d2 = Some (rc, d2\<lparr>SuspendSignal := False\<rparr>)" using resume_works [OF d2(3,5)] by blast
  have "running (d2\<lparr>SuspendSignal := False\<rparr>) = running d2" by (simp add: running_def state_of_def)
  moreover have "driver_inv (d2\<lparr>SuspendSignal := False\<rparr>)"
    using d2(3) driver_inv_frame [of "d2\<lparr>SuspendSignal := False\<rparr>" d2] by simp
  moreover have "UserMutex dv \<longleftrightarrow> False" using assms(4) by simp
  moreover have "\<not> DISPATCH_LEVEL \<le> irql" using assms(5) by simp
  moreover have "dv\<lparr>UserMutex := False\<rparr> = dv" using assms(4) by (cases dv) simp
  ultimately show ?thesis using s w c r d2(4,5) by (simp add: RequestDispatch_def Let_def)
qed

theorem restart_request_completes_witness:
  "\<exists>st calls dv'. RequestDispatch 0 \<lparr>MajorFunction_is_control = True, IoControlCode = IOCTL_NTFW_ENGINE_RESTART\<rparr>
     (demo_io True) demo_env (\<lambda>d. the (fold_opt pause_one d [0]))
     \<lparr>dev_driver = demo_driver FilterStateRunning 1 False False, dev_engine = ready_gs, UserMutex = False\<rparr> =
     Some (st, calls, dv') \<and> \<not> UserMutex dv' \<and> running (dev_driver dv') = {}"
proof -
  let ?d = "demo_driver FilterStateRunning 1 False False"
  have inv: "driver_inv ?d" using world_invD(1) [OF reachable_inv [OF demo_reach_running]] by (simp add: demo_world_def)
  have f: "\<not> DriverLock ?d" "RunningModuleCount ?d \<noteq> 0" by (simp_all add: demo_driver_def)
  have run: "running ?d = {0}"
    by (auto simp: running_def state_of_def demo_driver_def demo_module_def driver_init_def
        MAX_FILTER_MODULES_def nth_list_update split: if_splits)
  have l: "length (io_data (demo_io True)) = unat (file_size (demo_io True))"
    "unat (im_hashsz (image_of (io_data (demo_io True)))) mod 32 \<noteq> 31"
    by (simp_all add: demo_io_fields demo_image_fields)
  let ?dv = "\<lparr>dev_driver = ?d, dev_engine = ready_gs, UserMutex = False\<rparr>"
  have dv: "driver_inv (dev_driver ?dv)" "\<not> DriverLock (dev_driver ?dv)"
    "RunningModuleCount (dev_driver ?dv) \<noteq> 0" "\<not> UserMutex ?dv" "0 < DISPATCH_LEVEL"
    "set [0] = running (dev_driver ?dv)" "distinct [0 :: nat]" "control_inv (dev_engine ?dv)"
    using inv f run ready_inv by (simp_all add: DISPATCH_LEVEL_def)
  have "\<forall>calls d. Suspend_request (dev_driver ?dv) = Some (calls, d) \<longrightarrow>
      fold_opt pause_one d [0] = Some (the (fold_opt pause_one d [0]))"
    by (auto simp: demo_handlers pause_one_def)
  from restart_request_completes [where e = demo_env, OF dv(1-7) this dv(8) l] show ?thesis by blast
qed

section \<open>A received batch\<close>

text \<open>The engine's verdicts on the buffers of a batch, one after the other.\<close>

fun rx_verdicts :: "env \<Rightarrow> gs \<Rightarrow> NET_BUFFER list \<Rightarrow> (bool list \<times> gs) option" where
  "rx_verdicts e g [] = Some ([], g)"
| "rx_verdicts e g (nb # nbs) = (case HeaderPtr nb of
     None \<Rightarrow> map_option (apfst (Cons True)) (rx_verdicts e g nbs)
   | Some f \<Rightarrow> Option.bind (ntfe_rx e g f (ucast (DataLength nb)))
       (\<lambda>(v, g'). map_option (apfst (Cons v)) (rx_verdicts e g' nbs)))"

definition picked :: "bool \<Rightarrow> 'a list \<Rightarrow> bool list \<Rightarrow> 'a list" where
  "picked b xs vs = map fst (filter (\<lambda>(x, v). v = b) (zip xs vs))"

lemma picked_simps [simp]:
  "picked b [] vs = []" "picked b (x # xs) (v # vs) = (if v = b then x # picked b xs vs else picked b xs vs)"
  by (simp_all add: picked_def)

text \<open>Headers long enough for every field the engine reads.\<close>

definition readable :: "NET_BUFFER \<Rightarrow> bool" where
  "readable nb \<longleftrightarrow> (case HeaderPtr nb of None \<Rightarrow> True | Some f \<Rightarrow> 42 \<le> length f)"

lemma rx_verdicts_ok:
  assumes "engine_inv g" "pool_room (length nbs) g" "\<forall>nb\<in>set nbs. readable nb"
  shows "\<exists>vs g'. rx_verdicts e g nbs = Some (vs, g') \<and> length vs = length nbs \<and> engine_inv g' \<and>
    (\<forall>a. a \<noteq> 0 \<longrightarrow> auth_pri g' a = auth_pri g a)"
  using assms
proof (induction nbs arbitrary: g)
  case (Cons nb nbs)
  show ?case
  proof (cases "HeaderPtr nb")
    case None
    have "pool_room (length nbs) g" using Cons.prems(2) by (simp add: pool_room_iff)
    then show ?thesis using Cons.IH [of g] Cons.prems None by auto
  next
    case (Some f)
    then have f: "42 \<le> length f" using Cons.prems(3) by (simp add: readable_def)
    have "pool_room 1 g" using Cons.prems(2) by (simp add: pool_room_iff)
    from rx_ok [OF Cons.prems(1) this f, of e "ucast (DataLength nb)"] obtain v g1 where
      g1: "ntfe_rx e g f (ucast (DataLength nb)) = Some (v, g1)" "engine_inv g1" "grown_by 1 g g1"
        "\<forall>a. a \<noteq> 0 \<longrightarrow> auth_pri g1 a = auth_pri g a" by blast
    have "pool_room (length nbs) g1" using g1(3) Cons.prems(2) by (simp add: pool_room_iff grown_by_def)
    then show ?thesis using Cons.IH [OF g1(2)] Cons.prems(3) Some g1(1,4) by fastforce
  qed
qed simp

lemma rx_segregate_eq:
  "rx_segregate e g nbls acc dr n =
    map_option (\<lambda>(vs, g'). (acc @ picked True nbls vs, dr @ picked False nbls vs,
       n + of_nat (length (picked True nbls vs)), g')) (rx_verdicts e g (map FirstNetBuffer nbls))"
  by (induction nbls arbitrary: g acc dr n)
    (auto simp: Let_def option.map_comp comp_def split_def add.assoc split: option.splits bind_splits)

text \<open>
  The filtering path splits a received batch in order by the engine's verdict on each buffer: what it
  accepts goes up once with its count, what it drops is returned once, no buffer is lost or doubled, the
  processor's level is restored, and the engine's invariant and its authorised hosts are kept.
\<close>

theorem receive_segregates:
  assumes "engine_inv g" "pool_room (length nbls) g" "\<forall>nbl\<in>set nbls. readable (FirstNetBuffer nbl)"
    and "hpc_hz g \<noteq> 0" "\<not> FLAGS_RESOURCES flags"
  shows "\<exists>vs g' calls. rx_verdicts e (the (ntfe_rx_prepare e g)) (map FirstNetBuffer nbls) = Some (vs, g') \<and>
    length vs = length nbls \<and>
    FilterReceive_filtering m nbls port n flags True e g = Some (calls, g') \<and>
    filter (\<lambda>c. c \<noteq> KeRaiseIrqlToDpcLevel \<and> c \<noteq> KeLowerIrql) calls =
      (if picked False nbls vs = [] then [] else
        [NdisFReturnNetBufferLists (FilterModuleHandle m) (picked False nbls vs) (flags\<lparr>FLAGS_PERFECT_FILTERED := False\<rparr>)]) @
      (if picked True nbls vs = [] then [] else
        [NdisFIndicateReceiveNetBufferLists (FilterModuleHandle m) (picked True nbls vs) port
           (of_nat (length (picked True nbls vs))) (flags\<lparr>FLAGS_PERFECT_FILTERED := False\<rparr>)]) \<and>
    count_list calls KeLowerIrql = count_list calls KeRaiseIrqlToDpcLevel \<and>
    mset (picked True nbls vs) + mset (picked False nbls vs) = mset nbls \<and>
    engine_inv g' \<and> (\<forall>a. a \<noteq> 0 \<longrightarrow> auth_pri g' a = auth_pri g a)"
proof -
  define g1 where "g1 = the (ntfe_rx_prepare e g)"
  have p: "ntfe_rx_prepare e g = Some g1" using assms(4) by (simp add: g1_def ntfe_rx_prepare_def)
  then have same: "engine_inv g1" "pool_room (length nbls) g1" "auth_pri g1 a = auth_pri g a" for a
    using assms(1,2) by (auto simp: ntfe_rx_prepare_def engine_inv_def table_ok_def pool_inv_def config_ok_def
        pool_room_iff auth_pri_def host_pri_def split: if_splits)
  obtain vs g' where v: "rx_verdicts e g1 (map FirstNetBuffer nbls) = Some (vs, g')" "length vs = length nbls"
    "engine_inv g'" "\<forall>a. a \<noteq> 0 \<longrightarrow> auth_pri g' a = auth_pri g1 a"
    using rx_verdicts_ok [OF same(1), of "map FirstNetBuffer nbls" e] same(2) assms(3) by auto
  have ms: "length ws = length xs \<Longrightarrow> mset (picked True xs ws) + mset (picked False xs ws) = mset xs"
    for xs :: "NET_BUFFER_LIST list" and ws
    by (induction ws xs rule: list_induct2) auto
  show ?thesis
    using v p assms(5) same(3) ms [OF v(2)]
    by (auto simp: FilterReceive_filtering_def rx_segregate_eq g1_def [symmetric] Let_def)
qed

definition demo_buffer :: "u8 list \<Rightarrow> NET_BUFFER_LIST" where
  "demo_buffer f = \<lparr>FirstNetBuffer = \<lparr>DataLength = of_nat (length f), HeaderPtr = Some f\<rparr>, NextNetBuffers = []\<rparr>"

definition demo_flags :: io_flags where
  "demo_flags = \<lparr>FLAGS_DISPATCH_LEVEL = False, FLAGS_RESOURCES = False, FLAGS_PERFECT_FILTERED = True\<rparr>"

theorem receive_segregates_witness:
  "\<exists>g' calls. FilterReceive_filtering \<lparr>FilterModuleHandle = 1, State = FilterStateRunning\<rparr>
     [demo_buffer dns_frame, demo_buffer ssh_frame] 0 2 demo_flags True demo_env demo_gs = Some (calls, g') \<and>
     engine_inv g'"
  using receive_segregates [OF demo_inv demo_room, of "[demo_buffer dns_frame, demo_buffer ssh_frame]" demo_flags demo_env
      "\<lparr>FilterModuleHandle = 1, State = FilterStateRunning\<rparr>" 0 2]
  by (auto simp: demo_buffer_def readable_def demo_frames demo_gs_fields demo_flags_def)

text \<open>
  The receive handler as it runs passes every buffer up, also one that the engine, asked by the
  filtering path behind the handler's early return, drops and hands back.
\<close>

theorem active_path_passes_dropped:
  assumes "ntfe_rx_prepare e g = Some g1" "HeaderPtr (FirstNetBuffer nbl) = Some f"
    and "ntfe_rx e g1 f (ucast (DataLength (FirstNetBuffer nbl))) = Some (False, g2)" "\<not> FLAGS_RESOURCES flags"
  shows "FilterReceive m [nbl] port 1 flags =
      [NdisFIndicateReceiveNetBufferLists (FilterModuleHandle m) [nbl] port 1 flags] \<and>
    (\<exists>calls. FilterReceive_filtering m [nbl] port 1 flags True e g = Some (calls, g2) \<and>
      NdisFReturnNetBufferLists (FilterModuleHandle m) [nbl] (flags\<lparr>FLAGS_PERFECT_FILTERED := False\<rparr>) \<in> set calls \<and>
      (\<forall>h nbls p k fl. NdisFIndicateReceiveNetBufferLists h nbls p k fl \<notin> set calls))"
  using assms by (simp add: FilterReceive_def FilterReceive_filtering_def Let_def)

definition bad_frame :: "u8 list" where "bad_frame = demo_frame [0, 0, 0, 0] [10, 0, 0, 2] [0, 53]"

theorem active_path_passes_dropped_witness:
  "\<exists>calls g'. FilterReceive \<lparr>FilterModuleHandle = 1, State = FilterStateRunning\<rparr> [demo_buffer bad_frame] 0 1 demo_flags =
     [NdisFIndicateReceiveNetBufferLists 1 [demo_buffer bad_frame] 0 1 demo_flags] \<and>
   FilterReceive_filtering \<lparr>FilterModuleHandle = 1, State = FilterStateRunning\<rparr> [demo_buffer bad_frame] 0 1 demo_flags
     True demo_env demo_gs = Some (calls, g') \<and>
   NdisFReturnNetBufferLists 1 [demo_buffer bad_frame] (demo_flags\<lparr>FLAGS_PERFECT_FILTERED := False\<rparr>) \<in> set calls"
proof -
  have f: "42 \<le> length bad_frame" "rx_classify bad_frame = Some Malformed" by code_simp+
  obtain g1 where g1: "ntfe_rx_prepare demo_env demo_gs = Some g1"
    by (simp add: ntfe_rx_prepare_def demo_gs_fields)
  have "\<exists>g2. ntfe_rx demo_env g1 bad_frame (ucast (DataLength (FirstNetBuffer (demo_buffer bad_frame)))) = Some (False, g2)"
    by (simp add: ntfe_rx_class [OF f(1)] f(2) rx_drop_def)
  then obtain g2 where "ntfe_rx demo_env g1 bad_frame (ucast (DataLength (FirstNetBuffer (demo_buffer bad_frame)))) =
    Some (False, g2)" by blast
  from active_path_passes_dropped [OF g1 _ this, of demo_flags "\<lparr>FilterModuleHandle = 1, State = FilterStateRunning\<rparr>" 0]
  show ?thesis by (auto simp: demo_buffer_def demo_flags_def)
qed

section \<open>Loading and unloading\<close>

text \<open>
  Loading succeeds exactly when the engine gets its memory and NDIS accepts the filter, the
  configuration handle and the device; unloading then undoes each of the three. When loading fails the
  engine's memory is never released, and when only the configuration cannot be opened the filter stays
  registered although the driver reports failure.
\<close>

theorem driver_entry_outcome:
  assumes "DriverEntry region register openc device e g = Some (st, r, calls, d, g')"
  shows "(st = STATUS_SUCCESS \<longleftrightarrow>
      region \<noteq> None \<and> register = STATUS_SUCCESS \<and> openc = STATUS_SUCCESS \<and> device = STATUS_SUCCESS) \<and>
    driver_inv d \<and>
    (st = STATUS_SUCCESS \<longrightarrow>
      DriverUnload r g' = (r\<lparr>FltDeviceHandle := False, FltDriverHandle := False\<rparr>,
        [Ntfe_cleanup, NdisCloseConfiguration, NdisDeregisterDeviceEx, NdisFDeregisterFilterDriver], g'\<lparr>hpool := None\<rparr>)) \<and>
    (st \<noteq> STATUS_SUCCESS \<longrightarrow> hpool g' = region \<and> Ntfe_cleanup \<notin> set calls) \<and>
    (region \<noteq> None \<and> register = STATUS_SUCCESS \<and> openc \<noteq> STATUS_SUCCESS \<longrightarrow>
      calls = [NdisFRegisterFilterDriver] \<and> FltDriverHandle r)"
  using assms driver_inv_init
  by (auto simp: DriverEntry_def DriverUnload_def ntfe_init_def ntfe_cleanup_def host_pool_grow_eq
      no_registration_def Let_def split: if_splits)

theorem driver_entry_outcome_witness:
  "(\<exists>r d g'. DriverEntry (Some (\<lambda>_. zero_host_state)) STATUS_SUCCESS (STATUS_OTHER 1) STATUS_SUCCESS demo_env gs_init =
      Some (STATUS_INTERNAL_ERROR, r, [NdisFRegisterFilterDriver], d, g') \<and> hpool g' = Some (\<lambda>_. zero_host_state)) \<and>
   (\<exists>r calls d g'. DriverEntry (Some (\<lambda>_. zero_host_state)) STATUS_SUCCESS STATUS_SUCCESS STATUS_SUCCESS demo_env gs_init =
      Some (STATUS_SUCCESS, r, calls, d, g') \<and>
      DriverUnload r g' = (r\<lparr>FltDeviceHandle := False, FltDriverHandle := False\<rparr>,
        [Ntfe_cleanup, NdisCloseConfiguration, NdisDeregisterDeviceEx, NdisFDeregisterFilterDriver], g'\<lparr>hpool := None\<rparr>))"
proof -
  have some: "\<exists>st r calls d g'. DriverEntry (Some m) register openc device e gs_init = Some (st, r, calls, d, g')"
    for m register openc device e
    by (auto simp: DriverEntry_def ntfe_init_def host_pool_grow_eq gs_init_def split: prod.splits) (metis prod_cases5)
  obtain st r calls d g' where a: "DriverEntry (Some (\<lambda>_. zero_host_state)) STATUS_SUCCESS (STATUS_OTHER 1) STATUS_SUCCESS
    demo_env gs_init = Some (st, r, calls, d, g')" using some by blast
  then have "st = STATUS_INTERNAL_ERROR" by (auto simp: DriverEntry_def Let_def split: if_splits prod.splits)
  moreover obtain st' r' calls' d' g'' where b: "DriverEntry (Some (\<lambda>_. zero_host_state)) STATUS_SUCCESS STATUS_SUCCESS
    STATUS_SUCCESS demo_env gs_init = Some (st', r', calls', d', g'')" using some by blast
  ultimately show ?thesis using driver_entry_outcome [OF a] driver_entry_outcome [OF b] a b by simp
qed

end
