(* ===== verification/Seed_Search.thy ===== *)
theory Seed_Search
  imports Flow_Rules
begin

text \<open>
  The search for the seed of a perfect hash over the rules, \<open>ntfw/phash.cpp\<close>: the random generator, one
  worker thread as a sequence of atomic accesses to the two shared words, several of them interleaved,
  and what \<open>FindRuleMagic\<close> returns once all have ended. A store outside the local table is \<open>None\<close>.
\<close>

section \<open>The random generator\<close>

definition rotl64 :: "u64 \<Rightarrow> nat \<Rightarrow> u64" where
  "rotl64 x k = push_bit k x OR drop_bit (64 - k) x"

text \<open>The result and the advanced counter.\<close>

definition splitmix64 :: "u64 \<Rightarrow> u64 \<times> u64" where
  "splitmix64 x =
     (let x = x + 0x9E3779B97F4A7C15;
          z = x;
          z = (z XOR drop_bit 30 z) * 0xBF58476D1CE4E5B9;
          z = (z XOR drop_bit 27 z) * 0x94D049BB133111EB
      in (z XOR drop_bit 31 z, x))"

definition xoro_seed :: "u64 \<Rightarrow> u64 \<times> u64" where
  "xoro_seed seed =
     (let (a, seed) = splitmix64 seed;
          (b, seed) = splitmix64 seed
      in (a, b))"

definition xoro_rand :: "u64 \<times> u64 \<Rightarrow> u64 \<times> (u64 \<times> u64)" where
  "xoro_rand st =
     (let s0 = fst st;
          s1 = snd st;
          result = s0 + s1;
          s1 = s1 XOR s0
      in (result, (rotl64 s0 55 XOR s1 XOR push_bit 14 s1, rotl64 s1 36)))"

section \<open>Shared state and threads\<close>

record search_cfg =
  target_bits :: u32
  search_rules :: "cfg_rule list"

record shared =
  record_bits :: u32
  record_seed :: u32
  quit_signal :: bool

text \<open>
  Where a thread is: at the loop's test, about to draw a seed, about to exchange the record for the seed
  it found at a number of bits, about to store that seed, or at its end.
\<close>

datatype thread_pc = At_Test | At_Draw | At_Exchange u32 u32 | At_Store u32 | At_End

record thread =
  xoro_state :: "u64 \<times> u64"
  thread_at :: thread_pc

definition thread_start :: "u32 \<Rightarrow> thread" where
  "thread_start tid = \<lparr>xoro_state = xoro_seed (ucast tid), thread_at = At_Test\<rparr>"

text \<open>\<open>(1 << bits) - 1\<close> on a 32-bit \<open>int\<close>, the count taken modulo 32.\<close>

definition seed_mask :: "u32 \<Rightarrow> u32" where
  "seed_mask bits = push_bit (unat bits mod 32) 1 - 1"

definition rule_hash :: "u32 \<Rightarrow> u32 \<Rightarrow> cfg_rule \<Rightarrow> u16" where
  "rule_hash seed msk rl =
     ucast ((ucast (ntfe_rule_hashfn seed (cr_ether rl) (cr_dport rl) (cr_proto rl)) :: u32) AND msk)"

fun try_rules :: "cfg_rule list \<Rightarrow> u32 \<Rightarrow> u32 \<Rightarrow> u8 list \<Rightarrow> bool option" where
  "try_rules [] seed msk table = Some True"
| "try_rules (rl # rls) seed msk table = do {
     let h = unat (rule_hash seed msk rl);
     t \<leftarrow> cell table h;
     if t \<noteq> 0 then Some False else try_rules rls seed msk (table[h := 1]) }"

text \<open>One atomic step of a thread. The record is read anew for the test and for the draw.\<close>

definition thread_step :: "search_cfg \<Rightarrow> shared \<Rightarrow> thread \<Rightarrow> (shared \<times> thread) option" where
  "thread_step c s t = (case thread_at t of
     At_Test \<Rightarrow> Some (s, t\<lparr>thread_at :=
       (if \<not> quit_signal s \<and> target_bits c < record_bits s then At_Draw else At_End)\<rparr>)
   | At_Draw \<Rightarrow> do {
       let (r, st) = xoro_rand (xoro_state t);
       let seed = (ucast r :: u32);
       let bits = record_bits s - 1;
       ok \<leftarrow> try_rules (search_rules c) seed (seed_mask bits) (replicate MAX_RULES 0);
       Some (s, t\<lparr>xoro_state := st, thread_at := (if ok then At_Exchange seed bits else At_Test)\<rparr>) }
   | At_Exchange seed bits \<Rightarrow>
       (if record_bits s = bits + 1
        then Some (s\<lparr>record_bits := bits\<rparr>, t\<lparr>thread_at := At_Store seed\<rparr>)
        else Some (s, t\<lparr>thread_at := At_Test\<rparr>))
   | At_Store seed \<Rightarrow> Some (s\<lparr>record_seed := seed\<rparr>, t\<lparr>thread_at := At_Test\<rparr>)
   | At_End \<Rightarrow> Some (s, t))"

section \<open>The search\<close>

text \<open>\<open>FindRuleMagic\<close> before it starts the threads; the number of rules is not zero.\<close>

definition search_config :: "cfg_rule list \<Rightarrow> search_cfg option" where
  "search_config rules = do {
     b \<leftarrow> bsr (of_nat (length rules));
     Some \<lparr>target_bits = b + 1, search_rules = rules\<rparr> }"

definition search_start :: "shared option" where
  "search_start = do {
     b \<leftarrow> bsr (of_nat MAX_RULES);
     Some \<lparr>record_bits = b + 1, record_seed = 0, quit_signal = False\<rparr> }"

text \<open>Any thread moves, or the main thread raises the signal after its wait.\<close>

inductive search_step :: "search_cfg \<Rightarrow> shared \<times> thread list \<Rightarrow> shared \<times> thread list \<Rightarrow> bool" for c where
  thread_moves: "i < length ts \<Longrightarrow> thread_step c s (ts ! i) = Some (s', t) \<Longrightarrow>
    search_step c (s, ts) (s', ts[i := t])"
| time_out: "search_step c (s, ts) (s\<lparr>quit_signal := True\<rparr>, ts)"

inductive searching :: "cfg_rule list \<Rightarrow> u32 list \<Rightarrow> shared \<times> thread list \<Rightarrow> bool" for rules tids where
  started: "search_start = Some s \<Longrightarrow> searching rules tids (s, map thread_start tids)"
| moved: "searching rules tids x \<Longrightarrow> search_config rules = Some c \<Longrightarrow> search_step c x y \<Longrightarrow>
    searching rules tids y"

text \<open>What is returned once every thread has ended: the seed and the size, if any was recorded.\<close>

definition magic_result :: "shared \<Rightarrow> (u32 \<times> u32) option" where
  "magic_result s = (case bsr (of_nat MAX_RULES) of None \<Rightarrow> None
     | Some b \<Rightarrow> if b < record_bits s then None else Some (record_seed s, record_bits s))"

definition all_ended :: "thread list \<Rightarrow> bool" where
  "all_ended ts \<longleftrightarrow> (\<forall>t\<in>set ts. thread_at t = At_End)"

declare rotl64_def [ntfw_eval] splitmix64_def [ntfw_eval] xoro_seed_def [ntfw_eval] xoro_rand_def [ntfw_eval]
  seed_mask_def [ntfw_eval] rule_hash_def [ntfw_eval]
  try_rules.simps [ntfw_eval] thread_step_def [ntfw_eval]

section \<open>Seeds without collisions\<close>

lemma bsr_max_rules: "bsr (of_nat MAX_RULES) = Some 7"
  unfolding MAX_RULES_def by code_simp

lemma search_start_eq: "search_start = Some \<lparr>record_bits = 8, record_seed = 0, quit_signal = False\<rparr>"
  by (simp add: search_start_def bsr_max_rules)

lemma magic_result_eq:
  "magic_result s = (if 7 < record_bits s then None else Some (record_seed s, record_bits s))"
  by (simp add: magic_result_def bsr_max_rules)

text \<open>\<open>perfect rules seed bits\<close>: no two rules share a slot of the table of \<open>2^bits\<close> entries.\<close>

definition perfect :: "cfg_rule list \<Rightarrow> u32 \<Rightarrow> u32 \<Rightarrow> bool" where
  "perfect rules seed bits \<longleftrightarrow> distinct (map (rule_hash seed (seed_mask bits)) rules)"

lemma try_rules_eq:
  assumes "length table = n" "\<forall>rl\<in>set rls. unat (rule_hash seed msk rl) < n"
  shows "try_rules rls seed msk table = Some (distinct (map (rule_hash seed msk) rls) \<and>
    (\<forall>rl\<in>set rls. table ! unat (rule_hash seed msk rl) = 0))"
  using assms
proof (induction rls arbitrary: table)
  case (Cons rl rls)
  let ?h = "\<lambda>r. unat (rule_hash seed msk r)"
  have "table[?h rl := 1] ! ?h r = (if rule_hash seed msk r = rule_hash seed msk rl then 1 else table ! ?h r)"
    if "r \<in> set rls" for r using that Cons.prems by (auto simp: nth_list_update word_unat_eq_iff)
  then show ?case using Cons.IH [of "table[?h rl := 1]"] Cons.prems
    by (auto simp: cell_def Let_def image_iff)
qed simp

lemma seed_mask_eq: "unat bits < 32 \<Longrightarrow> seed_mask bits = mask (unat bits)"
  by (simp add: seed_mask_def mask_eq_exp_minus_1 push_bit_of_1)

lemma rule_hash_less:
  assumes "unat bits \<le> 7"
  shows "unat (rule_hash seed (seed_mask bits) rl) < MAX_RULES"
proof -
  let ?x = "ucast (ntfe_rule_hashfn seed (cr_ether rl) (cr_dport rl) (cr_proto rl)) :: u32"
  have "unat (?x AND seed_mask bits) < 2 ^ unat bits"
    using assms by (simp add: seed_mask_eq unat_take_bit_less flip: take_bit_eq_mask)
  moreover have "(2 :: nat) ^ unat bits \<le> 2 ^ 7" using assms by (intro power_increasing) simp_all
  moreover have "unat (rule_hash seed (seed_mask bits) rl) \<le> unat (?x AND seed_mask bits)"
    by (simp add: rule_hash_def unsigned_ucast_eq take_bit_nat_less_eq_self)
  ultimately show ?thesis by (simp add: MAX_RULES_def)
qed

lemma try_rules_perfect:
  assumes "unat bits \<le> 7"
  shows "try_rules rules seed (seed_mask bits) (replicate MAX_RULES 0) = Some (perfect rules seed bits)"
  using rule_hash_less [OF assms] by (subst try_rules_eq [where n = MAX_RULES]) (auto simp: perfect_def)

text \<open>At most one rule per slot.\<close>

lemma perfect_bound:
  assumes "perfect rules seed bits" "unat bits \<le> 7"
  shows "length rules \<le> 2 ^ unat bits"
proof -
  have "unat (rule_hash seed (seed_mask bits) rl) < 2 ^ unat bits" for rl
  proof -
    let ?x = "ucast (ntfe_rule_hashfn seed (cr_ether rl) (cr_dport rl) (cr_proto rl)) :: u32"
    have "unat (?x AND seed_mask bits) < 2 ^ unat bits"
      using assms(2) by (simp add: seed_mask_eq unat_take_bit_less flip: take_bit_eq_mask)
    then show ?thesis
      by (simp add: rule_hash_def unsigned_ucast_eq le_less_trans [OF take_bit_nat_less_eq_self])
  qed
  then have "unat ` set (map (rule_hash seed (seed_mask bits)) rules) \<subseteq> {..<2 ^ unat bits}" by auto
  then have "card (unat ` set (map (rule_hash seed (seed_mask bits)) rules)) \<le> 2 ^ unat bits"
    using card_mono [of "{..<2 ^ unat bits}"] by fastforce
  moreover have "card (unat ` set (map (rule_hash seed (seed_mask bits)) rules)) =
      card (set (map (rule_hash seed (seed_mask bits)) rules))"
    by (rule card_image) (simp add: inj_on_def word_unat_eq_iff)
  ultimately show ?thesis
    using distinct_card [of "map (rule_hash seed (seed_mask bits)) rules"] assms(1) by (simp add: perfect_def)
qed

end
