(* ===== verification/Seed_Ok.thy ===== *)
theory Seed_Ok
  imports Seed_Search
begin

text \<open>
  What the seed search guarantees: its threads never leave their tables, what one thread records is a
  perfect hash, and a perfect hash loads into the engine's rule table without a collision.
\<close>

section \<open>The target\<close>

lemma bsr_bounds:
  assumes "bsr x = Some b"
  shows "2 ^ unat b \<le> unat x" "unat x < 2 ^ Suc (unat b)" "unat b \<le> 31"
proof -
  define P where "P = (\<lambda>i. \<not> bit x (31 - i))"
  define j where "j = length (takeWhile P [0..<32])"
  have x: "x \<noteq> 0" "b = of_nat (31 - j)"
    using assms by (auto simp: bsr_def j_def P_def split: if_splits)
  have below: "P i" if "i < j" for i
    using that nth_mem [of i "takeWhile P [0..<32]"] takeWhile_nth [of i P "[0..<32]"]
      length_takeWhile_le [of P "[0..<32]"] set_takeWhileD [of _ P "[0..<32]"]
    by (auto simp: j_def)
  have j: "j < 32"
  proof (rule ccontr)
    assume "\<not> j < 32"
    then have "\<not> bit x n" if "n < 32" for n using below [of "31 - n"] that by (simp add: P_def)
    then have "x = 0" by (intro bit_word_eqI) simp
    then show False using x(1) by simp
  qed
  then have "\<not> P j" using nth_length_takeWhile [of P "[0..<32]"] by (simp add: j_def)
  then have top: "bit x (31 - j)" by (simp add: P_def)
  have zero: "\<not> bit x n" if "31 - j < n" for n
  proof (cases "n < 32")
    case True
    then show ?thesis using below [of "31 - n"] that j by (auto simp: P_def)
  next
    case False
    then show ?thesis using bit_imp_le_length [of x n] by auto
  qed
  have u: "unat b = 31 - j" by (simp add: x(2) unat_of_nat)
  then show "unat b \<le> 31" by simp
  have "x = take_bit (Suc (31 - j)) x"
    by (rule bit_word_eqI) (simp add: bit_take_bit_iff less_Suc_eq_le, metis not_less zero)
  then have "unat x = take_bit (Suc (31 - j)) (unat x)" by (metis unsigned_take_bit_eq)
  then show "unat x < 2 ^ Suc (unat b)" using u take_bit_nat_less_exp by metis
  show "2 ^ unat b \<le> unat x"
  proof (rule ccontr)
    assume "\<not> 2 ^ unat b \<le> unat x"
    then have "unat x div 2 ^ (31 - j) = 0" using u by simp
    then have "\<not> bit (unat x) (31 - j)" by (simp add: bit_iff_odd)
    then show False using top by (simp add: bit_unsigned_iff)
  qed
qed

lemma target_bounds:
  assumes "search_config rules = Some c" "length rules \<le> MAX_RULES"
  shows "search_rules c = rules" "2 ^ unat (target_bits c) \<le> 2 * length rules"
    "length rules < 2 ^ unat (target_bits c)" "1 \<le> unat (target_bits c)" "unat (target_bits c) \<le> 8"
proof -
  obtain b where b: "bsr (of_nat (length rules)) = Some b" "c = \<lparr>target_bits = b + 1, search_rules = rules\<rparr>"
    using assms(1) by (auto simp: search_config_def split: bind_splits)
  have n: "unat (of_nat (length rules) :: u32) = length rules" "length rules \<le> 128"
    using assms(2) by (simp_all add: unat_of_nat MAX_RULES_def)
  note bb = bsr_bounds [OF b(1), unfolded n(1)]
  have t: "unat (target_bits c) = Suc (unat b)" using bb(3) by (simp add: b(2) unat_word_ariths)
  have "(2 :: nat) ^ unat b \<le> 2 ^ 7" using bb(1) n(2) by simp
  then have "unat b \<le> 7" by (rule power_le_imp_le_exp [rotated]) simp
  then show "search_rules c = rules" "2 ^ unat (target_bits c) \<le> 2 * length rules"
    "length rules < 2 ^ unat (target_bits c)" "1 \<le> unat (target_bits c)" "unat (target_bits c) \<le> 8"
    using bb t b(2) by simp_all
qed

section \<open>Any number of threads\<close>

lemma unat_pred32: "x \<noteq> 0 \<Longrightarrow> unat (x - 1 :: u32) = unat x - 1"
  by (metis unat_minus_one)

text \<open>\<open>search_inv\<close>: the record stays in range and can hold the rules; a seed about to be exchanged is
  perfect for its size.\<close>

definition search_inv :: "cfg_rule list \<Rightarrow> shared \<times> thread list \<Rightarrow> bool" where
  "search_inv rules x \<longleftrightarrow> unat (record_bits (fst x)) \<le> 8 \<and> length rules \<le> 2 ^ unat (record_bits (fst x)) \<and>
     (\<forall>t\<in>set (snd x). \<forall>seed bits. thread_at t = At_Exchange seed bits \<longrightarrow>
        unat bits \<le> 7 \<and> perfect rules seed bits)"

lemma search_inv_room:
  assumes "search_inv rules (s, ts)" "2 \<le> length rules"
  shows "record_bits s \<noteq> 0" "unat (record_bits s - 1) \<le> 7"
proof -
  show "record_bits s \<noteq> 0"
  proof
    assume "record_bits s = 0"
    then have "length rules \<le> 1" using assms(1) by (simp add: search_inv_def)
    then show False using assms(2) by simp
  qed
  then show "unat (record_bits s - 1) \<le> 7" using assms(1) by (auto simp: search_inv_def unat_pred32)
qed

lemma thread_step_inv:
  assumes inv: "search_inv rules (s, ts)" and n: "2 \<le> length rules" and c: "search_rules c = rules"
    and t: "t \<in> set ts"
  shows "\<exists>s' t'. thread_step c s t = Some (s', t') \<and> search_inv rules (s', t' # ts)"
proof (cases "thread_at t")
  case At_Draw
  let ?r = "xoro_rand (xoro_state t)"
  have "try_rules rules seed (seed_mask (record_bits s - 1)) (replicate MAX_RULES 0) =
      Some (perfect rules seed (record_bits s - 1))" for seed
    by (rule try_rules_perfect [OF search_inv_room(2) [OF inv n]])
  then show ?thesis using At_Draw inv c search_inv_room(2) [OF inv n]
    by (cases ?r) (auto simp: thread_step_def search_inv_def Let_def)
next
  case (At_Exchange seed bits)
  then have p: "unat bits \<le> 7" "perfect rules seed bits" using inv t by (auto simp: search_inv_def)
  note perfect_bound [OF p(2,1)]
  then show ?thesis using At_Exchange inv p by (auto simp: thread_step_def search_inv_def)
qed (use inv in \<open>auto simp: thread_step_def search_inv_def split: if_splits\<close>)

lemma search_inv_subset: "search_inv rules (s, ts) \<Longrightarrow> set ts' \<subseteq> set ts \<Longrightarrow> search_inv rules (s, ts')"
  by (auto simp: search_inv_def)

lemma searching_inv:
  assumes "searching rules tids x" "2 \<le> length rules" "length rules \<le> MAX_RULES"
  shows "search_inv rules x"
  using assms(1)
proof (induction rule: searching.induct)
  case (started s)
  then show ?case using assms(3)
    by (auto simp: search_start_eq search_inv_def thread_start_def MAX_RULES_def)
next
  case (moved x c y)
  note c = target_bounds(1) [OF moved(2) assms(3)]
  from moved(3) show ?case
  proof cases
    case (thread_moves i ts s s' t)
    then obtain s'' t'' where "thread_step c s (ts ! i) = Some (s'', t'')" "search_inv rules (s'', t'' # ts)"
      using thread_step_inv [OF _ assms(2) c, of s ts "ts ! i"] moved(4) by auto
    moreover have "s'' = s'" "t'' = t" using calculation(1) thread_moves(4) by simp_all
    moreover have "set (ts[i := t]) \<subseteq> set (t # ts)" using set_update_subset_insert [of ts i t] by simp
    ultimately show ?thesis using thread_moves(2) search_inv_subset by blast
  next
    case (time_out s ts)
    then show ?thesis using moved(4) by (simp add: search_inv_def)
  qed
qed

section \<open>One thread\<close>

text \<open>\<open>lone_inv\<close>: with a single thread the record never falls below the target, and the recorded seed is
  perfect for the recorded size, unless the thread is about to store it.\<close>

definition recorded :: "cfg_rule list \<Rightarrow> shared \<Rightarrow> bool" where
  "recorded rules s \<longleftrightarrow> (record_bits s < 8 \<longrightarrow> perfect rules (record_seed s) (record_bits s))"

definition lone_inv :: "search_cfg \<Rightarrow> cfg_rule list \<Rightarrow> shared \<Rightarrow> thread \<Rightarrow> bool" where
  "lone_inv c rules s t \<longleftrightarrow> target_bits c \<le> record_bits s \<and> record_bits s \<le> 8 \<and> (case thread_at t of
     At_Draw \<Rightarrow> target_bits c < record_bits s \<and> recorded rules s
   | At_Exchange seed bits \<Rightarrow> record_bits s = bits + 1 \<and> target_bits c \<le> bits \<and> bits \<le> 7 \<and>
       perfect rules seed bits \<and> recorded rules s
   | At_Store seed \<Rightarrow> record_bits s \<le> 7 \<and> perfect rules seed (record_bits s)
   | _ \<Rightarrow> recorded rules s)"

lemma pred_bounds:
  assumes "(t :: u32) < r" "r \<le> 8"
  shows "t \<le> r - 1" "r - 1 \<le> 7" "unat (r - 1) \<le> 7"
proof -
  have "r \<noteq> 0" using assms(1) by auto
  then have "unat (r - 1) = unat r - 1" by (rule unat_pred32)
  then show "t \<le> r - 1" "r - 1 \<le> 7" "unat (r - 1) \<le> 7"
    using assms by (auto simp: word_le_nat_alt word_less_nat_alt)
qed

lemma lone_step:
  assumes "thread_step c s t = Some (s', t')" "lone_inv c rules s t" "search_rules c = rules"
  shows "lone_inv c rules s' t'"
proof (cases "thread_at t")
  case At_Draw
  then have b: "target_bits c < record_bits s" "record_bits s \<le> 8" "recorded rules s"
    using assms(2) by (simp_all add: lone_inv_def)
  note p = pred_bounds [OF b(1,2)]
  show ?thesis using assms(1,3) At_Draw b p
    by (auto simp: thread_step_def lone_inv_def Let_def try_rules_perfect split: prod.splits)
next
  case (At_Exchange seed bits)
  then show ?thesis using assms(1,2)
    by (auto simp: thread_step_def lone_inv_def intro: order_trans)
next
  case (At_Store seed)
  then show ?thesis using assms(1,2) by (auto simp: thread_step_def lone_inv_def recorded_def)
qed (use assms(1,2) in \<open>auto simp: thread_step_def lone_inv_def not_less split: if_splits\<close>)

lemma lone_searching:
  assumes "searching rules [tid] x" "search_config rules = Some c" "length rules \<le> MAX_RULES"
  shows "\<exists>s t. x = (s, [t]) \<and> lone_inv c rules s t"
  using assms(1)
proof (induction rule: searching.induct)
  case (started s)
  then show ?case using target_bounds(5) [OF assms(2,3)]
    by (auto simp: search_start_eq lone_inv_def thread_start_def word_le_nat_alt recorded_def)
next
  case (moved x c' y)
  then obtain s t where x: "x = (s, [t])" "lone_inv c rules s t" by blast
  have c: "c' = c" using moved(2) assms(2) by simp
  from moved(3) show ?case unfolding x(1) c
  proof cases
    case (thread_moves i s' t')
    then show ?thesis using lone_step [OF _ x(2) target_bounds(1) [OF assms(2,3)]] by simp
  next
    case time_out
    then show ?thesis using x(2) by (auto simp: lone_inv_def recorded_def split: thread_pc.splits)
  qed
qed

section \<open>A perfect seed loads\<close>

lemma rule_hash_slot:
  assumes "unat bits \<le> 7"
  shows "unat (rule_hash seed (seed_mask bits) rl) = rule_slot rl seed (ucast bits)"
proof -
  let ?x = "ucast (ntfe_rule_hashfn seed (cr_ether rl) (cr_dport rl) (cr_proto rl)) :: u32"
  have b: "unat (ucast bits :: u8) = unat bits" using assms by (simp add: unsigned_ucast_eq take_bit_nat_eq_self)
  have m: "seed_mask bits = hash_mask (ucast bits)" by (simp add: seed_mask_def hash_mask_def b)
  have "unat (?x AND seed_mask bits) < 2 ^ unat bits"
    using assms by (simp add: seed_mask_eq unat_take_bit_less flip: take_bit_eq_mask)
  also have "(2 :: nat) ^ unat bits \<le> 2 ^ 7" using assms by (intro power_increasing) simp_all
  finally show ?thesis
    by (simp add: rule_hash_def rule_slot_def unsigned_ucast_eq take_bit_nat_eq_self flip: m)
qed

lemma perfect_loads:
  assumes "perfect rls seed bits" "unat bits \<le> 7" "length rules = MAX_RULES"
    and "\<forall>rl\<in>set rls. fsig (rules ! rule_slot rl seed (ucast bits)) = 0"
  shows "\<exists>rules'. fold_opt (rule_ins seed (ucast bits)) rules rls = Some rules'"
  using assms
proof (induction rls arbitrary: rules)
  case (Cons rl rls)
  note slot = rule_hash_slot [OF Cons.prems(2), symmetric]
  let ?i = "rule_slot rl seed (ucast bits)"
  have i: "?i < length rules" using rule_hash_less [OF Cons.prems(2)] Cons.prems(3) by (simp add: slot)
  have one: "rule_ins seed (ucast bits) rules rl = Some (rules[?i := rule_of_cfg rl])"
    using i Cons.prems(4) by (simp add: rule_ins_Some)
  have "?i \<noteq> rule_slot r seed (ucast bits)" if "r \<in> set rls" for r
    using Cons.prems(1) that by (auto simp: slot perfect_def image_iff simp flip: word_unat_eq_iff)
  then have "\<exists>rules'. fold_opt (rule_ins seed (ucast bits)) (rules[?i := rule_of_cfg rl]) rls = Some rules'"
    using Cons.prems by (intro Cons.IH) (auto simp: perfect_def)
  then show ?case using one by simp
qed simp

end
