(* ===== verification/Seed_Props.thy ===== *)
theory Seed_Props
  imports Seed_Ok
begin

text \<open>
  Properties of the seed search: memory safety for any number of threads, what a single thread returns,
  and how two threads can return a seed with a size it is not perfect for.
\<close>

definition arp_rule :: cfg_rule where
  "arp_rule = \<lparr>cr_ether = 0x0806, cr_dport = 0, cr_byte_scale = 0, cr_packet_scale = 0, cr_syn_scale = 0,
     cr_proto = 0, cr_byte_tb = 0, cr_packet_tb = 0, cr_syn_tb = 0\<rparr>"

definition http_rule :: cfg_rule where
  "http_rule = \<lparr>cr_ether = 0x0800, cr_dport = 80, cr_byte_scale = 1, cr_packet_scale = 0, cr_syn_scale = 0,
     cr_proto = 6, cr_byte_tb = 0, cr_packet_tb = 0, cr_syn_tb = 0\<rparr>"

definition two_rules :: "cfg_rule list" where "two_rules = [arp_rule, http_rule]"

definition two_config :: search_cfg where
  "two_config = \<lparr>target_bits = 2, search_rules = two_rules\<rparr>"

lemma two_config: "search_config two_rules = Some two_config" by code_simp

text \<open>One move of the thread in position \<open>i\<close>, as a function.\<close>

definition move_in :: "search_cfg \<Rightarrow> nat \<Rightarrow> shared \<times> thread list \<Rightarrow> (shared \<times> thread list) option" where
  "move_in c i x = (case x of (s, ts) \<Rightarrow>
     if i < length ts then map_option (\<lambda>(s', t). (s', ts[i := t])) (thread_step c s (ts ! i)) else None)"

abbreviation move :: "nat \<Rightarrow> shared \<times> thread list \<Rightarrow> (shared \<times> thread list) option" where
  "move \<equiv> move_in two_config"

lemma move_step: "move_in c i x = Some y \<Longrightarrow> search_step c x y"
  by (cases x) (auto simp: move_in_def split: if_splits intro: search_step.thread_moves)

lemma moves_search:
  assumes "fold_opt (\<lambda>x i. move_in c i x) x is = Some y" "search_config rules = Some c" "searching rules tids x"
  shows "searching rules tids y"
  using assms(1,3)
proof (induction "is" arbitrary: x)
  case (Cons i "is")
  then obtain z where "move_in c i x = Some z" "fold_opt (\<lambda>x i. move_in c i x) z is = Some y"
    by (auto split: bind_splits)
  then show ?case
    using Cons.IH searching.moved [OF Cons.prems(2) assms(2) move_step] by blast
qed simp

definition two_start :: "u32 list \<Rightarrow> shared \<times> thread list" where
  "two_start tids = (\<lparr>record_bits = 8, record_seed = 0, quit_signal = False\<rparr>, map thread_start tids)"

lemma two_start: "searching two_rules tids (two_start tids)"
  unfolding two_start_def by (rule searching.started) (simp add: search_start_eq)

text \<open>The first thread exchanges the record and is overtaken before it stores its seed.\<close>

definition race :: "(shared \<times> thread list) option" where
  "race = do {
     (s, ts) \<leftarrow> fold_opt (\<lambda>x i. move i x) (two_start [364, 4]) [0, 0, 0, 1, 1, 1, 1, 0];
     fold_opt (\<lambda>x i. move i x) (s\<lparr>quit_signal := True\<rparr>, ts) [0, 1] }"

lemma race_result:
  "case race of None \<Rightarrow> False
   | Some (s, ts) \<Rightarrow> all_ended ts \<and> magic_result s = Some (3707041807, 6) \<and> \<not> perfect two_rules 3707041807 6"
  by code_simp

section \<open>The search never leaves its tables\<close>

text \<open>
  C35: For two to 128 rules, however many threads search and in whatever order they run, no thread stores
  outside its table, the record stays between the size that can hold the rules and eight bits, and a
  thread's seed is perfect for the size it exchanges the record for. With one rule this fails
  (\<open>one_rule_search_faults\<close>).
\<close>

theorem seed_search_safe:
  assumes "searching rules tids (s, ts)" "2 \<le> length rules" "length rules \<le> MAX_RULES"
    and "search_config rules = Some c" "t \<in> set ts"
  shows "thread_step c s t \<noteq> None \<and> length rules \<le> 2 ^ unat (record_bits s) \<and> unat (record_bits s) \<le> 8 \<and>
    (\<forall>seed bits. thread_at t = At_Exchange seed bits \<longrightarrow> perfect rules seed bits)"
proof -
  note inv = searching_inv [OF assms(1-3)]
  show ?thesis
    using thread_step_inv [OF inv assms(2) target_bounds(1) [OF assms(4,3)] assms(5)] inv assms(5)
    by (auto simp: search_inv_def)
qed

theorem seed_search_safe_witness:
  "thread_step two_config \<lparr>record_bits = 8, record_seed = 0, quit_signal = False\<rparr> (thread_start 364) \<noteq> None"
proof -
  have "searching two_rules [364, 4] (\<lparr>record_bits = 8, record_seed = 0, quit_signal = False\<rparr>,
      [thread_start 364, thread_start 4])"
    using two_start [of "[364, 4]"] by (simp add: two_start_def)
  from seed_search_safe [OF this _ _ two_config] show ?thesis
    by (simp add: two_rules_def MAX_RULES_def)
qed

text \<open>
  With a single rule, whose target is one bit, three threads can pass the test at two bits: the first
  exchanges the record for one, the second for zero, and the third then takes one from zero. Its mask
  is \<open>2^31 - 1\<close>, and the slot of the rule lies outside its table.
\<close>

definition one_config :: search_cfg where
  "one_config = \<lparr>target_bits = 1, search_rules = [arp_rule]\<rparr>"

lemma one_try: "unat bits \<le> 7 \<Longrightarrow> try_rules [arp_rule] seed (seed_mask bits) (replicate MAX_RULES 0) = Some True"
  by (subst try_rules_perfect) (simp_all add: perfect_def)

text \<open>A draw always succeeds; a whole round takes one bit off the record.\<close>

lemma one_draw:
  assumes "thread_at t = At_Draw" "unat (record_bits s) \<le> 8" "record_bits s \<noteq> 0"
  obtains st seed where "thread_step one_config s t =
    Some (s, t\<lparr>xoro_state := st, thread_at := At_Exchange seed (record_bits s - 1)\<rparr>)"
proof -
  have "unat (record_bits s - 1) \<le> 7" using assms(2,3) by (simp add: unat_pred32)
  then show ?thesis using that assms(1)
    by (simp add: thread_step_def one_config_def one_try case_prod_beta Let_def del: try_rules.simps)
qed

lemma one_round:
  assumes "i < length ts" "thread_at (ts ! i) = At_Test" "\<not> quit_signal s" "1 < record_bits s" "unat (record_bits s) \<le> 8"
  shows "\<exists>s' t. fold_opt (\<lambda>x i. move_in one_config i x) (s, ts) [i, i, i, i] = Some (s', ts[i := t]) \<and>
    record_bits s' = record_bits s - 1 \<and> \<not> quit_signal s' \<and> thread_at t = At_Test"
proof -
  let ?t = "(ts ! i)\<lparr>thread_at := At_Draw\<rparr>"
  have nz: "record_bits s \<noteq> 0" using assms(4) by auto
  obtain st seed where d: "thread_step one_config s ?t =
      Some (s, ?t\<lparr>xoro_state := st, thread_at := At_Exchange seed (record_bits s - 1)\<rparr>)"
    by (rule one_draw [of ?t s]) (use assms(5) nz in simp_all)
  have t: "thread_step one_config s (ts ! i) = Some (s, ?t)"
    using assms(2-4) by (simp add: thread_step_def one_config_def)
  let ?t2 = "?t\<lparr>xoro_state := st, thread_at := At_Exchange seed (record_bits s - 1)\<rparr>"
  let ?s1 = "s\<lparr>record_bits := record_bits s - 1\<rparr>"
  have x: "thread_step one_config s ?t2 = Some (?s1, ?t2\<lparr>thread_at := At_Store seed\<rparr>)"
    "thread_step one_config ?s1 (?t2\<lparr>thread_at := At_Store seed\<rparr>) =
      Some (?s1\<lparr>record_seed := seed\<rparr>, ?t2\<lparr>thread_at := At_Test\<rparr>)"
    by (simp_all add: thread_step_def)
  have "fold_opt (\<lambda>x i. move_in one_config i x) (s, ts) [i, i, i, i] =
      Some (?s1\<lparr>record_seed := seed\<rparr>, ts[i := ?t2\<lparr>thread_at := At_Test\<rparr>])"
    using assms(1) by (simp only: move_in_def fold_opt.simps bind.bind_lunit prod.case length_list_update nth_list_update_eq
      if_True t d x option.map list_update_overwrite)
  moreover have "\<not> quit_signal (?s1\<lparr>record_seed := seed\<rparr>)" "record_bits (?s1\<lparr>record_seed := seed\<rparr>) = record_bits s - 1"
    "thread_at (?t2\<lparr>thread_at := At_Test\<rparr>) = At_Test" using assms(3) by simp_all
  ultimately show ?thesis by blast
qed

lemma one_rounds:
  assumes "i < length ts" "thread_at (ts ! i) = At_Test" "\<not> quit_signal s" "unat (record_bits s) = Suc n + 1"
    "unat (record_bits s) \<le> 8" "searching [arp_rule] tids (s, ts)" "search_config [arp_rule] = Some one_config"
  shows "\<exists>s' t. searching [arp_rule] tids (s', ts[i := t]) \<and> unat (record_bits s') = 2 \<and> \<not> quit_signal s' \<and>
    thread_at t = At_Test"
  using assms
proof (induction n arbitrary: s ts)
  case 0
  then show ?case by (intro exI [of _ s] exI [of _ "ts ! i"]) simp
next
  case (Suc n)
  have "1 < record_bits s" using Suc.prems(4) by (simp add: word_less_nat_alt)
  then obtain s' t where r: "fold_opt (\<lambda>x i. move_in one_config i x) (s, ts) [i, i, i, i] = Some (s', ts[i := t])"
    "record_bits s' = record_bits s - 1" "\<not> quit_signal s'" "thread_at t = At_Test"
    using one_round [OF Suc.prems(1-3) _ Suc.prems(5)] by blast
  have "unat (record_bits s') = Suc n + 1"
    using Suc.prems(4) unat_pred32 [of "record_bits s"] by (force simp: r(2))
  then obtain s2 t2 where "searching [arp_rule] tids (s2, ts[i := t, i := t2])" "unat (record_bits s2) = 2" "\<not> quit_signal s2"
    "thread_at t2 = At_Test"
    using Suc.IH [of "ts[i := t]" s'] Suc.prems moves_search [OF r(1) Suc.prems(7,6)] r(3,4) by auto
  then show ?case by auto
qed

lemma thread_8: "128 \<le> unat (rule_hash (ucast (fst (xoro_rand (xoro_seed 8)))) (seed_mask (- 1)) arp_rule)"
proof -
  have "xoro_seed 8 = (11409396526365357622, 11288449918072354817)" by code_simp
  then have x: "ucast (fst (xoro_rand (xoro_seed 8))) = (923971127 :: u32)" by (simp add: xoro_rand_def Let_def)
  have "unat (- 1 :: u32) mod 32 = 31" by (simp add: unsigned_minus_1_eq_mask mask_eq_exp_minus_1)
  then have m: "seed_mask (- 1) = 0x7FFFFFFF" by (simp add: seed_mask_def)
  have "rule_hash 923971127 0x7FFFFFFF arp_rule = 60782" by code_simp
  then show ?thesis unfolding x m by simp
qed

theorem one_rule_search_faults:
  "search_config [arp_rule] = Some one_config \<and>
   (\<exists>s ts. searching [arp_rule] [364, 4, 8] (s, ts) \<and> record_bits s = 0 \<and> thread_step one_config s (ts ! 2) = None)"
proof -
  have c: "search_config [arp_rule] = Some one_config" by code_simp
  have "searching [arp_rule] [364, 4, 8] (two_start [364, 4, 8])"
    unfolding two_start_def by (rule searching.started) (simp add: search_start_eq)
  from one_rounds [OF _ _ _ _ _ this [unfolded two_start_def] c, of 0 6]
  obtain s t where s: "searching [arp_rule] [364, 4, 8] (s, [t, thread_start 4, thread_start 8])"
    "unat (record_bits s) = 2" "\<not> quit_signal s" "thread_at t = At_Test"
    by (auto simp: thread_start_def)
  let ?u = "\<lambda>i. thread_start i\<lparr>thread_at := At_Draw\<rparr>"
  have r2: "record_bits s = 2" using s(2) by (simp add: word_unat_eq_iff)
  have m: "fold_opt (\<lambda>x i. move_in one_config i x) (s, [t, thread_start 4, thread_start 8]) [1, 2] = Some (s, [t, ?u 4, ?u 8])"
    using s(3) r2 by (simp add: move_in_def thread_step_def thread_start_def one_config_def)
  obtain s' t' where r: "fold_opt (\<lambda>x i. move_in one_config i x) (s, [t, ?u 4, ?u 8]) [0, 0, 0, 0] = Some (s', [t', ?u 4, ?u 8])"
    "record_bits s' = 1"
    using one_round [of 0 "[t, ?u 4, ?u 8]" s] s(3,4) r2 by auto
  obtain st seed where d: "thread_step one_config s' (?u 4) = Some (s', ?u 4\<lparr>xoro_state := st, thread_at := At_Exchange seed 0\<rparr>)"
    by (rule one_draw [of "?u 4" s']) (simp_all add: r(2))
  let ?s = "s'\<lparr>record_bits := 0\<rparr>" and ?t = "?u 4\<lparr>xoro_state := st, thread_at := At_Store seed\<rparr>"
  have e: "fold_opt (\<lambda>x i. move_in one_config i x) (s', [t', ?u 4, ?u 8]) [1, 1] = Some (?s, [t', ?t, ?u 8])"
    using d r(2) by (simp add: move_in_def) (simp add: thread_step_def)
  have "searching [arp_rule] [364, 4, 8] (?s, [t', ?t, ?u 8])"
    by (rule moves_search [OF e c moves_search [OF r(1) c moves_search [OF m c s(1)]]])
  moreover have "thread_step one_config ?s (?u 8) = None"
    using thread_8 by (simp add: thread_step_def thread_start_def one_config_def case_prod_beta Let_def cell_def MAX_RULES_def)
  ultimately show ?thesis using c by (intro conjI exI [of _ ?s] exI [of _ "[t', ?t, ?u 8]"]) simp_all
qed

section \<open>What a lone thread returns\<close>

lemma lone_config:
  assumes "searching rules [tid] (s, ts)" "all_ended ts"
  shows "\<exists>c. search_config rules = Some c"
  using assms
proof (cases rule: searching.cases)
  case (started)
  then show ?thesis using assms(2) by (simp add: all_ended_def thread_start_def)
qed auto

lemma magic_perfect:
  assumes "searching rules [tid] (s, ts)" "length rules \<le> MAX_RULES" "all_ended ts"
    and "magic_result s = Some (seed, bits)"
  shows "perfect rules seed bits" "1 \<le> unat bits" "unat bits \<le> 7"
proof -
  obtain c where c: "search_config rules = Some c" using lone_config [OF assms(1,3)] by blast
  obtain t where t: "ts = [t]" "lone_inv c rules s t" using lone_searching [OF assms(1) c assms(2)] by auto
  have r: "seed = record_seed s" "bits = record_bits s" "\<not> 7 < record_bits s"
    using assms(4) by (auto simp: magic_result_eq split: if_splits)
  have "thread_at t = At_End" using assms(3) t(1) by (simp add: all_ended_def)
  then show "perfect rules seed bits"
    using t(2) r by (auto simp: lone_inv_def recorded_def word_less_nat_alt)
  show "unat bits \<le> 7" using r by (simp add: word_less_nat_alt)
  show "1 \<le> unat bits"
    using t(2) target_bounds(4) [OF c assms(2)] r by (auto simp: lone_inv_def word_le_nat_alt)
qed

text \<open>
  C36: When one thread searches and ends with a result, the engine's empty rule table takes every rule under
  that seed and size without a collision, and the size is one the engine accepts.
\<close>

theorem lone_seed_loads:
  assumes "searching rules [tid] (s, ts)" "length rules \<le> MAX_RULES" "all_ended ts"
    and "magic_result s = Some (seed, bits)"
  shows "(\<exists>rules'. fold_opt (rule_ins seed (ucast bits)) (replicate MAX_RULES zero_rule) rules = Some rules') \<and>
    bits \<noteq> 0 \<and> unat bits \<le> 7"
proof -
  note p = magic_perfect [OF assms]
  have "fsig (replicate MAX_RULES zero_rule ! rule_slot rl seed (ucast bits)) = 0" for rl
    using rule_hash_less [OF p(3), of seed rl] by (simp add: rule_hash_slot [OF p(3)] zero_rule_def)
  then show ?thesis using perfect_loads [OF p(1,3), of "replicate MAX_RULES zero_rule"] p(2,3) by auto
qed

definition lone_run :: "(shared \<times> thread list) option" where
  "lone_run = do {
     (s, ts) \<leftarrow> fold_opt (\<lambda>x i. move i x) (two_start [364]) [0, 0, 0, 0];
     fold_opt (\<lambda>x i. move i x) (s\<lparr>quit_signal := True\<rparr>, ts) [0] }"

lemma lone_result:
  "case lone_run of None \<Rightarrow> False
   | Some (s, ts) \<Rightarrow> all_ended ts \<and> magic_result s = Some (3707041807, 7)"
  by code_simp

lemma stop_search:
  assumes "searching two_rules tids (s, ts)"
  shows "searching two_rules tids (s\<lparr>quit_signal := True\<rparr>, ts)"
  by (rule searching.moved [OF assms two_config search_step.time_out])

lemma run_then_stop:
  assumes "Option.bind (fold_opt (\<lambda>x i. move i x) x is)
      (\<lambda>(s, ts). fold_opt (\<lambda>x i. move i x) (s\<lparr>quit_signal := True\<rparr>, ts) js) = Some y"
    and "searching two_rules tids x"
  shows "searching two_rules tids y"
proof -
  obtain s ts where m: "fold_opt (\<lambda>x i. move i x) x is = Some (s, ts)"
    "fold_opt (\<lambda>x i. move i x) (s\<lparr>quit_signal := True\<rparr>, ts) js = Some y"
    using assms(1) by (auto split: bind_splits)
  show ?thesis by (rule moves_search [OF m(2) two_config stop_search [OF moves_search [OF m(1) two_config assms(2)]]])
qed

lemma lone_run_searching: "lone_run = Some x \<Longrightarrow> searching two_rules [364] x"
  unfolding lone_run_def by (rule run_then_stop [OF _ two_start])

theorem lone_seed_loads_witness:
  "\<exists>rules'. fold_opt (rule_ins 3707041807 7) (replicate MAX_RULES zero_rule) two_rules = Some rules'"
proof -
  obtain s ts where r: "lone_run = Some (s, ts)" "all_ended ts" "magic_result s = Some (3707041807, 7)"
    using lone_result by (auto split: option.splits)
  show ?thesis
    using lone_seed_loads [OF lone_run_searching [OF r(1)] _ r(2,3)] by (simp add: two_rules_def MAX_RULES_def)
qed

section \<open>A lost update\<close>

lemma race_searching: "race = Some x \<Longrightarrow> searching two_rules [364, 4] x"
  unfolding race_def by (rule run_then_stop [OF _ two_start])

lemma race_seed_collides:
  "fold_opt (rule_ins 3707041807 6) (replicate MAX_RULES zero_rule) two_rules = None"
  by code_simp

text \<open>
  C37: With two threads the search can return a seed together with the smaller size another thread has
  recorded: the two rules then collide, and the engine cannot load them.
\<close>

theorem concurrent_search_mismatch:
  "\<exists>s ts seed bits. searching two_rules [364, 4] (s, ts) \<and> all_ended ts \<and> magic_result s = Some (seed, bits) \<and>
     \<not> perfect two_rules seed bits \<and>
     fold_opt (rule_ins seed (ucast bits)) (replicate MAX_RULES zero_rule) two_rules = None"
proof -
  obtain s ts where r: "race = Some (s, ts)" "all_ended ts" "magic_result s = Some (3707041807, 6)"
    "\<not> perfect two_rules 3707041807 6"
    using race_result by (auto split: option.splits)
  show ?thesis
    using race_searching [OF r(1)] r(2-4) race_seed_collides
    by (intro exI [of _ s] exI [of _ ts] exI [of _ "3707041807 :: u32"] exI [of _ "6 :: u32"]) simp
qed

end
