(* ===== verification/Tool_Props.thy ===== *)
theory Tool_Props
  imports Config_Tool Seed_Props Engine_Props
begin

text \<open>
  Properties of the configuration tool: the dialog shows and yields the same rules, scrolling loses
  nothing, and what the tool saves is what it loads again and what the engine then enforces.
\<close>

section \<open>The dialog\<close>

text \<open>
  C38: Up to 32 rules, loaded into the dialog and followed by any scrolling, are downloaded in the same
  order, each in the form in which the dialog shows it; and whatever rules a dialog yields are in that
  form. The form keeps exactly the rules whose meters are below 4, whose ethertype is at least 256, which
  have a protocol only with IPv4 and a port only with a named protocol of it.
\<close>

theorem dialog_round_trip:
  assumes "length srcs \<le> DLG_MAX_RULES"
  shows "(\<exists>d d1 d2. RulesUpload srcs = Some d \<and> fold_opt scroll_one d msgs = Some d1 \<and>
      RulesDownload d1 = Some (True, map shown_form srcs, d2)) \<and>
    (RulesDownload d' = Some (ok, dst, d'') \<longrightarrow> map shown_form dst = dst) \<and>
    (\<forall>rl\<in>set srcs. shown_form rl = rl \<longleftrightarrow> shown rl)"
proof -
  obtain d where d: "RulesUpload srcs = Some d" "dialog_ok d" "user_rules d = Some (shown_rules srcs)"
    using RulesUpload_ok [OF assms] by blast
  obtain d1 where d1: "fold_opt scroll_one d msgs = Some d1" "user_rules d1 = user_rules d"
    using scrolls_ok [OF d(2)] by blast
  obtain rs where "download_rules (shown_rules srcs) = (True, map shown_form srcs, rs)"
    using download_any unfolding shown_rules_def by blast
  then have "RulesDownload d1 = Some (True, map shown_form srcs, d1\<lparr>Rules := rs\<rparr>)"
    using RulesDownload_eq [of d1] d1(2) d(3) by simp
  moreover have "map shown_form dst = dst" if "RulesDownload d' = Some (ok, dst, d'')"
    using that download_yields_shown
    by (intro map_idI) (fastforce simp: shown_form_iff RulesDownload_def Let_def split: bind_splits prod.splits)
  ultimately show ?thesis using d(1) d1(1) shown_form_iff by blast
qed

definition vlan_rule :: cfg_rule where
  "vlan_rule = arp_rule\<lparr>cr_ether := 0xABC, cr_byte_tb := 3\<rparr>"

theorem dialog_round_trip_witness:
  "\<exists>d d1 d2. RulesUpload [arp_rule, http_rule, vlan_rule] = Some d \<and>
     fold_opt scroll_one d [SB_PAGEDOWN, SB_LINEUP, SB_THUMB 500] = Some d1 \<and>
     RulesDownload d1 = Some (True, [arp_rule, http_rule, vlan_rule], d2)"
proof -
  have "map shown_form [arp_rule, http_rule, vlan_rule] = [arp_rule, http_rule, vlan_rule]" by code_simp
  moreover have "length [arp_rule, http_rule, vlan_rule] \<le> DLG_MAX_RULES" by (simp add: DLG_MAX_RULES_def)
  ultimately show ?thesis using conjunct1 [OF dialog_round_trip] by metis
qed

text \<open>
  A rule for port 80 of TCP over IPv6, charging meter 6, which the engine takes, comes back as one for all
  of IPv6 charging meter 2.
\<close>

definition ipv6_rule :: cfg_rule where
  "ipv6_rule = http_rule\<lparr>cr_ether := 0x86DD, cr_byte_tb := 6\<rparr>"

theorem loaded_rule_changes:
  "\<exists>d d2. RulesUpload [ipv6_rule] = Some d \<and>
     RulesDownload d = Some (True, [ipv6_rule\<lparr>cr_dport := 0, cr_proto := 0, cr_byte_tb := 2\<rparr>], d2)"
proof -
  have f: "shown_form ipv6_rule = ipv6_rule\<lparr>cr_dport := 0, cr_proto := 0, cr_byte_tb := 2\<rparr>" by code_simp
  obtain d where d: "RulesUpload [ipv6_rule] = Some d" "user_rules d = Some (shown_rules [ipv6_rule])"
    using RulesUpload_ok [of "[ipv6_rule]"] by (auto simp: DLG_MAX_RULES_def)
  obtain rs where "download_rules (shown_rules [ipv6_rule]) = (True, map shown_form [ipv6_rule], rs)"
    using download_any unfolding shown_rules_def by blast
  then show ?thesis using RulesDownload_eq [OF d(2)] d(1) f by simp
qed

text \<open>
  Scrolling never reads or writes outside the 32 rules, keeps the page inside them, and leaves every
  rule the user sees, the page included, as it was.
\<close>

theorem scrolling_keeps_rules:
  assumes "dialog_ok d"
  shows "\<exists>d'. fold_opt scroll_one d msgs = Some d' \<and> user_rules d' = user_rules d \<and>
    scroll_pos d' + RULE_PAGE_SZ \<le> DLG_MAX_RULES \<and> dialog_ok d'"
  using scrolls_ok [OF assms, of msgs] by (auto simp: dialog_ok_def)

theorem scrolling_keeps_rules_witness:
  "\<exists>d d'. RulesUpload [http_rule] = Some d \<and> fold_opt scroll_one d [SB_PAGEDOWN, WM_MOUSEWHEEL 240] = Some d' \<and>
     user_rules d' = user_rules d \<and> scroll_pos d' + RULE_PAGE_SZ \<le> DLG_MAX_RULES"
proof -
  obtain d where d: "RulesUpload [http_rule] = Some d" "dialog_ok d"
    using RulesUpload_ok [of "[http_rule]"] by (auto simp: DLG_MAX_RULES_def)
  then show ?thesis using scrolling_keeps_rules [OF d(2)] by blast
qed

section \<open>Saving and loading\<close>

lemma read_rules_length: "read_rules m p n = Some rls \<Longrightarrow> length rls = n"
  by (induction n arbitrary: p rls) (auto split: bind_splits)

lemma download_length:
  assumes "dialog_ok d" "RulesDownload d = Some (ok, rules, d')"
  shows "length rules \<le> DLG_MAX_RULES" "\<forall>rl\<in>set rules. shown rl"
proof -
  obtain rs where rs: "user_rules d = Some rs" "length rs = DLG_MAX_RULES" using user_rules_ok [OF assms(1)] by blast
  obtain ok' dst rs' where e: "download_rules rs = (ok', dst, rs')" by (cases "download_rules rs")
  then have "dst = rules" using RulesDownload_eq [OF rs(1)] assms(2) by simp
  then show "length rules \<le> DLG_MAX_RULES" "\<forall>rl\<in>set rules. shown rl" using download_yields_shown [OF e] rs(2) by simp_all
qed

text \<open>A write that succeeds puts the data at the start of the file and keeps what lies beyond it.\<close>

definition writes_data :: "(u8 list \<Rightarrow> u8 list \<Rightarrow> bool \<times> u8 list) \<Rightarrow> bool" where
  "writes_data w \<longleftrightarrow> (\<forall>old data new. w old data = (True, new) \<longrightarrow> new = data @ drop (length data) old)"

definition overwrite :: "u8 list \<Rightarrow> u8 list \<Rightarrow> bool \<times> u8 list" where
  "overwrite old data = (True, data @ drop (length data) old)"

lemma writes_overwrite: "writes_data overwrite"
  by (simp add: writes_data_def overwrite_def)

lemma saved_file:
  assumes "SaveNtfeConfiguration fm yes1 yes2 w d file = Some (True, file', d')" "writes_data w"
  obtains ok rules seed hashsz where "RulesDownload d = Some (ok, rules, d')"
    "(if rules = [] then Some (0, 0) else fm rules) = Some (seed, hashsz)"
    "file' = config_image rules seed hashsz @ drop (100 + 26 * length rules) file"
  using assms
  by (fastforce simp: SaveNtfeConfiguration_def writes_data_def split: bind_splits prod.splits if_splits option.splits)

lemma take_image: "length img \<le> n \<Longrightarrow> take n (img @ post) = img @ take (n - length img) post"
  by simp

text \<open>
  A configuration that was saved, also over a longer file, loads again into a dialog with the same
  rules: downloading from it gives exactly the rules that were written.
\<close>

theorem save_load_round_trip:
  assumes "dialog_ok d" "SaveNtfeConfiguration fm yes1 yes2 w d file = Some (True, file', d')" "writes_data w"
  shows "\<exists>ok rules d1 d2. RulesDownload d = Some (ok, rules, d') \<and> LoadNtfeConfiguration file' = Some d1 \<and>
    dialog_ok d1 \<and> user_rules d1 = Some (shown_rules rules) \<and> RulesDownload d1 = Some (True, rules, d2)"
proof -
  obtain ok rules seed hashsz where r: "RulesDownload d = Some (ok, rules, d')"
    "file' = config_image rules seed hashsz @ drop (100 + 26 * length rules) file"
    using saved_file [OF assms(2,3)] by metis
  note len = download_length [OF assms(1) r(1)]
  have l: "100 + 26 * length rules \<le> MAX_CFG_BUFFER" using len(1) by (simp add: DLG_MAX_RULES_def MAX_CFG_BUFFER_def)
  let ?data = "take MAX_CFG_BUFFER file' @ replicate (MAX_CFG_BUFFER - length file') 0"
  obtain post where data: "?data = config_image rules seed hashsz @ post"
    using l by (simp add: r(2))
  note f = image_fields(6) [OF len(1) data] and s = image_summary(4) [OF len(1) data]
  have n: "unat (of_nat (length rules) :: u32) = length rules"
    using len(1) by (simp add: unat_of_nat DLG_MAX_RULES_def)
  obtain d1 where d1: "RulesUpload rules = Some d1" "dialog_ok d1" "user_rules d1 = Some (shown_rules rules)"
    using RulesUpload_ok [OF len(1)] by blast
  have load: "LoadNtfeConfiguration file' = Some d1"
    using f s d1(1) by (simp add: LoadNtfeConfiguration_def Let_def n sizeof_ntfe_config_def)
  obtain rs where "download_rules (shown_rules rules) = (True, rules, rs)"
    using download_shown [OF len(2)] unfolding shown_rules_def by blast
  then have "RulesDownload d1 = Some (True, rules, d1\<lparr>Rules := rs\<rparr>)"
    using RulesDownload_eq [OF d1(3)] by simp
  then show ?thesis using r(1) load d1 by blast
qed

definition demo_find :: "cfg_rule list \<Rightarrow> (u32 \<times> u32) option" where
  "demo_find rules = (if rules = two_rules then Some (3707041807, 7) else None)"

lemma demo_saved:
  "\<exists>d d'. dialog_ok d \<and> RulesDownload d = Some (True, two_rules, d') \<and>
     SaveNtfeConfiguration demo_find False False overwrite d file =
       Some (True, config_image two_rules 3707041807 7 @ drop 152 file, d')"
proof -
  have sh: "\<forall>rl\<in>set two_rules. shown rl" by code_simp
  have len: "length two_rules \<le> DLG_MAX_RULES" "length two_rules = 2"
    by (simp_all add: two_rules_def DLG_MAX_RULES_def)
  obtain d where d: "dialog_ok d" "user_rules d = Some (shown_rules two_rules)"
    using RulesUpload_ok [OF len(1)] by blast
  obtain rs where dl: "download_rules (shown_rules two_rules) = (True, two_rules, rs)"
    using download_shown [OF sh] unfolding shown_rules_def by blast
  have r: "RulesDownload d = Some (True, two_rules, d\<lparr>Rules := rs\<rparr>)"
    using RulesDownload_eq [OF d(2)] dl by simp
  have "two_rules \<noteq> []" "\<exists>rl\<in>set two_rules. cr_ether rl = ETH_P_ARP"
    by (simp_all add: two_rules_def arp_rule_def ETH_P_ARP_def)
  then have "SaveNtfeConfiguration demo_find False False overwrite d file =
       Some (True, config_image two_rules 3707041807 7 @ drop 152 file, d\<lparr>Rules := rs\<rparr>)"
    using r len(2) by (simp add: SaveNtfeConfiguration_def demo_find_def overwrite_def)
  then show ?thesis using d(1) r by blast
qed

theorem save_load_round_trip_witness:
  "\<exists>d d1 d2 file'. SaveNtfeConfiguration demo_find False False overwrite d (replicate 500 7) = Some (True, file', d2) \<and>
     LoadNtfeConfiguration file' = Some d1 \<and> user_rules d1 = Some (shown_rules two_rules)"
proof -
  obtain d d' where d: "dialog_ok d" "RulesDownload d = Some (True, two_rules, d')"
    "SaveNtfeConfiguration demo_find False False overwrite d (replicate 500 7) =
       Some (True, config_image two_rules 3707041807 7 @ drop 152 (replicate 500 7), d')"
    using demo_saved [of "replicate 500 7"] by blast
  from save_load_round_trip [OF d(1,3) writes_overwrite] show ?thesis using d(2,3) by fastforce
qed

section \<open>From the dialog to the engine\<close>

text \<open>An image without hosts and meters whose rules load is accepted.\<close>

lemma image_accepted:
  assumes g: "control_inv g" "gs_rules g = replicate MAX_RULES zero_rule"
    and m: "length rules \<le> DLG_MAX_RULES" "m = config_image rules seed bits @ post" "length m < 2 ^ 32"
    and p: "perfect rules seed bits" "1 \<le> unat bits" "unat bits \<le> 7"
  shows "\<exists>g'. ntfe_configure e g m (of_nat (length m)) = Some (True, g') \<and> control_inv g' \<and> loaded e g m g'"
proof -
  note im = image_summary [OF m(1,2)] and f = image_fields [OF m(1,2)]
  have len: "length m = unat (of_nat (length m) :: u32)" using m(3) by (simp add: unat_of_nat)
  have h: "unat (im_hashsz (image_of m)) mod 32 \<noteq> 31" "\<not> hash_too_big bits" "bits \<noteq> 0" "img_hash m = ucast bits"
    using p(2,3) by (auto simp: im hash_too_big_iff img_hash_def)
  have "fsig (replicate MAX_RULES zero_rule ! rule_slot rl seed (ucast bits)) = 0" for rl
    using rule_hash_less [OF p(3), of seed rl] by (simp add: rule_hash_slot [OF p(3)] zero_rule_def)
  then obtain rules' where ld: "fold_opt (rule_ins seed (ucast bits)) (replicate MAX_RULES zero_rule) rules = Some rules'"
    using perfect_loads [OF p(1,3), of "replicate MAX_RULES zero_rule"] by auto
  have one: "rule_ins seed (ucast bits) (gs_rules g) rl \<noteq> None" for rl
    using rule_hash_less [OF p(3), of seed rl]
    by (simp add: rule_hash_slot [OF p(3)] rule_ins_Some g(2) Let_def zero_rule_def not_None_eq)
  have wf: "well_formed m (of_nat (length m))"
    using m(1) h unfolding well_formed_def im(3)
    by (simp add: im(1) f(1,2) len [symmetric] cfg_size_defs) (simp add: m(2) DLG_MAX_RULES_def MAX_RULES_def)
  have v: "ntfe_validate_configuration g m (of_nat (length m)) = Some True"
    by (subst validate_eq [OF len control_invD(3) [OF g(1)] h(1)])
      (simp add: wf im h(4) one)
  obtain ok g' where c: "ntfe_configure e g m (of_nat (length m)) = Some (ok, g')" "control_inv g'"
    "ok \<Longrightarrow> loaded e g m g'"
    "\<not> ok \<Longrightarrow> ntfe_validate_configuration g m (of_nat (length m)) = Some False \<or>
       fold_opt (rule_ins seed (ucast bits)) (replicate MAX_RULES zero_rule) rules = None"
    using configure_ok [OF g(1) len h(1), of e] by (auto simp: im h(4))
  have ok using c(4) v ld by auto
  then show ?thesis using c by auto
qed

text \<open>
  C39: When the dialog yields at least one rule, the seed was found by one searching thread and the file was
  written, an engine with an empty rule table accepts the file whatever lay in it before, and then looks
  up exactly the downloaded rules. Seeds found by several threads may be refused (a lost update of the search), and
  so is a configuration without rules (\<open>empty_configuration_refused\<close>).
\<close>

theorem saved_rules_are_enforced:
  assumes "dialog_ok d" "SaveNtfeConfiguration fm yes1 yes2 w d file = Some (True, file', d')" "writes_data w"
    and "RulesDownload d = Some (ok, rules, d')" "rules \<noteq> []" "length file < 2 ^ 31"
    and "\<forall>seed bits. fm rules = Some (seed, bits) \<longrightarrow>
      (\<exists>tid s ts. searching rules [tid] (s, ts) \<and> all_ended ts \<and> magic_result s = Some (seed, bits))"
    and "control_inv g" "gs_rules g = replicate MAX_RULES zero_rule"
  shows "\<exists>g'. ntfe_configure e g file' (of_nat (length file')) = Some (True, g') \<and> control_inv g' \<and>
    (\<forall>rl\<in>set rules. live_rule g' (cfg_sig rl) = Some (rule_of_cfg rl)) \<and>
    (\<forall>fs. fs \<noteq> 0 \<and> fs \<notin> cfg_sig ` set rules \<longrightarrow> live_rule g' fs = None)"
proof -
  obtain seed bits where r: "fm rules = Some (seed, bits)"
    "file' = config_image rules seed bits @ drop (100 + 26 * length rules) file"
    using saved_file [OF assms(2,3)] assms(4,5) by (metis Pair_inject option.inject)
  obtain tid s ts where t: "searching rules [tid] (s, ts)" "all_ended ts" "magic_result s = Some (seed, bits)"
    using assms(7) r(1) by blast
  have len: "length rules \<le> DLG_MAX_RULES" by (rule download_length [OF assms(1,4)])
  then have len': "length rules \<le> MAX_RULES" by (simp add: DLG_MAX_RULES_def MAX_RULES_def)
  have "length file' < 2 ^ 32" using assms(6) len by (simp add: r(2) DLG_MAX_RULES_def)
  from image_accepted [OF assms(8,9) len r(2) this magic_perfect [OF t(1) len' t(2,3)]]
  obtain g' where g': "ntfe_configure e g file' (of_nat (length file')) = Some (True, g')" "control_inv g'"
    "loaded e g file' g'" by blast
  show ?thesis using g' loaded_rules [OF g'(3)] image_summary(2) [OF len r(2)] by auto
qed

theorem saved_rules_are_enforced_witness:
  "\<exists>d d' file' g'. SaveNtfeConfiguration demo_find False False overwrite d [1, 2, 3] = Some (True, file', d') \<and>
     ntfe_configure demo_env ready_gs file' (of_nat (length file')) = Some (True, g') \<and>
     live_rule g' (cfg_sig http_rule) = Some (rule_of_cfg http_rule)"
proof -
  obtain d d' where d: "dialog_ok d" "RulesDownload d = Some (True, two_rules, d')"
    "SaveNtfeConfiguration demo_find False False overwrite d [1, 2, 3] =
       Some (True, config_image two_rules 3707041807 7 @ drop 152 [1, 2, 3], d')"
    using demo_saved [of "[1, 2, 3]"] by blast
  obtain s ts where r: "lone_run = Some (s, ts)" "all_ended ts" "magic_result s = Some (3707041807, 7)"
    using lone_result by (auto split: option.splits)
  have "\<exists>tid s ts. searching two_rules [tid] (s, ts) \<and> all_ended ts \<and> magic_result s = Some (3707041807, 7)"
    using lone_run_searching [OF r(1)] r(2,3) by blast
  then have "\<forall>seed bits. demo_find two_rules = Some (seed, bits) \<longrightarrow>
      (\<exists>tid s ts. searching two_rules [tid] (s, ts) \<and> all_ended ts \<and> magic_result s = Some (seed, bits))"
    by (simp add: demo_find_def)
  moreover have "two_rules \<noteq> []" "http_rule \<in> set two_rules" "length [1, 2, 3 :: u8] < 2 ^ 31"
    by (simp_all add: two_rules_def)
  ultimately show ?thesis
    using saved_rules_are_enforced [OF d(1,3) writes_overwrite d(2) _ _ _ ready_inv, of demo_env] d(3) ready_fields(5)
    by blast
qed

text \<open>
  A configuration without rules, which the tool writes after a warning, is refused by every engine: the
  table size it records is zero.
\<close>

theorem empty_configuration_refused:
  assumes "dialog_ok d" "SaveNtfeConfiguration fm True True overwrite d file = Some (True, file', d')"
    and "RulesDownload d = Some (ok, [], d')" "length file < 2 ^ 31" "control_inv g"
  shows "ntfe_configure e g file' (of_nat (length file')) = Some (False, g)"
proof -
  obtain seed bits where r: "seed = 0" "bits = 0" "file' = config_image [] seed bits @ drop 100 file"
    using saved_file [OF assms(2) writes_overwrite] assms(3) by fastforce
  have e: "length [] \<le> DLG_MAX_RULES" by simp
  note im = image_summary [OF e r(3)]
  have "length file' < 2 ^ 32" using assms(4) by (simp add: r(3))
  then have len: "length file' = unat (of_nat (length file') :: u32)" by (simp add: unat_of_nat)
  have "unat (im_hashsz (image_of file')) mod 32 \<noteq> 31" "\<not> well_formed file' (of_nat (length file'))"
    by (simp_all add: im r(2) well_formed_def)
  then have "ntfe_validate_configuration g file' (of_nat (length file')) = Some False"
    by (subst validate_eq [OF len control_invD(3) [OF assms(5)]]) simp_all
  then show ?thesis by (simp add: ntfe_configure_def)
qed

theorem empty_configuration_refused_witness:
  "\<exists>d d' file'. SaveNtfeConfiguration (\<lambda>_. None) True True overwrite d [] = Some (True, file', d') \<and>
     ntfe_configure demo_env ready_gs file' (of_nat (length file')) = Some (False, ready_gs)"
proof -
  obtain d where d: "dialog_ok d" "user_rules d = Some (shown_rules [])"
    using RulesUpload_ok [of "[]"] by auto
  obtain rs where "download_rules (shown_rules []) = (True, [], rs)"
    using download_shown [of "[]" "DLG_MAX_RULES"] by (auto simp: shown_rules_def)
  then have r: "RulesDownload d = Some (True, [], d\<lparr>Rules := rs\<rparr>)" using RulesDownload_eq [OF d(2)] by simp
  then have s: "SaveNtfeConfiguration (\<lambda>_. None) True True overwrite d [] =
      Some (True, config_image [] 0 0, d\<lparr>Rules := rs\<rparr>)"
    by (simp add: SaveNtfeConfiguration_def overwrite_def)
  have "ntfe_configure demo_env ready_gs (config_image [] 0 0) (of_nat (length (config_image [] 0 0))) =
      Some (False, ready_gs)"
    by (rule empty_configuration_refused [OF d(1) s r _ ready_inv]) simp
  with s show ?thesis by blast
qed

end
