(* ===== verification/Seed_Start.thy ===== *)
theory Seed_Start
  imports Seed_Ok
begin

text \<open>
  How \<open>FindRuleMagic\<close> of \<open>ntfw/phash.cpp\<close> starts its threads and waits for them: the counting of the
  processor cores, the creation of the threads, and when the function may return.
\<close>

section \<open>Counting the cores\<close>

text \<open>
  What \<open>GetLogicalProcessorInformationEx\<close> answers when it is asked for the size: it succeeds, it names
  the size that is needed, or it fails in another way.
\<close>

datatype size_answer = Size_ok | Size_needed u32 | Size_failed

text \<open>
  The walk over the records in the buffer, each with its size at offset 4. Reading beyond the buffer and
  walking for ever over a record of size zero are both \<open>None\<close>.
\<close>

partial_function (option) count_records :: "u8 list \<Rightarrow> nat \<Rightarrow> u32 \<Rightarrow> u32 \<Rightarrow> u32 option" where
  "count_records buf ptr Result Count =
     (if Result = 0 then Some Count
      else do {
        size \<leftarrow> rd32 buf (ptr + 4);
        if size < Result then count_records buf (ptr + unat size) (Result - size) (Count + 1)
        else Some Count })"

text \<open>The second call fills a buffer of the size asked for, and leaves the bytes used in \<open>Result\<close>.\<close>

definition GetProcessorCount :: "size_answer \<Rightarrow> (u8 list \<times> u32) option \<Rightarrow> u32 option" where
  "GetProcessorCount first second =
     (case first of Size_failed \<Rightarrow> Some 1
      | _ \<Rightarrow> (case second of None \<Rightarrow> Some 1 | Some (buf, Result) \<Rightarrow> count_records buf 0 Result 1))"

section \<open>Starting and waiting\<close>

text \<open>The threads created, up to the first that \<open>CreateThread\<close> refuses, and whether it refused none.\<close>

fun create_threads :: "u32 option list \<Rightarrow> u32 list \<times> bool" where
  "create_threads [] = ([], True)"
| "create_threads (None # cs) = ([], False)"
| "create_threads (Some tid # cs) = (case create_threads cs of (tids, ok) \<Rightarrow> (tid # tids, ok))"

text \<open>\<open>WaitForMultipleObjects\<close> for all threads: it fails at once for more than 64 of them.\<close>

definition MAXIMUM_WAIT_OBJECTS :: nat where "MAXIMUM_WAIT_OBJECTS = 64"

definition wait_all_returns :: "thread list \<Rightarrow> bool" where
  "wait_all_returns ts \<longleftrightarrow> MAXIMUM_WAIT_OBJECTS < length ts \<or> all_ended ts"

text \<open>
  \<open>FindRuleMagic\<close> returns, with its result and the threads as they are then: when a thread was refused, or
  after the signal was raised and the second wait has returned.
\<close>

inductive FindRuleMagic :: "cfg_rule list \<Rightarrow> u32 option list \<Rightarrow> (u32 \<times> u32) option \<Rightarrow> thread list \<Rightarrow> bool"
  for rules creates where
  refused: "create_threads creates = (tids, False) \<Longrightarrow> searching rules tids (s, ts) \<Longrightarrow> \<not> quit_signal s \<Longrightarrow>
    FindRuleMagic rules creates None ts"
| searched: "create_threads creates = (tids, True) \<Longrightarrow> searching rules tids (s, ts) \<Longrightarrow> quit_signal s \<Longrightarrow>
    wait_all_returns ts \<Longrightarrow> FindRuleMagic rules creates (magic_result s) ts"

lemma create_all: "create_threads (map Some tids) = (tids, True)"
  by (induction tids) auto

lemma create_length: "create_threads cs = (tids, ok) \<Longrightarrow> length tids \<le> length cs"
  by (induction cs arbitrary: tids rule: create_threads.induct) (auto split: prod.splits)

lemma search_length: "searching rules tids (s, ts) \<Longrightarrow> length ts = length tids"
proof (induction "(s, ts)" arbitrary: s ts rule: searching.induct)
  case (moved x c)
  then show ?case by (cases x) (auto elim!: search_step.cases)
qed simp

section \<open>What they guarantee\<close>

definition core_record :: "u8 list \<Rightarrow> bool" where
  "core_record r \<longleftrightarrow> 8 \<le> length r \<and> rd32 r 4 = Some (of_nat (length r))"

lemma rd32_later:
  assumes "rd32 r 4 = Some x"
  shows "rd32 (before @ r @ rest) (length before + 4) = Some x"
  using assms by (auto simp: rd32_def rd16_def rd8_def nth_append bind_eq_Some_conv split: if_splits)

lemma count_records_eq:
  assumes "\<forall>r\<in>set rs. core_record r" "rs \<noteq> []" "length (concat rs) < 2 ^ 32"
  shows "count_records (before @ concat rs) (length before) (of_nat (length (concat rs))) k =
    Some (k + of_nat (length rs) - 1)"
  using assms
proof (induction rs arbitrary: before k)
  case (Cons r rs)
  have r: "8 \<le> length r" "rd32 r 4 = Some (of_nat (length r))"
    using Cons.prems(1) by (simp_all add: core_record_def)
  let ?R = "of_nat (length (concat (r # rs))) :: u32"
  have n: "unat ?R = length (concat (r # rs))" "unat (of_nat (length r) :: u32) = length r"
  proof -
    have un: "unat (of_nat m :: u32) = m" if "m < 2 ^ 32" for m
      using that by (simp add: unat_of_nat)
    show "unat ?R = length (concat (r # rs))" by (rule un [OF Cons.prems(3)])
    have "length r \<le> length (concat (r # rs))" by simp
    then show "unat (of_nat (length r) :: u32) = length r"
      using Cons.prems(3) by (intro un) (rule le_less_trans)
  qed
  have rd: "rd32 (before @ concat (r # rs)) (length before + 4) = Some (of_nat (length r))"
    using rd32_later [OF r(2), of before "concat rs"] by simp
  have R0: "?R \<noteq> 0" using n(1) r(1) by (metis add_is_0 concat.simps(2) length_append not_numeral_le_zero unsigned_0)
  have less: "of_nat (length r) < ?R \<longleftrightarrow> concat rs \<noteq> []"
    unfolding word_less_nat_alt n by auto
  show ?case
  proof (cases rs)
    case Nil
    then show ?thesis using R0 rd less by (subst count_records.simps) simp
  next
    case (Cons r' rs')
    have "8 \<le> length r'" using Cons.prems(1) Cons by (simp add: core_record_def)
    then have ne: "concat rs \<noteq> []" using Cons by (cases r') auto
    have "?R - of_nat (length r) = of_nat (length (concat rs))" by simp
    then have "count_records (before @ concat (r # rs)) (length before) ?R k =
        count_records ((before @ r) @ concat rs) (length (before @ r)) (of_nat (length (concat rs))) (k + 1)"
      using R0 rd less ne n(2) by (subst count_records.simps) simp
    also have "\<dots> = Some (k + 1 + of_nat (length rs) - 1)"
      using Cons.IH [of "before @ r" "k + 1"] Cons.prems Cons by simp
    finally show ?thesis by (simp add: algebra_simps)
  qed
qed simp

text \<open>
  The count returns: for the records of \<open>n\<close> cores it is \<open>n\<close>, and 1 when the system does not answer.
\<close>

theorem processor_count_returns:
  assumes "\<forall>r\<in>set rs. core_record r" "rs \<noteq> []" "length (concat rs) < 2 ^ 32"
  shows "GetProcessorCount (Size_needed n) (Some (concat rs, of_nat (length (concat rs)))) = Some (of_nat (length rs)) \<and>
    GetProcessorCount Size_failed x = Some 1 \<and> GetProcessorCount (Size_needed n) None = Some 1"
  using count_records_eq [OF assms, of "[]" 1] by (simp add: GetProcessorCount_def)

definition one_core :: "u8 list" where
  "one_core = [0, 0, 0, 0, 48, 0, 0, 0] @ replicate 40 0"

lemma one_core: "core_record one_core"
  by code_simp

theorem processor_count_returns_witness:
  "GetProcessorCount (Size_needed 144) (Some (concat [one_core, one_core, one_core], 144)) = Some 3"
  using processor_count_returns [of "[one_core, one_core, one_core]" 144] one_core
  by (simp add: one_core_def)

text \<open>With at most 64 cores the rules of the caller are left alone when the function returns from a search.\<close>

theorem search_ends_with_threads:
  assumes "FindRuleMagic rules creates res ts" "length creates \<le> 64" "snd (create_threads creates)"
  shows "all_ended ts"
  using assms(1)
proof cases
  case (refused tids s)
  then show ?thesis using assms(3) by simp
next
  case (searched tids s)
  then show ?thesis
    using assms(2) create_length [OF searched(2)] search_length [OF searched(3)]
    by (simp add: wait_all_returns_def MAXIMUM_WAIT_OBJECTS_def)
qed

text \<open>
  With more than 64 cores both waits fail at once: the function may return before any thread has drawn a
  seed, without a result, while all its threads go on reading the caller's rules.
\<close>

theorem many_cores_no_seed:
  assumes "64 < length tids" "search_config rules = Some c"
  shows "FindRuleMagic rules (map Some tids) None (map thread_start tids) \<and> \<not> all_ended (map thread_start tids)"
proof -
  let ?s = "\<lparr>record_bits = 8, record_seed = 0, quit_signal = False\<rparr>"
  have "searching rules tids (?s, map thread_start tids)" by (rule searching.started) (simp add: search_start_eq)
  then have "searching rules tids (?s\<lparr>quit_signal := True\<rparr>, map thread_start tids)"
    by (rule searching.moved [OF _ assms(2) search_step.time_out])
  then have "FindRuleMagic rules (map Some tids) (magic_result (?s\<lparr>quit_signal := True\<rparr>)) (map thread_start tids)"
    by (rule FindRuleMagic.searched [OF create_all]) (use assms(1) in \<open>simp_all add: wait_all_returns_def MAXIMUM_WAIT_OBJECTS_def\<close>)
  moreover have "magic_result (?s\<lparr>quit_signal := True\<rparr>) = None" by (simp add: magic_result_eq)
  moreover have "tids \<noteq> []" using assms(1) by auto
  then have "\<not> all_ended (map thread_start tids)"
    by (cases tids) (auto simp: all_ended_def thread_start_def)
  ultimately show ?thesis by simp
qed

theorem many_cores_no_seed_witness:
  "\<exists>rules. length rules = 2 \<and> FindRuleMagic rules (map (\<lambda>i. Some (of_nat i)) [0..<65]) None (map (thread_start \<circ> of_nat) [0..<65])"
proof -
  define r :: "cfg_rule list" where "r = replicate 2 undefined"
  have "bsr 2 = Some 1" by code_simp
  then have "\<exists>c. search_config r = Some c" by (simp add: search_config_def r_def)
  then obtain c where "search_config r = Some c" by blast
  from many_cores_no_seed [of "map of_nat [0..<65]", OF _ this] show ?thesis
    by (intro exI [of _ r]) (simp add: r_def comp_def)
qed

end
