(* ===== verification/Dialog_Init.thy ===== *)
theory Dialog_Init
  imports Dialog_Rules
begin

text \<open>
  What \<open>OnRulesDlgMsg\<close> of \<open>ntfw/dlgrules.cpp\<close> puts into the page when it opens: the drop-down lists of
  protocols and meters, and the range of the scroll bar.
\<close>

section \<open>The drop-down lists\<close>

text \<open>
  The names of the two hash maps come in an order of the library's choosing, which is a parameter. A
  meter's name is the number \<open>k\<close> read as a string, whose second byte is the terminator.
\<close>

definition l4_heading :: cstr where "l4_heading = text_of ''>> L4 Protocols''"
definition l3_heading :: cstr where "l3_heading = text_of ''>> L3 Protocols''"

definition protocol_choices :: "cstr list \<Rightarrow> cstr list \<Rightarrow> cstr list" where
  "protocol_choices l4 l3 = [l4_heading] @ l4 @ [l3_heading] @ l3"

definition u16_text :: "u16 \<Rightarrow> cstr" where
  "u16_text k = takeWhile (\<lambda>c. c \<noteq> 0) [ucast k, ucast (drop_bit 8 k)]"

definition meter_choices :: "cstr list" where
  "meter_choices = map u16_text [49, 50, 51, 52]"

text \<open>The smallest and the largest position, the page and the position of the scroll bar.\<close>

definition scroll_range :: "int \<times> int \<times> nat \<times> nat" where
  "scroll_range = (0, int DLG_MAX_RULES - 1, RULE_PAGE_SZ, 0)"

section \<open>What they offer\<close>

definition l4_names :: "cstr list" where "l4_names = map fst str_to_l4"
definition l3_names :: "cstr list" where "l3_names = map fst str_to_l3"

definition is_heading :: "cstr \<Rightarrow> bool" where
  "is_heading c \<longleftrightarrow> take 2 c = text_of ''>>''"

lemma names_offered:
  "list_all (\<lambda>(c, _). \<not> is_heading c \<and> map_of str_to_l4 (lower c) \<noteq> None) str_to_l4"
  "list_all (\<lambda>(c, _). \<not> is_heading c \<and> map_of str_to_l3 (lower c) \<noteq> None) str_to_l3"
  "list_all (\<lambda>c. is_heading c \<and> map_of str_to_l4 (lower c) = None \<and> map_of str_to_l3 (lower c) = None \<and>
     parse_hex (lower c) 0 0 = None) [l4_heading, l3_heading]"
  by code_simp+

lemma offered_parse:
  "c \<in> set (l4_names @ l3_names) \<Longrightarrow> \<not> is_heading c \<and> parse_proto (lower c) p \<noteq> None"
  using names_offered(1,2) unfolding list_all_iff l4_names_def l3_names_def parse_proto_def
  by (auto split: option.splits)

lemma heading_parse:
  "c = l4_heading \<or> c = l3_heading \<Longrightarrow> is_heading c \<and> parse_proto (lower c) p = None"
  using names_offered(3) by (auto simp: parse_proto_def)

text \<open>
  Every protocol offered is accepted when the rules are saved, in whatever order the maps list them; the two
  headings are not, although they can be chosen like a protocol.
\<close>

theorem choices_accepted:
  assumes "set l4 = set l4_names" "set l3 = set l3_names" "c \<in> set (protocol_choices l4 l3)"
  shows "parse_proto (lower c) port = None \<longleftrightarrow> is_heading c"
proof -
  have "c \<in> set (l4_names @ l3_names) \<or> c = l4_heading \<or> c = l3_heading"
    using assms by (auto simp: protocol_choices_def)
  then show ?thesis using offered_parse [of c port] heading_parse [of c port] by metis
qed

theorem choices_accepted_witness:
  "parse_proto (lower (text_of ''tcp'')) 80 \<noteq> None \<and> parse_proto (lower l3_heading) 80 = None"
proof -
  have tcp: "text_of ''tcp'' \<in> set l4_names" "\<not> is_heading (text_of ''tcp'')"
    using names_offered(1) by (auto simp: l4_names_def str_to_l4_def list_all_iff)
  then have "text_of ''tcp'' \<in> set (protocol_choices l4_names l3_names)" "l3_heading \<in> set (protocol_choices l4_names l3_names)"
    unfolding protocol_choices_def by auto
  with tcp(2) show ?thesis
    using choices_accepted [OF refl refl, of "text_of ''tcp''" 80] choices_accepted [OF refl refl, of l3_heading 80]
      heading_parse [of l3_heading 80] by metis
qed

text \<open>The meters offered are 1 to 4; a rule stores the last as 0, which is not offered.\<close>

theorem meter_choices_stored:
  "map Edit_GetTextInt meter_choices = map Some [1, 2, 3, 4] \<and>
   map (\<lambda>c. map_option (\<lambda>i. of_int i :: 2 word) (Edit_GetTextInt c)) meter_choices = map Some [1, 2, 3, 0]"
  by code_simp

section \<open>The controls of a row\<close>

definition IDC_COMBO1 :: int where "IDC_COMBO1 = 5000"
definition IDC_EDIT1 :: int where "IDC_EDIT1 = 5100"
definition IDC_EDIT9 :: int where "IDC_EDIT9 = 5108"
definition IDC_EDIT17 :: int where "IDC_EDIT17 = 5116"
definition IDC_EDIT25 :: int where "IDC_EDIT25 = 5124"
definition IDC_COMBO9 :: int where "IDC_COMBO9 = 5200"
definition IDC_COMBO17 :: int where "IDC_COMBO17 = 5208"
definition IDC_COMBO25 :: int where "IDC_COMBO25 = 5216"
definition IDC_SB_RULE :: int where "IDC_SB_RULE = 5224"

text \<open>The identifiers of row \<open>idx\<close>: name, port, costs, meters.\<close>

definition row_controls :: "nat \<Rightarrow> int list" where
  "row_controls idx = map (\<lambda>base. base + int idx)
     [IDC_COMBO1, IDC_EDIT1, IDC_EDIT9, IDC_EDIT17, IDC_EDIT25, IDC_COMBO9, IDC_COMBO17, IDC_COMBO25]"

text \<open>The rows of the page are independent: no control belongs to two of them, or to two fields.\<close>

theorem row_controls_distinct:
  "distinct (IDC_SB_RULE # concat (map row_controls [0..<RULE_PAGE_SZ]))"
  by code_simp

end
