(* ===== verification/Main_Window.thy ===== *)
theory Main_Window
  imports Config_Tool
begin

text \<open>
  The window of \<open>ntfw/ntfw.cpp\<close>: \<open>DlgProc\<close>, which shows one of three pages, and the message loop of
  \<open>WinMain\<close>. What the controls and the message queue do is as documented: a tab control asks with
  \<open>TCN_SELCHANGING\<close> before it changes its selection and reports it with \<open>TCN_SELCHANGE\<close>.
\<close>

section \<open>The pages\<close>

datatype tab_page = Basic_page | Users_page | Rules_page

definition Tabs :: "tab_page list" where
  "Tabs = [Basic_page, Users_page, Rules_page]"

text \<open>The selection of the tab control, which pages are visible, whether the end was posted, and the files saved.\<close>

record main_window =
  cur_sel :: nat
  page_shown :: "bool list"
  quit_posted :: bool
  saved_files :: "string list"

datatype window_msg =
    Msg_InitDialog
  | Notify_SelChanging
  | Notify_SelChange
  | Notify_other
  | Command_cancel
  | Command_save
  | Command_other
  | Msg_other

definition TEST_FILE :: string where "TEST_FILE = ''Z:'' @ [CHR 0x5C] @ ''test.ntfc''"

text \<open>The first tab inserted is the selected one; the pages are created hidden, and the first is shown.\<close>

fun create_tabs :: "nat \<Rightarrow> tab_page list \<Rightarrow> bool list" where
  "create_tabs i [] = []"
| "create_tabs i (t # ts) = (i = 0) # create_tabs (i + 1) ts"

definition DlgProc :: "window_msg \<Rightarrow> main_window \<Rightarrow> bool \<times> main_window" where
  "DlgProc msg w = (case msg of
     Msg_InitDialog \<Rightarrow> (True, w\<lparr>cur_sel := 0, page_shown := create_tabs 0 Tabs\<rparr>)
   | Notify_SelChanging \<Rightarrow> (False, w\<lparr>page_shown := (page_shown w)[cur_sel w := False]\<rparr>)
   | Notify_SelChange \<Rightarrow> (False, w\<lparr>page_shown := (page_shown w)[cur_sel w := True]\<rparr>)
   | Notify_other \<Rightarrow> (False, w)
   | Command_cancel \<Rightarrow> (True, w\<lparr>quit_posted := True\<rparr>)
   | Command_save \<Rightarrow> (True, w\<lparr>saved_files := TEST_FILE # saved_files w\<rparr>)
   | Command_other \<Rightarrow> (True, w)
   | Msg_other \<Rightarrow> (False, w))"

text \<open>The user selects a tab: the control goes on only when the first message is answered with \<open>FALSE\<close>.\<close>

definition select_tab :: "nat \<Rightarrow> main_window \<Rightarrow> main_window" where
  "select_tab k w = (case DlgProc Notify_SelChanging w of (refuse, w1) \<Rightarrow>
     if refuse then w1 else snd (DlgProc Notify_SelChange (w1\<lparr>cur_sel := k\<rparr>)))"

inductive window_step :: "main_window \<Rightarrow> main_window \<Rightarrow> bool" where
  select: "k < length Tabs \<Longrightarrow> window_step w (select_tab k w)"
| message: "m \<notin> {Msg_InitDialog, Notify_SelChanging, Notify_SelChange} \<Longrightarrow> window_step w (snd (DlgProc m w))"

inductive window_running :: "main_window \<Rightarrow> bool" where
  "window_running (snd (DlgProc Msg_InitDialog w))"
| "window_running w \<Longrightarrow> window_step w w' \<Longrightarrow> window_running w'"

text \<open>Whatever the user does, exactly the page of the selected tab is visible.\<close>

definition one_page :: "main_window \<Rightarrow> bool" where
  "one_page w \<longleftrightarrow> cur_sel w < length Tabs \<and> page_shown w = (replicate (length Tabs) False)[cur_sel w := True]"

lemma select_one_page: "one_page w \<Longrightarrow> k < length Tabs \<Longrightarrow> one_page (select_tab k w)"
  by (auto simp: one_page_def select_tab_def DlgProc_def Tabs_def numeral_3_eq_3 less_Suc_eq)

theorem one_page_visible:
  assumes "window_running w"
  shows "one_page w"
  using assms
proof induction
  case (1 w)
  then show ?case by (simp add: one_page_def DlgProc_def Tabs_def)
next
  case (2 w w')
  from 2(2,3) show ?case
    by cases (auto intro: select_one_page, cases, auto simp: DlgProc_def one_page_def split: window_msg.splits)
qed

section \<open>The message loop\<close>

text \<open>
  What the calls of \<open>PeekMessage\<close> find, one after the other: a message, or none (\<open>None\<close>). Each inner loop
  reads until it finds none and leaves the last message in \<open>msg\<close>, which the outer loop then looks at. The
  loop is over when its result is the rest of the calls; it waits for ever when the calls run out.
\<close>

datatype queue_msg = WM_QUIT | WM_other nat

fun peek_loop :: "queue_msg \<Rightarrow> queue_msg option list \<Rightarrow> queue_msg \<times> queue_msg option list" where
  "peek_loop msg [] = (msg, [])"
| "peek_loop msg (None # ps) = (msg, ps)"
| "peek_loop msg (Some m # ps) = peek_loop m ps"

lemma peek_loop_le: "length (snd (peek_loop msg ps)) \<le> length ps"
  by (induction msg ps rule: peek_loop.induct) auto

lemma peek_loop_length: "ps \<noteq> [] \<Longrightarrow> length (snd (peek_loop msg ps)) < length ps"
proof (induction msg ps rule: peek_loop.induct)
  case (3 msg m ps)
  then show ?case using peek_loop_le [of m ps] by simp
qed simp_all

function message_loop :: "queue_msg \<Rightarrow> queue_msg option list \<Rightarrow> queue_msg option list option" where
  "message_loop msg ps =
     (if msg = WM_QUIT then Some ps
      else if ps = [] then None
      else case peek_loop msg ps of (msg', ps') \<Rightarrow> message_loop msg' ps')"
  by pat_completeness auto
termination
  by (relation "measure (\<lambda>(msg, ps). length ps)") (simp_all add: split_beta peek_loop_length)

declare message_loop.simps [simp del]

text \<open>The messages of one inner loop.\<close>

definition batch :: "queue_msg list \<Rightarrow> queue_msg option list" where
  "batch ms = map Some ms @ [None]"

lemma peek_batch: "peek_loop msg (batch ms @ ps) = (last (msg # ms), ps)"
  by (induction ms arbitrary: msg) (auto simp: batch_def)

lemma batch_nonempty [simp]: "batch ms \<noteq> []"
  by (simp add: batch_def)

text \<open>
  The loop ends exactly when the end is the last message of a batch: a message that arrives behind it in
  the same batch overwrites it, and the program runs on.
\<close>

theorem loop_ends_iff:
  assumes "msg \<noteq> WM_QUIT"
  shows "message_loop msg (concat (map batch bs)) \<noteq> None \<longleftrightarrow> (\<exists>ms\<in>set bs. ms \<noteq> [] \<and> last ms = WM_QUIT)"
  using assms
proof (induction bs arbitrary: msg)
  case Nil
  then show ?case by (simp add: message_loop.simps)
next
  case (Cons ms bs)
  show ?case
  proof (cases "ms \<noteq> [] \<and> last ms = WM_QUIT")
    case True
    then have "message_loop msg (concat (map batch (ms # bs))) = Some (concat (map batch bs))"
      using Cons.prems by (subst message_loop.simps) (simp add: peek_batch message_loop.simps)
    then show ?thesis using True by auto
  next
    case False
    then have "last (msg # ms) \<noteq> WM_QUIT" using Cons.prems by auto
    then show ?thesis using False Cons.prems Cons.IH [of "last (msg # ms)"]
      by (subst message_loop.simps) (auto simp: peek_batch)
  qed
qed

theorem loop_ends_iff_witness:
  "message_loop (WM_other 0) (batch [WM_QUIT, WM_other 15]) = None \<and>
   message_loop (WM_other 0) (batch [WM_other 15, WM_QUIT]) \<noteq> None"
  using loop_ends_iff [of "WM_other 0" "[[WM_QUIT, WM_other 15]]"]
    loop_ends_iff [of "WM_other 0" "[[WM_other 15, WM_QUIT]]"] by simp

end
