(* ===== verification/Spec2Isabelle.thy ===== *)
theory Spec2Isabelle
  imports Host_Props Core_Props Meter_Props Pool_Frames Kernel_Region Ed_Props Sign_Props Driver_Run Tool_Props
    Seed_Start Dialog_Init Main_Window
begin

text \<open>
  \<^bold>\<open>ntfw\<close>: a light-weight packet filter for Windows servers. This library models the filtering engine
  (\<open>ntfe/\<close>), which decides on every frame, the Ed25519 library (\<open>ntfe/ed25519/\<close>) that the engine
  carries for authenticated requests, the kernel driver that hosts the engine (\<open>ntfwkm/\<close>), and the
  configuration tool (\<open>ntfw/\<close>) that writes the image the driver loads. All models are executable
  definitions translated from the source; the theorems named \<open>C1\<close>, \<open>C2\<close>, ... are the properties.

  \<^bold>\<open>The engine.\<close> A frame enters \<open>ntfe_rx\<close> or \<open>ntfe_tx\<close> (\<open>ntfe.cpp\<close>). Its flow signature is looked up in
  the rule table, a host table of locked eight-way buckets (\<open>host.cpp\<close>) tells whether its source is
  authorised, and token buckets police the rest. \<open>ntfe_configure\<close> loads a binary image of rules, meters and
  hosts.
  \<^item> \<open>Ntfw_Prelude\<close>: the integer types of \<open>common/pce.h\<close> as words, checked loads from byte buffers and
    array cells, where \<open>None\<close> is an access out of bounds, and shared lemmas.
  \<^item> \<open>Helper\<close> (\<open>helper.cpp\<close>: saturating arithmetic, \<open>ipxs\<close> and \<open>ips\<close>), \<open>Net_Frame\<close> (\<open>net.h\<close> and the message layout of
    \<open>ntfeusr.h\<close>), \<open>Spin_Lock\<close> (\<open>helper.cpp\<close>: the spinlocks as one core sees them).
  \<^item> \<open>Interfaces\<close>: the contracts between components as locales. \<open>keyed_store\<close> (a loader inserts entries
    one by one and stops at the first failure) is interpreted by \<open>Flow_Rules\<close> on the rule table,
    \<open>rate_limiter\<close> by \<open>Token_Bucket\<close> on the meters, \<open>host_map\<close> by \<open>Host_Map\<close> on the host table.
  \<^item> \<open>Flow_Rules\<close> (\<open>ntfeusr.cpp\<close> and \<open>rule_insert\<close>, \<open>rule_lookup\<close> of \<open>ntfe.cpp\<close>), \<open>Token_Bucket\<close>
    (\<open>token_bucket_charge\<close>, \<open>host_charge_packet\<close>).
  \<^item> \<open>Host_Bucket\<close> (packed control words, probing, eviction order), \<open>Engine_State\<close> (\<open>struct _gs\<close>,
    counters, the growing pool of host state), \<open>Host_Table\<close> (\<open>allocate\<close>, \<open>host_insert\<close>,
    \<open>host_insert_authorized\<close>), \<open>Host_Map\<close> (its invariant and its contract), \<open>Host_Clear\<close>
    (\<open>host_clear_statically_authorized\<close>).
  \<^item> \<open>Engine_Inv\<close> (the invariant between calls), \<open>Engine_Rx\<close> (\<open>ntfe_rx_prepare\<close>, \<open>ntfe_rx\<close>,
    \<open>ntfp_rx_process\<close>), \<open>Engine_Tx\<close> (\<open>ntfe_tx\<close>), \<open>Engine_Config\<close> (\<open>ntfe_validate_configuration\<close>,
    \<open>ntfe_configure\<close>, \<open>ntfe_init\<close>, \<open>ntfe_cleanup\<close>), \<open>Config_Load\<close> (what a load guarantees).
  \<^item> The engine runs on every processor core at once. \<open>Core_Bucket\<close> has \<open>host_insert\<close> and
    \<open>host_insert_authorized\<close> as sequences of single accesses to a bucket, from any number of cores in any
    interleaving: the stores of the critical section, the load and the store of every bit field and of the
    release, and the interlocked instruction of waiting cores. Its invariant names the bucket that the core
    inside the lock leaves behind. \<open>Core_Visible\<close>: what lookups without the lock see meanwhile. \<open>Core_Pool\<close>
    has \<open>host_allocate\<close> and \<open>host_pool_grow\<close>, \<open>Core_Meter\<close> has \<open>host_charge_packet\<close> in the same way.
    \<open>Core_Props\<close> and \<open>Meter_Props\<close> have the properties: calls take effect one after the other, as the
    sequential model has them, and the pool and the meters keep their bounds.
  \<^item> \<open>Pool_Limit\<close>: how many sources the pool lasts for, and which of them share an entry; \<open>Pool_Frames\<close>: the
    same from the frames that carry them.
    \<open>Kernel_Region\<close> (\<open>ntfwkm/eal.cpp\<close>): the memory region the pool lives in.
  \<^item> \<open>Engine_Props\<close> and \<open>Host_Props\<close>: the properties of the engine as one core runs it: the policy that reception implements,
    memory safety and absence of stuck locks on the data path, what a configuration installs, who
    becomes and stays authorised, bounds on policed traffic, and the error behaviour.

  \<^bold>\<open>Ed25519.\<close> Field elements are ten limbs of 32 bits, scalars 24 limbs of 64 bits; every product, carry
  and cast keeps its width, and the lemmas show that nothing overflows for limbs of the documented sizes.
  \<^item> \<open>Ed_Int\<close>, \<open>Ed_Bytes\<close>: \<open>int32_t\<close> and \<open>int64_t\<close>, little-endian loads and stores.
  \<^item> \<open>Field_Limbs\<close>, \<open>Field_Element\<close>, \<open>Field_Mul\<close>, \<open>Field_Bytes\<close>, \<open>Field_Tobytes\<close>, \<open>Field_Power\<close>
    (\<open>fe.c\<close>): arithmetic modulo \<open>2^255 - 19\<close>, conversions, powers. \<open>Prime_Field\<close> has the residues as a
    type with the ring operations of the library, and reads the routines as these operations.
  \<^item> \<open>Scalar_Limbs\<close>, \<open>Scalar\<close>, \<open>Scalar_Ok\<close>, \<open>Scalar_Reduce\<close> (\<open>sc.c\<close>): the sequence of folds and carries as
    data, run on words and on integers.
  \<^item> \<open>Sha512\<close>, \<open>Sha512_Ok\<close> (\<open>sha512.c\<close>): the buffered hash and its equality with FIPS 180-4.
  \<^item> \<open>Group_Element\<close> (\<open>ge.h\<close>, the point routines of \<open>ge.c\<close>), \<open>Group_Ok\<close> (they compute the Edwards addition
    law and stay on the curve), \<open>Group_Table\<close> and \<open>Group_Base\<close> (\<open>precomp_data.h\<close>, the limb sizes of every
    entry, the entries of \<open>Bi\<close> as points of the curve), \<open>Group_Slide\<close> (\<open>slide\<close>), \<open>Group_Mult\<close>
    (\<open>ge_double_scalarmult_vartime\<close>, \<open>ge_scalarmult_base\<close>), \<open>Group_Select\<close> (signed digits and constant-time
    selection), \<open>Group_Decode\<close> (decoding and encoding of points).
  \<^item> \<open>Ed25519\<close> (\<open>verify.c\<close>, \<open>sign.c\<close>, \<open>keypair.c\<close>, \<open>add_scalar.c\<close>), \<open>Key_Exchange\<close>
    (\<open>key_exchange.c\<close>, against the ladder of RFC 7748).
  \<^item> \<open>Ed_Props\<close> and \<open>Sign_Props\<close>: the properties of the arithmetic and of the scheme.

  \<^bold>\<open>The driver\<close> (\<open>ntfwkm/driver.cpp\<close>, \<open>config.h\<close>, \<open>shared.h\<close>). NDIS attaches, restarts, pauses and detaches
  filter modules; a user request suspends them all, loads a configuration file into the engine, and
  resumes them.
  \<^item> \<open>Driver_State\<close>: the module array with its two lists, the lock, the counter, the signal and the event;
    \<open>FilterAttach\<close>, \<open>FilterDetach\<close>, \<open>FilterPause\<close>, \<open>FilterRestart\<close>, \<open>Suspend\<close> in its two halves, \<open>Resume\<close>.
    \<open>None\<close> is a wait that does not end, for a lock or an event.
  \<^item> \<open>Driver_Steps\<close> (the effect of each handler), \<open>Driver_World\<close> (the handlers among their callers, as an
    inductive step relation with what NDIS believes of each module; the order of calls is the one NDIS
    documents), \<open>Driver_Inv\<close> (its invariant), \<open>Driver_Props\<close> (books, suspension and resumption).
  \<^item> \<open>Driver_Control\<close>: \<open>ConfigureFirewallEngine\<close>, \<open>RequestDispatch\<close>, \<open>DriverEntry\<close>, \<open>DriverUnload\<close>,
    \<open>FilterReceive\<close> and \<open>FilterSend\<close>. Both data handlers pass everything on and return; the code after
    that return, which asks the engine, is modelled beside them as \<open>FilterReceive_filtering\<close> and
    \<open>FilterSend_filtering\<close>. \<open>Driver_Run\<close> has their properties.

  \<^bold>\<open>The tool.\<close> The rules the user edits become an image with a hash seed under which they do not collide.
  \<^item> \<open>Rule_Dialog\<close> (\<open>dlgrules.cpp\<close>, \<open>helper.cpp\<close>): the 32 rules behind a page of eight rows, scrolling,
    parsing and printing of protocols and numbers. \<open>Dialog_Ok\<close>: numbers and names written and read back,
    and scrolling. \<open>Dialog_Rules\<close>: rules through the dialog and back. \<open>Dialog_Init\<close>: the drop-down lists and
    the identifiers of the controls.
  \<^item> \<open>Seed_Search\<close> (\<open>phash.cpp\<close>): the generator, and the threads as steps at their accesses to the two
    shared words, in any interleaving. \<open>Seed_Ok\<close>, \<open>Seed_Props\<close>: what every interleaving keeps, what one
    thread alone finds, and the lost update of two. \<open>Seed_Start\<close>: the counting of processors, the creation of
    the threads, and what the waits of \<open>FindRuleMagic\<close> guarantee.
  \<^item> \<open>Config_Tool\<close> (\<open>SaveNtfeConfiguration\<close> and \<open>LoadNtfeConfiguration\<close> of \<open>ntfw.cpp\<close>) and \<open>Tool_Props\<close>: images
    round trip, and the engine enforces the rules of the dialog. \<open>Main_Window\<close>: the pages of the window and
    the message loop of \<open>WinMain\<close>.

  \<^bold>\<open>Bounds and termination.\<close> Every loop of the source but two is a structural recursion, a fold over its
  index range, or a function with a termination proof; no fuel is used. The search for a seed draws until it
  is told to stop: it is a step relation, and the theorems about its result are about runs that have ended.
  The count of processors walks over records whose sizes the system gives: it is a partial function, shown to
  return on records with their sizes. The spinlock's wait is an option in the sequential model, where a lock
  already held by the same core is \<open>None\<close>, and a state of its own in the models of several cores. The pool
  has \<open>HPOOL_SIZE\<close> entries, and a commit beyond them is \<open>None\<close>; the theorems about the data path ask for room
  (\<open>pool_room\<close>), and \<open>Pool_Limit\<close> shows that it runs out. The bound of 33 cores of \<open>Core_Pool\<close> is exact: with
  34, two growths can overlap.

  \<^bold>\<open>Not modelled.\<close> The clocks, the processor number and the log of the two \<open>eal.cpp\<close>, whose answers are
  parameters of the engine; what NDIS, the memory manager, the window system and the kernel answer, which are
  arguments of the handlers; sizes and positions of windows, the tool tip, the message box and the columns of
  the users page; the seed generator \<open>seed.c\<close>, which only calls the system, and the test program
  \<open>test.cpp\<close>. Of the engine's cores, insertion, lookup, allocation and charging are interleaved, each on the
  words it shares; whole frames are processed by one core in the theorems about reception and transmission,
  and memory is taken to be sequentially consistent. For the scheme, the group law (associativity) is not proved: the
  multiplications are shown to compute the doublings and additions that the digits of the scalar name.
\<close>

end
